(* ===== verification/Prelude.thy ===== *)
theory Prelude
  imports Main "HOL-Library.Word" "HOL-Library.Monad_Syntax"
begin

text \<open>
  The types, collections of simplification rules and generic lemmas that every component of
  the remote VFS model shares. A C \<open>int\<close> is a 32-bit word, a \<open>sqlite3_int64\<close>
  (\<open>i64\<close>) and a pointer are 64-bit words (the LP64 ABI the server and the client are built
  for), a \<open>char\<close> array is a list of bytes. \<open>option\<close> is the effect of the C object
  model: \<open>None\<close> is a run that leaves the object it reads or writes, or that goes through a
  null or dangling pointer.
\<close>

unbundle bit_operations_syntax

type_synonym byte = "8 word"
type_synonym bytes = "byte list"
type_synonym cint = "32 word"
type_synonym i64 = "64 word"
type_synonym ptr = "64 word"

named_theorems mem_simps "reads and writes of C objects"
named_theorems size_simps "sizes and offsets of the wire structures"
named_theorems conv_defs "the conversion functions of os_arg_convert.c"
named_theorems rc_defs "result codes, lock levels and flag constants"

abbreviation NULL :: ptr where
  "NULL \<equiv> 0"

section \<open>Options\<close>

lemma bind_eq_Some_iff:
  "Option.bind m f = Some y \<longleftrightarrow> (\<exists>x. m = Some x \<and> f x = Some y)"
  by (cases m) auto

lemma bind_eq_None_iff:
  "Option.bind m f = None \<longleftrightarrow> (\<forall>x. m = Some x \<longrightarrow> f x = None)"
  by (cases m) auto

section \<open>Lists\<close>

lemma take_drop_append_first [simp]:
  "length xs = n \<Longrightarrow> take n (xs @ ys) = xs"
  by simp

section \<open>C integers\<close>

text \<open>
  An \<open>int\<close> passed for a \<open>size_t\<close> is sign-extended: a negative count is a huge size.
\<close>

definition csize :: "cint \<Rightarrow> nat" where
  "csize n = unat (scast n :: 64 word)"

lemma csize_nonneg: "0 \<le> sint n \<Longrightarrow> csize n = nat (sint n)"
proof -
  assume nn: "0 \<le> sint n"
  have bd: "sint n < 2 ^ 31"
    using sint_lt [of n] by simp
  have "uint (scast n :: 64 word) = take_bit 64 (sint n)"
    by transfer (simp add: take_bit_signed_take_bit)
  also have "\<dots> = sint n"
    using nn bd by (simp add: take_bit_int_eq_self)
  finally show ?thesis
    by (simp add: csize_def flip: nat_uint_eq)
qed

lemma csize_neg: "sint n < 0 \<Longrightarrow> 2 ^ 63 \<le> csize n"
proof -
  assume ng: "sint n < 0"
  have bd: "- (2 ^ 31) \<le> sint n"
    using sint_ge [of n] by simp
  have "uint (scast n :: 64 word) = take_bit 64 (sint n)"
    by transfer (simp add: take_bit_signed_take_bit)
  also have "\<dots> = 2 ^ 64 + sint n"
  proof -
    have "take_bit 64 (sint n) = take_bit 64 (2 ^ 64 + sint n)"
      by (simp add: take_bit_eq_mod)
    also have "\<dots> = 2 ^ 64 + sint n"
      using ng bd by (intro take_bit_int_eq_self) auto
    finally show ?thesis .
  qed
  finally have "(2::int) ^ 63 \<le> uint (scast n :: 64 word)"
    using bd by simp
  then show ?thesis
    by (simp add: csize_def nat_le_iff flip: nat_uint_eq)
qed

lemma csize_zero: "csize n = 0 \<longleftrightarrow> n = 0"
proof (cases "sint n < 0")
  case True
  then show ?thesis using csize_neg [OF True] by auto
next
  case False
  then have "csize n = 0 \<longleftrightarrow> sint n = sint (0 :: cint)" by (simp add: csize_nonneg)
  also have "\<dots> \<longleftrightarrow> n = 0" by (rule word_eq_iff_signed [symmetric])
  finally show ?thesis .
qed

lemma sint_of_int64: "- (2 ^ 63) \<le> x \<Longrightarrow> x < 2 ^ 63 \<Longrightarrow> sint (word_of_int x :: 64 word) = x"
  by (simp add: int_word_sint)

lemma sint_of_int32: "- (2 ^ 31) \<le> x \<Longrightarrow> x < 2 ^ 31 \<Longrightarrow> sint (word_of_int x :: 32 word) = x"
  by (simp add: int_word_sint)

end
