(* ===== verification/Bytes.thy ===== *)
theory Bytes
  imports Prelude
begin

text \<open>
  C character arrays and the calls of \<open>string.h\<close> the code makes on them. A call that
  reads or writes past the end of the array gives \<open>None\<close>. Integers are stored in
  little-endian order, the order of the machines the code runs on.
\<close>

section \<open>memcpy, memset, strlen, strcpy\<close>

definition overwrite :: "bytes \<Rightarrow> nat \<Rightarrow> bytes \<Rightarrow> bytes" where
  "overwrite d off s = take off d @ s @ drop (off + length s) d"

text \<open>\<open>memcpy d off s\<close> is \<open>memcpy(d + off, s, sizeof s)\<close>.\<close>

definition memcpy :: "bytes \<Rightarrow> nat \<Rightarrow> bytes \<Rightarrow> bytes option" where
  "memcpy d off s = (if off + length s \<le> length d then Some (overwrite d off s) else None)"

text \<open>\<open>read_at s off n\<close> are the \<open>n\<close> bytes that a \<open>memcpy(_, s + off, n)\<close> reads.\<close>

definition read_at :: "bytes \<Rightarrow> nat \<Rightarrow> nat \<Rightarrow> bytes option" where
  "read_at s off n = (if off + n \<le> length s then Some (take n (drop off s)) else None)"

definition zeroed :: "nat \<Rightarrow> bytes" where
  "zeroed n = replicate n 0"

fun c_strlen :: "bytes \<Rightarrow> nat option" where
  "c_strlen [] = None"
| "c_strlen (b # bs) = (if b = 0 then Some 0 else map_option Suc (c_strlen bs))"

text \<open>The string at the start of an object, with its terminator.\<close>

definition c_string :: "bytes \<Rightarrow> bytes option" where
  "c_string s = do { n \<leftarrow> c_strlen s; Some (take (Suc n) s) }"

definition strcpy :: "bytes \<Rightarrow> nat \<Rightarrow> bytes \<Rightarrow> bytes option" where
  "strcpy d off s = do { z \<leftarrow> c_string s; memcpy d off z }"

lemma length_overwrite [simp]:
  "off + length s \<le> length d \<Longrightarrow> length (overwrite d off s) = length d"
  by (simp add: overwrite_def)

lemma length_zeroed [simp]: "length (zeroed n) = n"
  by (simp add: zeroed_def)

lemma memcpy_ok [mem_simps]:
  "off + length s \<le> length d \<Longrightarrow> memcpy d off s = Some (overwrite d off s)"
  by (simp add: memcpy_def)

lemma memcpy_overrun: "length d < off + length s \<Longrightarrow> memcpy d off s = None"
  by (simp add: memcpy_def)

lemma memcpy_Some_iff:
  "memcpy d off s = Some d' \<longleftrightarrow> off + length s \<le> length d \<and> d' = overwrite d off s"
  by (auto simp: memcpy_def)

lemma read_at_overrun: "length s < off + n \<Longrightarrow> read_at s off n = None"
  by (simp add: read_at_def)

lemma read_at_length: "read_at s off n = Some r \<Longrightarrow> length r = n"
  by (auto simp: read_at_def split: if_splits)

text \<open>What a write leaves to be read: the written bytes there, the old bytes elsewhere.\<close>

lemma read_overwrite_same [mem_simps]:
  "off + length s \<le> length d \<Longrightarrow> n = length s \<Longrightarrow>
     read_at (overwrite d off s) off n = Some s"
  by (simp add: read_at_def overwrite_def)

lemma read_overwrite_before [mem_simps]:
  assumes "off' + n \<le> off" and "off + length s \<le> length d"
  shows "read_at (overwrite d off s) off' n = read_at d off' n"
proof -
  have "take (off' + n) (overwrite d off s) = take (off' + n) d"
    using assms by (simp add: overwrite_def min_def)
  then have "take n (drop off' (overwrite d off s)) = take n (drop off' d)"
    by (simp add: take_drop add.commute)
  then show ?thesis
    using assms by (simp add: read_at_def)
qed

lemma read_overwrite_after [mem_simps]:
  assumes "off + length s \<le> off'" and "off + length s \<le> length d"
  shows "read_at (overwrite d off s) off' n = read_at d off' n"
proof -
  have "drop off' (overwrite d off s) = drop off' d"
    using assms by (simp add: overwrite_def min_def)
  then show ?thesis
    using assms by (simp add: read_at_def)
qed

lemma read_counted [mem_simps]:
  "csize n \<le> length s \<Longrightarrow> read_at s 0 (csize n) = Some (take (csize n) s)"
  by (simp add: read_at_def)

lemma read_nothing [mem_simps]: "off \<le> length s \<Longrightarrow> read_at s off 0 = Some []"
  by (simp add: read_at_def)

lemma read_zeroed [mem_simps]: "off + n \<le> m \<Longrightarrow> read_at (zeroed m) off n = Some (zeroed n)"
  by (simp add: read_at_def zeroed_def)

lemma c_strlen_Some:
  "c_strlen s = Some n \<Longrightarrow> n < length s \<and> s ! n = 0 \<and> 0 \<notin> set (take n s)"
  by (induction s arbitrary: n) (auto split: if_splits)

lemma c_strlen_terminated: "0 \<notin> set s \<Longrightarrow> c_strlen (s @ 0 # t) = Some (length s)"
  by (induction s) auto

lemma c_strlen_append: "c_strlen s = Some n \<Longrightarrow> c_strlen (s @ t) = Some n"
  by (induction s arbitrary: n) (auto split: if_splits)

lemma c_strlen_take: "c_strlen s = Some n \<Longrightarrow> c_strlen (take (Suc n) s) = Some n"
  by (induction s arbitrary: n) (auto split: if_splits)

lemma c_string_length: "c_string s = Some z \<Longrightarrow> 0 < length z \<and> length z \<le> length s"
  by (auto simp: c_string_def bind_eq_Some_iff dest: c_strlen_Some)

lemma c_string_idem: "c_string s = Some z \<Longrightarrow> c_string z = Some z"
  by (auto simp: c_string_def bind_eq_Some_iff dest: c_strlen_take)

lemma c_string_append:
  assumes "c_string s = Some z"
  shows "c_string (s @ t) = Some z"
proof -
  from assms obtain n where n: "c_strlen s = Some n" and z: "z = take (Suc n) s"
    by (auto simp: c_string_def bind_eq_Some_iff)
  from c_strlen_Some [OF n] have "Suc n \<le> length s" by simp
  with n z show ?thesis by (simp add: c_string_def c_strlen_append)
qed

lemma c_string_overwrite: "c_string s = Some z \<Longrightarrow> c_string (overwrite d 0 z) = Some z"
  by (auto simp: overwrite_def intro: c_string_append c_string_idem)

text \<open>A later store behind the string's terminator leaves the string.\<close>

lemma c_string_keep [mem_simps]:
  assumes "c_string s = Some z" and "length z \<le> off" and "off + length t \<le> length s"
  shows "c_string (overwrite s off t) = Some z"
proof -
  have z: "z = take (length z) s"
    using assms(1) by (auto simp: c_string_def bind_eq_Some_iff dest: c_strlen_Some)
  have "take (length z) (overwrite s off t) = take (length z) s"
    using assms(2,3) by (simp add: overwrite_def min_def)
  then have "overwrite s off t = z @ drop (length z) (overwrite s off t)"
    by (metis append_take_drop_id z)
  then show ?thesis
    by (metis c_string_append c_string_idem assms(1))
qed

lemma c_string_copied [mem_simps]: "c_string s = Some z \<Longrightarrow> c_string (overwrite d 0 z) = Some z"
  by (rule c_string_overwrite)

lemma strcpy_ok [mem_simps]:
  "c_string s = Some z \<Longrightarrow> off + length z \<le> length d \<Longrightarrow> strcpy d off s = Some (overwrite d off z)"
  by (simp add: strcpy_def memcpy_ok)

section \<open>Little-endian integers\<close>

fun le_bytes :: "nat \<Rightarrow> 'a::len word \<Rightarrow> bytes" where
  "le_bytes 0 w = []"
| "le_bytes (Suc n) w = ucast w # le_bytes n (drop_bit 8 w)"

fun of_le :: "bytes \<Rightarrow> 'a::len word" where
  "of_le [] = 0"
| "of_le (b # bs) = ucast b OR push_bit 8 (of_le bs)"

lemma length_le_bytes [simp]: "length (le_bytes n w) = n"
  by (induction n arbitrary: w) auto

lemma of_le_le_bytes_take: "of_le (le_bytes n w) = take_bit (8 * n) (w :: 'a::len word)"
proof (induction n arbitrary: w)
  case 0
  then show ?case by simp
next
  case (Suc n)
  have "(ucast (ucast w :: 8 word) :: 'a word) OR push_bit 8 (take_bit (8 * n) (drop_bit 8 w))
          = take_bit (8 * Suc n) w"
    by (rule bit_word_eqI)
      (auto simp: bit_simps not_le less_diff_conv algebra_simps)
  then show ?case by (simp add: Suc.IH)
qed

lemma of_le_le_bytes: "LENGTH('a) \<le> 8 * n \<Longrightarrow> of_le (le_bytes n w) = (w :: 'a::len word)"
  by (simp add: of_le_le_bytes_take take_bit_word_eq_self)

lemma of_le_zeroed [simp]: "of_le (zeroed n) = 0"
  by (induction n) (simp_all add: zeroed_def)

section \<open>The interface of a fixed-width encoding\<close>

text \<open>
  Every value that crosses the wire is stored in its own fixed number of bytes, at an offset
  of a larger object. What the conversions need of an encoding is its width and the
  round trip; that a stored value can be read back, there and past later writes elsewhere,
  follows.
\<close>

locale codec =
  fixes enc :: "'a \<Rightarrow> bytes" and dec :: "bytes \<Rightarrow> 'a" and width :: nat
  assumes enc_length: "length (enc x) = width"
    and dec_enc: "dec (enc x) = x"
begin

lemma store_ok: "off + width \<le> length d \<Longrightarrow> memcpy d off (enc x) = Some (overwrite d off (enc x))"
  by (simp add: memcpy_ok enc_length)

lemma load_store:
  "memcpy d off (enc x) = Some d' \<Longrightarrow> map_option dec (read_at d' off width) = Some x"
  by (auto simp: memcpy_Some_iff read_overwrite_same enc_length dec_enc)

lemma load_other:
  "memcpy d off (enc x) = Some d' \<Longrightarrow> off' + n \<le> off \<or> off + width \<le> off' \<Longrightarrow>
     read_at d' off' n = read_at d off' n"
  by (auto simp: memcpy_Some_iff enc_length read_overwrite_before read_overwrite_after)

lemma enc_inject: "enc x = enc y \<longleftrightarrow> x = y"
  by (metis dec_enc)

end

definition le32 :: "cint \<Rightarrow> bytes" where
  "le32 w = le_bytes 4 w"

definition rd32 :: "bytes \<Rightarrow> cint" where
  "rd32 bs = of_le bs"

definition le64 :: "i64 \<Rightarrow> bytes" where
  "le64 w = le_bytes 8 w"

definition rd64 :: "bytes \<Rightarrow> i64" where
  "rd64 bs = of_le bs"

interpretation int32: codec le32 rd32 4
  by unfold_locales (simp_all add: le32_def rd32_def of_le_le_bytes)

interpretation int64: codec le64 rd64 8
  by unfold_locales (simp_all add: le64_def rd64_def of_le_le_bytes)

lemmas int_codec_simps [mem_simps, simp] =
  int32.enc_length int32.dec_enc int64.enc_length int64.dec_enc

lemma rd_zeroed [simp]: "rd32 (zeroed n) = 0" "rd64 (zeroed n) = 0"
  by (simp_all add: rd32_def rd64_def)

text \<open>Loads of an \<open>int\<close> and of an \<open>i64\<close> at an offset.\<close>

definition get32 :: "bytes \<Rightarrow> nat \<Rightarrow> cint option" where
  "get32 s off = map_option rd32 (read_at s off 4)"

definition get64 :: "bytes \<Rightarrow> nat \<Rightarrow> i64 option" where
  "get64 s off = map_option rd64 (read_at s off 8)"

end
