(* ===== verification/Sqlite_Defs.thy ===== *)
theory Sqlite_Defs
  imports Bytes
begin

text \<open>
  The constants of \<open>sqlite.h\<close> and \<open>os.h\<close> that cross the wire or decide a
  branch, and the \<open>unixFile\<close> structure of \<open>os_unix.c\<close> with its layout in
  memory. The client keeps each open file as a \<open>unixFile\<close>, ships its 120 bytes with
  every request and replaces them by the bytes of the reply, so the layout is part of the
  protocol.
\<close>

section \<open>Result codes\<close>

abbreviation SQLITE_OK :: cint where "SQLITE_OK \<equiv> 0"
abbreviation SQLITE_ERROR :: cint where "SQLITE_ERROR \<equiv> 1"
abbreviation SQLITE_PERM :: cint where "SQLITE_PERM \<equiv> 3"
abbreviation SQLITE_BUSY :: cint where "SQLITE_BUSY \<equiv> 5"
abbreviation SQLITE_NOMEM :: cint where "SQLITE_NOMEM \<equiv> 7"
abbreviation SQLITE_IOERR :: cint where "SQLITE_IOERR \<equiv> 10"
abbreviation SQLITE_NOTFOUND :: cint where "SQLITE_NOTFOUND \<equiv> 12"
abbreviation SQLITE_FULL :: cint where "SQLITE_FULL \<equiv> 13"
abbreviation SQLITE_CANTOPEN :: cint where "SQLITE_CANTOPEN \<equiv> 14"
abbreviation SQLITE_IOERR_READ :: cint where "SQLITE_IOERR_READ \<equiv> 266"
abbreviation SQLITE_IOERR_SHORT_READ :: cint where "SQLITE_IOERR_SHORT_READ \<equiv> 522"
abbreviation SQLITE_IOERR_WRITE :: cint where "SQLITE_IOERR_WRITE \<equiv> 778"
abbreviation SQLITE_IOERR_FSYNC :: cint where "SQLITE_IOERR_FSYNC \<equiv> 1034"
abbreviation SQLITE_IOERR_DIR_FSYNC :: cint where "SQLITE_IOERR_DIR_FSYNC \<equiv> 1290"
abbreviation SQLITE_IOERR_TRUNCATE :: cint where "SQLITE_IOERR_TRUNCATE \<equiv> 1546"
abbreviation SQLITE_IOERR_FSTAT :: cint where "SQLITE_IOERR_FSTAT \<equiv> 1802"
abbreviation SQLITE_IOERR_UNLOCK :: cint where "SQLITE_IOERR_UNLOCK \<equiv> 2058"
abbreviation SQLITE_IOERR_RDLOCK :: cint where "SQLITE_IOERR_RDLOCK \<equiv> 2314"
abbreviation SQLITE_IOERR_DELETE :: cint where "SQLITE_IOERR_DELETE \<equiv> 2570"
abbreviation SQLITE_IOERR_CHECKRESERVEDLOCK :: cint where
  "SQLITE_IOERR_CHECKRESERVEDLOCK \<equiv> 3594"
abbreviation SQLITE_IOERR_LOCK :: cint where "SQLITE_IOERR_LOCK \<equiv> 3850"
abbreviation SQLITE_IOERR_DELETE_NOENT :: cint where "SQLITE_IOERR_DELETE_NOENT \<equiv> 5898"
abbreviation SQLITE_READONLY_DIRECTORY :: cint where "SQLITE_READONLY_DIRECTORY \<equiv> 1544"

section \<open>Lock levels and lock bytes\<close>

abbreviation NO_LOCK :: int where "NO_LOCK \<equiv> 0"
abbreviation SHARED_LOCK :: int where "SHARED_LOCK \<equiv> 1"
abbreviation RESERVED_LOCK :: int where "RESERVED_LOCK \<equiv> 2"
abbreviation PENDING_LOCK :: int where "PENDING_LOCK \<equiv> 3"
abbreviation EXCLUSIVE_LOCK :: int where "EXCLUSIVE_LOCK \<equiv> 4"

definition PENDING_BYTE :: int where "PENDING_BYTE = 1073741824"
definition RESERVED_BYTE :: int where "RESERVED_BYTE = PENDING_BYTE + 1"
definition SHARED_FIRST :: int where "SHARED_FIRST = PENDING_BYTE + 2"
definition SHARED_SIZE :: int where "SHARED_SIZE = 510"

section \<open>Flags\<close>

abbreviation SQLITE_OPEN_READONLY :: cint where "SQLITE_OPEN_READONLY \<equiv> 0x1"
abbreviation SQLITE_OPEN_READWRITE :: cint where "SQLITE_OPEN_READWRITE \<equiv> 0x2"
abbreviation SQLITE_OPEN_CREATE :: cint where "SQLITE_OPEN_CREATE \<equiv> 0x4"
abbreviation SQLITE_OPEN_DELETEONCLOSE :: cint where "SQLITE_OPEN_DELETEONCLOSE \<equiv> 0x8"
abbreviation SQLITE_OPEN_EXCLUSIVE :: cint where "SQLITE_OPEN_EXCLUSIVE \<equiv> 0x10"
abbreviation SQLITE_OPEN_URI :: cint where "SQLITE_OPEN_URI \<equiv> 0x40"
abbreviation SQLITE_OPEN_MAIN_DB :: cint where "SQLITE_OPEN_MAIN_DB \<equiv> 0x100"
abbreviation SQLITE_OPEN_MAIN_JOURNAL :: cint where "SQLITE_OPEN_MAIN_JOURNAL \<equiv> 0x800"
abbreviation SQLITE_OPEN_MASTER_JOURNAL :: cint where "SQLITE_OPEN_MASTER_JOURNAL \<equiv> 0x4000"
abbreviation SQLITE_OPEN_WAL :: cint where "SQLITE_OPEN_WAL \<equiv> 0x80000"

abbreviation UNIXFILE_EXCL :: "16 word" where "UNIXFILE_EXCL \<equiv> 0x01"
abbreviation UNIXFILE_RDONLY :: "16 word" where "UNIXFILE_RDONLY \<equiv> 0x02"
abbreviation UNIXFILE_PERSIST_WAL :: "16 word" where "UNIXFILE_PERSIST_WAL \<equiv> 0x04"
abbreviation UNIXFILE_DIRSYNC :: "16 word" where "UNIXFILE_DIRSYNC \<equiv> 0x08"
abbreviation UNIXFILE_PSOW :: "16 word" where "UNIXFILE_PSOW \<equiv> 0x10"
abbreviation UNIXFILE_DELETE :: "16 word" where "UNIXFILE_DELETE \<equiv> 0x20"
abbreviation UNIXFILE_URI :: "16 word" where "UNIXFILE_URI \<equiv> 0x40"
abbreviation UNIXFILE_NOLOCK :: "16 word" where "UNIXFILE_NOLOCK \<equiv> 0x80"

abbreviation SQLITE_FCNTL_LOCKSTATE :: int where "SQLITE_FCNTL_LOCKSTATE \<equiv> 1"
abbreviation SQLITE_FCNTL_GET_LOCKPROXYFILE :: int where "SQLITE_FCNTL_GET_LOCKPROXYFILE \<equiv> 2"
abbreviation SQLITE_FCNTL_LAST_ERRNO :: int where "SQLITE_FCNTL_LAST_ERRNO \<equiv> 4"
abbreviation SQLITE_FCNTL_SIZE_HINT :: int where "SQLITE_FCNTL_SIZE_HINT \<equiv> 5"
abbreviation SQLITE_FCNTL_CHUNK_SIZE :: int where "SQLITE_FCNTL_CHUNK_SIZE \<equiv> 6"
abbreviation SQLITE_FCNTL_PERSIST_WAL :: int where "SQLITE_FCNTL_PERSIST_WAL \<equiv> 10"
abbreviation SQLITE_FCNTL_VFSNAME :: int where "SQLITE_FCNTL_VFSNAME \<equiv> 12"
abbreviation SQLITE_FCNTL_POWERSAFE_OVERWRITE :: int where
  "SQLITE_FCNTL_POWERSAFE_OVERWRITE \<equiv> 13"
abbreviation SQLITE_FCNTL_BUSYHANDLER :: int where "SQLITE_FCNTL_BUSYHANDLER \<equiv> 15"
abbreviation SQLITE_FCNTL_TEMPFILENAME :: int where "SQLITE_FCNTL_TEMPFILENAME \<equiv> 16"
abbreviation SQLITE_FCNTL_MMAP_SIZE :: int where "SQLITE_FCNTL_MMAP_SIZE \<equiv> 18"
abbreviation SQLITE_FCNTL_HAS_MOVED :: int where "SQLITE_FCNTL_HAS_MOVED \<equiv> 20"
abbreviation SQLITE_FCNTL_PDB :: int where "SQLITE_FCNTL_PDB \<equiv> 30"
abbreviation SQLITE_FCNTL_LOCK_TIMEOUT :: int where "SQLITE_FCNTL_LOCK_TIMEOUT \<equiv> 34"

abbreviation SQLITE_IOCAP_POWERSAFE_OVERWRITE :: cint where
  "SQLITE_IOCAP_POWERSAFE_OVERWRITE \<equiv> 0x1000"
abbreviation SQLITE_DEFAULT_SECTOR_SIZE :: cint where "SQLITE_DEFAULT_SECTOR_SIZE \<equiv> 4096"

section \<open>struct unixFile\<close>

text \<open>
  The fields a Linux build without \<open>SQLITE_DEBUG\<close>, locking styles or lock timeouts has;
  \<open>h_fd\<close> is the field \<open>h\<close>. Bytes 29 and 36 to 39 of the structure are padding.
\<close>

record unixFile =
  pMethod :: ptr
  pVfs :: ptr
  pInode :: ptr
  h_fd :: cint
  eFileLock :: "8 word"
  ctrlFlags :: "16 word"
  lastErrno :: cint
  lockingContext :: ptr
  pPreallocatedUnused :: ptr
  zPath :: ptr
  pShm :: ptr
  szChunk :: cint
  nFetchOut :: cint
  mmapSize :: i64
  mmapSizeActual :: i64
  mmapSizeMax :: i64
  pMapRegion :: ptr
  sectorSize :: cint
  deviceCharacteristics :: cint

definition SIZE_UNIXFILE :: nat where
  [size_simps]: "SIZE_UNIXFILE = 120"

definition enc_unixFile :: "unixFile \<Rightarrow> bytes" where
  "enc_unixFile f =
     le_bytes 8 (pMethod f) @ le_bytes 8 (pVfs f) @ le_bytes 8 (pInode f) @
     le_bytes 4 (h_fd f) @ le_bytes 1 (eFileLock f) @ [0] @ le_bytes 2 (ctrlFlags f) @
     le_bytes 4 (lastErrno f) @ [0, 0, 0, 0] @ le_bytes 8 (lockingContext f) @
     le_bytes 8 (pPreallocatedUnused f) @ le_bytes 8 (zPath f) @ le_bytes 8 (pShm f) @
     le_bytes 4 (szChunk f) @ le_bytes 4 (nFetchOut f) @ le_bytes 8 (mmapSize f) @
     le_bytes 8 (mmapSizeActual f) @ le_bytes 8 (mmapSizeMax f) @ le_bytes 8 (pMapRegion f) @
     le_bytes 4 (sectorSize f) @ le_bytes 4 (deviceCharacteristics f)"

definition slice :: "nat \<Rightarrow> nat \<Rightarrow> bytes \<Rightarrow> bytes" where
  "slice off n bs = take n (drop off bs)"

definition dec_unixFile :: "bytes \<Rightarrow> unixFile" where
  "dec_unixFile bs =
     \<lparr>pMethod = of_le (slice 0 8 bs), pVfs = of_le (slice 8 8 bs),
      pInode = of_le (slice 16 8 bs), h_fd = of_le (slice 24 4 bs),
      eFileLock = of_le (slice 28 1 bs), ctrlFlags = of_le (slice 30 2 bs),
      lastErrno = of_le (slice 32 4 bs), lockingContext = of_le (slice 40 8 bs),
      pPreallocatedUnused = of_le (slice 48 8 bs), zPath = of_le (slice 56 8 bs),
      pShm = of_le (slice 64 8 bs), szChunk = of_le (slice 72 4 bs),
      nFetchOut = of_le (slice 76 4 bs), mmapSize = of_le (slice 80 8 bs),
      mmapSizeActual = of_le (slice 88 8 bs), mmapSizeMax = of_le (slice 96 8 bs),
      pMapRegion = of_le (slice 104 8 bs), sectorSize = of_le (slice 112 4 bs),
      deviceCharacteristics = of_le (slice 116 4 bs)\<rparr>"

text \<open>\<open>memset(pFile, 0, sizeof(unixFile))\<close>.\<close>

definition zero_unixFile :: unixFile where
  "zero_unixFile =
     \<lparr>pMethod = 0, pVfs = 0, pInode = 0, h_fd = 0, eFileLock = 0, ctrlFlags = 0,
      lastErrno = 0, lockingContext = 0, pPreallocatedUnused = 0, zPath = 0, pShm = 0,
      szChunk = 0, nFetchOut = 0, mmapSize = 0, mmapSizeActual = 0, mmapSizeMax = 0,
      pMapRegion = 0, sectorSize = 0, deviceCharacteristics = 0\<rparr>"

lemma length_enc_unixFile [simp]: "length (enc_unixFile f) = 120"
  by (simp add: enc_unixFile_def)

lemma slice_skip: "length xs \<le> off \<Longrightarrow> slice off n (xs @ ys) = slice (off - length xs) n ys"
  by (simp add: slice_def)

lemma slice_first: "length xs = n \<Longrightarrow> slice 0 n (xs @ ys) = xs"
  by (simp add: slice_def)

lemma slice_all: "length xs = n \<Longrightarrow> slice 0 n xs = xs"
  by (simp add: slice_def)

lemma dec_enc_unixFile [simp]: "dec_unixFile (enc_unixFile f) = f"
proof -
  note slices = slice_skip slice_first slice_all of_le_le_bytes
  show ?thesis
    unfolding dec_unixFile_def enc_unixFile_def
    by (simp add: slices del: le_bytes.simps append_Cons append_Nil)
qed

interpretation ufile: codec enc_unixFile dec_unixFile SIZE_UNIXFILE
  by unfold_locales (simp_all add: SIZE_UNIXFILE_def)

lemma slice_zeroed: "off + n \<le> m \<Longrightarrow> slice off n (zeroed m) = zeroed n"
  by (simp add: slice_def zeroed_def)

lemma dec_unixFile_zeroed [simp]: "dec_unixFile (zeroed SIZE_UNIXFILE) = zero_unixFile"
  by (simp add: dec_unixFile_def zero_unixFile_def SIZE_UNIXFILE_def slice_zeroed)

text \<open>The first eight bytes of the structure are its method table.\<close>

lemma overwrite_method:
  "overwrite (enc_unixFile f) 0 (take 8 (enc_unixFile f')) = enc_unixFile (f\<lparr>pMethod := pMethod f'\<rparr>)"
  by (simp add: overwrite_def enc_unixFile_def del: le_bytes.simps)

text \<open>Loads of a \<open>unixFile\<close> and of a field at an offset of a wire structure.\<close>

definition get_unixFile :: "bytes \<Rightarrow> nat \<Rightarrow> unixFile option" where
  "get_unixFile s off = map_option dec_unixFile (read_at s off SIZE_UNIXFILE)"

end
