(* ===== verification/Posix.thy ===== *)
theory Posix
  imports Sqlite_Defs
begin

text \<open>
  The system calls \<open>os_unix.c\<close> makes, as a parameter: a record of functions on a
  kernel state of any type. Nothing is assumed of them here; a lemma that needs documented
  behaviour of a call names it as a hypothesis. Above them, the wrappers of
  \<open>os_unix.c\<close> that retry interrupted calls. A result of \<open>None\<close> is a run that
  faults or does not return.
\<close>

section \<open>System calls\<close>

datatype lock_type = F_RDLCK | F_WRLCK | F_UNLCK

record flock =
  l_type :: lock_type
  l_start :: int
  l_len :: int

record stat =
  st_dev :: "64 word"
  st_ino :: "64 word"
  st_mode :: cint
  st_nlink :: nat
  st_uid :: cint
  st_gid :: cint
  st_size :: int
  st_blksize :: int

text \<open>
  A call gives its return value and the new kernel state; \<open>osErrno\<close> reads \<open>errno\<close>.
  \<open>osRead\<close> also gives the bytes it stored in the caller's buffer; \<open>osMemory\<close> reads
  the process's mapped memory, \<open>None\<close> where nothing is mapped. \<open>fcntl\<close> is split by
  its command, and \<open>mmap\<close> by its use: \<open>osMmap\<close> maps a database file from its start,
  \<open>osMmapShared\<close> a region of a shared-memory file (size, whether read-only, descriptor,
  offset). The arguments that never vary (\<open>SEEK_SET\<close>, the protection and sharing of a
  mapping, \<open>MREMAP_MAYMOVE\<close>) are left out. \<open>osTempname\<close> stands for
  \<open>unixGetTempname\<close>, whose name is random.
\<close>

record 'os syscalls =
  osErrno :: "'os \<Rightarrow> cint"
  osOpen :: "bytes \<Rightarrow> cint \<Rightarrow> cint \<Rightarrow> 'os \<Rightarrow> cint \<times> 'os"
  osClose :: "cint \<Rightarrow> 'os \<Rightarrow> int \<times> 'os"
  osAccess :: "bytes \<Rightarrow> cint \<Rightarrow> 'os \<Rightarrow> int \<times> 'os"
  osGetcwd :: "int \<Rightarrow> 'os \<Rightarrow> bytes option \<times> 'os"
  osStat :: "bytes \<Rightarrow> 'os \<Rightarrow> int \<times> stat \<times> 'os"
  osFstat :: "cint \<Rightarrow> 'os \<Rightarrow> int \<times> stat \<times> 'os"
  osFtruncate :: "cint \<Rightarrow> int \<Rightarrow> 'os \<Rightarrow> int \<times> 'os"
  osSetlk :: "cint \<Rightarrow> flock \<Rightarrow> 'os \<Rightarrow> int \<times> 'os"
  osGetlk :: "cint \<Rightarrow> flock \<Rightarrow> 'os \<Rightarrow> int \<times> flock \<times> 'os"
  osLseek :: "cint \<Rightarrow> int \<Rightarrow> 'os \<Rightarrow> int \<times> 'os"
  osRead :: "cint \<Rightarrow> nat \<Rightarrow> 'os \<Rightarrow> int \<times> bytes \<times> 'os"
  osWrite :: "cint \<Rightarrow> bytes \<Rightarrow> 'os \<Rightarrow> int \<times> 'os"
  osFsync :: "cint \<Rightarrow> 'os \<Rightarrow> int \<times> 'os"
  osFchmod :: "cint \<Rightarrow> cint \<Rightarrow> 'os \<Rightarrow> int \<times> 'os"
  osUnlink :: "bytes \<Rightarrow> 'os \<Rightarrow> int \<times> 'os"
  osMmap :: "i64 \<Rightarrow> cint \<Rightarrow> 'os \<Rightarrow> ptr \<times> 'os"
  osMunmap :: "ptr \<Rightarrow> i64 \<Rightarrow> 'os \<Rightarrow> int \<times> 'os"
  osMmapShared :: "int \<Rightarrow> bool \<Rightarrow> cint \<Rightarrow> int \<Rightarrow> 'os \<Rightarrow> ptr \<times> 'os"
  osMremap :: "ptr \<Rightarrow> i64 \<Rightarrow> i64 \<Rightarrow> 'os \<Rightarrow> ptr \<times> 'os"
  osMemory :: "'os \<Rightarrow> ptr \<Rightarrow> nat \<Rightarrow> bytes option"
  osTempname :: "'os \<Rightarrow> cint \<times> bytes \<times> 'os"
  osGetpagesize :: int

abbreviation EPERM :: cint where "EPERM \<equiv> 1"
abbreviation ENOENT :: cint where "ENOENT \<equiv> 2"
abbreviation EINTR :: cint where "EINTR \<equiv> 4"
abbreviation EAGAIN :: cint where "EAGAIN \<equiv> 11"
abbreviation EACCES :: cint where "EACCES \<equiv> 13"
abbreviation EBUSY :: cint where "EBUSY \<equiv> 16"
abbreviation EISDIR :: cint where "EISDIR \<equiv> 21"
abbreviation ENOSPC :: cint where "ENOSPC \<equiv> 28"
abbreviation ENOLCK :: cint where "ENOLCK \<equiv> 37"
abbreviation ETIMEDOUT :: cint where "ETIMEDOUT \<equiv> 110"

abbreviation O_RDONLY :: cint where "O_RDONLY \<equiv> 0"
abbreviation O_RDWR :: cint where "O_RDWR \<equiv> 0x2"
abbreviation O_CREAT :: cint where "O_CREAT \<equiv> 0x40"
abbreviation O_EXCL :: cint where "O_EXCL \<equiv> 0x80"
abbreviation O_NOFOLLOW :: cint where "O_NOFOLLOW \<equiv> 0x20000"
abbreviation O_CLOEXEC :: cint where "O_CLOEXEC \<equiv> 0x80000"

abbreviation MAP_FAILED :: ptr where "MAP_FAILED \<equiv> - 1"

section \<open>Error codes\<close>

definition sqliteErrorFromPosixError :: "cint \<Rightarrow> cint \<Rightarrow> cint" where
  "sqliteErrorFromPosixError posixError sqliteIOErr =
     (if posixError = EACCES \<or> posixError = EAGAIN \<or> posixError = ETIMEDOUT \<or>
         posixError = EBUSY \<or> posixError = EINTR \<or> posixError = ENOLCK then SQLITE_BUSY
      else if posixError = EPERM then SQLITE_PERM
      else sqliteIOErr)"

definition storeLastErrno :: "unixFile \<Rightarrow> cint \<Rightarrow> unixFile" where
  "storeLastErrno f e = f\<lparr>lastErrno := e\<rparr>"

text \<open>A failed system call never becomes success.\<close>

lemma sqliteErrorFromPosixError_not_OK:
  "e \<noteq> SQLITE_OK \<Longrightarrow> sqliteErrorFromPosixError p e \<noteq> SQLITE_OK"
  by (simp add: sqliteErrorFromPosixError_def)

lemma storeLastErrno_fields [simp]:
  "eFileLock (storeLastErrno f e) = eFileLock f" "pInode (storeLastErrno f e) = pInode f"
  "h_fd (storeLastErrno f e) = h_fd f" "ctrlFlags (storeLastErrno f e) = ctrlFlags f"
  "pMethod (storeLastErrno f e) = pMethod f" "zPath (storeLastErrno f e) = zPath f"
  "pPreallocatedUnused (storeLastErrno f e) = pPreallocatedUnused f"
  "lastErrno (storeLastErrno f e) = e" "pMapRegion (storeLastErrno f e) = pMapRegion f"
  "mmapSize (storeLastErrno f e) = mmapSize f" "nFetchOut (storeLastErrno f e) = nFetchOut f"
  "mmapSizeActual (storeLastErrno f e) = mmapSizeActual f"
  "mmapSizeMax (storeLastErrno f e) = mmapSizeMax f"
  by (simp_all add: storeLastErrno_def)

section \<open>Calls that retry\<close>

text \<open>A failing close leaks the descriptor; the error is logged.\<close>

definition robust_close :: "'os syscalls \<Rightarrow> cint \<Rightarrow> 'os \<Rightarrow> 'os" where
  "robust_close S h os = snd (osClose S h os)"

partial_function (option) robust_ftruncate ::
  "'os syscalls \<Rightarrow> cint \<Rightarrow> int \<Rightarrow> 'os \<Rightarrow> (int \<times> 'os) option" where
  "robust_ftruncate S h sz os =
     (case osFtruncate S h sz os of (rc, os) \<Rightarrow>
        if rc < 0 \<and> osErrno S os = EINTR then robust_ftruncate S h sz os else Some (rc, os))"

declare robust_ftruncate.simps [code]

definition SQLITE_MINIMUM_FILE_DESCRIPTOR :: int where
  "SQLITE_MINIMUM_FILE_DESCRIPTOR = 3"

definition SQLITE_DEFAULT_FILE_PERMISSIONS :: cint where
  "SQLITE_DEFAULT_FILE_PERMISSIONS = 420"

text \<open>\<open>"/dev/null"\<close>, with its terminator.\<close>

definition dev_null :: bytes where
  "dev_null = [47, 100, 101, 118, 47, 110, 117, 108, 108, 0]"

text \<open>The loop of \<open>robust_open\<close>; \<open>m\<close> is the mode asked for, \<open>m2\<close> the one used.\<close>

partial_function (option) open_loop ::
  "'os syscalls \<Rightarrow> bytes \<Rightarrow> cint \<Rightarrow> cint \<Rightarrow> cint \<Rightarrow> 'os \<Rightarrow> (cint \<times> 'os) option" where
  "open_loop S z f m m2 os =
     (case osOpen S z (f OR O_CLOEXEC) m2 os of (fd, os) \<Rightarrow>
        if sint fd < 0 then
          (if osErrno S os = EINTR then open_loop S z f m m2 os else Some (fd, os))
        else if SQLITE_MINIMUM_FILE_DESCRIPTOR \<le> sint fd then Some (fd, os)
        else case osClose S fd os of (_, os) \<Rightarrow>
          case osOpen S dev_null f m os of (nfd, os) \<Rightarrow>
            if sint nfd < 0 then Some (- 1, os) else open_loop S z f m m2 os)"

declare open_loop.simps [code]

definition robust_open :: "'os syscalls \<Rightarrow> bytes \<Rightarrow> cint \<Rightarrow> cint \<Rightarrow> 'os \<Rightarrow> (cint \<times> 'os) option" where
  "robust_open S z f m os = do {
     (fd, os) \<leftarrow> open_loop S z f m (if m \<noteq> 0 then m else SQLITE_DEFAULT_FILE_PERMISSIONS) os;
     Some (fd,
       if 0 \<le> sint fd \<and> m \<noteq> 0 then
         case osFstat S fd os of (rc, st, os) \<Rightarrow>
           if rc = 0 \<and> st_size st = 0 \<and> st_mode st AND 0x1FF \<noteq> m
           then snd (osFchmod S fd m os) else os
       else os)
   }"

text \<open>Built without \<open>HAVE_FCHOWN\<close>, the owner of a file is never changed.\<close>

definition robustFchown :: "cint \<Rightarrow> cint \<Rightarrow> cint \<Rightarrow> 'os \<Rightarrow> 'os" where
  "robustFchown fd uid gid os = os"

text \<open>The descriptor of an opened file never is a standard stream's, whatever the kernel gives.\<close>

lemma open_loop_fd:
  assumes "open_loop S z f m m2 os = Some r"
  shows "sint (fst r) < 0 \<or> SQLITE_MINIMUM_FILE_DESCRIPTOR \<le> sint (fst r)"
proof (rule open_loop.raw_induct [where P = "\<lambda>S z f m m2 os r.
    sint (fst r) < 0 \<or> SQLITE_MINIMUM_FILE_DESCRIPTOR \<le> sint (fst r)", OF _ assms])
qed (auto split: prod.splits if_splits)

end
