(* ===== verification/Unix_Map.thy ===== *)
theory Unix_Map
  imports Posix
begin

text \<open>
  The memory mapping of a database file: \<open>unixUnmapfile\<close>, \<open>unixRemapfile\<close>,
  \<open>unixMapfile\<close>, \<open>unixFetch\<close> and \<open>unixUnfetch\<close> of \<open>os_unix.c\<close>, built with
  \<open>SQLITE_MAX_MMAP_SIZE > 0\<close> and \<open>HAVE_MREMAP\<close>. The invariant says which sizes a
  handle may hold; every operation keeps it whatever the kernel answers.
\<close>

section \<open>Operations\<close>

definition unixUnmapfile :: "'os syscalls \<Rightarrow> unixFile \<Rightarrow> 'os \<Rightarrow> unixFile \<times> 'os" where
  "unixUnmapfile S f os =
     (if pMapRegion f \<noteq> NULL
      then (f\<lparr>pMapRegion := NULL, mmapSize := 0, mmapSizeActual := 0\<rparr>,
            snd (osMunmap S (pMapRegion f) (mmapSizeActual f) os))
      else (f, os))"

text \<open>The attempt to grow the mapping the handle has; a null result asks for a new one.\<close>

definition extend_mapping :: "'os syscalls \<Rightarrow> unixFile \<Rightarrow> i64 \<Rightarrow> 'os \<Rightarrow> ptr \<times> 'os" where
  "extend_mapping S f nNew os =
     (let pOrig = pMapRegion f; nOrig = mmapSizeActual f; nReuse = mmapSize f in
      if pOrig \<noteq> NULL then
        (let os = (if nReuse \<noteq> nOrig
                   then snd (osMunmap S (pOrig + nReuse) (nOrig - nReuse) os) else os) in
         case osMremap S pOrig nReuse nNew os of (pNew, os) \<Rightarrow>
           if pNew = MAP_FAILED \<or> pNew = NULL
           then (pNew, snd (osMunmap S pOrig nReuse os))
           else (pNew, os))
      else (NULL, os))"

definition unixRemapfile :: "'os syscalls \<Rightarrow> unixFile \<Rightarrow> i64 \<Rightarrow> 'os \<Rightarrow> unixFile \<times> 'os" where
  "unixRemapfile S f nNew os =
     (case extend_mapping S f nNew os of (pNew, os) \<Rightarrow>
      case (if pNew = NULL then osMmap S nNew (h_fd f) os else (pNew, os)) of (pNew, os) \<Rightarrow>
        if pNew = MAP_FAILED
        then (f\<lparr>mmapSizeMax := 0, pMapRegion := NULL, mmapSize := 0, mmapSizeActual := 0\<rparr>, os)
        else (f\<lparr>pMapRegion := pNew, mmapSize := nNew, mmapSizeActual := nNew\<rparr>, os))"

definition unixMapfile ::
  "'os syscalls \<Rightarrow> unixFile \<Rightarrow> i64 \<Rightarrow> 'os \<Rightarrow> cint \<times> unixFile \<times> 'os" where
  "unixMapfile S f nMap os =
     (if 0 < sint (nFetchOut f) then (SQLITE_OK, f, os)
      else
        (let remap = (\<lambda>nMap os.
           (let nMap = (if sint (mmapSizeMax f) < sint nMap then mmapSizeMax f else nMap) in
            if nMap \<noteq> mmapSize f
            then (case unixRemapfile S f nMap os of (f, os) \<Rightarrow> (SQLITE_OK, f, os))
            else (SQLITE_OK, f, os)))
         in if sint nMap < 0 then
              (case osFstat S (h_fd f) os of (rc, st, os) \<Rightarrow>
                 if rc \<noteq> 0 then (SQLITE_IOERR_FSTAT, f, os)
                 else remap (word_of_int (st_size st)) os)
            else remap nMap os))"

text \<open>
  \<open>pp\<close> is the address of the page, null where the file is not mapped that far. The sum
  \<open>iOff + nAmt\<close> is taken without wrap-around: both are offsets into one file.
\<close>

definition unixFetch ::
  "'os syscalls \<Rightarrow> unixFile \<Rightarrow> i64 \<Rightarrow> cint \<Rightarrow> 'os \<Rightarrow> cint \<times> ptr \<times> unixFile \<times> 'os" where
  "unixFetch S f iOff nAmt os =
     (if 0 < sint (mmapSizeMax f) then
        (case (if pMapRegion f = NULL then unixMapfile S f (- 1) os else (SQLITE_OK, f, os))
         of (rc, f, os) \<Rightarrow>
           if rc \<noteq> SQLITE_OK then (rc, NULL, f, os)
           else if sint iOff + sint nAmt \<le> sint (mmapSize f)
           then (SQLITE_OK, pMapRegion f + iOff, f\<lparr>nFetchOut := nFetchOut f + 1\<rparr>, os)
           else (SQLITE_OK, NULL, f, os))
      else (SQLITE_OK, NULL, f, os))"

definition unixUnfetch :: "'os syscalls \<Rightarrow> unixFile \<Rightarrow> bool \<Rightarrow> 'os \<Rightarrow> cint \<times> unixFile \<times> 'os" where
  "unixUnfetch S f p os =
     (if p then (SQLITE_OK, f\<lparr>nFetchOut := nFetchOut f - 1\<rparr>, os)
      else (case unixUnmapfile S f os of (f, os) \<Rightarrow> (SQLITE_OK, f, os)))"

section \<open>The mapping invariant\<close>

text \<open>
  A handle without a region maps no byte; a mapping has no more usable bytes than it has, and
  no more than the configured limit.
\<close>

definition map_inv :: "unixFile \<Rightarrow> bool" where
  "map_inv f \<longleftrightarrow>
     (pMapRegion f = NULL \<longrightarrow> mmapSize f = 0 \<and> mmapSizeActual f = 0) \<and>
     pMapRegion f \<noteq> MAP_FAILED \<and>
     0 \<le> sint (mmapSize f) \<and> sint (mmapSize f) \<le> sint (mmapSizeActual f) \<and>
     sint (mmapSize f) \<le> sint (mmapSizeMax f)"

lemma map_inv_limit: "map_inv f \<Longrightarrow> 0 \<le> sint (mmapSizeMax f)"
  by (simp add: map_inv_def)

lemma unixUnmapfile_unmapped:
  "unixUnmapfile S f os = (f', os') \<Longrightarrow> map_inv f \<Longrightarrow>
     f' = f\<lparr>pMapRegion := NULL, mmapSize := 0, mmapSizeActual := 0\<rparr> \<and> map_inv f'"
  by (auto simp: unixUnmapfile_def map_inv_def split: if_splits)

text \<open>
  After a remap to a positive size within the limit the handle has exactly that mapping, or
  none and mapping is switched off for good.
\<close>

lemma unixRemapfile_result:
  assumes "unixRemapfile S f nNew os = (f', os')" and "\<And>n h os. fst (osMmap S n h os) \<noteq> NULL"
  shows "(\<exists>p. p \<noteq> NULL \<and> p \<noteq> MAP_FAILED \<and>
            f' = f\<lparr>pMapRegion := p, mmapSize := nNew, mmapSizeActual := nNew\<rparr>) \<or>
         f' = f\<lparr>mmapSizeMax := 0, pMapRegion := NULL, mmapSize := 0, mmapSizeActual := 0\<rparr>"
proof -
  obtain q os1 where e: "extend_mapping S f nNew os = (q, os1)" by fastforce
  obtain p os2 where p: "(if q = NULL then osMmap S nNew (h_fd f) os1 else (q, os1)) = (p, os2)"
    by fastforce
  have "p \<noteq> NULL"
    using p assms(2) [of nNew "h_fd f" os1] by (auto split: if_splits)
  then show ?thesis
    using assms(1) by (auto simp: unixRemapfile_def e p split: if_splits)
qed

text \<open>
  \<open>mmap\<close> never returns the null page here: \<open>MAP_FIXED\<close> is not used. The named
  hypothesis states that documented behaviour.
\<close>

definition mmap_nonnull :: "'os syscalls \<Rightarrow> bool" where
  "mmap_nonnull S \<longleftrightarrow> (\<forall>n h os. fst (osMmap S n h os) \<noteq> NULL)"

lemma unixRemapfile_inv:
  assumes "mmap_nonnull S" and "unixRemapfile S f nNew os = (f', os')"
    and "0 \<le> sint nNew" and "sint nNew \<le> sint (mmapSizeMax f)"
  shows "map_inv f'"
  using unixRemapfile_result [OF assms(2)] assms(1,3,4)
  by (auto simp: map_inv_def mmap_nonnull_def)

lemma unixMapfile_inv:
  assumes "mmap_nonnull S" and "map_inv f" and "unixMapfile S f nMap os = (rc, f', os')"
    and "\<And>h os. 0 \<le> st_size (fst (snd (osFstat S h os))) \<and>
                st_size (fst (snd (osFstat S h os))) < 2 ^ 63"
  shows "map_inv f'"
proof -
  have remap: "map_inv g" if "unixRemapfile S f n os1 = (g, os2)"
      "n = mmapSizeMax f \<or> 0 \<le> sint n \<and> sint n \<le> sint (mmapSizeMax f)" for g n os1 os2
    using unixRemapfile_inv [OF assms(1) that(1)] that(2) map_inv_limit [OF assms(2)] by auto
  have sz: "sint (word_of_int (st_size st) :: 64 word) = st_size st \<and> 0 \<le> st_size st"
    if "osFstat S (h_fd f) os = (rc, st, os1)" for rc st os1
    using assms(4) [of "h_fd f" os] that by (auto intro: sint_of_int64)
  then show ?thesis
    using assms(2,3)
    by (auto simp: unixMapfile_def Let_def not_less split: if_splits prod.splits dest!: sz
        elim!: remap)
qed

text \<open>A fetched page lies inside the mapping, and holding it is counted.\<close>

lemma unixFetch_page:
  assumes "unixFetch S f iOff nAmt os = (rc, pp, f', os')" and "pp \<noteq> NULL"
  shows "rc = SQLITE_OK" and "pp = pMapRegion f' + iOff"
    and "sint iOff + sint nAmt \<le> sint (mmapSize f')"
  using assms by (auto simp: unixFetch_def split: if_splits prod.splits)

end
