(* ===== verification/Unix_Inode.thy ===== *)
theory Unix_Inode
  imports Unix_Map
begin

text \<open>
  The server's table of open inodes (\<open>inodeList\<close> of \<open>os_unix.c\<close>), the descriptors
  whose close is deferred, and the operations that look an inode up, release it and close
  descriptors. The table is a list of objects with their addresses, in the order of
  \<open>pNext\<close>; the mutexes of the C code serialise the operations and have no state here.
\<close>

section \<open>State\<close>

record UnixUnusedFd =
  uu_fd :: cint
  uu_flags :: cint

text \<open>
  The counters are C ints; each counts handles, of which there are fewer than descriptors,
  so they are unbounded here. \<open>pUnused\<close> is the chain of deferred descriptors,
  \<open>ii_shm\<close> the field \<open>pShmNode\<close>.
\<close>

record unixInodeInfo =
  ii_dev :: "64 word"
  ii_ino :: "64 word"
  nShared :: int
  nLock :: int
  ii_eFileLock :: "8 word"
  bProcessLock :: bool
  pUnused :: "ptr list"
  nRef :: int
  ii_shm :: ptr

record 'os unix_state =
  us_os :: 'os
  inodeList :: "(ptr \<times> unixInodeInfo) list"
  unusedFds :: "ptr \<rightharpoonup> UnixUnusedFd"
  us_brk :: ptr

definition us_init :: "'os \<Rightarrow> 'os unix_state" where
  "us_init os = \<lparr>us_os = os, inodeList = [], unusedFds = Map.empty, us_brk = 0x100000\<rparr>"

text \<open>
  \<open>sqlite3_malloc64\<close>: an address never given out before, null when the 47-bit address
  space of a process is used up. Freed memory is not given out again.
\<close>

definition US_TOP :: int where
  "US_TOP = 2 ^ 47"

definition us_malloc :: "int \<Rightarrow> 'os unix_state \<Rightarrow> ptr \<times> 'os unix_state" where
  "us_malloc n st =
     (if uint (us_brk st) + n \<le> US_TOP
      then (us_brk st, st\<lparr>us_brk := us_brk st + word_of_int n\<rparr>)
      else (NULL, st))"

definition SIZE_unixInodeInfo :: int where "SIZE_unixInodeInfo = 80"
definition SIZE_UnixUnusedFd :: int where "SIZE_UnixUnusedFd = 16"
definition SIZE_mutex :: int where "SIZE_mutex = 40"

text \<open>The object a handle's \<open>pInode\<close> points to.\<close>

definition inode_at :: "ptr \<Rightarrow> 'os unix_state \<Rightarrow> unixInodeInfo option" where
  "inode_at p st = (if p = NULL then None else map_of (inodeList st) p)"

definition put_inode :: "ptr \<Rightarrow> unixInodeInfo \<Rightarrow> 'os unix_state \<Rightarrow> 'os unix_state" where
  "put_inode p i st =
     st\<lparr>inodeList := map (\<lambda>(q, j). if q = p then (q, i) else (q, j)) (inodeList st)\<rparr>"

section \<open>Deferred closes\<close>

fun close_fds ::
  "'os syscalls \<Rightarrow> ptr list \<Rightarrow> (ptr \<rightharpoonup> UnixUnusedFd) \<Rightarrow> 'os \<Rightarrow>
     ((ptr \<rightharpoonup> UnixUnusedFd) \<times> 'os) option" where
  "close_fds S [] U os = Some (U, os)"
| "close_fds S (p # ps) U os = do {
     u \<leftarrow> U p;
     close_fds S ps (U(p := None)) (robust_close S (uu_fd u) os)
   }"

definition closePendingFds ::
  "'os syscalls \<Rightarrow> unixInodeInfo \<Rightarrow> (ptr \<rightharpoonup> UnixUnusedFd) \<Rightarrow> 'os \<Rightarrow>
     (unixInodeInfo \<times> (ptr \<rightharpoonup> UnixUnusedFd) \<times> 'os) option" where
  "closePendingFds S i U os = do {
     (U, os) \<leftarrow> close_fds S (pUnused i) U os;
     Some (i\<lparr>pUnused := []\<rparr>, U, os)
   }"

text \<open>\<open>setPendingFd\<close> dereferences the handle's preallocated object.\<close>

definition setPendingFd ::
  "unixFile \<Rightarrow> unixInodeInfo \<Rightarrow> (ptr \<rightharpoonup> UnixUnusedFd) \<Rightarrow> (unixFile \<times> unixInodeInfo) option" where
  "setPendingFd f i U =
     (case U (pPreallocatedUnused f) of
        None \<Rightarrow> None
      | Some _ \<Rightarrow> Some (f\<lparr>h_fd := - 1, pPreallocatedUnused := NULL\<rparr>,
                       i\<lparr>pUnused := pPreallocatedUnused f # pUnused i\<rparr>))"

section \<open>Looking up and releasing inodes\<close>

definition same_inode :: "stat \<Rightarrow> unixInodeInfo \<Rightarrow> bool" where
  "same_inode sb i \<longleftrightarrow> ii_dev i = st_dev sb \<and> ii_ino i = st_ino sb"

definition new_inode :: "stat \<Rightarrow> unixInodeInfo" where
  "new_inode sb =
     \<lparr>ii_dev = st_dev sb, ii_ino = st_ino sb, nShared = 0, nLock = 0, ii_eFileLock = 0,
      bProcessLock = False, pUnused = [], nRef = 1, ii_shm = NULL\<rparr>"

text \<open>
  Find the inode of the handle's descriptor or enter it at the head of the table; the out
  parameter is the handle's \<open>pInode\<close> at the only call. A new object needs its memory and
  its mutex.
\<close>

definition findInodeInfo ::
  "'os syscalls \<Rightarrow> unixFile \<Rightarrow> 'os unix_state \<Rightarrow> cint \<times> unixFile \<times> 'os unix_state" where
  "findInodeInfo S f st =
     (case osFstat S (h_fd f) (us_os st) of (rc, sb, os) \<Rightarrow>
        let st = st\<lparr>us_os := os\<rparr> in
        if rc \<noteq> 0 then (SQLITE_IOERR, storeLastErrno f (osErrno S os), st)
        else
          (case find (\<lambda>(p, i). same_inode sb i) (inodeList st) of
             Some (p, i) \<Rightarrow>
               (SQLITE_OK, f\<lparr>pInode := p\<rparr>, put_inode p (i\<lparr>nRef := nRef i + 1\<rparr>) st)
           | None \<Rightarrow>
               (case us_malloc SIZE_unixInodeInfo st of (p, st) \<Rightarrow>
                  if p = NULL then (SQLITE_NOMEM, f, st)
                  else case us_malloc SIZE_mutex st of (m, st) \<Rightarrow>
                    if m = NULL then (SQLITE_NOMEM, f, st)
                    else (SQLITE_OK, f\<lparr>pInode := p\<rparr>,
                          st\<lparr>inodeList := (p, new_inode sb) # inodeList st\<rparr>))))"

definition releaseInodeInfo ::
  "'os syscalls \<Rightarrow> unixFile \<Rightarrow> 'os unix_state \<Rightarrow> 'os unix_state option" where
  "releaseInodeInfo S f st =
     (if pInode f = NULL then Some st
      else do {
        i \<leftarrow> inode_at (pInode f) st;
        let i = i\<lparr>nRef := nRef i - 1\<rparr>;
        if nRef i = 0 then do {
          (i, U, os) \<leftarrow> closePendingFds S i (unusedFds st) (us_os st);
          Some (st\<lparr>us_os := os, unusedFds := U,
                   inodeList := filter (\<lambda>(q, _). q \<noteq> pInode f) (inodeList st)\<rparr>)
        }
        else Some (put_inode (pInode f) i st)
      })"

section \<open>Checks on the name of an open file\<close>

text \<open>\<open>mem\<close> gives the characters at an address, the names \<open>zPath\<close> points to.\<close>

definition fileHasMoved ::
  "'os syscalls \<Rightarrow> (ptr \<Rightarrow> bytes option) \<Rightarrow> unixFile \<Rightarrow> 'os unix_state \<Rightarrow>
     (bool \<times> 'os unix_state) option" where
  "fileHasMoved S mem f st =
     (if pInode f = NULL then Some (False, st)
      else do {
        z \<leftarrow> mem (zPath f);
        case osStat S z (us_os st) of (rc, sb, os) \<Rightarrow>
          if rc \<noteq> 0 then Some (True, st\<lparr>us_os := os\<rparr>)
          else do {
            i \<leftarrow> inode_at (pInode f) st;
            Some (st_ino sb \<noteq> ii_ino i, st\<lparr>us_os := os\<rparr>)
          }
      })"

text \<open>\<open>verifyDbFile\<close> only logs what it finds; its system calls remain.\<close>

definition verifyDbFile ::
  "'os syscalls \<Rightarrow> (ptr \<Rightarrow> bytes option) \<Rightarrow> unixFile \<Rightarrow> 'os unix_state \<Rightarrow>
     'os unix_state option" where
  "verifyDbFile S mem f st =
     (if ctrlFlags f AND UNIXFILE_NOLOCK \<noteq> 0 then Some st
      else case osFstat S (h_fd f) (us_os st) of (rc, sb, os) \<Rightarrow>
        let st = st\<lparr>us_os := os\<rparr> in
        if rc \<noteq> 0 then Some st
        else if st_nlink sb = 0 then Some st
        else if 1 < st_nlink sb then Some st
        else map_option snd (fileHasMoved S mem f st))"

section \<open>Closing\<close>

definition closeUnixFile ::
  "'os syscalls \<Rightarrow> unixFile \<Rightarrow> 'os unix_state \<Rightarrow> cint \<times> unixFile \<times> 'os unix_state" where
  "closeUnixFile S f st =
     (case unixUnmapfile S f (us_os st) of (f, os) \<Rightarrow>
        let os = (if 0 \<le> sint (h_fd f) then robust_close S (h_fd f) os else os) in
        (SQLITE_OK, zero_unixFile,
         st\<lparr>us_os := os, unusedFds := (unusedFds st)(pPreallocatedUnused f := None)\<rparr>))"

section \<open>Facts on the table\<close>

text \<open>Inodes are at distinct addresses, all of them given out, and have distinct identities.\<close>

definition table_ok :: "'os unix_state \<Rightarrow> bool" where
  "table_ok st \<longleftrightarrow>
     distinct (map fst (inodeList st)) \<and>
     distinct (map (\<lambda>(p, i). (ii_dev i, ii_ino i)) (inodeList st)) \<and>
     0 < uint (us_brk st) \<and> uint (us_brk st) \<le> US_TOP \<and>
     (\<forall>p \<in> fst ` set (inodeList st). p \<noteq> NULL \<and> uint p < uint (us_brk st))"

lemma table_ok_init: "table_ok (us_init os)"
  by (simp add: table_ok_def us_init_def US_TOP_def)

lemma put_inode_fields [simp]:
  "us_os (put_inode p i st) = us_os st" "unusedFds (put_inode p i st) = unusedFds st"
  "us_brk (put_inode p i st) = us_brk st"
  by (simp_all add: put_inode_def)

lemma inode_at_os [simp]:
  "inode_at p (st\<lparr>us_os := os\<rparr>) = inode_at p st"
  "inode_at p (st\<lparr>unusedFds := U\<rparr>) = inode_at p st"
  "inode_at p (st\<lparr>us_brk := b\<rparr>) = inode_at p st"
  by (simp_all add: inode_at_def)

lemma inode_at_NULL [simp]: "inode_at NULL st = None"
  by (simp add: inode_at_def)

lemma map_of_replace:
  "map_of (map (\<lambda>(q, j). if q = p then (q, i) else (q, j)) xs) q =
     (if q = p then map_option (\<lambda>_. i) (map_of xs q) else map_of xs q)"
  by (induction xs) auto

lemma inode_at_put [simp]:
  "inode_at q (put_inode p i st) =
     (if q = p then map_option (\<lambda>_. i) (inode_at q st) else inode_at q st)"
  by (simp add: inode_at_def put_inode_def map_of_replace)

lemma fst_put_inode: "map fst (inodeList (put_inode p i st)) = map fst (inodeList st)"
  by (simp add: put_inode_def split_beta comp_def)

lemma ids_put_inode:
  assumes "inode_at p st = Some j" and "table_ok st" and "ii_dev i = ii_dev j" and "ii_ino i = ii_ino j"
  shows "map (\<lambda>(p, i). (ii_dev i, ii_ino i)) (inodeList (put_inode p i st)) =
         map (\<lambda>(p, i). (ii_dev i, ii_ino i)) (inodeList st)"
proof -
  have "map_of (inodeList st) p = Some j"
    using assms(1) by (simp add: inode_at_def split: if_splits)
  then have "k = j" if "(p, k) \<in> set (inodeList st)" for k
    using that assms(2) by (auto simp: table_ok_def dest: map_of_is_SomeI)
  then show ?thesis
    using assms(3,4) by (auto simp: put_inode_def)
qed

lemma table_ok_put_inode:
  assumes "table_ok st" and "inode_at p st = Some j" and "ii_dev i = ii_dev j" and "ii_ino i = ii_ino j"
  shows "table_ok (put_inode p i st)"
  using assms ids_put_inode [OF assms(2,1,3,4)] fst_put_inode [of p i st]
  by (simp add: table_ok_def flip: set_map)

lemma us_mallocE:
  assumes "us_malloc n st = (p, st')" and "p \<noteq> NULL" and "table_ok st" and "0 < n"
  shows "p = us_brk st" and "uint (us_brk st') = uint (us_brk st) + n"
    and "st' = st\<lparr>us_brk := us_brk st'\<rparr>" and "uint (us_brk st') \<le> US_TOP"
proof -
  have c: "uint (us_brk st) + n \<le> US_TOP" and p: "p = us_brk st"
    and st': "st' = st\<lparr>us_brk := us_brk st + word_of_int n\<rparr>"
    using assms by (auto simp: us_malloc_def split: if_splits)
  have "uint (us_brk st + word_of_int n) = uint (us_brk st) + n"
    using c assms(4) by (simp add: uint_word_ariths uint_word_of_int US_TOP_def mod_simps)
  then show "p = us_brk st" "uint (us_brk st') = uint (us_brk st) + n"
    "st' = st\<lparr>us_brk := us_brk st'\<rparr>" "uint (us_brk st') \<le> US_TOP"
    using p st' c by simp_all
qed

end
