(* ===== verification/Unix_Lock.thy ===== *)
theory Unix_Lock
  imports Unix_Inode
begin

text \<open>
  The locking protocol of \<open>os_unix.c\<close>: \<open>unixFileLock\<close>, \<open>unixLock\<close>,
  \<open>unixUnlock\<close>, \<open>unixCheckReservedLock\<close> and the closing of a locked file. Each
  step works on the handle, on the inode object it shares with the other handles of the
  process, and on the kernel; the inode is fetched from the table at the entry of an operation
  and stored back at its end, both under its mutex in the C code.
\<close>

section \<open>File locks\<close>

definition file_lock :: "lock_type \<Rightarrow> int \<Rightarrow> int \<Rightarrow> flock" where
  "file_lock t start len = \<lparr>l_type = t, l_start = start, l_len = len\<rparr>"

definition lock_level :: "unixFile \<Rightarrow> int" where
  "lock_level f = uint (eFileLock f)"

definition inode_level :: "unixInodeInfo \<Rightarrow> int" where
  "inode_level i = uint (ii_eFileLock i)"

definition set_level :: "int \<Rightarrow> unixFile \<Rightarrow> unixFile" where
  "set_level e f = f\<lparr>eFileLock := word_of_int e\<rparr>"

definition set_inode_level :: "int \<Rightarrow> unixInodeInfo \<Rightarrow> unixInodeInfo" where
  "set_inode_level e i = i\<lparr>ii_eFileLock := word_of_int e\<rparr>"

definition unixFileLock ::
  "'os syscalls \<Rightarrow> unixFile \<Rightarrow> unixInodeInfo \<Rightarrow> flock \<Rightarrow> 'os \<Rightarrow> int \<times> unixInodeInfo \<times> 'os" where
  "unixFileLock S f i lk os =
     (if ctrlFlags f AND (UNIXFILE_EXCL OR UNIXFILE_RDONLY) = UNIXFILE_EXCL then
        (if \<not> bProcessLock i then
           (case osSetlk S (h_fd f) (file_lock F_WRLCK SHARED_FIRST SHARED_SIZE) os of (rc, os) \<Rightarrow>
              if rc < 0 then (rc, i, os)
              else (rc, i\<lparr>bProcessLock := True, nLock := nLock i + 1\<rparr>, os))
         else (0, i, os))
      else (case osSetlk S (h_fd f) lk os of (rc, os) \<Rightarrow> (rc, i, os)))"

definition unixCheckReservedLock ::
  "'os syscalls \<Rightarrow> unixFile \<Rightarrow> 'os unix_state \<Rightarrow>
     (cint \<times> cint \<times> unixFile \<times> 'os unix_state) option" where
  "unixCheckReservedLock S f st = do {
     i \<leftarrow> inode_at (pInode f) st;
     if SHARED_LOCK < inode_level i then Some (SQLITE_OK, 1, f, st)
     else if bProcessLock i then Some (SQLITE_OK, 0, f, st)
     else case osGetlk S (h_fd f) (file_lock F_WRLCK RESERVED_BYTE 1) (us_os st) of
       (rc, lk, os) \<Rightarrow>
         let st = st\<lparr>us_os := os\<rparr> in
         if rc \<noteq> 0
         then Some (SQLITE_IOERR_CHECKRESERVEDLOCK, 0, storeLastErrno f (osErrno S os), st)
         else Some (SQLITE_OK, if l_type lk \<noteq> F_UNLCK then 1 else 0, f, st)
   }"

section \<open>Raising a lock\<close>

text \<open>The result of a step: its code, the handle, the inode and the kernel.\<close>

type_synonym 'os lock_result = "cint \<times> unixFile \<times> unixInodeInfo \<times> 'os"

text \<open>A failed lock call: BUSY is not recorded as an error of the file.\<close>

definition lock_failed :: "cint \<Rightarrow> unixFile \<Rightarrow> cint \<times> unixFile" where
  "lock_failed tErrno f =
     (let rc = sqliteErrorFromPosixError tErrno SQLITE_IOERR_LOCK in
      (rc, if rc \<noteq> SQLITE_BUSY then storeLastErrno f tErrno else f))"

text \<open>The PENDING byte, taken before a SHARED lock and before an EXCLUSIVE one.\<close>

definition unixLock_pending ::
  "'os syscalls \<Rightarrow> unixFile \<Rightarrow> int \<Rightarrow> unixInodeInfo \<Rightarrow> 'os \<Rightarrow> 'os lock_result" where
  "unixLock_pending S f e i os =
     (if e = SHARED_LOCK \<or> e = EXCLUSIVE_LOCK \<and> lock_level f < PENDING_LOCK then
        (case unixFileLock S f i
                (file_lock (if e = SHARED_LOCK then F_RDLCK else F_WRLCK) PENDING_BYTE 1) os
         of (r, i, os) \<Rightarrow>
           if r \<noteq> 0 then (case lock_failed (osErrno S os) f of (rc, f) \<Rightarrow> (rc, f, i, os))
           else (SQLITE_OK, f, i, os))
      else (SQLITE_OK, f, i, os))"

text \<open>The SHARED lock of the first handle of the process that takes one.\<close>

definition unixLock_shared ::
  "'os syscalls \<Rightarrow> unixFile \<Rightarrow> unixInodeInfo \<Rightarrow> 'os \<Rightarrow> 'os lock_result" where
  "unixLock_shared S f i os =
     (case unixFileLock S f i (file_lock F_RDLCK SHARED_FIRST SHARED_SIZE) os of (r, i, os) \<Rightarrow>
      let tErrno = (if r \<noteq> 0 then osErrno S os else 0);
          rc = (if r \<noteq> 0 then sqliteErrorFromPosixError tErrno SQLITE_IOERR_LOCK else SQLITE_OK)
      in case unixFileLock S f i (file_lock F_UNLCK PENDING_BYTE 1) os of (r, i, os) \<Rightarrow>
        let (tErrno, rc) =
              (if r \<noteq> 0 \<and> rc = SQLITE_OK then (osErrno S os, SQLITE_IOERR_UNLOCK) else (tErrno, rc))
        in if rc \<noteq> SQLITE_OK
           then (rc, if rc \<noteq> SQLITE_BUSY then storeLastErrno f tErrno else f, i, os)
           else (SQLITE_OK, set_level SHARED_LOCK f,
                 i\<lparr>nLock := nLock i + 1, nShared := 1\<rparr>, os))"

text \<open>A RESERVED or EXCLUSIVE lock over the SHARED lock the handle has.\<close>

definition unixLock_write ::
  "'os syscalls \<Rightarrow> unixFile \<Rightarrow> int \<Rightarrow> unixInodeInfo \<Rightarrow> 'os \<Rightarrow> 'os lock_result" where
  "unixLock_write S f e i os =
     (if e = EXCLUSIVE_LOCK \<and> 1 < nShared i then (SQLITE_BUSY, f, i, os)
      else
        (case unixFileLock S f i
                (if e = RESERVED_LOCK then file_lock F_WRLCK RESERVED_BYTE 1
                 else file_lock F_WRLCK SHARED_FIRST SHARED_SIZE) os
         of (r, i, os) \<Rightarrow>
           if r \<noteq> 0 then (case lock_failed (osErrno S os) f of (rc, f) \<Rightarrow> (rc, f, i, os))
           else (SQLITE_OK, f, i, os)))"

text \<open>The new level of the handle and the inode; a failed EXCLUSIVE leaves PENDING.\<close>

definition unixLock_finish :: "int \<Rightarrow> 'os lock_result \<Rightarrow> 'os lock_result" where
  "unixLock_finish e r =
     (case r of (rc, f, i, os) \<Rightarrow>
        if rc = SQLITE_OK then (rc, set_level e f, set_inode_level e i, os)
        else if e = EXCLUSIVE_LOCK
        then (rc, set_level PENDING_LOCK f, set_inode_level PENDING_LOCK i, os)
        else (rc, f, i, os))"

text \<open>The part of \<open>unixLock\<close> that holds the inode's mutex.\<close>

definition unixLock_locked ::
  "'os syscalls \<Rightarrow> unixFile \<Rightarrow> int \<Rightarrow> unixInodeInfo \<Rightarrow> 'os \<Rightarrow> 'os lock_result" where
  "unixLock_locked S f e i os =
     (if eFileLock f \<noteq> ii_eFileLock i \<and> (PENDING_LOCK \<le> inode_level i \<or> SHARED_LOCK < e)
      then (SQLITE_BUSY, f, i, os)
      else if e = SHARED_LOCK \<and> (inode_level i = SHARED_LOCK \<or> inode_level i = RESERVED_LOCK)
      then (SQLITE_OK, set_level SHARED_LOCK f,
            i\<lparr>nShared := nShared i + 1, nLock := nLock i + 1\<rparr>, os)
      else
        (case unixLock_pending S f e i os of (rc, f, i, os) \<Rightarrow>
           if rc \<noteq> SQLITE_OK then (rc, f, i, os)
           else if e = SHARED_LOCK then
             (case unixLock_shared S f i os of (rc, f, i, os) \<Rightarrow>
                if rc \<noteq> SQLITE_OK then (rc, f, i, os) else unixLock_finish e (rc, f, i, os))
           else unixLock_finish e (unixLock_write S f e i os)))"

definition unixLock ::
  "'os syscalls \<Rightarrow> unixFile \<Rightarrow> int \<Rightarrow> 'os unix_state \<Rightarrow>
     (cint \<times> unixFile \<times> 'os unix_state) option" where
  "unixLock S f e st =
     (if e \<le> lock_level f then Some (SQLITE_OK, f, st)
      else do {
        i \<leftarrow> inode_at (pInode f) st;
        case unixLock_locked S f e i (us_os st) of (rc, f', i, os) \<Rightarrow>
          Some (rc, f', put_inode (pInode f) i (st\<lparr>us_os := os\<rparr>))
      })"

section \<open>Lowering a lock\<close>

text \<open>
  From RESERVED or more down to SHARED: the read lock is set again when the handle keeps it,
  then the PENDING and RESERVED bytes are released. A failure leaves the levels alone.
\<close>

definition posixUnlock_downgrade ::
  "'os syscalls \<Rightarrow> unixFile \<Rightarrow> int \<Rightarrow> unixInodeInfo \<Rightarrow> 'os \<Rightarrow> 'os lock_result" where
  "posixUnlock_downgrade S f e i os =
     (case (if e = SHARED_LOCK
            then unixFileLock S f i (file_lock F_RDLCK SHARED_FIRST SHARED_SIZE) os
            else (0, i, os))
      of (r, i, os) \<Rightarrow>
        if r \<noteq> 0 then (SQLITE_IOERR_RDLOCK, storeLastErrno f (osErrno S os), i, os)
        else
          (case unixFileLock S f i (file_lock F_UNLCK PENDING_BYTE 2) os of (r, i, os) \<Rightarrow>
             if r = 0 then (SQLITE_OK, f, set_inode_level SHARED_LOCK i, os)
             else (SQLITE_IOERR_UNLOCK, storeLastErrno f (osErrno S os), i, os)))"

text \<open>
  Giving up the SHARED lock: the kernel's locks go with the last holder of the process, and
  the deferred descriptors are closed with the last lock.
\<close>

definition posixUnlock_release ::
  "'os syscalls \<Rightarrow> unixFile \<Rightarrow> unixInodeInfo \<Rightarrow> (ptr \<rightharpoonup> UnixUnusedFd) \<Rightarrow> 'os \<Rightarrow>
     (cint \<times> unixFile \<times> unixInodeInfo \<times> (ptr \<rightharpoonup> UnixUnusedFd) \<times> 'os) option" where
  "posixUnlock_release S f i U os =
     (let i = i\<lparr>nShared := nShared i - 1\<rparr> in
      case (if nShared i = 0 then
              (case unixFileLock S f i (file_lock F_UNLCK 0 0) os of (r, i, os) \<Rightarrow>
                 if r = 0 then (SQLITE_OK, f, set_inode_level NO_LOCK i, os)
                 else (SQLITE_IOERR_UNLOCK, set_level NO_LOCK (storeLastErrno f (osErrno S os)),
                       set_inode_level NO_LOCK i, os))
            else (SQLITE_OK, f, i, os))
      of (rc, f, i, os) \<Rightarrow>
        let i = i\<lparr>nLock := nLock i - 1\<rparr> in
        if nLock i = 0 then do {
          (i, U, os) \<leftarrow> closePendingFds S i U os;
          Some (rc, f, i, U, os)
        }
        else Some (rc, f, i, U, os))"

definition posixUnlock_locked ::
  "'os syscalls \<Rightarrow> unixFile \<Rightarrow> int \<Rightarrow> unixInodeInfo \<Rightarrow> (ptr \<rightharpoonup> UnixUnusedFd) \<Rightarrow> 'os \<Rightarrow>
     (cint \<times> unixFile \<times> unixInodeInfo \<times> (ptr \<rightharpoonup> UnixUnusedFd) \<times> 'os) option" where
  "posixUnlock_locked S f e i U os =
     (case (if SHARED_LOCK < lock_level f then posixUnlock_downgrade S f e i os
            else (SQLITE_OK, f, i, os))
      of (rc, f, i, os) \<Rightarrow>
        if rc \<noteq> SQLITE_OK then Some (rc, f, i, U, os)
        else do {
          (rc, f, i, U, os) \<leftarrow>
            (if e = NO_LOCK then posixUnlock_release S f i U os else Some (SQLITE_OK, f, i, U, os));
          Some (rc, if rc = SQLITE_OK then set_level e f else f, i, U, os)
        })"

definition posixUnlock ::
  "'os syscalls \<Rightarrow> unixFile \<Rightarrow> int \<Rightarrow> 'os unix_state \<Rightarrow>
     (cint \<times> unixFile \<times> 'os unix_state) option" where
  "posixUnlock S f e st =
     (if lock_level f \<le> e then Some (SQLITE_OK, f, st)
      else do {
        i \<leftarrow> inode_at (pInode f) st;
        (rc, f', i, U, os) \<leftarrow> posixUnlock_locked S f e i (unusedFds st) (us_os st);
        Some (rc, f', put_inode (pInode f) i (st\<lparr>us_os := os, unusedFds := U\<rparr>))
      })"

definition unixUnlock ::
  "'os syscalls \<Rightarrow> unixFile \<Rightarrow> int \<Rightarrow> 'os unix_state \<Rightarrow>
     (cint \<times> unixFile \<times> 'os unix_state) option" where
  "unixUnlock S f e st = posixUnlock S f e st"

section \<open>Closing\<close>

text \<open>
  While any lock of the process is outstanding the descriptor is set aside: closing it would
  release the kernel's locks of every other handle on the file.
\<close>

definition unixClose ::
  "'os syscalls \<Rightarrow> (ptr \<Rightarrow> bytes option) \<Rightarrow> unixFile \<Rightarrow> 'os unix_state \<Rightarrow>
     (cint \<times> unixFile \<times> 'os unix_state) option" where
  "unixClose S mem f st = do {
     st \<leftarrow> verifyDbFile S mem f st;
     (_, f, st) \<leftarrow> unixUnlock S f NO_LOCK st;
     i \<leftarrow> inode_at (pInode f) st;
     (f, st) \<leftarrow> (if nLock i \<noteq> 0
               then do { (f', i) \<leftarrow> setPendingFd f i (unusedFds st);
                         Some (f', put_inode (pInode f) i st) }
               else Some (f, st));
     st \<leftarrow> releaseInodeInfo S f st;
     Some (closeUnixFile S f st)
   }"

section \<open>No-op locking\<close>

definition nolockCheckReservedLock :: "cint \<times> cint" where
  "nolockCheckReservedLock = (SQLITE_OK, 0)"

definition nolockLock :: cint where
  "nolockLock = SQLITE_OK"

definition nolockUnlock :: cint where
  "nolockUnlock = SQLITE_OK"

definition nolockClose ::
  "'os syscalls \<Rightarrow> unixFile \<Rightarrow> 'os unix_state \<Rightarrow> cint \<times> unixFile \<times> 'os unix_state" where
  "nolockClose S f st = closeUnixFile S f st"

end
