(* ===== verification/Unix_IO.thy ===== *)
theory Unix_IO
  imports Unix_Lock "HOL-Library.Signed_Division"
begin

text \<open>
  The file methods of \<open>os_unix.c\<close> that do no locking: read, write, sync, truncate, size,
  file control, sector size and device characteristics. Offsets and amounts are integers: the
  C code adds them in \<open>i64\<close>, and an overflow there is undefined. A buffer is a list of
  bytes with a position in it. Loops that retry an interrupted call may not return.
\<close>

section \<open>Reading\<close>

definition size_t :: "int \<Rightarrow> nat" where
  "size_t n = nat (n mod 2 ^ 64)"

partial_function (option) seekAndRead ::
  "'os syscalls \<Rightarrow> unixFile \<Rightarrow> int \<Rightarrow> bytes \<Rightarrow> nat \<Rightarrow> int \<Rightarrow> int \<Rightarrow> 'os \<Rightarrow>
     (int \<times> unixFile \<times> bytes \<times> 'os) option" where
  "seekAndRead S f offset buf pos cnt prior os =
     (case osLseek S (h_fd f) offset os of (newOffset, os) \<Rightarrow>
        if newOffset < 0 then Some (- 1, storeLastErrno f (osErrno S os), buf, os)
        else
          (case osRead S (h_fd f) (size_t cnt) os of (got, data, os) \<Rightarrow>
             if got < 0 then
               (if osErrno S os = EINTR then seekAndRead S f offset buf pos cnt prior os
                else Some (got, storeLastErrno f (osErrno S os), buf, os))
             else Option.bind (memcpy buf pos data) (\<lambda>buf.
               if got = cnt then Some (got + prior, f, buf, os)
               else if 0 < got
               then seekAndRead S f (offset + got) buf (pos + nat got) (cnt - got) (prior + got) os
               else Some (got + prior, f, buf, os))))"

declare seekAndRead.simps [code]

text \<open>\<open>unixRead\<close>: what is mapped is copied, the rest is read, a short read is padded.\<close>

definition read_file ::
  "'os syscalls \<Rightarrow> unixFile \<Rightarrow> bytes \<Rightarrow> nat \<Rightarrow> int \<Rightarrow> int \<Rightarrow> 'os \<Rightarrow>
     (cint \<times> unixFile \<times> bytes \<times> 'os) option" where
  "read_file S f buf pos amt offset os = do {
     (got, f, buf, os) \<leftarrow> seekAndRead S f offset buf pos amt 0 os;
     if got = amt then Some (SQLITE_OK, f, buf, os)
     else if got < 0 then Some (SQLITE_IOERR_READ, f, buf, os)
     else do {
       buf \<leftarrow> memcpy buf (pos + nat got) (zeroed (size_t (amt - got)));
       Some (SQLITE_IOERR_SHORT_READ, storeLastErrno f 0, buf, os)
     }
   }"

definition unixRead ::
  "'os syscalls \<Rightarrow> unixFile \<Rightarrow> bytes \<Rightarrow> int \<Rightarrow> int \<Rightarrow> 'os \<Rightarrow>
     (cint \<times> unixFile \<times> bytes \<times> 'os) option" where
  "unixRead S f buf amt offset os =
     (if offset < sint (mmapSize f) then
        (if offset + amt \<le> sint (mmapSize f) then do {
           b \<leftarrow> osMemory S os (pMapRegion f + word_of_int offset) (size_t amt);
           buf \<leftarrow> memcpy buf 0 b;
           Some (SQLITE_OK, f, buf, os)
         }
         else
           (let nCopy = sint (mmapSize f) - offset in do {
              b \<leftarrow> osMemory S os (pMapRegion f + word_of_int offset) (size_t nCopy);
              buf \<leftarrow> memcpy buf 0 b;
              read_file S f buf (nat nCopy) (amt - nCopy) (offset + nCopy) os
            }))
      else read_file S f buf 0 amt offset os)"

section \<open>Writing\<close>

partial_function (option) write_loop ::
  "'os syscalls \<Rightarrow> cint \<Rightarrow> int \<Rightarrow> bytes \<Rightarrow> 'os \<Rightarrow> (int \<times> 'os) option" where
  "write_loop S fd iOff data os =
     (case osLseek S fd iOff os of (iSeek, os) \<Rightarrow>
        if iSeek < 0 then Some (- 1, os)
        else (case osWrite S fd data os of (rc, os) \<Rightarrow>
          if rc < 0 \<and> osErrno S os = EINTR then write_loop S fd iOff data os else Some (rc, os)))"

declare write_loop.simps [code]

text \<open>The kernel is given \<open>nBuf & 0x1ffff\<close> bytes of the buffer from \<open>pos\<close>.\<close>

definition seekAndWriteFd ::
  "'os syscalls \<Rightarrow> cint \<Rightarrow> int \<Rightarrow> bytes \<Rightarrow> nat \<Rightarrow> int \<Rightarrow> cint \<Rightarrow> 'os \<Rightarrow>
     (int \<times> cint \<times> 'os) option" where
  "seekAndWriteFd S fd iOff buf pos nBuf piErrno os = do {
     data \<leftarrow> read_at buf pos (nat (nBuf AND 0x1ffff));
     (rc, os) \<leftarrow> write_loop S fd iOff data os;
     Some (rc, if rc < 0 then osErrno S os else piErrno, os)
   }"

definition seekAndWrite ::
  "'os syscalls \<Rightarrow> unixFile \<Rightarrow> int \<Rightarrow> bytes \<Rightarrow> nat \<Rightarrow> int \<Rightarrow> 'os \<Rightarrow>
     (int \<times> unixFile \<times> 'os) option" where
  "seekAndWrite S f offset buf pos cnt os = do {
     (rc, err, os) \<leftarrow> seekAndWriteFd S (h_fd f) offset buf pos cnt (lastErrno f) os;
     Some (rc, f\<lparr>lastErrno := err\<rparr>, os)
   }"

text \<open>The loop of \<open>unixWrite\<close>: it gives the last count written and what was left to write.\<close>

partial_function (option) unixWrite_loop ::
  "'os syscalls \<Rightarrow> unixFile \<Rightarrow> bytes \<Rightarrow> nat \<Rightarrow> int \<Rightarrow> int \<Rightarrow> 'os \<Rightarrow>
     (int \<times> int \<times> unixFile \<times> 'os) option" where
  "unixWrite_loop S f buf pos amt offset os =
     Option.bind (seekAndWrite S f offset buf pos amt os) (\<lambda>(wrote, f, os).
       if wrote < amt \<and> 0 < wrote
       then unixWrite_loop S f buf (pos + nat wrote) (amt - wrote) (offset + wrote) os
       else Some (wrote, amt, f, os))"

declare unixWrite_loop.simps [code]

definition unixWrite ::
  "'os syscalls \<Rightarrow> unixFile \<Rightarrow> bytes \<Rightarrow> int \<Rightarrow> int \<Rightarrow> 'os \<Rightarrow> (cint \<times> unixFile \<times> 'os) option" where
  "unixWrite S f buf amt offset os = do {
     (wrote, amt, f, os) \<leftarrow> unixWrite_loop S f buf 0 amt offset os;
     if wrote < amt then
       (if wrote < 0 \<and> lastErrno f \<noteq> ENOSPC then Some (SQLITE_IOERR_WRITE, f, os)
        else Some (SQLITE_FULL, storeLastErrno f 0, os))
     else Some (SQLITE_OK, f, os)
   }"

section \<open>Syncing\<close>

definition full_fsync :: "'os syscalls \<Rightarrow> cint \<Rightarrow> 'os \<Rightarrow> int \<times> 'os" where
  "full_fsync S fd os = osFsync S fd os"

definition MAX_PATHNAME :: nat where
  "MAX_PATHNAME = 512"

abbreviation SLASH :: byte where "SLASH \<equiv> 47"
abbreviation DOT :: byte where "DOT \<equiv> 46"
abbreviation DASH :: byte where "DASH \<equiv> 45"

text \<open>The index of the last slash, 0 when there is none behind the first character.\<close>

fun last_slash :: "bytes \<Rightarrow> nat \<Rightarrow> nat" where
  "last_slash z 0 = 0"
| "last_slash z (Suc ii) = (if z ! Suc ii = SLASH then Suc ii else last_slash z ii)"

definition dir_name :: "bytes \<Rightarrow> bytes option" where
  "dir_name zFilename = do {
     n \<leftarrow> c_strlen zFilename;
     let z = take (min n (MAX_PATHNAME - 1)) zFilename @ [0];
     let ii = last_slash z (length z - 1);
     Some (if 0 < ii then take ii z @ [0] else [if z ! 0 \<noteq> SLASH then DOT else z ! 0, 0])
   }"

definition openDirectory :: "'os syscalls \<Rightarrow> bytes \<Rightarrow> 'os \<Rightarrow> (cint \<times> cint \<times> 'os) option" where
  "openDirectory S zFilename os = do {
     d \<leftarrow> dir_name zFilename;
     (fd, os) \<leftarrow> robust_open S d O_RDONLY 0 os;
     Some (if 0 \<le> sint fd then SQLITE_OK else SQLITE_CANTOPEN, fd, os)
   }"

definition unixSync ::
  "'os syscalls \<Rightarrow> (ptr \<Rightarrow> bytes option) \<Rightarrow> unixFile \<Rightarrow> cint \<Rightarrow> 'os \<Rightarrow>
     (cint \<times> unixFile \<times> 'os) option" where
  "unixSync S mem f flags os =
     (case full_fsync S (h_fd f) os of (rc, os) \<Rightarrow>
        if rc \<noteq> 0 then Some (SQLITE_IOERR_FSYNC, storeLastErrno f (osErrno S os), os)
        else if ctrlFlags f AND UNIXFILE_DIRSYNC \<noteq> 0 then do {
          z \<leftarrow> mem (zPath f);
          (rc, dirfd, os) \<leftarrow> openDirectory S z os;
          let os = (if rc = SQLITE_OK
                    then robust_close S dirfd (snd (full_fsync S dirfd os)) else os);
          Some (SQLITE_OK, f\<lparr>ctrlFlags := ctrlFlags f AND NOT UNIXFILE_DIRSYNC\<rparr>, os)
        }
        else Some (SQLITE_OK, f, os))"

section \<open>Size\<close>

definition round_up :: "int \<Rightarrow> int \<Rightarrow> int" where
  "round_up nByte chunk = ((nByte + chunk - 1) sdiv chunk) * chunk"

definition unixTruncate ::
  "'os syscalls \<Rightarrow> unixFile \<Rightarrow> int \<Rightarrow> 'os \<Rightarrow> (cint \<times> unixFile \<times> 'os) option" where
  "unixTruncate S f nByte os = do {
     let nByte = (if 0 < sint (szChunk f) then round_up nByte (sint (szChunk f)) else nByte);
     (rc, os) \<leftarrow> robust_ftruncate S (h_fd f) nByte os;
     if rc \<noteq> 0 then Some (SQLITE_IOERR_TRUNCATE, storeLastErrno f (osErrno S os), os)
     else Some (SQLITE_OK,
            if nByte < sint (mmapSize f) then f\<lparr>mmapSize := word_of_int nByte\<rparr> else f, os)
   }"

text \<open>\<open>pSize\<close> keeps its value when the call fails. A size of one byte is reported as none.\<close>

definition unixFileSize ::
  "'os syscalls \<Rightarrow> unixFile \<Rightarrow> i64 \<Rightarrow> 'os \<Rightarrow> cint \<times> i64 \<times> unixFile \<times> 'os" where
  "unixFileSize S f pSize os =
     (case osFstat S (h_fd f) os of (rc, st, os) \<Rightarrow>
        if rc \<noteq> 0 then (SQLITE_IOERR_FSTAT, pSize, storeLastErrno f (osErrno S os), os)
        else (SQLITE_OK, word_of_int (if st_size st = 1 then 0 else st_size st), f, os))"

text \<open>Without \<open>posix_fallocate\<close> a file grows by one byte written at the end of each block.\<close>

partial_function (option) size_hint_loop ::
  "'os syscalls \<Rightarrow> unixFile \<Rightarrow> int \<Rightarrow> int \<Rightarrow> int \<Rightarrow> 'os \<Rightarrow> (cint \<times> unixFile \<times> 'os) option" where
  "size_hint_loop S f iWrite nSize nBlk os =
     (if iWrite < nSize + nBlk - 1 then
        Option.bind (seekAndWrite S f (if nSize \<le> iWrite then nSize - 1 else iWrite) [0] 0 1 os)
          (\<lambda>(nWrite, f, os).
             if nWrite \<noteq> 1 then Some (SQLITE_IOERR_WRITE, f, os)
             else size_hint_loop S f ((if nSize \<le> iWrite then nSize - 1 else iWrite) + nBlk)
                    nSize nBlk os)
      else Some (SQLITE_OK, f, os))"

declare size_hint_loop.simps [code]

definition size_hint_grow ::
  "'os syscalls \<Rightarrow> unixFile \<Rightarrow> int \<Rightarrow> 'os \<Rightarrow> (cint \<times> unixFile \<times> 'os) option" where
  "size_hint_grow S f nByte os =
     (case osFstat S (h_fd f) os of (rc, st, os) \<Rightarrow>
        if rc \<noteq> 0 then Some (SQLITE_IOERR_FSTAT, f, os)
        else
          (let nSize = round_up nByte (sint (szChunk f)); nBlk = st_blksize st in
           if st_size st < nSize then
             (if nBlk = 0 then None
              else size_hint_loop S f ((st_size st sdiv nBlk) * nBlk + nBlk - 1) nSize nBlk os)
           else Some (SQLITE_OK, f, os)))"

definition size_hint_map ::
  "'os syscalls \<Rightarrow> unixFile \<Rightarrow> int \<Rightarrow> 'os \<Rightarrow> (cint \<times> unixFile \<times> 'os) option" where
  "size_hint_map S f nByte os =
     (if 0 < sint (mmapSizeMax f) \<and> sint (mmapSize f) < nByte then do {
        (rc, os) \<leftarrow> (if sint (szChunk f) \<le> 0 then robust_ftruncate S (h_fd f) nByte os
                    else Some (0, os));
        if rc \<noteq> 0 then Some (SQLITE_IOERR_TRUNCATE, storeLastErrno f (osErrno S os), os)
        else Some (unixMapfile S f (word_of_int nByte) os)
      }
      else Some (SQLITE_OK, f, os))"

definition fcntlSizeHint ::
  "'os syscalls \<Rightarrow> unixFile \<Rightarrow> int \<Rightarrow> 'os \<Rightarrow> (cint \<times> unixFile \<times> 'os) option" where
  "fcntlSizeHint S f nByte os = do {
     (rc, f, os) \<leftarrow> (if 0 < sint (szChunk f) then size_hint_grow S f nByte os
                    else Some (SQLITE_OK, f, os));
     if rc \<noteq> SQLITE_OK then Some (rc, f, os) else size_hint_map S f nByte os
   }"

section \<open>File control\<close>

text \<open>A negative value asks for the bit, 0 clears it, another value sets it.\<close>

definition unixModeBit :: "unixFile \<Rightarrow> 16 word \<Rightarrow> cint \<Rightarrow> unixFile \<times> cint" where
  "unixModeBit f bits arg =
     (if sint arg < 0 then (f, if ctrlFlags f AND bits \<noteq> 0 then 1 else 0)
      else if arg = 0 then (f\<lparr>ctrlFlags := ctrlFlags f AND NOT bits\<rparr>, arg)
      else (f\<lparr>ctrlFlags := ctrlFlags f OR bits\<rparr>, arg))"

definition SQLITE_MAX_MMAP_SIZE :: int where
  "SQLITE_MAX_MMAP_SIZE = 0x7fff0000"

definition SQLITE_DEFAULT_MMAP_SIZE :: i64 where
  "SQLITE_DEFAULT_MMAP_SIZE = 0"

text \<open>\<open>SQLITE_FCNTL_MMAP_SIZE\<close>: the old limit is returned, the new one takes effect.\<close>

definition control_mmap_size ::
  "'os syscalls \<Rightarrow> unixFile \<Rightarrow> i64 \<Rightarrow> 'os \<Rightarrow> cint \<times> i64 \<times> unixFile \<times> 'os" where
  "control_mmap_size S f arg os =
     (let newLimit = (if SQLITE_MAX_MMAP_SIZE < sint arg
                      then word_of_int SQLITE_MAX_MMAP_SIZE else arg);
          old = mmapSizeMax f
      in if 0 \<le> sint newLimit \<and> newLimit \<noteq> mmapSizeMax f \<and> nFetchOut f = 0 then
           (let f = f\<lparr>mmapSizeMax := newLimit\<rparr> in
            if 0 < sint (mmapSize f) then
              (case unixUnmapfile S f os of (f, os) \<Rightarrow>
               case unixMapfile S f (- 1) os of (rc, f, os) \<Rightarrow> (rc, old, f, os))
            else (SQLITE_OK, old, f, os))
         else (SQLITE_OK, old, f, os))"

text \<open>
  The VFS object of the server, whose name \<open>SQLITE_FCNTL_VFSNAME\<close> returns; new strings
  are kept in the caller's \<open>strs\<close>.
\<close>

definition aVfs_unix :: ptr where
  "aVfs_unix = 0x10200"

definition vfs_name :: "ptr \<Rightarrow> bytes option" where
  "vfs_name p = (if p = aVfs_unix then Some [117, 110, 105, 120, 0] else None)"

definition new_string ::
  "bytes \<Rightarrow> 'os unix_state \<Rightarrow> (ptr \<rightharpoonup> bytes) \<Rightarrow> ptr \<times> 'os unix_state \<times> (ptr \<rightharpoonup> bytes)" where
  "new_string z st strs =
     (case us_malloc 512 st of (p, st) \<Rightarrow> (p, st, if p = NULL then strs else strs(p \<mapsto> z)))"

text \<open>
  \<open>pArg\<close> is the object the caller passes, \<open>None\<close> for a null pointer, which every
  operation with an argument dereferences.
\<close>

definition unixFileControl ::
  "'os syscalls \<Rightarrow> (ptr \<Rightarrow> bytes option) \<Rightarrow> unixFile \<Rightarrow> int \<Rightarrow> bytes option \<Rightarrow>
     'os unix_state \<Rightarrow> (ptr \<rightharpoonup> bytes) \<Rightarrow>
     (cint \<times> unixFile \<times> bytes option \<times> 'os unix_state \<times> (ptr \<rightharpoonup> bytes)) option" where
  "unixFileControl S mem f op pArg st strs =
     (if op = SQLITE_FCNTL_LOCKSTATE then do {
        b \<leftarrow> pArg; b \<leftarrow> memcpy b 0 (le32 (ucast (eFileLock f)));
        Some (SQLITE_OK, f, Some b, st, strs) }
      else if op = SQLITE_FCNTL_LAST_ERRNO then do {
        b \<leftarrow> pArg; b \<leftarrow> memcpy b 0 (le32 (lastErrno f));
        Some (SQLITE_OK, f, Some b, st, strs) }
      else if op = SQLITE_FCNTL_CHUNK_SIZE then do {
        b \<leftarrow> pArg; v \<leftarrow> get32 b 0;
        Some (SQLITE_OK, f\<lparr>szChunk := v\<rparr>, pArg, st, strs) }
      else if op = SQLITE_FCNTL_SIZE_HINT then do {
        b \<leftarrow> pArg; v \<leftarrow> get64 b 0;
        (rc, f, os) \<leftarrow> fcntlSizeHint S f (sint v) (us_os st);
        Some (rc, f, pArg, st\<lparr>us_os := os\<rparr>, strs) }
      else if op = SQLITE_FCNTL_PERSIST_WAL \<or> op = SQLITE_FCNTL_POWERSAFE_OVERWRITE then do {
        b \<leftarrow> pArg; v \<leftarrow> get32 b 0;
        let (f, v) = unixModeBit f (if op = SQLITE_FCNTL_PERSIST_WAL then UNIXFILE_PERSIST_WAL
                                    else UNIXFILE_PSOW) v;
        b \<leftarrow> memcpy b 0 (le32 v);
        Some (SQLITE_OK, f, Some b, st, strs) }
      else if op = SQLITE_FCNTL_VFSNAME then do {
        b \<leftarrow> pArg; z \<leftarrow> vfs_name (pVfs f);
        let (p, st, strs) = new_string z st strs;
        b \<leftarrow> memcpy b 0 (le64 p);
        Some (SQLITE_OK, f, Some b, st, strs) }
      else if op = SQLITE_FCNTL_TEMPFILENAME then do {
        _ \<leftarrow> vfs_name (pVfs f);
        let (_, z, os) = osTempname S (us_os st);
        let (p, st, strs) = new_string z (st\<lparr>us_os := os\<rparr>) strs;
        if p = NULL then Some (SQLITE_OK, f, pArg, st, strs)
        else do { b \<leftarrow> pArg; b \<leftarrow> memcpy b 0 (le64 p); Some (SQLITE_OK, f, Some b, st, strs) } }
      else if op = SQLITE_FCNTL_HAS_MOVED then do {
        b \<leftarrow> pArg; (moved, st) \<leftarrow> fileHasMoved S mem f st;
        b \<leftarrow> memcpy b 0 (le32 (if moved then 1 else 0));
        Some (SQLITE_OK, f, Some b, st, strs) }
      else if op = SQLITE_FCNTL_MMAP_SIZE then do {
        b \<leftarrow> pArg; v \<leftarrow> get64 b 0;
        let (rc, old, f, os) = control_mmap_size S f v (us_os st);
        b \<leftarrow> memcpy b 0 (le64 old);
        Some (rc, f, Some b, st\<lparr>us_os := os\<rparr>, strs) }
      else Some (SQLITE_NOTFOUND, f, pArg, st, strs))"

section \<open>Device\<close>

definition setDeviceCharacteristics :: "unixFile \<Rightarrow> unixFile" where
  "setDeviceCharacteristics f =
     (if sectorSize f = 0 then
        f\<lparr>deviceCharacteristics :=
            (if ctrlFlags f AND UNIXFILE_PSOW \<noteq> 0
             then deviceCharacteristics f OR SQLITE_IOCAP_POWERSAFE_OVERWRITE
             else deviceCharacteristics f),
          sectorSize := SQLITE_DEFAULT_SECTOR_SIZE\<rparr>
      else f)"

definition unixSectorSize :: "unixFile \<Rightarrow> cint \<times> unixFile" where
  "unixSectorSize f = (let f = setDeviceCharacteristics f in (sectorSize f, f))"

definition unixDeviceCharacteristics :: "unixFile \<Rightarrow> cint \<times> unixFile" where
  "unixDeviceCharacteristics f = (let f = setDeviceCharacteristics f in (deviceCharacteristics f, f))"

end
