(* ===== verification/Sqlite_Uri.thy ===== *)
theory Sqlite_Uri
  imports Bytes
begin

text \<open>
  The URI parameters of a file name (\<open>main.c\<close>, \<open>pragma.c\<close>, \<open>util.c\<close>), which
  \<open>unixOpen\<close> consults: behind the terminator of the name follow pairs of strings, a
  parameter and its value, up to an empty string. A name whose strings are not terminated
  inside its array makes the scan leave the array, \<open>None\<close>.
\<close>

definition is_digit :: "byte \<Rightarrow> bool" where
  "is_digit c \<longleftrightarrow> 48 \<le> c \<and> c \<le> 57"

definition is_xdigit :: "byte \<Rightarrow> bool" where
  "is_xdigit c \<longleftrightarrow> is_digit c \<or> 65 \<le> c \<and> c \<le> 70 \<or> 97 \<le> c \<and> c \<le> 102"

definition hex_value :: "byte \<Rightarrow> int" where
  "hex_value c = (if is_digit c then uint c - 48 else if c \<le> 70 then uint c - 55 else uint c - 87)"

definition lower :: "byte \<Rightarrow> byte" where
  "lower c = (if 65 \<le> c \<and> c \<le> 90 then c + 32 else c)"

text \<open>
  The strings below are given without their terminator; \<open>None\<close> is the C function's return
  value 0, with nothing stored.
\<close>

definition number :: "int \<Rightarrow> (byte \<Rightarrow> int) \<Rightarrow> bytes \<Rightarrow> int" where
  "number base value s = foldl (\<lambda>v c. v * base + value c) 0 s"

definition get_hex :: "bytes \<Rightarrow> int option" where
  "get_hex s =
     (let s = dropWhile (\<lambda>c. c = 48) s; ds = takeWhile is_xdigit (take 8 s);
          u = number 16 hex_value ds
      in if u < 2 ^ 31 \<and> \<not> (length ds < length s \<and> is_xdigit (s ! length ds))
         then Some u else None)"

definition get_decimal :: "bool \<Rightarrow> bytes \<Rightarrow> int option" where
  "get_decimal neg s =
     (if s = [] \<or> \<not> is_digit (hd s) then None
      else
        (let ds = takeWhile is_digit (take 11 (dropWhile (\<lambda>c. c = 48) s));
             v = number 10 (\<lambda>c. uint c - 48) ds
         in if 10 < length ds then None
            else if 2147483647 < v - (if neg then 1 else 0) then None
            else Some (if neg then - v else v)))"

definition sqlite3GetInt32 :: "bytes \<Rightarrow> int option" where
  "sqlite3GetInt32 s =
     (case s of
        c # cs \<Rightarrow>
          if c = 45 then get_decimal True cs
          else if c = 43 then get_decimal False cs
          else if c = 48 \<and> 2 \<le> length cs \<and> (cs ! 0 = 120 \<or> cs ! 0 = 88) \<and> is_xdigit (cs ! 1)
          then get_hex (drop 1 cs)
          else get_decimal False s
      | [] \<Rightarrow> get_decimal False s)"

definition sqlite3Atoi :: "bytes \<Rightarrow> int" where
  "sqlite3Atoi s = (case sqlite3GetInt32 s of None \<Rightarrow> 0 | Some v \<Rightarrow> v)"

text \<open>\<open>on, no, off, false, yes, true, extra, full\<close>\<close>

definition safety_words :: "(bytes \<times> int) list" where
  "safety_words =
     [([111, 110], 1), ([110, 111], 0), ([111, 102, 102], 0), ([102, 97, 108, 115, 101], 0),
      ([121, 101, 115], 1), ([116, 114, 117, 101], 1), ([101, 120, 116, 114, 97], 3),
      ([102, 117, 108, 108], 2)]"

definition getSafetyLevel :: "bytes \<Rightarrow> bool \<Rightarrow> int \<Rightarrow> int" where
  "getSafetyLevel s omitFull dflt =
     (if s \<noteq> [] \<and> is_digit (hd s) then sqlite3Atoi s mod 256
      else (case find (\<lambda>(w, v). w = map lower s \<and> (\<not> omitFull \<or> v \<le> 1)) safety_words of
              None \<Rightarrow> dflt | Some (_, v) \<Rightarrow> v))"

definition sqlite3GetBoolean :: "bytes \<Rightarrow> bool \<Rightarrow> bool" where
  "sqlite3GetBoolean s dflt = (getSafetyLevel s True (if dflt then 1 else 0) \<noteq> 0)"

text \<open>The loop of \<open>sqlite3_uri_parameter\<close>, on what follows the name.\<close>

function uri_scan :: "bytes \<Rightarrow> bytes \<Rightarrow> bytes option option" where
  "uri_scan z param =
     (case z of
        [] \<Rightarrow> None
      | c # _ \<Rightarrow>
          if c = 0 then Some None
          else (case c_strlen z of
                  None \<Rightarrow> None
                | Some n \<Rightarrow>
                    if take n z = param then Some (Some (drop (Suc n) z))
                    else (case c_strlen (drop (Suc n) z) of
                            None \<Rightarrow> None
                          | Some m \<Rightarrow> uri_scan (drop (Suc m) (drop (Suc n) z)) param)))"
  by pat_completeness auto
termination
  by (relation "measure (\<lambda>(z, _). length z)") auto

definition sqlite3_uri_parameter :: "bytes \<Rightarrow> bytes \<Rightarrow> bytes option option" where
  "sqlite3_uri_parameter zFilename param = do {
     n \<leftarrow> c_strlen zFilename;
     uri_scan (drop (Suc n) zFilename) param
   }"

text \<open>A null name has no parameters.\<close>

definition sqlite3_uri_boolean :: "bytes option \<Rightarrow> bytes \<Rightarrow> bool \<Rightarrow> bool option" where
  "sqlite3_uri_boolean zFilename param dflt =
     (case zFilename of
        None \<Rightarrow> Some dflt
      | Some z \<Rightarrow> do {
          v \<leftarrow> sqlite3_uri_parameter z param;
          case v of
            None \<Rightarrow> Some dflt
          | Some s \<Rightarrow> do { n \<leftarrow> c_strlen s; Some (sqlite3GetBoolean (take n s) dflt) }
        })"

lemma sqlite3GetInt32_range:
  "sqlite3GetInt32 s = Some v \<Longrightarrow> - (2 ^ 31) \<le> v \<and> v < 2 ^ 31"
proof -
  have nn: "0 \<le> number base value s" if "0 \<le> base" "\<forall>c \<in> set s. 0 \<le> value c" for base :: int and s :: bytes and "value"
    using that(2) unfolding number_def by (induction s rule: rev_induct) (simp_all add: that(1))
  have hex: "- (2 ^ 31) \<le> v \<and> v < 2 ^ 31" if "get_hex s = Some v" for s v
  proof -
    have "0 \<le> hex_value c" if "is_xdigit c" for c
      using that by (auto simp: hex_value_def is_xdigit_def is_digit_def word_le_def)
    then have "0 \<le> number 16 hex_value (takeWhile is_xdigit t)" for t
      by (intro nn) (auto dest: set_takeWhileD)
    then show ?thesis
      using that by (fastforce simp: get_hex_def Let_def intro: order_trans [of _ 0] split: if_splits)
  qed
  have dec: "- (2 ^ 31) \<le> v \<and> v < 2 ^ 31" if "get_decimal neg s = Some v" for neg s v
  proof -
    have "0 \<le> uint c - 48" if "is_digit c" for c
      using that by (auto simp: is_digit_def word_le_def)
    then have "0 \<le> number 10 (\<lambda>c. uint c - 48) (takeWhile is_digit t)" for t
      by (intro nn) (auto dest: set_takeWhileD)
    from this [of "take 11 (dropWhile (\<lambda>c. c = 48) s)"] show ?thesis
      using that by (auto simp: get_decimal_def Let_def split: if_splits)
  qed
  assume "sqlite3GetInt32 s = Some v"
  then show ?thesis
    by (auto simp: sqlite3GetInt32_def split: list.splits if_splits dest!: hex dec)
qed

end
