(* ===== verification/Method_List.thy ===== *)
theory Method_List
  imports Sqlite_Defs
begin

text \<open>
  The linked list of \<open>MethodAndFD\<close> nodes of \<open>os_arg_convert.c\<close>: for each file
  descriptor the server has seen, its I/O method table and the name the file was opened
  under. The list lives on a heap of nodes, with the pointers the code follows and a sentinel
  node at its head; the handlers put the address of a node's \<open>path\<close> array into
  \<open>unixFile.zPath\<close>, so addresses are part of the model. The list is shown to behave as a
  finite map from descriptors to method and name.
\<close>

section \<open>Nodes and the allocator\<close>

text \<open>
  \<open>nd_path\<close> is the part of the 512-byte array that has been written; a fresh node has
  none of it.
\<close>

record MethodAndFD =
  nd_fd :: cint
  nd_method :: ptr
  nd_path :: bytes
  nd_next :: ptr

definition SIZE_MethodAndFD :: int where
  "SIZE_MethodAndFD = 536"

definition PATH_LEN :: nat where
  "PATH_LEN = 512"

text \<open>Byte offset of \<open>path\<close> in a node.\<close>

definition OFFSET_path :: ptr where
  "OFFSET_path = 16"

text \<open>
  The list's heap: its nodes, the global \<open>listHead\<close> and the next address
  \<open>malloc\<close> gives out. \<open>malloc\<close> never reuses an address and returns null once the
  47-bit user address space is exhausted.
\<close>

record mlist =
  nodes :: "ptr \<rightharpoonup> MethodAndFD"
  listHead :: ptr
  m_brk :: ptr

definition MALLOC_TOP :: int where
  "MALLOC_TOP = 2 ^ 47"

definition malloc_node :: "mlist \<Rightarrow> ptr \<times> mlist" where
  "malloc_node ml =
     (if uint (m_brk ml) + SIZE_MethodAndFD \<le> MALLOC_TOP
      then (m_brk ml, ml\<lparr>m_brk := m_brk ml + word_of_int SIZE_MethodAndFD\<rparr>)
      else (NULL, ml))"

text \<open>A store through a node pointer; a null pointer faults.\<close>

definition put_node :: "ptr \<Rightarrow> MethodAndFD \<Rightarrow> mlist \<Rightarrow> mlist option" where
  "put_node a n ml = (if a = NULL then None else Some (ml\<lparr>nodes := (nodes ml)(a \<mapsto> n)\<rparr>))"

section \<open>The operations of the list\<close>

definition InitList :: "mlist \<Rightarrow> mlist option" where
  "InitList ml =
     (case malloc_node ml of (a, ml) \<Rightarrow>
        put_node a \<lparr>nd_fd = 0, nd_method = 0, nd_path = [], nd_next = NULL\<rparr>
          (ml\<lparr>listHead := a\<rparr>))"

definition ensure_list :: "mlist \<Rightarrow> mlist option" where
  "ensure_list ml = (if listHead ml = NULL then InitList ml else Some ml)"

text \<open>The loop of \<open>FindNode\<close>: the node found (or null) and the last node passed.\<close>

partial_function (option) find_loop ::
  "(ptr \<rightharpoonup> MethodAndFD) \<Rightarrow> cint \<Rightarrow> ptr \<Rightarrow> ptr \<Rightarrow> (ptr \<times> ptr) option" where
  "find_loop H fd temp pre =
     (if temp = NULL then Some (NULL, pre)
      else case H temp of
             None \<Rightarrow> None
           | Some n \<Rightarrow> if fd = nd_fd n then Some (temp, pre)
                       else find_loop H fd (nd_next n) temp)"

declare find_loop.simps [code]

definition FindNode :: "cint \<Rightarrow> ptr \<Rightarrow> mlist \<Rightarrow> (ptr \<times> ptr \<times> mlist) option" where
  "FindNode fd pre ml = do {
     ml \<leftarrow> ensure_list ml;
     hd \<leftarrow> nodes ml (listHead ml);
     (node, pre) \<leftarrow> find_loop (nodes ml) fd (nd_next hd) pre;
     Some (node, pre, ml)
   }"

definition AddNode :: "cint \<Rightarrow> ptr \<Rightarrow> mlist \<Rightarrow> mlist option" where
  "AddNode fd meth ml = do {
     ml \<leftarrow> ensure_list ml;
     (node, prev, ml) \<leftarrow> FindNode fd (listHead ml) ml;
     if node = NULL then
       case malloc_node ml of (temp, ml) \<Rightarrow> do {
         ml \<leftarrow> put_node temp \<lparr>nd_fd = fd, nd_method = meth, nd_path = [], nd_next = node\<rparr> ml;
         p \<leftarrow> nodes ml prev;
         put_node prev (p\<lparr>nd_next := temp\<rparr>) ml
       }
     else do {
       n \<leftarrow> nodes ml node;
       put_node node (n\<lparr>nd_method := meth\<rparr>) ml
     }
   }"

definition DeleteNode :: "cint \<Rightarrow> mlist \<Rightarrow> mlist option" where
  "DeleteNode fd ml = do {
     ml \<leftarrow> ensure_list ml;
     (node, prev, ml) \<leftarrow> FindNode fd (listHead ml) ml;
     if node = NULL then Some ml
     else do {
       p \<leftarrow> nodes ml prev;
       q \<leftarrow> nodes ml (nd_next p);
       ml \<leftarrow> put_node prev (p\<lparr>nd_next := nd_next q\<rparr>) ml;
       Some (ml\<lparr>nodes := (nodes ml)(node := None)\<rparr>)
     }
   }"

section \<open>Methods and names of the server's files\<close>

text \<open>
  Addresses of the static method tables of \<open>os_unix.c\<close>; only that they are distinct and
  not null matters.
\<close>

definition posixIoMethods :: ptr where
  "posixIoMethods = 0x10000"

definition nolockIoMethods :: ptr where
  "nolockIoMethods = 0x10100"

text \<open>\<open>setServicePath\<close> copies the string at \<open>path\<close> over the node's array.\<close>

definition setServicePath :: "cint \<Rightarrow> bytes \<Rightarrow> mlist \<Rightarrow> mlist option" where
  "setServicePath fd path ml = do {
     (node, _, ml) \<leftarrow> FindNode fd (listHead ml) ml;
     if node = NULL then Some ml
     else do {
       z \<leftarrow> c_string path;
       n \<leftarrow> nodes ml node;
       if length z \<le> PATH_LEN
       then put_node node (n\<lparr>nd_path := z @ drop (length z) (nd_path n)\<rparr>) ml
       else None
     }
   }"

definition getServicePath :: "cint \<Rightarrow> unixFile \<Rightarrow> mlist \<Rightarrow> (unixFile \<times> mlist) option" where
  "getServicePath fd f ml = do {
     (node, _, ml) \<leftarrow> FindNode fd (listHead ml) ml;
     Some (if node = NULL then f else f\<lparr>zPath := node + OFFSET_path\<rparr>, ml)
   }"

definition setServerUnixPMethods :: "cint \<Rightarrow> unixFile \<Rightarrow> mlist \<Rightarrow> mlist option" where
  "setServerUnixPMethods fd f ml = AddNode fd (pMethod f) ml"

definition getServerUnixPMethods :: "cint \<Rightarrow> unixFile \<Rightarrow> mlist \<Rightarrow> (unixFile \<times> mlist) option" where
  "getServerUnixPMethods fd f ml = do {
     (node, _, ml) \<leftarrow> FindNode fd (listHead ml) ml;
     if node = NULL then Some (f\<lparr>pMethod := posixIoMethods\<rparr>, ml)
     else do {
       n \<leftarrow> nodes ml node;
       Some (f\<lparr>pMethod := (if nd_method n = NULL then posixIoMethods else nd_method n)\<rparr>, ml)
     }
   }"

text \<open>The characters a \<open>zPath\<close> pointer reaches: the name array of a live node.\<close>

definition path_at :: "mlist \<Rightarrow> ptr \<Rightarrow> bytes option" where
  "path_at ml p = map_option nd_path (nodes ml (p - OFFSET_path))"

definition empty_mlist :: mlist where
  "empty_mlist = \<lparr>nodes = Map.empty, listHead = NULL, m_brk = 0x100000\<rparr>"


section \<open>Well-formed lists\<close>

text \<open>\<open>chain H p as\<close>: following \<open>nd_next\<close> from \<open>p\<close> visits the live nodes \<open>as\<close> and ends.\<close>

fun chain :: "(ptr \<rightharpoonup> MethodAndFD) \<Rightarrow> ptr \<Rightarrow> ptr list \<Rightarrow> bool" where
  "chain H p [] = (p = NULL)"
| "chain H p (a # as) =
     (p = a \<and> a \<noteq> NULL \<and> (case H a of None \<Rightarrow> False | Some n \<Rightarrow> chain H (nd_next n) as))"

definition node_fd :: "(ptr \<rightharpoonup> MethodAndFD) \<Rightarrow> ptr \<Rightarrow> cint" where
  "node_fd H a = (case H a of None \<Rightarrow> 0 | Some n \<Rightarrow> nd_fd n)"

definition alloc_ok :: "mlist \<Rightarrow> bool" where
  "alloc_ok ml \<longleftrightarrow> 0 < uint (m_brk ml) \<and>
     (\<forall>a \<in> dom (nodes ml). a \<noteq> NULL \<and> uint a < uint (m_brk ml))"

text \<open>
  A list whose nodes after the sentinel are \<open>as\<close>, with one node for each descriptor; before
  the first call there is no list at all.
\<close>

definition ml_shape :: "mlist \<Rightarrow> ptr list \<Rightarrow> bool" where
  "ml_shape ml as \<longleftrightarrow> alloc_ok ml \<and>
     (if listHead ml = NULL then as = [] \<and> nodes ml = Map.empty
      else chain (nodes ml) (listHead ml) (listHead ml # as) \<and>
           distinct (listHead ml # as) \<and> distinct (map (node_fd (nodes ml)) as))"

definition ml_inv :: "mlist \<Rightarrow> bool" where
  "ml_inv ml \<longleftrightarrow> (\<exists>as. ml_shape ml as)"

lemma ml_inv_empty: "ml_inv empty_mlist"
  by (auto simp: ml_inv_def ml_shape_def alloc_ok_def empty_mlist_def)

lemma chain_unique: "chain H p as \<Longrightarrow> chain H p bs \<Longrightarrow> as = bs"
proof (induction as arbitrary: p bs)
  case Nil
  then show ?case by (cases bs) auto
next
  case (Cons a as)
  then show ?case by (cases bs) (auto split: option.splits)
qed

lemma ml_shape_unique: "ml_shape ml as \<Longrightarrow> ml_shape ml bs \<Longrightarrow> as = bs"
  by (auto simp: ml_shape_def dest: chain_unique split: if_splits option.splits)

lemma chain_dom: "chain H p as \<Longrightarrow> a \<in> set as \<Longrightarrow> a \<noteq> NULL \<and> (\<exists>n. H a = Some n)"
  by (induction as arbitrary: p) (auto split: option.splits)

lemma chain_cong: "(\<And>a. a \<in> set as \<Longrightarrow> H' a = H a) \<Longrightarrow> chain H' p as = chain H p as"
  by (induction as arbitrary: p) (auto split: option.splits)

lemma chain_upd_same_next:
  "H a = Some n \<Longrightarrow> nd_next n' = nd_next n \<Longrightarrow> chain (H(a \<mapsto> n')) p as = chain H p as"
  by (induction as arbitrary: p) (auto split: option.splits)

text \<open>Where the loop stops on the nodes \<open>as\<close>: the node with the descriptor and its predecessor.\<close>

fun locate :: "(ptr \<rightharpoonup> MethodAndFD) \<Rightarrow> cint \<Rightarrow> ptr \<Rightarrow> ptr list \<Rightarrow> ptr \<times> ptr" where
  "locate H fd pre [] = (NULL, pre)"
| "locate H fd pre (a # as) = (if node_fd H a = fd then (a, pre) else locate H fd a as)"

text \<open>The loop returns on every finite chain, and finds what \<open>locate\<close> says.\<close>

lemma find_loop_chain: "chain H p as \<Longrightarrow> find_loop H fd p pre = Some (locate H fd pre as)"
proof (induction as arbitrary: p pre)
  case Nil
  then show ?case by (simp add: find_loop.simps)
next
  case (Cons a as)
  then show ?case
    by (auto simp: find_loop.simps [of H fd a] node_fd_def split: option.splits)
qed

lemma locate_absent:
  "fd \<notin> node_fd H ` set as \<Longrightarrow> locate H fd pre as = (NULL, last (pre # as))"
  by (induction as arbitrary: pre) auto

lemma locate_present:
  "fd \<in> node_fd H ` set as \<Longrightarrow>
     \<exists>xs ys a l. pre # as = xs @ l # a # ys \<and> node_fd H a = fd \<and> locate H fd pre as = (a, l)"
proof (induction as arbitrary: pre)
  case Nil
  then show ?case by simp
next
  case (Cons b as)
  show ?case
  proof (cases "node_fd H b = fd")
    case True
    then show ?thesis by (intro exI [of _ "[]"] exI [of _ as]) simp
  next
    case False
    with Cons.prems have "fd \<in> node_fd H ` set as" by auto
    from Cons.IH [OF this, of b] obtain xs ys a l where
      "b # as = xs @ l # a # ys" "node_fd H a = fd" "locate H fd b as = (a, l)" by blast
    moreover from False have "locate H fd pre (b # as) = locate H fd b as" by simp
    ultimately have "pre # b # as = (pre # xs) @ l # a # ys \<and> node_fd H a = fd \<and>
        locate H fd pre (b # as) = (a, l)" by (metis append_Cons)
    then show ?thesis by blast
  qed
qed

lemma locate_distinct:
  "distinct (map (node_fd H) as) \<Longrightarrow> a \<in> set as \<Longrightarrow> fst (locate H (node_fd H a) pre as) = a"
  by (induction as arbitrary: pre) auto


section \<open>The list as a finite map\<close>

definition node_val :: "(ptr \<rightharpoonup> MethodAndFD) \<Rightarrow> ptr \<Rightarrow> ptr \<times> bytes" where
  "node_val H a = (case H a of None \<Rightarrow> (NULL, []) | Some n \<Rightarrow> (nd_method n, nd_path n))"

definition entries :: "(ptr \<rightharpoonup> MethodAndFD) \<Rightarrow> ptr list \<Rightarrow> (cint \<times> ptr \<times> bytes) list" where
  "entries H as = map (\<lambda>a. (node_fd H a, node_val H a)) as"

text \<open>What the list says of a descriptor: its method table and the string area of its name.\<close>

definition ml_lookup :: "mlist \<Rightarrow> cint \<Rightarrow> (ptr \<times> bytes) option" where
  "ml_lookup ml fd =
     (if listHead ml = NULL then None
      else do {
        (node, _, ml) \<leftarrow> FindNode fd (listHead ml) ml;
        n \<leftarrow> nodes ml node;
        Some (nd_method n, nd_path n)
      })"

lemma entries_simps [simp]:
  "entries H [] = []"
  "entries H (a # as) = (node_fd H a, node_val H a) # entries H as"
  "entries H (as @ bs) = entries H as @ entries H bs"
  by (simp_all add: entries_def)

lemma fst_entries: "map fst (entries H as) = map (node_fd H) as"
  by (simp add: entries_def)

lemma entries_cong: "(\<And>a. a \<in> set as \<Longrightarrow> H' a = H a) \<Longrightarrow> entries H' as = entries H as"
  by (simp add: entries_def node_fd_def node_val_def)

lemma map_node_fd_cong:
  "(\<And>a. a \<in> set as \<Longrightarrow> node_fd H' a = node_fd H a) \<Longrightarrow> map (node_fd H') as = map (node_fd H) as"
  by simp

lemma map_of_entries_None: "map_of (entries H as) fd = None \<longleftrightarrow> fd \<notin> node_fd H ` set as"
  by (simp add: entries_def map_of_eq_None_iff image_image)

lemma map_of_entries_Some:
  "distinct (map (node_fd H) as) \<Longrightarrow> a \<in> set as \<Longrightarrow>
     map_of (entries H as) (node_fd H a) = Some (node_val H a)"
  by (induction as) (auto simp: image_iff)

lemma map_of_entries_upd:
  assumes "distinct (map (node_fd H) as)" and "a \<in> set as" and "nd_fd n' = node_fd H a"
    and "distinct as"
  shows "map_of (entries (H(a \<mapsto> n')) as) =
           (map_of (entries H as))(node_fd H a \<mapsto> (nd_method n', nd_path n'))"
  using assms
proof (induction as)
  case Nil
  then show ?case by simp
next
  case (Cons b as)
  show ?case
  proof (cases "b = a")
    case True
    with Cons.prems have "entries (H(a \<mapsto> n')) as = entries H as"
      by (intro entries_cong) auto
    moreover have "node_fd (H(a \<mapsto> n')) a = node_fd H a"
        "node_val (H(a \<mapsto> n')) a = (nd_method n', nd_path n')"
      using Cons.prems(3) by (simp_all add: node_fd_def [of "H(a \<mapsto> n')"] node_val_def)
    ultimately show ?thesis using True by (simp del: fun_upd_apply)
  next
    case False
    have "map_of (entries (H(a \<mapsto> n')) as) =
        (map_of (entries H as))(node_fd H a \<mapsto> (nd_method n', nd_path n'))"
      using Cons.prems False by (intro Cons.IH) auto
    moreover have "node_fd H b \<noteq> node_fd H a" using Cons.prems False by auto
    moreover have "node_fd (H(a \<mapsto> n')) b = node_fd H b" "node_val (H(a \<mapsto> n')) b = node_val H b"
      using False by (simp_all add: node_fd_def node_val_def)
    ultimately show ?thesis by (simp add: fun_upd_twist del: fun_upd_apply)
  qed
qed

text \<open>A list that exists, spelt out.\<close>

lemma ml_shapeD:
  assumes "ml_shape ml as" and "listHead ml \<noteq> NULL"
  obtains hd where "nodes ml (listHead ml) = Some hd" "chain (nodes ml) (nd_next hd) as"
    "distinct (listHead ml # as)" "distinct (map (node_fd (nodes ml)) as)" "alloc_ok ml"
  using assms by (auto simp: ml_shape_def split: option.splits)

lemma FindNode_shape:
  assumes "ml_shape ml as" and "listHead ml \<noteq> NULL"
  shows "FindNode fd pre ml =
           (case locate (nodes ml) fd pre as of (node, pre') \<Rightarrow> Some (node, pre', ml))"
  using assms
  by (auto elim!: ml_shapeD simp: FindNode_def ensure_list_def find_loop_chain split: prod.splits)

lemma locate_found:
  "chain H p as \<Longrightarrow> fd \<in> node_fd H ` set as \<Longrightarrow> fst (locate H fd pre as) \<noteq> NULL"
  by (induction as arbitrary: p pre) (auto split: option.splits)

lemma locate_dom:
  assumes "chain H p as" and "locate H fd pre as = (a, l)" and "a \<noteq> NULL"
  shows "a \<in> set as \<and> node_fd H a = fd \<and> (\<exists>n. H a = Some n \<and> nd_fd n = fd)"
proof -
  have "fd \<in> node_fd H ` set as"
    using assms locate_absent [of fd H as pre] by fastforce
  from locate_present [OF this, of pre] assms(2) have "a \<in> set as" "node_fd H a = fd"
    by (auto simp: Cons_eq_append_conv append_eq_Cons_conv)
  with chain_dom [OF assms(1), of a] show ?thesis by (auto simp: node_fd_def)
qed

lemma ml_lookup_entries:
  assumes "ml_shape ml as"
  shows "ml_lookup ml = map_of (entries (nodes ml) as)"
proof (cases "listHead ml = NULL")
  case True
  with assms show ?thesis by (auto simp: ml_lookup_def ml_shape_def)
next
  case False
  let ?H = "nodes ml"
  obtain hd where "?H (listHead ml) = Some hd" and c: "chain ?H (nd_next hd) as"
    and "distinct (listHead ml # as)" and d: "distinct (map (node_fd ?H) as)"
    and al: "alloc_ok ml"
    using assms False by (rule ml_shapeD)
  show ?thesis
  proof
    fix fd
    show "ml_lookup ml fd = map_of (entries ?H as) fd"
    proof (cases "fd \<in> node_fd ?H ` set as")
      case True
      then obtain a where a: "a \<in> set as" "fd = node_fd ?H a" by auto
      have "fst (locate ?H fd (listHead ml) as) = a"
        using locate_distinct [OF d a(1)] a(2) by simp
      moreover obtain n where "?H a = Some n" using chain_dom [OF c a(1)] by blast
      ultimately show ?thesis
        using a d False FindNode_shape [OF assms False, of fd "listHead ml"]
        by (auto simp: ml_lookup_def map_of_entries_Some node_val_def split: prod.splits)
    next
      case F: False
      have "?H NULL = None" using al by (auto simp: alloc_ok_def)
      with F False show ?thesis
        by (simp add: ml_lookup_def FindNode_shape [OF assms False] locate_absent
            map_of_entries_None [THEN iffD2])
    qed
  qed
qed


section \<open>What each operation does to the map\<close>

definition ml_room :: "nat \<Rightarrow> mlist \<Rightarrow> bool" where
  "ml_room k ml \<longleftrightarrow> uint (m_brk ml) + int k * SIZE_MethodAndFD \<le> MALLOC_TOP"

lemma malloc_nodeE:
  assumes "malloc_node ml = (t, ml')" and "alloc_ok ml" and "t \<noteq> NULL"
  shows "t \<notin> dom (nodes ml)" and "nodes ml' = nodes ml" and "listHead ml' = listHead ml"
    and "uint (m_brk ml') = uint (m_brk ml) + SIZE_MethodAndFD" and "t = m_brk ml"
proof -
  have c: "uint (m_brk ml) + 536 \<le> 2 ^ 47"
    and t: "t = m_brk ml" and ml': "ml' = ml\<lparr>m_brk := m_brk ml + 536\<rparr>"
    using assms by (auto simp: malloc_node_def MALLOC_TOP_def SIZE_MethodAndFD_def split: if_splits)
  have "uint (m_brk ml + 536) = uint (m_brk ml) + 536"
    using c by (simp add: uint_word_ariths)
  then show "uint (m_brk ml') = uint (m_brk ml) + SIZE_MethodAndFD"
    by (simp add: ml' SIZE_MethodAndFD_def)
  show "t \<notin> dom (nodes ml)" using assms(2) t by (force simp: alloc_ok_def)
qed (use assms in \<open>auto simp: malloc_node_def split: if_splits\<close>)

lemma malloc_node_room:
  assumes "ml_room (Suc k) ml" and "alloc_ok ml"
  obtains ml' where "malloc_node ml = (m_brk ml, ml')" "m_brk ml \<noteq> NULL" "ml_room k ml'"
proof -
  let ?ml' = "ml\<lparr>m_brk := m_brk ml + word_of_int SIZE_MethodAndFD\<rparr>"
  have m: "malloc_node ml = (m_brk ml, ?ml')" and nz: "m_brk ml \<noteq> NULL"
    using assms by (auto simp: malloc_node_def ml_room_def alloc_ok_def SIZE_MethodAndFD_def)
  have "ml_room k ?ml'"
    using malloc_nodeE(4) [OF m assms(2) nz] assms(1)
    by (simp add: ml_room_def SIZE_MethodAndFD_def)
  with m nz show ?thesis by (rule that)
qed

lemma alloc_ok_grow:
  assumes "alloc_ok ml" and "uint (m_brk ml) \<le> uint (m_brk ml')"
    and "\<And>a. a \<in> dom (nodes ml') \<Longrightarrow> a \<in> dom (nodes ml) \<or> a \<noteq> NULL \<and> uint a < uint (m_brk ml')"
  shows "alloc_ok ml'"
  unfolding alloc_ok_def
proof (intro conjI ballI)
  show "0 < uint (m_brk ml')" using assms(1,2) by (simp add: alloc_ok_def)
next
  fix a assume "a \<in> dom (nodes ml')"
  with assms show "a \<noteq> NULL" "uint a < uint (m_brk ml')"
    by (auto simp: alloc_ok_def dest!: bspec [of _ _ a] intro: less_le_trans)
qed

lemma ensure_list_shape:
  assumes "ml_shape ml as" and "ensure_list ml = Some ml'"
  shows "ml_shape ml' as" and "listHead ml' \<noteq> NULL" and "ml_lookup ml' = ml_lookup ml"
    and "nodes ml a = Some n \<Longrightarrow> nodes ml' a = Some n" and "ml_room (Suc k) ml \<Longrightarrow> ml_room k ml'"
proof -
  have "ml_shape ml' as \<and> listHead ml' \<noteq> NULL \<and> (\<forall>a n. nodes ml a = Some n \<longrightarrow> nodes ml' a = Some n)
      \<and> (ml_room (Suc k) ml \<longrightarrow> ml_room k ml')"
  proof (cases "listHead ml = NULL")
    case False
    with assms show ?thesis
      by (auto simp: ensure_list_def ml_room_def SIZE_MethodAndFD_def)
  next
    case True
    with assms have al: "alloc_ok ml" and e: "as = []" "nodes ml = Map.empty"
      by (auto simp: ml_shape_def)
    obtain t m where m: "malloc_node ml = (t, m)" by fastforce
    with assms(2) True have t: "t \<noteq> NULL"
      and ml': "ml' = m\<lparr>listHead := t,
        nodes := (nodes m)(t \<mapsto> \<lparr>nd_fd = 0, nd_method = 0, nd_path = [], nd_next = NULL\<rparr>)\<rparr>"
      by (auto simp: ensure_list_def InitList_def put_node_def split: if_splits)
    note mf = malloc_nodeE [OF m al t]
    have "alloc_ok ml'"
      by (rule alloc_ok_grow [OF al]) (use mf t in \<open>auto simp: ml' SIZE_MethodAndFD_def\<close>)
    with t e mf show ?thesis
      by (simp add: ml_shape_def ml_room_def ml' algebra_simps)
  qed
  then show "ml_shape ml' as" "listHead ml' \<noteq> NULL"
    "nodes ml a = Some n \<Longrightarrow> nodes ml' a = Some n" "ml_room (Suc k) ml \<Longrightarrow> ml_room k ml'" by auto
  show "ml_lookup ml' = ml_lookup ml"
  proof (cases "listHead ml = NULL")
    case False
    with assms show ?thesis by (simp add: ensure_list_def)
  next
    case True
    with assms(1) have "as = []" by (simp add: ml_shape_def)
    with \<open>ml_shape ml' as\<close> assms(1) show ?thesis by (simp add: ml_lookup_entries)
  qed
qed

lemma ensure_list_room:
  assumes "ml_shape ml as" and "ml_room (Suc k) ml"
  obtains ml' where "ensure_list ml = Some ml'"
proof (cases "listHead ml = NULL")
  case True
  obtain m where "malloc_node ml = (m_brk ml, m)" "m_brk ml \<noteq> NULL"
    using malloc_node_room [OF assms(2)] assms(1) by (auto simp: ml_shape_def)
  with True that show ?thesis
    by (simp add: ensure_list_def InitList_def put_node_def)
qed (use that in \<open>simp add: ensure_list_def\<close>)

lemma ensure_list_initialised: "listHead ml \<noteq> NULL \<Longrightarrow> ensure_list ml = Some ml"
  by (simp add: ensure_list_def)


text \<open>A store that keeps a node's descriptor and link keeps the list.\<close>

lemma shape_upd:
  assumes "ml_shape ml as" and "listHead ml \<noteq> NULL" and "a \<in> set as" and "nodes ml a = Some n"
    and "nd_fd n' = nd_fd n" and "nd_next n' = nd_next n"
  shows "ml_shape (ml\<lparr>nodes := (nodes ml)(a \<mapsto> n')\<rparr>) as"
    and "ml_lookup (ml\<lparr>nodes := (nodes ml)(a \<mapsto> n')\<rparr>) =
           (ml_lookup ml)(nd_fd n \<mapsto> (nd_method n', nd_path n'))"
proof -
  let ?H = "nodes ml" and ?H' = "(nodes ml)(a \<mapsto> n')"
  have fd: "node_fd ?H' b = node_fd ?H b" for b
    using assms(4,5) by (simp add: node_fd_def)
  have fd': "map (node_fd ?H') as = map (node_fd ?H) as"
    by (rule map_node_fd_cong) (rule fd)
  have "chain ?H' (listHead ml) (listHead ml # as)"
    using assms by (subst chain_upd_same_next [of ?H a n n']) (simp_all add: ml_shape_def)
  moreover have "alloc_ok (ml\<lparr>nodes := ?H'\<rparr>)"
    using assms(1,4) by (auto simp: ml_shape_def alloc_ok_def)
  moreover have "distinct (map (node_fd ?H') as)"
    unfolding fd' using assms(1,2) by (simp add: ml_shape_def)
  ultimately show S: "ml_shape (ml\<lparr>nodes := ?H'\<rparr>) as"
    using assms(1,2) by (simp add: ml_shape_def del: chain.simps fun_upd_apply)
  have "node_fd ?H a = nd_fd n" using assms(4) by (simp add: node_fd_def)
  with map_of_entries_upd [of ?H as a n'] assms
  show "ml_lookup (ml\<lparr>nodes := ?H'\<rparr>) = (ml_lookup ml)(nd_fd n \<mapsto> (nd_method n', nd_path n'))"
    by (simp add: ml_lookup_entries [OF S] ml_lookup_entries [OF assms(1)] ml_shape_def
        del: fun_upd_apply)
qed

lemma chain_snoc:
  assumes "chain H p (xs @ [l])" and "t \<notin> set (xs @ [l])" and "t \<noteq> NULL"
    and "distinct (xs @ [l])" and "H l = Some n" and "nd_next new = NULL"
  shows "chain (H(t \<mapsto> new, l \<mapsto> n\<lparr>nd_next := t\<rparr>)) p (xs @ [l, t])"
  using assms
proof (induction xs arbitrary: p)
  case Nil
  then show ?case by auto
next
  case (Cons x xs)
  then show ?case by (auto split: option.splits)
qed

lemma chain_del:
  assumes "chain H p (xs @ l # t # ys)" and "distinct (xs @ l # t # ys)"
    and "H l = Some n" and "H t = Some m"
  shows "chain (H(l \<mapsto> n\<lparr>nd_next := nd_next m\<rparr>, t := None)) p (xs @ l # ys)"
  using assms
proof (induction xs arbitrary: p)
  case Nil
  define H' where "H' = H(l \<mapsto> n\<lparr>nd_next := nd_next m\<rparr>, t := None)"
  have "chain H (nd_next m) ys" using Nil.prems by simp
  then have "chain H' (nd_next m) ys"
    using Nil.prems by (subst chain_cong [of _ _ H]) (auto simp: H'_def)
  moreover have "H' l = Some (n\<lparr>nd_next := nd_next m\<rparr>)" "p = l" "l \<noteq> NULL"
    using Nil.prems by (auto simp: H'_def)
  ultimately have "chain H' p ([] @ l # ys)" by simp
  then show ?case by (simp only: H'_def)
next
  case (Cons x xs)
  then show ?case by (auto split: option.splits)
qed

text \<open>Appending a node for a new descriptor, and unlinking the node of a descriptor.\<close>

lemma shape_append:
  assumes sh: "ml_shape ml as" and nn: "listHead ml \<noteq> NULL" and new: "fd \<notin> node_fd (nodes ml) ` set as"
    and l: "nodes ml (last (listHead ml # as)) = Some p"
    and m: "malloc_node ml = (t, ml1)" and t: "t \<noteq> NULL"
    and ml': "ml' = ml1\<lparr>nodes := (nodes ml)(t \<mapsto> \<lparr>nd_fd = fd, nd_method = meth, nd_path = [], nd_next = NULL\<rparr>,
                last (listHead ml # as) \<mapsto> p\<lparr>nd_next := t\<rparr>)\<rparr>"
  shows "ml_shape ml' (as @ [t])" and "ml_lookup ml' = (ml_lookup ml)(fd \<mapsto> (meth, []))"
proof -
  let ?hd = "listHead ml" and ?H = "nodes ml" and ?H' = "nodes ml'"
  let ?l = "last (?hd # as)"
  note mf = malloc_nodeE [OF m _ t]
  have al: "alloc_ok ml" and ch: "chain ?H ?hd (?hd # as)" and d: "distinct (?hd # as)"
    and dfd: "distinct (map (node_fd ?H) as)"
    using sh nn by (auto simp: ml_shape_def)
  have tn: "t \<notin> dom ?H" using mf(1) al by simp
  have mem: "set (?hd # as) \<subseteq> dom ?H" using chain_dom [OF ch] by auto
  have tl: "t \<notin> set (?hd # as)" using mem tn by blast
  have lt: "?l \<noteq> t" using l tn by auto
  have sp: "butlast (?hd # as) @ [?l] = ?hd # as" by (rule append_butlast_last_id) simp
  have H'fd: "node_fd ?H' a = node_fd ?H a" if "a \<noteq> t" for a
    using that l by (simp add: ml' node_fd_def)
  have H'val: "node_val ?H' a = node_val ?H a" if "a \<noteq> t" for a
    using that l by (simp add: ml' node_val_def)
  have Ht: "node_fd ?H' t = fd" "node_val ?H' t = (meth, [])"
    using lt by (simp_all add: ml' node_fd_def node_val_def)
  have ne: "a \<noteq> t" if "a \<in> set as" for a
    using that tl by auto
  have ent: "entries ?H' as = entries ?H as" and mfd: "map (node_fd ?H') as = map (node_fd ?H) as"
    unfolding entries_def by (auto simp: H'fd H'val ne)
  have nodes': "?H' = ?H(t \<mapsto> \<lparr>nd_fd = fd, nd_method = meth, nd_path = [], nd_next = NULL\<rparr>,
                ?l \<mapsto> p\<lparr>nd_next := t\<rparr>)"
    by (simp add: ml')
  have c0: "chain ?H ?hd (butlast (?hd # as) @ [?l])" using ch by (simp only: sp)
  have t0: "t \<notin> set (butlast (?hd # as) @ [?l])" using tl by (simp only: sp) simp
  have d0: "distinct (butlast (?hd # as) @ [?l])" using d by (simp only: sp)
  have "chain ?H' ?hd (butlast (?hd # as) @ [?l, t])"
    unfolding nodes' by (rule chain_snoc [OF c0 t0 t d0 l]) simp
  also have "butlast (?hd # as) @ [?l, t] = (?hd # as) @ [t]"
    using sp by (metis append.assoc append_Cons append_Nil)
  finally have ch': "chain ?H' ?hd (?hd # as @ [t])" by simp
  have al': "alloc_ok ml'"
    by (rule alloc_ok_grow [OF al])
      (use mf [OF al] t l in \<open>auto simp: ml' SIZE_MethodAndFD_def split: if_splits\<close>)
  have hd': "listHead ml' = ?hd" using mf(3) al by (simp add: ml')
  have "distinct (map (node_fd ?H') as @ [fd])" unfolding mfd using dfd new by simp
  then have "distinct (map (node_fd ?H') (as @ [t]))" by (simp only: map_append list.map Ht)
  with ch' al' hd' d tl nn show S: "ml_shape ml' (as @ [t])"
    by (auto simp: ml_shape_def simp del: chain.simps)
  show "ml_lookup ml' = (ml_lookup ml)(fd \<mapsto> (meth, []))"
    using new by (simp add: ml_lookup_entries [OF S] ml_lookup_entries [OF sh] ent Ht map_add_def
        fun_eq_iff map_of_entries_None [THEN iffD2] split: option.split)
qed


lemma AddNode_spec:
  assumes "ml_inv ml" and "AddNode fd meth ml = Some ml'"
  shows "ml_inv ml'"
    and "ml_lookup ml' = (ml_lookup ml)(fd \<mapsto> (meth, case ml_lookup ml fd of None \<Rightarrow> [] | Some (_, p) \<Rightarrow> p))"
proof -
  obtain as where sh: "ml_shape ml as" using assms(1) by (auto simp: ml_inv_def)
  obtain m1 where e: "ensure_list ml = Some m1"
    using assms(2) by (auto simp: AddNode_def bind_eq_Some_iff)
  note e' = ensure_list_shape [OF sh e]
  let ?H = "nodes m1"
  obtain hd where hd: "?H (listHead m1) = Some hd" and ch: "chain ?H (nd_next hd) as"
    and d: "distinct (listHead m1 # as)" and dfd: "distinct (map (node_fd ?H) as)"
    and al: "alloc_ok m1" using e'(1,2) by (rule ml_shapeD)
  obtain a l where loc: "locate ?H fd (listHead m1) as = (a, l)" by fastforce
  have F: "FindNode fd (listHead m1) m1 = Some (a, l, m1)"
    by (simp add: FindNode_shape [OF e'(1,2)] loc)
  have "ml_inv ml' \<and> ml_lookup ml' = (ml_lookup m1)(fd \<mapsto>
      (meth, case ml_lookup m1 fd of None \<Rightarrow> [] | Some (_, p) \<Rightarrow> p))"
  proof (cases "fd \<in> node_fd ?H ` set as")
    case True
    then have "a \<noteq> NULL" using locate_found [OF ch True, of "listHead m1"] loc by simp
    from locate_dom [OF ch loc this] obtain n where
      a: "a \<in> set as" "?H a = Some n" "nd_fd n = fd" by blast
    have ml': "ml' = m1\<lparr>nodes := ?H(a \<mapsto> n\<lparr>nd_method := meth\<rparr>)\<rparr>"
      using assms(2) \<open>a \<noteq> NULL\<close> a by (simp add: AddNode_def e F put_node_def)
    have "ml_lookup m1 fd = Some (nd_method n, nd_path n)"
      using map_of_entries_Some [OF dfd a(1)] a(2,3)
      by (simp add: ml_lookup_entries [OF e'(1)] node_fd_def node_val_def)
    then show ?thesis
      using shape_upd [OF e'(1,2) a(1,2), of "n\<lparr>nd_method := meth\<rparr>"] a(3)
      by (auto simp: ml' ml_inv_def)
  next
    case F0: False
    then have al': "a = NULL" "l = last (listHead m1 # as)"
      using loc locate_absent [OF F0, of "listHead m1"] by auto
    obtain t m2 where m: "malloc_node m1 = (t, m2)" by fastforce
    have t: "t \<noteq> NULL" using assms(2) by (auto simp: AddNode_def e F al' m put_node_def split: if_splits)
    note mf = malloc_nodeE [OF m al t]
    have "l \<noteq> NULL \<and> (\<exists>p. ?H l = Some p)"
      using chain_dom [of ?H "listHead m1" "listHead m1 # as" l] e'(1,2) al'(2)
      by (simp add: ml_shape_def del: chain.simps)
    then obtain p where p: "?H l = Some p" "l \<noteq> NULL" by blast
    have "l \<noteq> t" using mf(1) p by auto
    then have ml': "ml' = m2\<lparr>nodes := ?H(t \<mapsto> \<lparr>nd_fd = fd, nd_method = meth, nd_path = [], nd_next = NULL\<rparr>,
         last (listHead m1 # as) \<mapsto> p\<lparr>nd_next := t\<rparr>)\<rparr>"
      using assms(2) p t mf(2) al' by (simp add: AddNode_def e F m put_node_def)
    have "ml_lookup m1 fd = None"
      using F0 by (simp add: ml_lookup_entries [OF e'(1)] map_of_entries_None)
    with shape_append [OF e'(1,2) F0 _ m t ml'] p al' show ?thesis
      by (auto simp: ml_inv_def)
  qed
  then show "ml_inv ml'" "ml_lookup ml' = (ml_lookup ml)(fd \<mapsto>
      (meth, case ml_lookup ml fd of None \<Rightarrow> [] | Some (_, p) \<Rightarrow> p))"
    by (simp_all add: e'(3))
qed


text \<open>Looking a descriptor up finds the node that holds its entry, if there is one.\<close>

lemma FindNode_spec:
  assumes "ml_shape ml as" and "listHead ml \<noteq> NULL"
  obtains (absent) l where "FindNode fd pre ml = Some (NULL, l, ml)" "ml_lookup ml fd = None"
  | (present) a l n where "FindNode fd pre ml = Some (a, l, ml)" "a \<noteq> NULL" "a \<in> set as"
      "nodes ml a = Some n" "nd_fd n = fd" "ml_lookup ml fd = Some (nd_method n, nd_path n)"
proof -
  obtain hd where "nodes ml (listHead ml) = Some hd" and ch: "chain (nodes ml) (nd_next hd) as"
    and "distinct (listHead ml # as)" and dfd: "distinct (map (node_fd (nodes ml)) as)"
    and "alloc_ok ml" using assms by (rule ml_shapeD)
  obtain a l where loc: "locate (nodes ml) fd pre as = (a, l)" by fastforce
  then have F: "FindNode fd pre ml = Some (a, l, ml)" by (simp add: FindNode_shape [OF assms])
  show ?thesis
  proof (cases "fd \<in> node_fd (nodes ml) ` set as")
    case False
    then have "a = NULL" using loc locate_absent [OF False, of pre] by auto
    moreover have "ml_lookup ml fd = None"
      using False by (simp add: ml_lookup_entries [OF assms(1)] map_of_entries_None)
    ultimately show ?thesis using F absent by blast
  next
    case True
    then have nn: "a \<noteq> NULL" using locate_found [OF ch True, of pre] loc by simp
    from locate_dom [OF ch loc nn] obtain n where n: "a \<in> set as" "nodes ml a = Some n" "nd_fd n = fd"
      by blast
    with map_of_entries_Some [OF dfd n(1)] have "ml_lookup ml fd = Some (nd_method n, nd_path n)"
      by (simp add: ml_lookup_entries [OF assms(1)] node_fd_def node_val_def)
    with F nn n show ?thesis by (rule present)
  qed
qed

text \<open>On a list that does not exist yet, a lookup creates it and finds nothing.\<close>

lemma FindNode_NULL:
  "listHead ml = NULL \<Longrightarrow> ensure_list ml = Some m1 \<Longrightarrow> ml_shape ml as \<Longrightarrow>
     FindNode fd pre ml = FindNode fd pre m1"
  using ensure_list_shape(2) [of ml as m1]
  by (simp add: FindNode_def ensure_list_initialised)

lemma FindNode_cases:
  assumes "ml_inv ml" and "FindNode fd pre ml = Some (a, l, ml')"
  obtains (absent) as where "ml_shape ml' as" "listHead ml' \<noteq> NULL" "ml_lookup ml' = ml_lookup ml"
      "ml_lookup ml fd = None" "a = NULL"
  | (present) as n where "ml_shape ml' as" "listHead ml' \<noteq> NULL" "ml_lookup ml' = ml_lookup ml"
      "a \<noteq> NULL" "a \<in> set as" "nodes ml' a = Some n" "nd_fd n = fd"
      "ml_lookup ml fd = Some (nd_method n, nd_path n)"
proof -
  obtain as where sh: "ml_shape ml as" using assms(1) by (auto simp: ml_inv_def)
  obtain m1 where e: "ensure_list ml = Some m1"
    using assms(2) by (auto simp: FindNode_def bind_eq_Some_iff)
  note e' = ensure_list_shape [OF sh e]
  have "FindNode fd pre ml = FindNode fd pre m1"
    using FindNode_NULL [OF _ e sh] e by (cases "listHead ml = NULL") (auto simp: ensure_list_def)
  with assms(2) have F: "FindNode fd pre m1 = Some (a, l, ml')" by simp
  from e'(1,2) show ?thesis
  proof (cases rule: FindNode_spec [where fd = fd and pre = pre])
    case (absent l')
    with F e' that(1) show ?thesis by simp
  next
    case (present b l' n)
    with F e' that(2) show ?thesis by simp
  qed
qed

text \<open>
  \<open>linked ml a\<close>: the address \<open>a\<close> is reached from the sentinel by following \<open>nd_next\<close>, a fact
  of the nodes alone.  On a well-formed list the linked addresses are those of its nodes, and the
  null pointer the last one leads to.
\<close>

inductive linked :: "mlist \<Rightarrow> ptr \<Rightarrow> bool" for ml :: mlist where
  first: "nodes ml (listHead ml) = Some n \<Longrightarrow> linked ml (nd_next n)"
| further: "linked ml a \<Longrightarrow> nodes ml a = Some n \<Longrightarrow> linked ml (nd_next n)"

lemma chain_next:
  "chain H p as \<Longrightarrow> a \<in> set as \<Longrightarrow> H a = Some n \<Longrightarrow> nd_next n = NULL \<or> nd_next n \<in> set as"
proof (induction as arbitrary: p)
  case Nil
  then show ?case by simp
next
  case (Cons b as)
  show ?case
  proof (cases "a = b")
    case True
    with Cons.prems have "chain H (nd_next n) as" by simp
    then show ?thesis by (cases as) auto
  next
    case False
    with Cons show ?thesis by (auto split: option.splits)
  qed
qed

lemma chain_linked:
  "chain (nodes ml) p as \<Longrightarrow> linked ml p \<Longrightarrow> a \<in> set as \<Longrightarrow> linked ml a"
  by (induction as arbitrary: p) (auto split: option.splits intro: linked.further)

lemma linked_shape:
  assumes "ml_shape ml as" and "listHead ml \<noteq> NULL" and "nodes ml a = Some n"
  shows "linked ml a \<longleftrightarrow> a \<in> set as"
proof -
  obtain hd where hd: "nodes ml (listHead ml) = Some hd" and c: "chain (nodes ml) (nd_next hd) as"
    and al: "alloc_ok ml"
    using assms(1,2) by (rule ml_shapeD)
  have "linked ml b \<Longrightarrow> b = NULL \<or> b \<in> set as" for b
  proof (induction rule: linked.induct)
    case (first m)
    with hd c show ?case by (cases as) auto
  next
    case (further b m)
    with al chain_next [OF c] show ?case by (auto simp: alloc_ok_def)
  qed
  moreover have "a \<noteq> NULL" using al assms(3) by (auto simp: alloc_ok_def)
  ultimately show ?thesis using chain_linked [OF c linked.first [OF hd]] by blast
qed

lemma linked_NULL: "ml_shape ml as \<Longrightarrow> listHead ml = NULL \<Longrightarrow> nodes ml a = None"
  by (simp add: ml_shape_def)

text \<open>What \<open>FindNode\<close> returns, in terms of the nodes alone.\<close>

lemma FindNode_linked:
  assumes "ml_inv ml" and F: "FindNode fd pre ml = Some (a, l, ml')"
  shows "if a = NULL then \<forall>b n. linked ml b \<and> nodes ml b = Some n \<longrightarrow> nd_fd n \<noteq> fd
     else linked ml a \<and> (\<exists>n. nodes ml a = Some n \<and> nd_fd n = fd)"
proof -
  obtain as where sh: "ml_shape ml as" using assms(1) by (auto simp: ml_inv_def)
  show ?thesis
  proof (cases "listHead ml = NULL")
    case True
    from sh True have "ml_lookup ml fd = None" by (simp add: ml_lookup_def)
    with FindNode_cases [OF assms] have "a = NULL" by (metis option.distinct(1))
    with linked_NULL [OF sh True] show ?thesis by simp
  next
    case False
    from sh False show ?thesis
    proof (cases rule: FindNode_spec [where fd = fd and pre = pre])
      case (absent l')
      have "nd_fd n \<noteq> fd" if "linked ml b" "nodes ml b = Some n" for b n
      proof -
        have "b \<in> set as" using linked_shape [OF sh False that(2)] that(1) by simp
        then have "node_fd (nodes ml) b \<in> node_fd (nodes ml) ` set as" by (rule imageI)
        moreover have "node_fd (nodes ml) b = nd_fd n" using that(2) by (simp add: node_fd_def)
        ultimately show ?thesis
          using absent(2) by (auto simp: ml_lookup_entries [OF sh] map_of_entries_None)
      qed
      with absent(1) F show ?thesis by auto
    next
      case (present b l' n)
      with F linked_shape [OF sh False present(4)] show ?thesis by auto
    qed
  qed
qed

lemma setServicePath_spec:
  assumes "ml_inv ml" and "setServicePath fd path ml = Some ml'"
  shows "ml_inv ml'"
    and "ml_lookup ml' = (case ml_lookup ml fd of None \<Rightarrow> ml_lookup ml
           | Some (meth, p) \<Rightarrow> (case c_string path of None \<Rightarrow> ml_lookup ml
               | Some z \<Rightarrow> (ml_lookup ml)(fd \<mapsto> (meth, z @ drop (length z) p))))"
proof -
  obtain a l m1 where F: "FindNode fd (listHead ml) ml = Some (a, l, m1)"
    using assms(2) by (auto simp: setServicePath_def bind_eq_Some_iff)
  have "ml_inv ml' \<and> ml_lookup ml' = (case ml_lookup ml fd of None \<Rightarrow> ml_lookup ml
           | Some (meth, p) \<Rightarrow> (case c_string path of None \<Rightarrow> ml_lookup ml
               | Some z \<Rightarrow> (ml_lookup ml)(fd \<mapsto> (meth, z @ drop (length z) p))))"
  proof (cases "ml_lookup ml fd")
    case None
    from assms(1) F show ?thesis
      by (rule FindNode_cases) (use assms(2) F None in \<open>auto simp: setServicePath_def ml_inv_def\<close>)
  next
    case (Some v)
    from assms(1) F obtain as n where sh: "ml_shape m1 as" and h: "listHead m1 \<noteq> NULL"
      and lk: "ml_lookup m1 = ml_lookup ml" and a: "a \<noteq> NULL" "nodes m1 a = Some n" "nd_fd n = fd"
      and "a \<in> set as" and v: "v = (nd_method n, nd_path n)"
      by (rule FindNode_cases) (use Some in auto)
    obtain z where "c_string path = Some z" "length z \<le> PATH_LEN"
      and ml': "ml' = m1\<lparr>nodes := (nodes m1)(a \<mapsto> n\<lparr>nd_path := z @ drop (length z) (nd_path n)\<rparr>)\<rparr>"
      using assms(2) a by (auto simp: setServicePath_def F bind_eq_Some_iff put_node_def split: if_splits)
    then show ?thesis
      using shape_upd [OF sh h \<open>a \<in> set as\<close> a(2), of "n\<lparr>nd_path := z @ drop (length z) (nd_path n)\<rparr>"] a(3)
      by (auto simp: v Some lk ml_inv_def)
  qed
  then show "ml_inv ml'" "ml_lookup ml' = (case ml_lookup ml fd of None \<Rightarrow> ml_lookup ml
           | Some (meth, p) \<Rightarrow> (case c_string path of None \<Rightarrow> ml_lookup ml
               | Some z \<Rightarrow> (ml_lookup ml)(fd \<mapsto> (meth, z @ drop (length z) p))))" by auto
qed


lemma shape_delete:
  assumes sh: "ml_shape ml as" and nn: "listHead ml \<noteq> NULL"
    and sp: "listHead ml # as = xs @ l # t # ys"
    and l: "nodes ml l = Some n" and t: "nodes ml t = Some m"
    and ml': "ml' = ml\<lparr>nodes := (nodes ml)(l \<mapsto> n\<lparr>nd_next := nd_next m\<rparr>, t := None)\<rparr>"
  shows "ml_inv ml'" and "ml_lookup ml' = (ml_lookup ml)(nd_fd m := None)"
proof -
  let ?hd = "listHead ml" and ?H = "nodes ml" and ?H' = "nodes ml'"
  have al: "alloc_ok ml" and ch: "chain ?H ?hd (?hd # as)" and d: "distinct (?hd # as)"
    and dfd: "distinct (map (node_fd ?H) as)"
    using sh nn by (auto simp: ml_shape_def)
  have ch': "chain ?H' ?hd (xs @ l # ys)"
    using chain_del [of ?H ?hd xs l t ys n m] ch d l t unfolding sp by (simp add: ml')
  obtain as1 as2 where as: "as = as1 @ t # as2" and as': "xs @ l # ys = ?hd # as1 @ as2"
  proof (cases xs)
    case Nil
    with sp that [of "[]" ys] show ?thesis by simp
  next
    case (Cons x xs')
    with sp that [of "xs' @ [l]" ys] show ?thesis by simp
  qed
  have fd: "node_fd ?H' a = node_fd ?H a" "node_val ?H' a = node_val ?H a" if "a \<noteq> t" for a
    using that l by (auto simp: ml' node_fd_def node_val_def)
  have ne: "a \<noteq> t" if "a \<in> set (as1 @ as2)" for a using that d as by auto
  have ent: "entries ?H' (as1 @ as2) = entries ?H (as1 @ as2)"
    unfolding entries_def using fd ne by (intro map_cong refl) simp
  have mfd: "map (node_fd ?H') (as1 @ as2) = map (node_fd ?H) (as1 @ as2)"
    using fd(1) ne by (intro map_cong refl) simp
  have "alloc_ok ml'" using al l by (auto simp: alloc_ok_def ml' split: if_splits)
  moreover have "distinct (map (node_fd ?H') (as1 @ as2))"
    unfolding mfd using dfd as by auto
  moreover have "distinct (?hd # as1 @ as2)" using d as by auto
  moreover have "listHead ml' = ?hd" by (simp add: ml')
  ultimately have S: "ml_shape ml' (as1 @ as2)"
    using ch' nn unfolding as' by (simp add: ml_shape_def del: chain.simps)
  then show "ml_inv ml'" by (auto simp: ml_inv_def)
  have k: "node_fd ?H t = nd_fd m" using t by (simp add: node_fd_def)
  have "nd_fd m \<notin> node_fd ?H ` set (as1 @ as2)" using dfd as k by auto
  then have "map_of (entries ?H (as1 @ as2)) (nd_fd m) = None"
    by (simp only: map_of_entries_None not_False_eq_True)
  then show "ml_lookup ml' = (ml_lookup ml)(nd_fd m := None)"
    unfolding ml_lookup_entries [OF S] ml_lookup_entries [OF sh] ent
    by (auto simp: as k fun_eq_iff map_add_def split: option.splits)
qed

lemma DeleteNode_spec:
  assumes "ml_inv ml" and "DeleteNode fd ml = Some ml'"
  shows "ml_inv ml' \<and> ml_lookup ml' = (ml_lookup ml)(fd := None)"
proof -
  obtain as where sh: "ml_shape ml as" using assms(1) by (auto simp: ml_inv_def)
  obtain m1 where e: "ensure_list ml = Some m1"
    using assms(2) by (auto simp: DeleteNode_def bind_eq_Some_iff)
  note e' = ensure_list_shape [OF sh e]
  let ?H = "nodes m1"
  obtain hd where "?H (listHead m1) = Some hd" and ch: "chain ?H (nd_next hd) as"
    and d: "distinct (listHead m1 # as)" and dfd: "distinct (map (node_fd ?H) as)"
    and al: "alloc_ok m1" using e'(1,2) by (rule ml_shapeD)
  show ?thesis
  proof (cases "fd \<in> node_fd ?H ` set as")
    case False
    have "ml_lookup m1 fd = None"
      using False by (simp add: ml_lookup_entries [OF e'(1)] map_of_entries_None)
    moreover have "ml' = m1"
      using assms(2) by (simp add: DeleteNode_def e FindNode_shape [OF e'(1,2)] locate_absent [OF False])
    ultimately show ?thesis using e' by (auto simp: ml_inv_def fun_upd_idem)
  next
    case True
    from locate_present [OF True, of "listHead m1"] obtain xs ys a l where
      sp: "listHead m1 # as = xs @ l # a # ys" and loc: "locate ?H fd (listHead m1) as = (a, l)"
      by blast
    have nn: "a \<noteq> NULL" using locate_found [OF ch True, of "listHead m1"] loc by simp
    from locate_dom [OF ch loc nn] obtain m where m: "?H a = Some m" "nd_fd m = fd" by blast
    have chh: "chain ?H (listHead m1) (listHead m1 # as)"
      using e'(1,2) by (simp add: ml_shape_def del: chain.simps)
    have "l \<in> set (listHead m1 # as)" unfolding sp by simp
    with chain_dom [OF chh] obtain n where n: "?H l = Some n" "l \<noteq> NULL" by blast
    have nx: "nd_next n = a"
    proof -
      have "chain H p (xs @ l # a # ys) \<Longrightarrow> H l = Some n \<Longrightarrow> nd_next n = a" for H p
        by (induction xs arbitrary: p) (auto split: option.splits)
      with chh n show ?thesis unfolding sp by blast
    qed
    have "ml' = m1\<lparr>nodes := ?H(l \<mapsto> n\<lparr>nd_next := nd_next m\<rparr>, a := None)\<rparr>"
      using assms(2) nn n nx m
      by (simp add: DeleteNode_def e FindNode_shape [OF e'(1,2)] loc put_node_def)
    from shape_delete [OF e'(1,2) sp n(1) m(1) this] m(2) e'(3) show ?thesis by simp
  qed
qed


section \<open>Room for new descriptors\<close>

text \<open>Two free nodes (the sentinel and one more) are enough for any call to succeed.\<close>

lemma FindNode_defined:
  assumes "ml_inv ml" and "ml_room (Suc k) ml"
  obtains a l ml' where "FindNode fd pre ml = Some (a, l, ml')" "ml_room k ml'"
proof -
  obtain as where sh: "ml_shape ml as" using assms(1) by (auto simp: ml_inv_def)
  obtain m1 where e: "ensure_list ml = Some m1" by (rule ensure_list_room [OF sh assms(2)])
  note e' = ensure_list_shape [OF sh e]
  have "FindNode fd pre ml = FindNode fd pre m1"
    using FindNode_NULL [OF _ e sh] e by (cases "listHead ml = NULL") (auto simp: ensure_list_def)
  with FindNode_shape [OF e'(1,2), of fd pre] e'(5) [OF assms(2)] that show ?thesis
    by (auto split: prod.splits)
qed

lemma AddNode_defined:
  assumes "ml_inv ml" and "ml_room (Suc (Suc k)) ml"
  shows "\<exists>ml'. AddNode fd meth ml = Some ml' \<and> ml_room k ml'"
proof -
  obtain as where sh: "ml_shape ml as" using assms(1) by (auto simp: ml_inv_def)
  obtain m1 where e: "ensure_list ml = Some m1" by (rule ensure_list_room [OF sh assms(2)])
  note e' = ensure_list_shape [OF sh e]
  have r1: "ml_room (Suc k) m1" using e'(5) assms(2) by blast
  have al: "alloc_ok m1" using e'(1) by (simp add: ml_shape_def)
  obtain a l where "locate (nodes m1) fd (listHead m1) as = (a, l)" by fastforce
  then have F: "FindNode fd (listHead m1) m1 = Some (a, l, m1)"
    by (simp add: FindNode_shape [OF e'(1,2)])
  have inv: "ml_inv m1" using e'(1) by (auto simp: ml_inv_def)
  from inv F show ?thesis
  proof (cases rule: FindNode_cases)
    case (present bs n)
    then show ?thesis using r1 by (simp add: AddNode_def e F put_node_def ml_room_def SIZE_MethodAndFD_def)
  next
    case (absent bs)
    have "fd \<notin> node_fd (nodes m1) ` set as"
      using absent(4) by (simp add: ml_lookup_entries [OF e'(1)] map_of_entries_None)
    then have l: "l = last (listHead m1 # as)"
      using F FindNode_shape [OF e'(1,2)] by (auto simp: locate_absent)
    have "l \<noteq> NULL \<and> (\<exists>p. nodes m1 l = Some p)"
      using chain_dom [of "nodes m1" "listHead m1" "listHead m1 # as" l] e'(1,2) l
      by (simp add: ml_shape_def del: chain.simps)
    then obtain p where p: "nodes m1 l = Some p" "l \<noteq> NULL" by blast
    obtain m3 where m3: "malloc_node m1 = (m_brk m1, m3)" "m_brk m1 \<noteq> NULL" "ml_room k m3"
      using malloc_node_room [OF r1 al] by blast
    have "l \<noteq> m_brk m1" "nodes m3 = nodes m1"
      using malloc_nodeE(1,2) [OF m3(1) al m3(2)] p by auto
    with p m3 absent show ?thesis by (simp add: AddNode_def e F put_node_def ml_room_def)
  qed
qed

lemma DeleteNode_defined:
  assumes "ml_inv ml" and "ml_room (Suc k) ml"
  shows "\<exists>ml'. DeleteNode fd ml = Some ml'"
proof -
  obtain as where sh: "ml_shape ml as" using assms(1) by (auto simp: ml_inv_def)
  obtain m1 where e: "ensure_list ml = Some m1" by (rule ensure_list_room [OF sh assms(2)])
  note e' = ensure_list_shape [OF sh e]
  let ?H = "nodes m1"
  have chh: "chain ?H (listHead m1) (listHead m1 # as)"
    using e'(1,2) by (simp add: ml_shape_def del: chain.simps)
  show ?thesis
  proof (cases "fd \<in> node_fd ?H ` set as")
    case False
    then show ?thesis
      by (simp add: DeleteNode_def e FindNode_shape [OF e'(1,2)] locate_absent)
  next
    case True
    from locate_present [OF True, of "listHead m1"] obtain xs ys a l where
      sp: "listHead m1 # as = xs @ l # a # ys" and loc: "locate ?H fd (listHead m1) as = (a, l)"
      by blast
    have "l \<in> set (listHead m1 # as)" "a \<in> set (listHead m1 # as)" unfolding sp by simp_all
    with chain_dom [OF chh] obtain n m where n: "?H l = Some n" "l \<noteq> NULL" "?H a = Some m" by blast
    have "nd_next n = a"
    proof -
      have "chain H p (xs @ l # a # ys) \<Longrightarrow> H l = Some n \<Longrightarrow> nd_next n = a" for H p
        by (induction xs arbitrary: p) (auto split: option.splits)
      with chh n show ?thesis unfolding sp by blast
    qed
    with n show ?thesis
      by (auto simp: DeleteNode_def e FindNode_shape [OF e'(1,2)] loc put_node_def)
  qed
qed

section \<open>The interface the handlers rely on\<close>

text \<open>
  What the request handlers need of the list: a map from descriptors to a method table and a
  name, in which adding a descriptor, renaming it and deleting it change that descriptor only.
\<close>

locale fd_table =
  fixes inv :: "'s \<Rightarrow> bool" and lookup :: "'s \<Rightarrow> cint \<Rightarrow> (ptr \<times> bytes) option"
    and add :: "cint \<Rightarrow> ptr \<Rightarrow> 's \<Rightarrow> 's option" and rename :: "cint \<Rightarrow> bytes \<Rightarrow> 's \<Rightarrow> 's option"
    and delete :: "cint \<Rightarrow> 's \<Rightarrow> 's option"
  assumes add_inv: "inv s \<Longrightarrow> add fd m s = Some s' \<Longrightarrow> inv s'"
    and add_lookup: "inv s \<Longrightarrow> add fd m s = Some s' \<Longrightarrow>
      lookup s' = (lookup s)(fd \<mapsto> (m, case lookup s fd of None \<Rightarrow> [] | Some (_, p) \<Rightarrow> p))"
    and rename_inv: "inv s \<Longrightarrow> rename fd path s = Some s' \<Longrightarrow> inv s'"
    and rename_lookup: "inv s \<Longrightarrow> rename fd path s = Some s' \<Longrightarrow>
      lookup s' = (case lookup s fd of None \<Rightarrow> lookup s
         | Some (m, p) \<Rightarrow> (case c_string path of None \<Rightarrow> lookup s
             | Some z \<Rightarrow> (lookup s)(fd \<mapsto> (m, z @ drop (length z) p))))"
    and delete_inv: "inv s \<Longrightarrow> delete fd s = Some s' \<Longrightarrow> inv s'"
    and delete_lookup: "inv s \<Longrightarrow> delete fd s = Some s' \<Longrightarrow> lookup s' = (lookup s)(fd := None)"
begin

lemmas inv_steps = add_inv rename_inv delete_inv

text \<open>Registering a descriptor, as the handler of an open does, makes its method and name known.\<close>

lemma registered:
  assumes "inv s" and "add fd m s = Some s1" and "rename fd path s1 = Some s2"
    and "c_string path = Some z"
  shows "inv s2" and "\<exists>p. lookup s2 fd = Some (m, p) \<and> c_string p = Some z"
    and "fd' \<noteq> fd \<Longrightarrow> lookup s2 fd' = lookup s fd'"
proof -
  have i1: "inv s1" by (rule add_inv [OF assms(1,2)])
  show "inv s2" by (rule rename_inv [OF i1 assms(3)])
  show "\<exists>p. lookup s2 fd = Some (m, p) \<and> c_string p = Some z"
    by (simp add: rename_lookup [OF i1 assms(3)] add_lookup [OF assms(1,2)] assms(4)
        c_string_append c_string_idem [OF assms(4)])
  show "lookup s2 fd' = lookup s fd'" if "fd' \<noteq> fd"
    using that by (simp add: rename_lookup [OF i1 assms(3)] add_lookup [OF assms(1,2)] assms(4))
qed

lemma forgotten:
  assumes "inv s" and "delete fd s = Some s'"
  shows "lookup s' fd = None" and "fd' \<noteq> fd \<Longrightarrow> lookup s' fd' = lookup s fd'"
  by (simp_all add: delete_lookup [OF assms])

lemma add_replaces_method:
  assumes "inv s" and "lookup s fd = Some (m, p)" and "add fd m' s = Some s'"
  shows "lookup s' fd = Some (m', p)"
  by (simp add: add_lookup [OF assms(1,3)] assms(2))

end

interpretation methods: fd_table ml_inv ml_lookup AddNode setServicePath DeleteNode
  by unfold_locales
    (erule (1) AddNode_spec setServicePath_spec DeleteNode_spec [THEN conjunct1]
      DeleteNode_spec [THEN conjunct2])+

section \<open>A handler's accesses to the list\<close>

lemma getServerUnixPMethods_spec:
  assumes "ml_inv ml" and "getServerUnixPMethods fd f ml = Some (f', ml')"
  shows "ml_inv ml'" and "ml_lookup ml' = ml_lookup ml"
    and "f' = f\<lparr>pMethod := (case ml_lookup ml fd of None \<Rightarrow> posixIoMethods
                 | Some (m, _) \<Rightarrow> if m = NULL then posixIoMethods else m)\<rparr>"
proof -
  obtain a l m1 where F: "FindNode fd (listHead ml) ml = Some (a, l, m1)"
    using assms(2) by (auto simp: getServerUnixPMethods_def bind_eq_Some_iff)
  from assms(1) F
  have "ml_inv ml' \<and> ml_lookup ml' = ml_lookup ml \<and> f' = f\<lparr>pMethod := (case ml_lookup ml fd of
      None \<Rightarrow> posixIoMethods | Some (m, _) \<Rightarrow> if m = NULL then posixIoMethods else m)\<rparr>"
    by (rule FindNode_cases) (use assms(2) F in \<open>auto simp: getServerUnixPMethods_def ml_inv_def\<close>)
  then show "ml_inv ml'" "ml_lookup ml' = ml_lookup ml" "f' = f\<lparr>pMethod := (case ml_lookup ml fd of
      None \<Rightarrow> posixIoMethods | Some (m, _) \<Rightarrow> if m = NULL then posixIoMethods else m)\<rparr>" by auto
qed

lemma getServicePath_spec:
  assumes "ml_inv ml" and "getServicePath fd f ml = Some (f', ml')"
  shows "ml_inv ml'" and "ml_lookup ml' = ml_lookup ml"
    and "f' = f\<lparr>zPath := zPath f'\<rparr>"
    and "ml_lookup ml fd = None \<Longrightarrow> f' = f"
    and "ml_lookup ml fd = Some (m, p) \<Longrightarrow> path_at ml' (zPath f') = Some p"
proof -
  obtain a l m1 where F: "FindNode fd (listHead ml) ml = Some (a, l, m1)"
    using assms(2) by (auto simp: getServicePath_def bind_eq_Some_iff)
  from assms(1) F
  have "ml_inv ml' \<and> ml_lookup ml' = ml_lookup ml \<and> f' = f\<lparr>zPath := zPath f'\<rparr> \<and>
      (ml_lookup ml fd = None \<longrightarrow> f' = f) \<and>
      (ml_lookup ml fd = Some (m, p) \<longrightarrow> path_at ml' (zPath f') = Some p)"
    by (rule FindNode_cases)
      (use assms(2) F in \<open>auto simp: getServicePath_def path_at_def ml_inv_def\<close>)
  then show "ml_inv ml'" "ml_lookup ml' = ml_lookup ml" "f' = f\<lparr>zPath := zPath f'\<rparr>"
    "ml_lookup ml fd = None \<Longrightarrow> f' = f"
    "ml_lookup ml fd = Some (m, p) \<Longrightarrow> path_at ml' (zPath f') = Some p" by auto
qed

text \<open>
  What a handler finds for a descriptor: the recorded method table, or that of posix locks
  where the descriptor is unknown or has none.
\<close>

definition served_method :: "ptr \<Rightarrow> ptr" where
  "served_method m = (if m = NULL then posixIoMethods else m)"

text \<open>The list has a name for the descriptor that fits its array.\<close>

definition served :: "mlist \<Rightarrow> cint \<Rightarrow> bool" where
  "served ml fd \<longleftrightarrow>
     (case ml_lookup ml fd of None \<Rightarrow> False
      | Some (m, p) \<Rightarrow> (case c_string p of None \<Rightarrow> False | Some z \<Rightarrow> length z \<le> PATH_LEN))"

text \<open>
  A request on such a descriptor reads the method table and the name into the handle and
  stores them back: the list is as it was, but for a method table that was missing.
\<close>

lemma known_descriptor:
  assumes inv: "ml_inv ml" and lk: "ml_lookup ml fd = Some (m, p)"
    and z: "c_string p = Some z" "length z \<le> PATH_LEN"
  obtains a ml' where "path_at ml (a + OFFSET_path) = Some p"
    "\<And>f. getServerUnixPMethods fd f ml = Some (f\<lparr>pMethod := served_method m\<rparr>, ml)"
    "\<And>f. getServicePath fd f ml = Some (f\<lparr>zPath := a + OFFSET_path\<rparr>, ml)"
    "AddNode fd (served_method m) ml = Some ml'" "path_at ml' (a + OFFSET_path) = Some p"
    "setServicePath fd p ml' = Some ml'"
    "ml_inv ml'" "ml_lookup ml' = (ml_lookup ml)(fd \<mapsto> (served_method m, p))"
    "m \<noteq> NULL \<Longrightarrow> ml' = ml"
proof -
  obtain as where sh: "ml_shape ml as" using inv by (auto simp: ml_inv_def)
  have h: "listHead ml \<noteq> NULL" using lk by (auto simp: ml_lookup_def split: if_splits)
  from sh h show ?thesis
  proof (cases rule: FindNode_spec [where fd = fd and pre = "listHead ml"])
    case (absent l)
    with lk show ?thesis by simp
  next
    case (present a l n)
    let ?n = "n\<lparr>nd_method := served_method m\<rparr>"
    let ?ml = "ml\<lparr>nodes := (nodes ml)(a \<mapsto> ?n)\<rparr>"
    have n: "nd_method n = m" "nd_path n = p" using present lk by simp_all
    note F = present(1-2,4) n
    have add: "AddNode fd (served_method m) ml = Some ?ml"
      by (simp add: AddNode_def ensure_list_initialised [OF h] F put_node_def)
    have inv': "ml_inv ?ml" and lk': "ml_lookup ?ml = (ml_lookup ml)(fd \<mapsto> (served_method m, p))"
      using AddNode_spec [OF inv add] lk by simp_all
    have p': "path_at ?ml (a + OFFSET_path) = Some p" by (simp add: path_at_def n)
    have sp: "setServicePath fd p ?ml = Some ?ml"
    proof -
      have "z = take (length z) p"
        using z by (auto simp: c_string_def bind_eq_Some_iff dest: c_strlen_Some)
      then have "z @ drop (length z) p = p" by (metis append_take_drop_id)
      note zp = this
      obtain as' where sh': "ml_shape ?ml as'" using inv' by (auto simp: ml_inv_def)
      have h': "listHead ?ml \<noteq> NULL" using h by simp
      have "\<exists>b l' k. FindNode fd (listHead ?ml) ?ml = Some (b, l', ?ml) \<and>
          nodes ?ml b = Some k \<and> nd_path k = p \<and> b \<noteq> NULL"
        using sh' h'
      proof (cases rule: FindNode_spec [where fd = fd and pre = "listHead ?ml"])
        case (absent l1)
        then show ?thesis using lk' by simp
      next
        case (present b l1 k)
        moreover from this(6) have "nd_path k = p" unfolding lk' by simp
        ultimately show ?thesis by blast
      qed
      then obtain b l' k where G: "FindNode fd (listHead ?ml) ?ml = Some (b, l', ?ml)"
        "nodes ?ml b = Some k" "nd_path k = p" "b \<noteq> NULL" by blast
      have "k\<lparr>nd_path := z @ drop (length z) p\<rparr> = k" using zp G(3) by simp
      moreover have "(nodes ?ml)(b \<mapsto> k) = nodes ?ml" using G(2) by (simp add: fun_upd_idem)
      ultimately show ?thesis
        using G by (simp add: setServicePath_def z put_node_def del: fun_upd_apply)
    qed
    have same: "?ml = ml" if "m \<noteq> NULL"
    proof -
      have "?n = n" using that n by (simp add: served_method_def)
      then have "(nodes ml)(a \<mapsto> ?n) = nodes ml" using present(4) by (simp add: fun_upd_idem)
      then show ?thesis by simp
    qed
    show ?thesis
      by (rule that [of a ?ml])
        (use F add inv' lk' p' sp same in \<open>simp_all add: path_at_def getServerUnixPMethods_def
          getServicePath_def served_method_def\<close>)
  qed
qed

end
