(* ===== verification/Unix_Open.thy ===== *)
theory Unix_Open
  imports Unix_IO Sqlite_Uri Method_List
begin

text \<open>
  The VFS methods of \<open>os_unix.c\<close>: opening a file (with the reuse of deferred
  descriptors, the mode of a new file and the set-up of the handle), deleting, checking access
  and full path names. The VFS is always the server's \<open>aVfs[0]\<close>, named \<open>unix\<close>, whose
  finder returns the posix method table.
\<close>

section \<open>Reusing a deferred descriptor\<close>

text \<open>The first deferred descriptor with the flags, taken out of the chain.\<close>

fun take_unused ::
  "(ptr \<rightharpoonup> UnixUnusedFd) \<Rightarrow> cint \<Rightarrow> ptr list \<Rightarrow> (ptr option \<times> ptr list) option" where
  "take_unused U flags [] = Some (None, [])"
| "take_unused U flags (p # ps) = do {
     u \<leftarrow> U p;
     if uu_flags u = flags then Some (Some p, ps)
     else do { (r, qs) \<leftarrow> take_unused U flags ps; Some (r, p # qs) }
   }"

definition findReusableFd ::
  "'os syscalls \<Rightarrow> bytes \<Rightarrow> cint \<Rightarrow> 'os unix_state \<Rightarrow> (ptr option \<times> 'os unix_state) option" where
  "findReusableFd S zName flags st =
     (if inodeList st = [] then Some (None, st)
      else case osStat S zName (us_os st) of (rc, sb, os) \<Rightarrow>
        let st = st\<lparr>us_os := os\<rparr> in
        if rc \<noteq> 0 then Some (None, st)
        else (case find (\<lambda>(p, i). same_inode sb i) (inodeList st) of
                None \<Rightarrow> Some (None, st)
              | Some (p, i) \<Rightarrow> do {
                  (r, ps) \<leftarrow> take_unused (unusedFds st) flags (pUnused i);
                  Some (r, put_inode p (i\<lparr>pUnused := ps\<rparr>) st)
                }))"

section \<open>The mode of a new file\<close>

definition getFileMode ::
  "'os syscalls \<Rightarrow> bytes \<Rightarrow> 'os \<Rightarrow> cint \<times> cint \<times> cint \<times> cint \<times> 'os" where
  "getFileMode S zFile os =
     (case osStat S zFile os of (rc, sb, os) \<Rightarrow>
        if rc = 0 then (SQLITE_OK, st_mode sb AND 0x1FF, st_uid sb, st_gid sb, os)
        else (SQLITE_IOERR_FSTAT, 0, 0, 0, os))"

text \<open>
  The index of the last dash of the name of a journal, searched backwards from index \<open>n\<close>
  up to a dot or the start of the name.
\<close>

fun find_dash :: "bytes \<Rightarrow> nat \<Rightarrow> nat option" where
  "find_dash z 0 = (if z ! 0 = DASH then Some 0 else None)"
| "find_dash z (Suc n) =
     (if z ! Suc n = DASH then Some (Suc n) else if z ! Suc n = DOT then None else find_dash z n)"

definition modeof_param :: bytes where
  "modeof_param = [109, 111, 100, 101, 111, 102]"

definition findCreateFileMode ::
  "'os syscalls \<Rightarrow> bytes \<Rightarrow> cint \<Rightarrow> 'os \<Rightarrow> (cint \<times> cint \<times> cint \<times> cint \<times> 'os) option" where
  "findCreateFileMode S zName flags os =
     (if flags AND (SQLITE_OPEN_WAL OR SQLITE_OPEN_MAIN_JOURNAL) \<noteq> 0 then do {
        n \<leftarrow> c_strlen zName;
        if n = 0 then None
        else case find_dash zName (n - 1) of
               None \<Rightarrow> Some (SQLITE_OK, 0, 0, 0, os)
             | Some nDb \<Rightarrow>
                 if MAX_PATHNAME < nDb then None
                 else Some (getFileMode S (take nDb zName @ [0]) os)
      }
      else if flags AND SQLITE_OPEN_DELETEONCLOSE \<noteq> 0 then Some (SQLITE_OK, 384, 0, 0, os)
      else if flags AND SQLITE_OPEN_URI \<noteq> 0 then do {
        z \<leftarrow> sqlite3_uri_parameter zName modeof_param;
        case z of None \<Rightarrow> Some (SQLITE_OK, 0, 0, 0, os)
        | Some z \<Rightarrow> Some (getFileMode S z os)
      }
      else Some (SQLITE_OK, 0, 0, 0, os))"

section \<open>Setting up a handle\<close>

definition psow_param :: bytes where
  "psow_param = [112, 115, 111, 119]"

text \<open>
  \<open>zp\<close> is the address of the file's name. The handle's flags keep the low byte of
  \<open>ctrl\<close>.
\<close>

definition fillInUnixFile ::
  "'os syscalls \<Rightarrow> (ptr \<Rightarrow> bytes option) \<Rightarrow> cint \<Rightarrow> unixFile \<Rightarrow> ptr \<Rightarrow> 16 word \<Rightarrow>
     'os unix_state \<Rightarrow> (cint \<times> unixFile \<times> 'os unix_state) option" where
  "fillInUnixFile S mem h f zp ctrl st = do {
     let f = f\<lparr>h_fd := h, pVfs := aVfs_unix, zPath := zp, ctrlFlags := ctrl AND 0xFF,
               mmapSizeMax := SQLITE_DEFAULT_MMAP_SIZE\<rparr>;
     zName \<leftarrow> (if ctrl AND UNIXFILE_URI \<noteq> 0 \<and> zp \<noteq> NULL then map_option Some (mem zp) else Some None);
     psow \<leftarrow> sqlite3_uri_boolean zName psow_param True;
     let f = (if psow then f\<lparr>ctrlFlags := ctrlFlags f OR UNIXFILE_PSOW\<rparr> else f);
     if ctrl AND UNIXFILE_NOLOCK \<noteq> 0 then do {
       let f = (storeLastErrno f 0)\<lparr>pMethod := nolockIoMethods\<rparr>;
       st \<leftarrow> verifyDbFile S mem f st;
       Some (SQLITE_OK, f, st)
     }
     else (case findInodeInfo S f st of (rc, f, st) \<Rightarrow>
       if rc \<noteq> SQLITE_OK
       then Some (rc, storeLastErrno f 0, st\<lparr>us_os := robust_close S h (us_os st)\<rparr>)
       else do {
         let f = (storeLastErrno f 0)\<lparr>pMethod := posixIoMethods\<rparr>;
         st \<leftarrow> verifyDbFile S mem f st;
         Some (SQLITE_OK, f, st)
       })
   }"

section \<open>Opening\<close>

definition open_flags :: "cint \<Rightarrow> cint" where
  "open_flags flags =
     (if flags AND SQLITE_OPEN_READONLY \<noteq> 0 then O_RDONLY else 0) OR
     (if flags AND SQLITE_OPEN_READWRITE \<noteq> 0 then O_RDWR else 0) OR
     (if flags AND SQLITE_OPEN_CREATE \<noteq> 0 then O_CREAT else 0) OR
     (if flags AND SQLITE_OPEN_EXCLUSIVE \<noteq> 0 then O_EXCL OR O_NOFOLLOW else 0)"

definition open_type :: "cint \<Rightarrow> cint" where
  "open_type flags = flags AND 0xFFFFFF00"

definition is_new_journal :: "cint \<Rightarrow> bool" where
  "is_new_journal flags \<longleftrightarrow>
     flags AND SQLITE_OPEN_CREATE \<noteq> 0 \<and>
     (open_type flags = SQLITE_OPEN_MASTER_JOURNAL \<or> open_type flags = SQLITE_OPEN_MAIN_JOURNAL \<or>
      open_type flags = SQLITE_OPEN_WAL)"

text \<open>
  The descriptor set aside for a database: a reusable one, or a new object for a new
  descriptor (\<open>-1\<close> here). A null address is a failed allocation.
\<close>

definition open_unused ::
  "'os syscalls \<Rightarrow> bytes \<Rightarrow> cint \<Rightarrow> 'os unix_state \<Rightarrow> (ptr \<times> cint \<times> 'os unix_state) option" where
  "open_unused S zName flags st = do {
     (r, st) \<leftarrow> findReusableFd S zName flags st;
     case r of
       Some p \<Rightarrow> do { u \<leftarrow> unusedFds st p; Some (p, uu_fd u, st) }
     | None \<Rightarrow> (case us_malloc SIZE_UnixUnusedFd st of (p, st) \<Rightarrow>
         Some (p, - 1, if p = NULL then st
                       else st\<lparr>unusedFds := (unusedFds st)(p \<mapsto> \<lparr>uu_fd = 0, uu_flags = 0\<rparr>)\<rparr>))
   }"

text \<open>
  Opening a new descriptor: read-write, then read-only where that fails. The result has the
  code, the descriptor, the flags that took effect and whether the file is read-only.
\<close>

definition open_new ::
  "'os syscalls \<Rightarrow> bytes \<Rightarrow> cint \<Rightarrow> cint \<Rightarrow> 'os \<Rightarrow> (cint \<times> cint \<times> cint \<times> bool \<times> 'os) option" where
  "open_new S zName flags openMode os = do {
     let ro = (flags AND SQLITE_OPEN_READONLY \<noteq> 0);
     (fd, os) \<leftarrow> robust_open S zName (open_flags flags) openMode os;
     if 0 \<le> sint fd then Some (SQLITE_OK, fd, flags, ro, os)
     else do {
       let try_ro = (\<lambda>os. if osErrno S os \<noteq> EISDIR \<and> flags AND SQLITE_OPEN_READWRITE \<noteq> 0 then do {
             (fd, os) \<leftarrow> robust_open S zName
               (open_flags flags AND NOT (O_RDWR OR O_CREAT) OR O_RDONLY) openMode os;
             Some (SQLITE_OK, fd,
               flags AND NOT (SQLITE_OPEN_READWRITE OR SQLITE_OPEN_CREATE) OR SQLITE_OPEN_READONLY,
               True, os) }
           else Some (SQLITE_OK, fd, flags, ro, os));
       (rc, fd, flags, ro, os) \<leftarrow>
         (if is_new_journal flags \<and> osErrno S os = EACCES then
            (case osAccess S zName 0 os of (a, os) \<Rightarrow>
               if a \<noteq> 0 then Some (SQLITE_READONLY_DIRECTORY, fd, flags, ro, os)
               else try_ro os)
          else try_ro os);
       if sint fd < 0
       then Some (if rc = SQLITE_OK then SQLITE_CANTOPEN else rc, fd, flags, ro, os)
       else Some (SQLITE_OK, fd, flags, ro, os)
     }
   }"

definition control_flags :: "cint \<Rightarrow> cint \<Rightarrow> bool \<Rightarrow> 16 word" where
  "control_flags flags0 flags ro =
     (if flags0 AND SQLITE_OPEN_DELETEONCLOSE \<noteq> 0 then UNIXFILE_DELETE else 0) OR
     (if ro then UNIXFILE_RDONLY else 0) OR
     (if open_type flags0 \<noteq> SQLITE_OPEN_MAIN_DB then UNIXFILE_NOLOCK else 0) OR
     (if is_new_journal flags0 then UNIXFILE_DIRSYNC else 0) OR
     (if flags AND SQLITE_OPEN_URI \<noteq> 0 then UNIXFILE_URI else 0)"

text \<open>The end of \<open>unixOpen\<close>: on an error the set-aside object is freed.\<close>

definition open_finished :: "cint \<times> unixFile \<times> 'os unix_state \<Rightarrow> cint \<times> unixFile \<times> 'os unix_state" where
  "open_finished r =
     (case r of (rc, f, st) \<Rightarrow>
        if rc \<noteq> SQLITE_OK
        then (rc, f, st\<lparr>unusedFds := (unusedFds st)(pPreallocatedUnused f := None)\<rparr>)
        else (rc, f, st))"

text \<open>With the descriptor open: record it, unlink a temporary file, fill in the handle.\<close>

definition open_with_fd ::
  "'os syscalls \<Rightarrow> (ptr \<Rightarrow> bytes option) \<Rightarrow> ptr \<Rightarrow> bytes \<Rightarrow> cint \<Rightarrow> cint \<Rightarrow> bool \<Rightarrow> cint \<Rightarrow>
     unixFile \<Rightarrow> 'os unix_state \<Rightarrow> (cint \<times> unixFile \<times> 'os unix_state) option" where
  "open_with_fd S mem zp zName flags0 flags ro fd f st = do {
     let st = (if pPreallocatedUnused f \<noteq> NULL
               then st\<lparr>unusedFds := (unusedFds st)
                        (pPreallocatedUnused f \<mapsto> \<lparr>uu_fd = fd, uu_flags = flags\<rparr>)\<rparr>
               else st);
     let st = (if flags0 AND SQLITE_OPEN_DELETEONCLOSE \<noteq> 0
               then st\<lparr>us_os := snd (osUnlink S zName (us_os st))\<rparr> else st);
     r \<leftarrow> fillInUnixFile S mem fd f zp (control_flags flags0 flags ro) st;
     Some (open_finished r)
   }"

text \<open>
  The first half of \<open>unixOpen\<close>: the descriptor set aside, a reusable descriptor or
  \<open>-1\<close>, the name and the code of an early return. \<open>zp\<close> is the address of the name, null
  for a temporary file.
\<close>

definition open_name ::
  "'os syscalls \<Rightarrow> (ptr \<Rightarrow> bytes option) \<Rightarrow> ptr \<Rightarrow> cint \<Rightarrow> 'os unix_state \<Rightarrow>
     (ptr \<times> cint \<times> bytes \<times> cint \<times> 'os unix_state) option" where
  "open_name S mem zp flags st = do {
     named \<leftarrow> (if zp = NULL then Some None else map_option Some (mem zp));
     if open_type flags = SQLITE_OPEN_MAIN_DB then do {
       z \<leftarrow> named;
       (p, fd, st) \<leftarrow> open_unused S z flags st;
       Some (p, fd, z, if p = NULL then SQLITE_NOMEM else SQLITE_OK, st)
     }
     else (case named of
       Some z \<Rightarrow> Some (NULL, - 1, z, SQLITE_OK, st)
     | None \<Rightarrow> (case osTempname S (us_os st) of (rc, z, os) \<Rightarrow>
         Some (NULL, - 1, z, rc, st\<lparr>us_os := os\<rparr>)))
   }"

text \<open>The second half: open the file unless there is a descriptor, and fill in the handle.\<close>

definition open_file ::
  "'os syscalls \<Rightarrow> (ptr \<Rightarrow> bytes option) \<Rightarrow> ptr \<Rightarrow> bytes \<Rightarrow> cint \<Rightarrow> cint \<Rightarrow> unixFile \<Rightarrow>
     'os unix_state \<Rightarrow> (cint \<times> unixFile \<times> cint option \<times> 'os unix_state) option" where
  "open_file S mem zp zName flags fd f st =
     (if 0 \<le> sint fd then do {
        (rc, f, st) \<leftarrow> open_with_fd S mem zp zName flags flags
          (flags AND SQLITE_OPEN_READONLY \<noteq> 0) fd f st;
        Some (rc, f, Some flags, st)
      }
      else do {
        (rc, openMode, uid, gid, os) \<leftarrow> findCreateFileMode S zName flags (us_os st);
        if rc \<noteq> SQLITE_OK then Some (rc, f, None, st\<lparr>us_os := os\<rparr>)
        else do {
          (rc, fd, flags', ro, os) \<leftarrow> open_new S zName flags openMode os;
          if sint fd < 0 then
            (case open_finished (rc, f, st\<lparr>us_os := os\<rparr>) of (rc, f, st) \<Rightarrow> Some (rc, f, None, st))
          else do {
            let os = (if flags' AND (SQLITE_OPEN_WAL OR SQLITE_OPEN_MAIN_JOURNAL) \<noteq> 0
                      then robustFchown fd uid gid os else os);
            (rc, f, st) \<leftarrow> open_with_fd S mem zp zName flags flags' ro fd f (st\<lparr>us_os := os\<rparr>);
            Some (rc, f, Some flags', st)
          }
        }
      })"

text \<open>The result has the value for \<open>*pOutFlags\<close> where it is set.\<close>

definition unixOpen ::
  "'os syscalls \<Rightarrow> (ptr \<Rightarrow> bytes option) \<Rightarrow> ptr \<Rightarrow> cint \<Rightarrow> 'os unix_state \<Rightarrow>
     (cint \<times> unixFile \<times> cint option \<times> 'os unix_state) option" where
  "unixOpen S mem zp flags st = do {
     (pre, fd, zName, early, st) \<leftarrow> open_name S mem zp flags st;
     let f = zero_unixFile\<lparr>pPreallocatedUnused := pre\<rparr>;
     if early \<noteq> SQLITE_OK then Some (early, f, None, st)
     else open_file S mem zp zName flags fd f st
   }"

section \<open>Deleting, checking access, path names\<close>

definition unixDelete :: "'os syscalls \<Rightarrow> bytes \<Rightarrow> cint \<Rightarrow> 'os \<Rightarrow> (cint \<times> 'os) option" where
  "unixDelete S zName dirSync os =
     (case osUnlink S zName os of (r, os) \<Rightarrow>
        if r = - 1
        then Some (if osErrno S os = ENOENT then SQLITE_IOERR_DELETE_NOENT else SQLITE_IOERR_DELETE, os)
        else if dirSync AND 1 \<noteq> 0 then do {
          (rc, fd, os) \<leftarrow> openDirectory S zName os;
          if rc = SQLITE_OK then
            (case full_fsync S fd os of (r, os) \<Rightarrow>
               Some (if r \<noteq> 0 then SQLITE_IOERR_DIR_FSYNC else SQLITE_OK, robust_close S fd os))
          else Some (SQLITE_OK, os)
        }
        else Some (SQLITE_OK, os))"

abbreviation SQLITE_ACCESS_EXISTS :: cint where "SQLITE_ACCESS_EXISTS \<equiv> 0"

text \<open>\<open>W_OK | R_OK\<close> is 6.\<close>

definition unixAccess :: "'os syscalls \<Rightarrow> bytes \<Rightarrow> cint \<Rightarrow> 'os \<Rightarrow> cint \<times> cint \<times> 'os" where
  "unixAccess S zName flags os =
     (if flags = SQLITE_ACCESS_EXISTS then
        (case osStat S zName os of (rc, sb, os) \<Rightarrow>
           (SQLITE_OK, if rc = 0 \<and> 0 < st_size sb then 1 else 0, os))
      else (case osAccess S zName 6 os of (rc, os) \<Rightarrow> (SQLITE_OK, if rc = 0 then 1 else 0, os)))"

text \<open>\<open>zOut\<close> is the output buffer; the result has its new contents.\<close>

definition mkFullPathname ::
  "'os syscalls \<Rightarrow> bytes \<Rightarrow> bytes \<Rightarrow> int \<Rightarrow> 'os \<Rightarrow> (cint \<times> bytes \<times> 'os) option" where
  "mkFullPathname S zName zOut nOut os = do {
     nPath \<leftarrow> c_strlen zName;
     (got, iOff, zOut, os) \<leftarrow>
       (if zName ! 0 \<noteq> SLASH then
          (case osGetcwd S (nOut - 2) os of (cwd, os) \<Rightarrow>
             case cwd of
               None \<Rightarrow> Some (False, 0, zOut, os)
             | Some z \<Rightarrow> do {
                 zOut \<leftarrow> strcpy zOut 0 z;
                 n \<leftarrow> c_strlen zOut;
                 zOut \<leftarrow> memcpy zOut n [SLASH];
                 Some (True, n + 1, zOut, os)
               })
        else Some (True, 0, zOut, os));
     if \<not> got then Some (SQLITE_CANTOPEN, zOut, os)
     else if nOut < int (iOff + nPath + 1) then do {
       zOut \<leftarrow> memcpy zOut iOff [0];
       Some (SQLITE_CANTOPEN, zOut, os)
     }
     else do {
       zOut \<leftarrow> strcpy zOut iOff zName;
       Some (SQLITE_OK, zOut, os)
     }
   }"

definition unixFullPathname ::
  "'os syscalls \<Rightarrow> bytes \<Rightarrow> int \<Rightarrow> bytes \<Rightarrow> 'os \<Rightarrow> (cint \<times> bytes \<times> 'os) option" where
  "unixFullPathname S zName nOut zOut os = mkFullPathname S zName zOut nOut os"

definition unixGetLastError :: "'os syscalls \<Rightarrow> 'os \<Rightarrow> cint" where
  "unixGetLastError S os = osErrno S os"

end
