(* ===== verification/Unix_Shm.thy ===== *)
theory Unix_Shm
  imports Unix_Open
begin

text \<open>
  Shared memory for the write-ahead log (\<open>unixShmMap\<close>, \<open>unixShmLock\<close>,
  \<open>unixShmUnmap\<close> and their helpers in \<open>os_unix.c\<close>). All connections of the process to one
  database share a \<open>unixShmNode\<close>, which owns the descriptor and the mapped regions; each
  connection has a \<open>unixShm\<close> with the locks it holds. The mutexes serialise the operations
  and have no state here; \<open>unixShmBarrier\<close> has no effect on what is modelled.
\<close>

section \<open>Constants\<close>

abbreviation SQLITE_READONLY :: cint where "SQLITE_READONLY \<equiv> 8"
abbreviation SQLITE_READONLY_CANTINIT :: cint where "SQLITE_READONLY_CANTINIT \<equiv> 1288"
abbreviation SQLITE_IOERR_NOMEM :: cint where "SQLITE_IOERR_NOMEM \<equiv> 3082"
abbreviation SQLITE_IOERR_SHMOPEN :: cint where "SQLITE_IOERR_SHMOPEN \<equiv> 4618"
abbreviation SQLITE_IOERR_SHMSIZE :: cint where "SQLITE_IOERR_SHMSIZE \<equiv> 4874"
abbreviation SQLITE_IOERR_SHMMAP :: cint where "SQLITE_IOERR_SHMMAP \<equiv> 5386"

abbreviation SQLITE_SHM_UNLOCK :: cint where "SQLITE_SHM_UNLOCK \<equiv> 1"
abbreviation SQLITE_SHM_LOCK :: cint where "SQLITE_SHM_LOCK \<equiv> 2"
abbreviation SQLITE_SHM_SHARED :: cint where "SQLITE_SHM_SHARED \<equiv> 4"
abbreviation SQLITE_SHM_EXCLUSIVE :: cint where "SQLITE_SHM_EXCLUSIVE \<equiv> 8"

definition SQLITE_SHM_NLOCK :: nat where
  "SQLITE_SHM_NLOCK = 8"

definition UNIX_SHM_BASE :: int where
  "UNIX_SHM_BASE = (22 + int SQLITE_SHM_NLOCK) * 4"

definition UNIX_SHM_DMS :: int where
  "UNIX_SHM_DMS = UNIX_SHM_BASE + int SQLITE_SHM_NLOCK"

section \<open>State\<close>

text \<open>
  \<open>pFirst\<close> is the chain of the connections through \<open>pNext\<close>. \<open>apRegion\<close> has the
  length the array was last allocated with; cells not yet written are null here.
\<close>

record unixShmNode =
  sn_zFilename :: bytes
  hShm :: cint
  szRegion :: int
  nRegion :: "16 word"
  isReadonly :: bool
  isUnlocked :: bool
  apRegion :: "ptr list"
  sn_nRef :: int
  pFirst :: "ptr list"

record unixShm =
  sh_node :: ptr
  sharedMask :: "16 word"
  exclMask :: "16 word"

definition zero_unixShm :: unixShm where
  "zero_unixShm = \<lparr>sh_node = NULL, sharedMask = 0, exclMask = 0\<rparr>"

definition SIZE_unixShm :: int where "SIZE_unixShm = 24"
definition SIZE_unixShmNode :: int where "SIZE_unixShmNode = 64"

record 'os shm_state =
  sh_unix :: "'os unix_state"
  shmNodes :: "ptr \<rightharpoonup> unixShmNode"
  shmConns :: "ptr \<rightharpoonup> unixShm"

abbreviation sh_os :: "'os shm_state \<Rightarrow> 'os" where
  "sh_os st \<equiv> us_os (sh_unix st)"

definition put_sh_os :: "'os \<Rightarrow> 'os shm_state \<Rightarrow> 'os shm_state" where
  "put_sh_os os st = st\<lparr>sh_unix := (sh_unix st)\<lparr>us_os := os\<rparr>\<rparr>"

text \<open>The node a pointer leads to, and the node of the handle's inode.\<close>

definition put_shm_node :: "ptr \<Rightarrow> unixShmNode \<Rightarrow> 'os shm_state \<Rightarrow> 'os shm_state" where
  "put_shm_node p n st = st\<lparr>shmNodes := (shmNodes st)(p \<mapsto> n)\<rparr>"

definition put_shm_conn :: "ptr \<Rightarrow> unixShm \<Rightarrow> 'os shm_state \<Rightarrow> 'os shm_state" where
  "put_shm_conn p c st = st\<lparr>shmConns := (shmConns st)(p \<mapsto> c)\<rparr>"

definition free_shm_conn :: "ptr \<Rightarrow> 'os shm_state \<Rightarrow> 'os shm_state" where
  "free_shm_conn p st = st\<lparr>shmConns := (shmConns st)(p := None)\<rparr>"

definition inode_shm :: "unixFile \<Rightarrow> 'os shm_state \<Rightarrow> ptr option" where
  "inode_shm f st = map_option ii_shm (inode_at (pInode f) (sh_unix st))"

definition set_inode_shm :: "unixFile \<Rightarrow> ptr \<Rightarrow> 'os shm_state \<Rightarrow> 'os shm_state option" where
  "set_inode_shm f p st = do {
     i \<leftarrow> inode_at (pInode f) (sh_unix st);
     Some (st\<lparr>sh_unix := put_inode (pInode f) (i\<lparr>ii_shm := p\<rparr>) (sh_unix st)\<rparr>)
   }"

section \<open>Locks on the shared-memory file\<close>

definition shm_flock :: "lock_type \<Rightarrow> int \<Rightarrow> int \<Rightarrow> flock" where
  "shm_flock lockType ofst n = \<lparr>l_type = lockType, l_start = ofst, l_len = n\<rparr>"

text \<open>The node with heap memory only (\<open>hShm\<close> negative) needs no system lock.\<close>

definition unixShmSystemLock ::
  "'os syscalls \<Rightarrow> unixFile \<Rightarrow> lock_type \<Rightarrow> int \<Rightarrow> int \<Rightarrow> 'os shm_state \<Rightarrow>
     (cint \<times> 'os shm_state) option" where
  "unixShmSystemLock S f lockType ofst n st = do {
     p \<leftarrow> inode_shm f st;
     node \<leftarrow> shmNodes st p;
     if 0 \<le> sint (hShm node) then
       (case osSetlk S (hShm node) (shm_flock lockType ofst n) (sh_os st) of (rc, os) \<Rightarrow>
          Some (if rc \<noteq> - 1 then SQLITE_OK else SQLITE_BUSY, put_sh_os os st))
     else Some (SQLITE_OK, st)
   }"

definition unixShmRegionPerMap :: "'os syscalls \<Rightarrow> int" where
  "unixShmRegionPerMap S =
     (let shmsz = 32 * 1024; pgsz = osGetpagesize S in
      if pgsz < shmsz then 1 else pgsz div shmsz)"

section \<open>Destroying a node\<close>

text \<open>The loop over the mappings, one for each \<open>step\<close> regions.\<close>

partial_function (option) unmap_regions ::
  "'os syscalls \<Rightarrow> unixShmNode \<Rightarrow> int \<Rightarrow> int \<Rightarrow> 'os \<Rightarrow> 'os option" where
  "unmap_regions S node step i os =
     (if uint (nRegion node) \<le> i then Some os
      else if int (length (apRegion node)) \<le> i then None
      else unmap_regions S node step (i + step)
        (if 0 \<le> sint (hShm node)
         then snd (osMunmap S (apRegion node ! nat i) (word_of_int (szRegion node)) os) else os))"

declare unmap_regions.simps [code]

definition unixShmPurge ::
  "'os syscalls \<Rightarrow> unixFile \<Rightarrow> 'os shm_state \<Rightarrow> 'os shm_state option" where
  "unixShmPurge S f st = do {
     p \<leftarrow> inode_shm f st;
     if p = NULL then Some st
     else do {
       node \<leftarrow> shmNodes st p;
       if sn_nRef node \<noteq> 0 then Some st
       else do {
         os \<leftarrow> unmap_regions S node (unixShmRegionPerMap S) 0 (sh_os st);
         let os = (if 0 \<le> sint (hShm node) then robust_close S (hShm node) os else os);
         st \<leftarrow> set_inode_shm f NULL (put_sh_os os st);
         Some (st\<lparr>shmNodes := (shmNodes st)(p := None)\<rparr>)
       }
     }
   }"

section \<open>Opening\<close>

text \<open>
  The lock on the deadman switch: the first process to come truncates the file under an
  exclusive lock, then all keep a shared one. \<open>r\<close> and \<open>lock\<close> are what \<open>F_GETLK\<close> found.
\<close>

definition shm_dms_first ::
  "'os syscalls \<Rightarrow> unixFile \<Rightarrow> ptr \<Rightarrow> unixShmNode \<Rightarrow> int \<Rightarrow> flock \<Rightarrow> 'os shm_state \<Rightarrow>
     (cint \<times> 'os shm_state) option" where
  "shm_dms_first S f p node r lock st =
     (if r \<noteq> 0 then Some (SQLITE_IOERR_LOCK, st)
      else if l_type lock = F_UNLCK then
        (if isReadonly node
         then Some (SQLITE_READONLY_CANTINIT, put_shm_node p (node\<lparr>isUnlocked := True\<rparr>) st)
         else do {
           (rc, st) \<leftarrow> unixShmSystemLock S f F_WRLCK UNIX_SHM_DMS 1 st;
           if rc \<noteq> SQLITE_OK then Some (rc, st)
           else do {
             (t, os) \<leftarrow> robust_ftruncate S (hShm node) 3 (sh_os st);
             Some (if t \<noteq> 0 then SQLITE_IOERR_SHMOPEN else SQLITE_OK, put_sh_os os st)
           }
         })
      else if l_type lock = F_WRLCK then Some (SQLITE_BUSY, st)
      else Some (SQLITE_OK, st))"

definition unixLockSharedMemory ::
  "'os syscalls \<Rightarrow> unixFile \<Rightarrow> ptr \<Rightarrow> 'os shm_state \<Rightarrow> (cint \<times> 'os shm_state) option" where
  "unixLockSharedMemory S f p st = do {
     node \<leftarrow> shmNodes st p;
     (case osGetlk S (hShm node) (shm_flock F_WRLCK UNIX_SHM_DMS 1) (sh_os st) of (r, lock, os) \<Rightarrow> do {
        (rc, st) \<leftarrow> shm_dms_first S f p node r lock (put_sh_os os st);
        if rc = SQLITE_OK then unixShmSystemLock S f F_RDLCK UNIX_SHM_DMS 1 st
        else Some (rc, st)
      })
   }"

text \<open>\<open>"readonly_shm"\<close> and \<open>"-shm"\<close>, with its terminator.\<close>

definition readonly_shm_param :: bytes where
  "readonly_shm_param = [114, 101, 97, 100, 111, 110, 108, 121, 95, 115, 104, 109]"

definition shm_suffix :: bytes where
  "shm_suffix = [45, 115, 104, 109, 0]"

text \<open>
  The new node of an inode, with its file opened and its deadman switch locked, unless the
  process keeps the database locked for itself (\<open>bProcessLock\<close>) and heap memory will do. On
  a result that is an error the caller destroys what there is of the node.
\<close>

definition shm_open_file ::
  "'os syscalls \<Rightarrow> bytes \<Rightarrow> bytes \<Rightarrow> cint \<Rightarrow> 'os \<Rightarrow> (cint \<times> bool \<times> 'os) option" where
  "shm_open_file S zDb zShm mode os = do {
     ro \<leftarrow> sqlite3_uri_boolean (Some zDb) readonly_shm_param False;
     (h, os) \<leftarrow> (if \<not> ro then robust_open S zShm (O_RDWR OR O_CREAT) mode os else Some (- 1, os));
     if sint h < 0 then do {
       (h, os) \<leftarrow> robust_open S zShm O_RDONLY mode os;
       Some (h, True, os)
     }
     else Some (h, False, os)
   }"

definition new_shm_node :: "bytes \<Rightarrow> unixShmNode" where
  "new_shm_node z =
     \<lparr>sn_zFilename = z, hShm = - 1, szRegion = 0, nRegion = 0, isReadonly = False,
      isUnlocked = False, apRegion = [], sn_nRef = 0, pFirst = []\<rparr>"

definition shm_attach_file ::
  "'os syscalls \<Rightarrow> unixFile \<Rightarrow> bytes \<Rightarrow> ptr \<Rightarrow> unixShmNode \<Rightarrow> stat \<Rightarrow> 'os shm_state \<Rightarrow>
     (cint \<times> 'os shm_state) option" where
  "shm_attach_file S f zDb p node sb st = do {
     (h, ro, os) \<leftarrow> shm_open_file S zDb (sn_zFilename node) (st_mode sb AND 0x1FF) (sh_os st);
     if sint h < 0 then Some (SQLITE_CANTOPEN, put_sh_os os st)
     else
       unixLockSharedMemory S f p
         (put_shm_node p (node\<lparr>hShm := h, isReadonly := ro\<rparr>)
           (put_sh_os (robustFchown h (st_uid sb) (st_gid sb) os) st))
   }"

definition shm_create_node ::
  "'os syscalls \<Rightarrow> (ptr \<Rightarrow> bytes option) \<Rightarrow> unixFile \<Rightarrow> 'os shm_state \<Rightarrow>
     (cint \<times> 'os shm_state) option" where
  "shm_create_node S mem f st =
     (case osFstat S (h_fd f) (sh_os st) of (r, sb, os) \<Rightarrow>
        let st = put_sh_os os st in
        if r \<noteq> 0 then Some (SQLITE_IOERR_FSTAT, st)
        else do {
          zDb \<leftarrow> mem (zPath f);
          n \<leftarrow> c_strlen zDb;
          case us_malloc (SIZE_unixShmNode + (6 + int n)) (sh_unix st) of (p, ust) \<Rightarrow>
            let st = st\<lparr>sh_unix := ust\<rparr> in
            if p = NULL then Some (SQLITE_NOMEM, st)
            else do {
              let node = new_shm_node (take n zDb @ shm_suffix);
              st \<leftarrow> set_inode_shm f p (put_shm_node p node st);
              case us_malloc SIZE_mutex (sh_unix st) of (m, ust) \<Rightarrow>
                let st = st\<lparr>sh_unix := ust\<rparr> in
                if m = NULL then Some (SQLITE_NOMEM, st)
                else do {
                  i \<leftarrow> inode_at (pInode f) (sh_unix st);
                  if bProcessLock i then Some (SQLITE_OK, st)
                  else shm_attach_file S f zDb p node sb st
                }
            }
        })"

definition unixOpenSharedMemory ::
  "'os syscalls \<Rightarrow> (ptr \<Rightarrow> bytes option) \<Rightarrow> unixFile \<Rightarrow> 'os shm_state \<Rightarrow>
     (cint \<times> unixFile \<times> 'os shm_state) option" where
  "unixOpenSharedMemory S mem f st =
     (case us_malloc SIZE_unixShm (sh_unix st) of (p, ust) \<Rightarrow>
        let st = st\<lparr>sh_unix := ust\<rparr> in
        if p = NULL then Some (SQLITE_NOMEM, f, st)
        else do {
          let st = put_shm_conn p zero_unixShm st;
          q \<leftarrow> inode_shm f st;
          (rc, st) \<leftarrow> (if q = NULL then shm_create_node S mem f st else Some (SQLITE_OK, st));
          if rc \<noteq> SQLITE_OK \<and> rc \<noteq> SQLITE_READONLY_CANTINIT then do {
            st \<leftarrow> unixShmPurge S f st;
            Some (rc, f, free_shm_conn p st)
          }
          else do {
            q \<leftarrow> inode_shm f st;
            node \<leftarrow> shmNodes st q;
            Some (rc, f\<lparr>pShm := p\<rparr>,
              put_shm_conn p (zero_unixShm\<lparr>sh_node := q\<rparr>)
                (put_shm_node q (node\<lparr>sn_nRef := sn_nRef node + 1, pFirst := p # pFirst node\<rparr>) st))
          }
        })"

section \<open>Mapping a region\<close>

text \<open>One byte is written at the end of every page the file grows by.\<close>

function shm_extend :: "'os syscalls \<Rightarrow> cint \<Rightarrow> int \<Rightarrow> int \<Rightarrow> 'os \<Rightarrow> (bool \<times> 'os) option" where
  "shm_extend S fd iPg hi os =
     (if hi \<le> iPg then Some (True, os)
      else (case seekAndWriteFd S fd (iPg * 4096 + 4095) [0] 0 1 0 os of
              None \<Rightarrow> None
            | Some (r, x, os) \<Rightarrow>
                if r \<noteq> 1 then Some (False, os) else shm_extend S fd (iPg + 1) hi os))"
  by pat_completeness auto
termination
  by (relation "measure (\<lambda>(S, fd, iPg, hi, os). nat (hi - iPg))") auto

declare shm_extend.simps [simp del]

text \<open>Memory for one more mapping: a part of the file, or zeroed heap memory.\<close>

definition shm_map_one ::
  "'os syscalls \<Rightarrow> unixShmNode \<Rightarrow> int \<Rightarrow> 'os unix_state \<Rightarrow> cint \<times> ptr \<times> 'os unix_state" where
  "shm_map_one S node nMap ust =
     (if 0 \<le> sint (hShm node) then
        (case osMmapShared S nMap (isReadonly node) (hShm node)
                (szRegion node * uint (nRegion node)) (us_os ust) of (p, os) \<Rightarrow>
           (if p = MAP_FAILED then SQLITE_IOERR_SHMMAP else SQLITE_OK, p, ust\<lparr>us_os := os\<rparr>))
      else (case us_malloc nMap ust of (p, ust) \<Rightarrow>
           (if p = NULL then SQLITE_NOMEM else SQLITE_OK, p, ust)))"

definition set_regions :: "ptr list \<Rightarrow> nat \<Rightarrow> ptr \<Rightarrow> int \<Rightarrow> nat \<Rightarrow> ptr list" where
  "set_regions rs k p sz step =
     take k rs @ map (\<lambda>i. p + word_of_int (sz * int i)) [0..<step] @ drop (k + step) rs"

partial_function (option) shm_map_loop ::
  "'os syscalls \<Rightarrow> int \<Rightarrow> int \<Rightarrow> unixShmNode \<Rightarrow> 'os unix_state \<Rightarrow>
     (cint \<times> unixShmNode \<times> 'os unix_state) option" where
  "shm_map_loop S step nReq node ust =
     (if nReq \<le> uint (nRegion node) then Some (SQLITE_OK, node, ust)
      else (case shm_map_one S node (szRegion node * step) ust of (rc, p, ust) \<Rightarrow>
        if rc \<noteq> SQLITE_OK then Some (rc, node, ust)
        else if int (length (apRegion node)) < uint (nRegion node) + step then None
        else shm_map_loop S step nReq
          (node\<lparr>apRegion := set_regions (apRegion node) (unat (nRegion node)) p (szRegion node) (nat step),
                nRegion := nRegion node + word_of_int step\<rparr>) ust))"

declare shm_map_loop.simps [code]

text \<open>
  Make sure the file is long enough: the second component tells whether to go on. Without
  \<open>bExtend\<close> a region that is not there yet is not an error.
\<close>

definition shm_grow_file ::
  "'os syscalls \<Rightarrow> unixShmNode \<Rightarrow> int \<Rightarrow> bool \<Rightarrow> 'os \<Rightarrow> (cint \<times> bool \<times> 'os) option" where
  "shm_grow_file S node nByte bExtend os =
     (if sint (hShm node) < 0 then Some (SQLITE_OK, True, os)
      else (case osFstat S (hShm node) os of (r, sb, os) \<Rightarrow>
        if r \<noteq> 0 then Some (SQLITE_IOERR_SHMSIZE, False, os)
        else if nByte \<le> st_size sb then Some (SQLITE_OK, True, os)
        else if \<not> bExtend then Some (SQLITE_OK, False, os)
        else do {
          (good, os) \<leftarrow> shm_extend S (hShm node) (st_size sb div 4096) (nByte div 4096) os;
          Some (if good then SQLITE_OK else SQLITE_IOERR_SHMSIZE, good, os)
        }))"

text \<open>Extend and map until \<open>nReq\<close> regions are there; \<open>node\<close> has too few.\<close>

definition shm_map_more ::
  "'os syscalls \<Rightarrow> int \<Rightarrow> int \<Rightarrow> int \<Rightarrow> bool \<Rightarrow> unixShmNode \<Rightarrow> 'os unix_state \<Rightarrow>
     (cint \<times> unixShmNode \<times> 'os unix_state) option" where
  "shm_map_more S step nReq sz bExtend node ust = do {
     let node = node\<lparr>szRegion := sz\<rparr>;
     (rc, go, os) \<leftarrow> shm_grow_file S node (nReq * sz) bExtend (us_os ust);
     let ust = ust\<lparr>us_os := os\<rparr>;
     if \<not> go then Some (rc, node, ust)
     else case us_malloc (nReq * 8) ust of (a, ust) \<Rightarrow>
       if a = NULL then Some (SQLITE_IOERR_NOMEM, node, ust)
       else shm_map_loop S step nReq
         (node\<lparr>apRegion := take (nat nReq) (apRegion node @ replicate (nat nReq - length (apRegion node)) NULL)\<rparr>)
         ust
   }"

text \<open>The label \<open>shmpage_out\<close>: what the caller gets in \<open>*pp\<close>, and the code.\<close>

definition shm_page_out :: "int \<Rightarrow> cint \<Rightarrow> unixShmNode \<Rightarrow> (cint \<times> ptr) option" where
  "shm_page_out iRegion rc node = do {
     pp \<leftarrow> (if iRegion < uint (nRegion node)
           then (if 0 \<le> iRegion \<and> nat iRegion < length (apRegion node)
                 then Some (apRegion node ! nat iRegion) else None)
           else Some NULL);
     Some (if isReadonly node \<and> rc = SQLITE_OK then SQLITE_READONLY else rc, pp)
   }"

definition shm_map_region ::
  "'os syscalls \<Rightarrow> unixFile \<Rightarrow> int \<Rightarrow> int \<Rightarrow> bool \<Rightarrow> 'os shm_state \<Rightarrow>
     (cint \<times> ptr \<times> 'os shm_state) option" where
  "shm_map_region S f iRegion sz bExtend st = do {
     c \<leftarrow> shmConns st (pShm f);
     let q = sh_node c;
     node \<leftarrow> shmNodes st q;
     (rc, st) \<leftarrow> (if isUnlocked node then do {
                   (rc, st) \<leftarrow> unixLockSharedMemory S f q st;
                   node \<leftarrow> shmNodes st q;
                   Some (rc, if rc = SQLITE_OK then put_shm_node q (node\<lparr>isUnlocked := False\<rparr>) st else st)
                 }
                 else Some (SQLITE_OK, st));
     node \<leftarrow> shmNodes st q;
     let step = unixShmRegionPerMap S;
     let nReq = ((iRegion + step) div step) * step;
     (rc, node, ust) \<leftarrow>
       (if rc = SQLITE_OK \<and> uint (nRegion node) < nReq
        then shm_map_more S step nReq sz bExtend node (sh_unix st)
        else Some (rc, node, sh_unix st));
     (rc, pp) \<leftarrow> shm_page_out iRegion rc node;
     Some (rc, pp, put_shm_node q node (st\<lparr>sh_unix := ust\<rparr>))
   }"

text \<open>\<open>pp\<close> is the caller's variable, left alone when the shared memory cannot be opened.\<close>

definition unixShmMap ::
  "'os syscalls \<Rightarrow> (ptr \<Rightarrow> bytes option) \<Rightarrow> unixFile \<Rightarrow> int \<Rightarrow> int \<Rightarrow> bool \<Rightarrow> ptr \<Rightarrow> 'os shm_state \<Rightarrow>
     (cint \<times> ptr \<times> unixFile \<times> 'os shm_state) option" where
  "unixShmMap S mem f iRegion sz bExtend pp st = do {
     (rc, f, st) \<leftarrow> (if pShm f = NULL then unixOpenSharedMemory S mem f st else Some (SQLITE_OK, f, st));
     if rc \<noteq> SQLITE_OK then Some (rc, pp, f, st)
     else do {
       (rc, pp, st) \<leftarrow> shm_map_region S f iRegion sz bExtend st;
       Some (rc, pp, f, st)
     }
   }"

section \<open>Locking\<close>

definition shm_mask :: "int \<Rightarrow> int \<Rightarrow> 16 word" where
  "shm_mask ofst n = word_of_int (2 ^ nat (ofst + n) - 2 ^ nat ofst)"

text \<open>The connections of a node; every address in the chain is a live object.\<close>

fun shm_siblings :: "'os shm_state \<Rightarrow> ptr list \<Rightarrow> (ptr \<times> unixShm) list option" where
  "shm_siblings st [] = Some []"
| "shm_siblings st (q # qs) = do {
     c \<leftarrow> shmConns st q;
     cs \<leftarrow> shm_siblings st qs;
     Some ((q, c) # cs)
   }"

definition all_shared :: "(ptr \<times> unixShm) list \<Rightarrow> 16 word" where
  "all_shared cs = fold (\<lambda>(q, c) m. m OR sharedMask c) cs 0"

definition shm_unlock ::
  "'os syscalls \<Rightarrow> unixFile \<Rightarrow> int \<Rightarrow> int \<Rightarrow> 16 word \<Rightarrow> unixShm \<Rightarrow> (ptr \<times> unixShm) list \<Rightarrow>
     'os shm_state \<Rightarrow> (cint \<times> 'os shm_state) option" where
  "shm_unlock S f ofst n msk c cs st = do {
     let allMask = all_shared (filter (\<lambda>(q, _). q \<noteq> pShm f) cs);
     (rc, st) \<leftarrow> (if msk AND allMask = 0
                then unixShmSystemLock S f F_UNLCK (ofst + UNIX_SHM_BASE) n st
                else Some (SQLITE_OK, st));
     Some (rc, if rc = SQLITE_OK
       then put_shm_conn (pShm f)
              (c\<lparr>exclMask := exclMask c AND NOT msk, sharedMask := sharedMask c AND NOT msk\<rparr>) st
       else st)
   }"

definition shm_lock_shared ::
  "'os syscalls \<Rightarrow> unixFile \<Rightarrow> int \<Rightarrow> int \<Rightarrow> 16 word \<Rightarrow> unixShm \<Rightarrow> (ptr \<times> unixShm) list \<Rightarrow>
     'os shm_state \<Rightarrow> (cint \<times> 'os shm_state) option" where
  "shm_lock_shared S f ofst n msk c cs st =
     (if \<exists>(q, x) \<in> set cs. exclMask x AND msk \<noteq> 0 then Some (SQLITE_BUSY, st)
      else do {
        (rc, st) \<leftarrow> (if all_shared cs AND msk = 0
                   then unixShmSystemLock S f F_RDLCK (ofst + UNIX_SHM_BASE) n st
                   else Some (SQLITE_OK, st));
        Some (rc, if rc = SQLITE_OK
          then put_shm_conn (pShm f) (c\<lparr>sharedMask := sharedMask c OR msk\<rparr>) st else st)
      })"

definition shm_lock_exclusive ::
  "'os syscalls \<Rightarrow> unixFile \<Rightarrow> int \<Rightarrow> int \<Rightarrow> 16 word \<Rightarrow> unixShm \<Rightarrow> (ptr \<times> unixShm) list \<Rightarrow>
     'os shm_state \<Rightarrow> (cint \<times> 'os shm_state) option" where
  "shm_lock_exclusive S f ofst n msk c cs st =
     (if \<exists>(q, x) \<in> set cs. exclMask x AND msk \<noteq> 0 \<or> sharedMask x AND msk \<noteq> 0
      then Some (SQLITE_BUSY, st)
      else do {
        (rc, st) \<leftarrow> unixShmSystemLock S f F_WRLCK (ofst + UNIX_SHM_BASE) n st;
        Some (rc, if rc = SQLITE_OK
          then put_shm_conn (pShm f) (c\<lparr>exclMask := exclMask c OR msk\<rparr>) st else st)
      })"

definition unixShmLock ::
  "'os syscalls \<Rightarrow> unixFile \<Rightarrow> int \<Rightarrow> int \<Rightarrow> cint \<Rightarrow> 'os shm_state \<Rightarrow> (cint \<times> 'os shm_state) option" where
  "unixShmLock S f ofst n flags st = do {
     c \<leftarrow> shmConns st (pShm f);
     node \<leftarrow> shmNodes st (sh_node c);
     cs \<leftarrow> shm_siblings st (pFirst node);
     let msk = shm_mask ofst n;
     if flags AND SQLITE_SHM_UNLOCK \<noteq> 0 then shm_unlock S f ofst n msk c cs st
     else if flags AND SQLITE_SHM_SHARED \<noteq> 0 then shm_lock_shared S f ofst n msk c cs st
     else shm_lock_exclusive S f ofst n msk c cs st
   }"

section \<open>Closing\<close>

definition unixShmUnmap ::
  "'os syscalls \<Rightarrow> unixFile \<Rightarrow> bool \<Rightarrow> 'os shm_state \<Rightarrow> (cint \<times> unixFile \<times> 'os shm_state) option" where
  "unixShmUnmap S f deleteFlag st =
     (if pShm f = NULL then Some (SQLITE_OK, f, st)
      else do {
        c \<leftarrow> shmConns st (pShm f);
        let q = sh_node c;
        node \<leftarrow> shmNodes st q;
        if pShm f \<notin> set (pFirst node) then None
        else do {
          let node = node\<lparr>pFirst := remove1 (pShm f) (pFirst node), sn_nRef := sn_nRef node - 1\<rparr>;
          let st = put_shm_node q node (free_shm_conn (pShm f) st);
          st \<leftarrow> (if sn_nRef node = 0
                then unixShmPurge S f
                  (if deleteFlag \<and> 0 \<le> sint (hShm node)
                   then put_sh_os (snd (osUnlink S (sn_zFilename node) (sh_os st))) st else st)
                else Some st);
          Some (SQLITE_OK, f\<lparr>pShm := NULL\<rparr>, st)
        }
      })"

end
