(* ===== verification/Shm_Inv.thy ===== *)
theory Shm_Inv
  imports Unix_Shm
begin

text \<open>
  The invariant of the shared-memory objects: nodes, connections and inodes point at each other
  the way the code needs, reference counts count connections, and no two connections of a node
  hold conflicting locks.
\<close>

section \<open>Growth of the state below\<close>

text \<open>Only the kernel has moved and memory has been given out.\<close>

definition grown :: "'os unix_state \<Rightarrow> 'os unix_state \<Rightarrow> bool" where
  "grown u v \<longleftrightarrow> inodeList v = inodeList u \<and> unusedFds v = unusedFds u \<and>
     uint (us_brk u) \<le> uint (us_brk v) \<and> uint (us_brk v) \<le> US_TOP"

lemma grown_refl: "table_ok u \<Longrightarrow> grown u u"
  by (simp add: grown_def table_ok_def)

lemma grown_os [intro]: "grown u v \<Longrightarrow> grown u (v\<lparr>us_os := os\<rparr>)"
  by (auto simp: grown_def)

lemma grown_trans [trans]: "grown u v \<Longrightarrow> grown v w \<Longrightarrow> grown u w"
  by (auto simp: grown_def)

lemma grown_fields:
  assumes "grown u v"
  shows "inode_at p v = inode_at p u" and "inodeList v = inodeList u" and "unusedFds v = unusedFds u"
  using assms by (auto simp: grown_def inode_at_def)

lemma grown_table: "grown u v \<Longrightarrow> table_ok u \<Longrightarrow> table_ok v"
  by (fastforce simp: grown_def table_ok_def)

lemma us_malloc_grown:
  assumes "us_malloc n u = (p, v)" and "table_ok u" and "0 < n"
  shows "grown u v" and "p \<noteq> NULL \<Longrightarrow> p = us_brk u \<and> uint (us_brk u) < uint (us_brk v)"
proof -
  have "grown u v \<and> (p \<noteq> NULL \<longrightarrow> p = us_brk u \<and> uint (us_brk u) < uint (us_brk v))"
  proof (cases "p = NULL")
    case True
    have "us_brk u \<noteq> 0" using assms(2) by (auto simp: table_ok_def)
    then have "v = u" using assms(1) True by (auto simp: us_malloc_def split: if_splits)
    then show ?thesis using True grown_refl [OF assms(2)] by simp
  next
    case False
    note M = us_mallocE [OF assms(1) False assms(2,3)]
    have "inodeList v = inodeList u" "unusedFds v = unusedFds u" by (subst M(3), simp)+
    then show ?thesis using M(1,2,4) assms(3) by (auto simp: grown_def)
  qed
  then show "grown u v" "p \<noteq> NULL \<Longrightarrow> p = us_brk u \<and> uint (us_brk u) < uint (us_brk v)" by auto
qed

section \<open>The invariant\<close>

definition compatible_conns :: "unixShm \<Rightarrow> unixShm \<Rightarrow> bool" where
  "compatible_conns c d \<longleftrightarrow>
     exclMask c AND exclMask d = 0 \<and> exclMask c AND sharedMask d = 0 \<and> sharedMask c AND exclMask d = 0"

definition node_ok :: "'os shm_state \<Rightarrow> ptr \<Rightarrow> unixShmNode \<Rightarrow> bool" where
  "node_ok st p n \<longleftrightarrow>
     p \<noteq> NULL \<and> uint p < uint (us_brk (sh_unix st)) \<and>
     (\<exists>k i. inode_at k (sh_unix st) = Some i \<and> ii_shm i = p) \<and>
     distinct (pFirst n) \<and> pFirst n \<noteq> [] \<and> sn_nRef n = int (length (pFirst n)) \<and>
     unat (nRegion n) \<le> length (apRegion n) \<and>
     (\<forall>q. q \<in> set (pFirst n) \<longleftrightarrow> (\<exists>c. shmConns st q = Some c \<and> sh_node c = p))"

definition conn_ok :: "'os shm_state \<Rightarrow> ptr \<Rightarrow> unixShm \<Rightarrow> bool" where
  "conn_ok st q c \<longleftrightarrow>
     q \<noteq> NULL \<and> uint q < uint (us_brk (sh_unix st)) \<and> shmNodes st (sh_node c) \<noteq> None \<and>
     exclMask c AND sharedMask c = 0 \<and>
     (\<forall>r d. shmConns st r = Some d \<longrightarrow> r \<noteq> q \<longrightarrow> sh_node d = sh_node c \<longrightarrow> compatible_conns c d)"

definition inodes_shm_ok :: "'os shm_state \<Rightarrow> bool" where
  "inodes_shm_ok st \<longleftrightarrow>
     (\<forall>k i. inode_at k (sh_unix st) = Some i \<longrightarrow> ii_shm i \<noteq> NULL \<longrightarrow>
        shmNodes st (ii_shm i) \<noteq> None \<and>
        (\<forall>l j. inode_at l (sh_unix st) = Some j \<longrightarrow> ii_shm j = ii_shm i \<longrightarrow> l = k))"

definition shm_inv :: "'os shm_state \<Rightarrow> bool" where
  "shm_inv st \<longleftrightarrow>
     table_ok (sh_unix st) \<and> inodes_shm_ok st \<and>
     (\<forall>p n. shmNodes st p = Some n \<longrightarrow> node_ok st p n) \<and>
     (\<forall>q c. shmConns st q = Some c \<longrightarrow> conn_ok st q c)"

text \<open>A handle's own connection belongs to the node of its inode.\<close>

definition shm_handle :: "'os shm_state \<Rightarrow> unixFile \<Rightarrow> bool" where
  "shm_handle st f \<longleftrightarrow> inode_at (pInode f) (sh_unix st) \<noteq> None \<and>
     (pShm f \<noteq> NULL \<longrightarrow> (\<exists>c. shmConns st (pShm f) = Some c \<and> inode_shm f st = Some (sh_node c)))"

lemma shm_invD:
  assumes "shm_inv st"
  shows "table_ok (sh_unix st)" and "inodes_shm_ok st"
    and "shmNodes st p = Some n \<Longrightarrow> node_ok st p n" and "shmConns st q = Some c \<Longrightarrow> conn_ok st q c"
  using assms by (simp_all add: shm_inv_def)

lemma inodes_shm_okD:
  assumes "inodes_shm_ok st" and "inode_at k (sh_unix st) = Some i" and "ii_shm i \<noteq> NULL"
  obtains n where "shmNodes st (ii_shm i) = Some n"
    "\<And>l j. inode_at l (sh_unix st) = Some j \<Longrightarrow> ii_shm j = ii_shm i \<Longrightarrow> l = k"
  using assms(1) [unfolded inodes_shm_ok_def, rule_format, OF assms(2,3)] by blast

section \<open>Operations that leave the structure alone\<close>

text \<open>
  The connections are as before and the nodes have the same connections; what a node knows of
  its file and its mappings may change.
\<close>

definition shm_quiet :: "'os shm_state \<Rightarrow> 'os shm_state \<Rightarrow> bool" where
  "shm_quiet st st' \<longleftrightarrow> grown (sh_unix st) (sh_unix st') \<and> shmConns st' = shmConns st \<and>
     (\<forall>p. rel_option (\<lambda>n n'. pFirst n' = pFirst n \<and> sn_nRef n' = sn_nRef n \<and>
            (unat (nRegion n) \<le> length (apRegion n) \<longrightarrow> unat (nRegion n') \<le> length (apRegion n')))
          (shmNodes st p) (shmNodes st' p))"

lemma shm_quiet_refl: "table_ok (sh_unix st) \<Longrightarrow> shm_quiet st st"
  by (simp add: shm_quiet_def grown_refl option.rel_refl)

lemma shm_quiet_trans [trans]:
  assumes "shm_quiet st st1" and "shm_quiet st1 st2" shows "shm_quiet st st2"
proof -
  have "rel_option (\<lambda>n n'. pFirst n' = pFirst n \<and> sn_nRef n' = sn_nRef n \<and>
            (unat (nRegion n) \<le> length (apRegion n) \<longrightarrow> unat (nRegion n') \<le> length (apRegion n')))
          (shmNodes st p) (shmNodes st2 p)" for p
  proof -
    note A = assms [unfolded shm_quiet_def, THEN conjunct2, THEN conjunct2, rule_format, of p]
    from A show ?thesis
      by (cases "shmNodes st p"; cases "shmNodes st1 p"; cases "shmNodes st2 p") auto
  qed
  then show ?thesis using assms grown_trans by (auto simp: shm_quiet_def)
qed

lemma shm_quiet_os: "shm_quiet st st' \<Longrightarrow> shm_quiet st (put_sh_os os st')"
  by (auto simp: shm_quiet_def put_sh_os_def)

lemma shm_quiet_unix: "table_ok (sh_unix st) \<Longrightarrow> grown (sh_unix st) u \<Longrightarrow> shm_quiet st (st\<lparr>sh_unix := u\<rparr>)"
  by (simp add: shm_quiet_def option.rel_refl)

lemma shm_quiet_node:
  assumes q: "shm_quiet st st'" and n: "shmNodes st' p = Some n" and "pFirst n' = pFirst n" and "sn_nRef n' = sn_nRef n"
    and "unat (nRegion n) \<le> length (apRegion n) \<Longrightarrow> unat (nRegion n') \<le> length (apRegion n')"
  shows "shm_quiet st (put_shm_node p n' st')"
proof -
  have "rel_option (\<lambda>n n'. pFirst n' = pFirst n \<and> sn_nRef n' = sn_nRef n \<and>
            (unat (nRegion n) \<le> length (apRegion n) \<longrightarrow> unat (nRegion n') \<le> length (apRegion n')))
          (shmNodes st k) (shmNodes (put_shm_node p n' st') k)" for k
  proof -
    note A = q [unfolded shm_quiet_def, THEN conjunct2, THEN conjunct2, rule_format, of k]
    from A n assms(3-) show ?thesis
      by (cases "shmNodes st k"; cases "shmNodes st' k") (auto simp: put_shm_node_def)
  qed
  then show ?thesis using q by (simp add: shm_quiet_def put_shm_node_def)
qed

lemma shm_quiet_inv:
  assumes q: "shm_quiet st st'" and inv: "shm_inv st"
  shows "shm_inv st'" and "shm_handle st f \<Longrightarrow> shm_handle st' f"
proof -
  have g: "grown (sh_unix st) (sh_unix st')" and C: "shmConns st' = shmConns st"
    and N: "\<And>p. rel_option (\<lambda>n n'. pFirst n' = pFirst n \<and> sn_nRef n' = sn_nRef n \<and>
            (unat (nRegion n) \<le> length (apRegion n) \<longrightarrow> unat (nRegion n') \<le> length (apRegion n')))
          (shmNodes st p) (shmNodes st' p)"
    using q by (auto simp: shm_quiet_def)
  have le: "uint (us_brk (sh_unix st)) \<le> uint (us_brk (sh_unix st'))" using g by (simp add: grown_def)
  have ne: "shmNodes st' p = None \<longleftrightarrow> shmNodes st p = None" for p
    using N [of p] by (auto simp: rel_option_iff split: option.splits)
  have I: "inode_at p (sh_unix st') = inode_at p (sh_unix st)" for p using grown_fields [OF g] by simp
  have node: "node_ok st' p n'" if n': "shmNodes st' p = Some n'" for p n'
  proof -
    obtain n where n: "shmNodes st p = Some n" and r: "pFirst n' = pFirst n" "sn_nRef n' = sn_nRef n"
      "unat (nRegion n) \<le> length (apRegion n) \<longrightarrow> unat (nRegion n') \<le> length (apRegion n')"
      using N [of p] n' by (auto simp: rel_option_iff split: option.splits)
    have "node_ok st p n" by (rule shm_invD(3) [OF inv n])
    then show ?thesis using r le C I by (auto simp: node_ok_def)
  qed
  have conn: "conn_ok st' p c" if c: "shmConns st' p = Some c" for p c
  proof -
    have "conn_ok st p c" using shm_invD(4) [OF inv] c C by simp
    then show ?thesis using le C ne by (auto simp: conn_ok_def)
  qed
  have "inodes_shm_ok st'" using shm_invD(2) [OF inv] I ne by (auto simp: inodes_shm_ok_def)
  moreover have "table_ok (sh_unix st')" by (rule grown_table [OF g shm_invD(1) [OF inv]])
  ultimately show "shm_inv st'" using node conn by (simp add: shm_inv_def)
  show "shm_handle st f \<Longrightarrow> shm_handle st' f" using C I by (simp add: shm_handle_def inode_shm_def)
qed

section \<open>Quiet operations\<close>

lemma put_sh_os_fields [simp]:
  "shmNodes (put_sh_os os st) = shmNodes st" "shmConns (put_sh_os os st) = shmConns st"
  "inode_shm f (put_sh_os os st) = inode_shm f st" "us_brk (sh_unix (put_sh_os os st)) = us_brk (sh_unix st)"
  "inode_at p (sh_unix (put_sh_os os st)) = inode_at p (sh_unix st)" "sh_os (put_sh_os os st) = os"
  by (simp_all add: put_sh_os_def inode_shm_def)

lemma unixShmSystemLock_os:
  assumes r: "unixShmSystemLock S f t ofst n st = Some (rc, st')"
  obtains os where "st' = put_sh_os os st"
proof -
  obtain p node where n: "inode_shm f st = Some p" "shmNodes st p = Some node"
    using r by (auto simp: unixShmSystemLock_def bind_eq_Some_iff)
  show ?thesis
  proof (cases "0 \<le> sint (hShm node)")
    case True
    obtain x os where "osSetlk S (hShm node) (shm_flock t ofst n) (sh_os st) = (x, os)" by fastforce
    then show ?thesis using r n True that [of os] by (simp add: unixShmSystemLock_def)
  next
    case False
    have "put_sh_os (sh_os st) st = st" by (simp add: put_sh_os_def)
    then show ?thesis using r n False that [of "sh_os st"] by (simp add: unixShmSystemLock_def)
  qed
qed

lemma shm_quiet_table: "shm_quiet st st' \<Longrightarrow> table_ok (sh_unix st) \<Longrightarrow> table_ok (sh_unix st')"
  by (auto simp: shm_quiet_def intro: grown_table)

lemma unixShmSystemLock_quiet:
  assumes "unixShmSystemLock S f t ofst n st = Some (rc, st')" and "table_ok (sh_unix st)"
  shows "shm_quiet st st'"
  using assms by (auto elim!: unixShmSystemLock_os intro: shm_quiet_os shm_quiet_refl)

lemma shm_dms_first_quiet:
  assumes 1: "shm_dms_first S f p node r lock st = Some (rc, st')" and n: "shmNodes st p = Some node"
    and tab: "table_ok (sh_unix st)"
  shows "shm_quiet st st'"
proof (cases "r = 0 \<and> l_type lock = F_UNLCK")
  case True
  note q0 = shm_quiet_refl [OF tab]
  show ?thesis
  proof (cases "isReadonly node")
    case True': True
    have "shm_quiet st (put_shm_node p (node\<lparr>isUnlocked := True\<rparr>) st)"
      by (rule shm_quiet_node [OF q0]) (simp_all add: n)
    then show ?thesis using 1 True True' by (simp add: shm_dms_first_def)
  next
    case False
    obtain rc2 st2 where l: "unixShmSystemLock S f F_WRLCK UNIX_SHM_DMS 1 st = Some (rc2, st2)"
      using 1 True False by (auto simp: shm_dms_first_def bind_eq_Some_iff)
    have "shm_quiet st st2" by (rule unixShmSystemLock_quiet [OF l tab])
    then show ?thesis using 1 True False l
      by (auto simp: shm_dms_first_def bind_eq_Some_iff intro: shm_quiet_os split: if_splits)
  qed
next
  case False
  then show ?thesis using 1 shm_quiet_refl [OF tab] by (auto simp: shm_dms_first_def split: if_splits)
qed

lemma unixLockSharedMemory_quiet:
  assumes r: "unixLockSharedMemory S f p st = Some (rc, st')" and tab: "table_ok (sh_unix st)"
  shows "shm_quiet st st'"
proof -
  obtain node where n: "shmNodes st p = Some node"
    using r by (auto simp: unixLockSharedMemory_def bind_eq_Some_iff)
  obtain r0 lock os where g: "osGetlk S (hShm node) (shm_flock F_WRLCK UNIX_SHM_DMS 1) (sh_os st) = (r0, lock, os)"
    by (rule prod_cases3)
  obtain rc1 st1 where 1: "shm_dms_first S f p node r0 lock (put_sh_os os st) = Some (rc1, st1)"
    and 2: "(if rc1 = SQLITE_OK then unixShmSystemLock S f F_RDLCK UNIX_SHM_DMS 1 st1
        else Some (rc1, st1)) = Some (rc, st')"
    using r n g by (auto simp: unixLockSharedMemory_def bind_eq_Some_iff)
  have q0: "shm_quiet st (put_sh_os os st)" by (rule shm_quiet_os [OF shm_quiet_refl [OF tab]])
  have q1: "shm_quiet st st1"
    using q0 shm_dms_first_quiet [OF 1 _ shm_quiet_table [OF q0 tab]] n by (simp add: shm_quiet_trans)
  show ?thesis
  proof (cases "rc1 = SQLITE_OK")
    case True
    then have "unixShmSystemLock S f F_RDLCK UNIX_SHM_DMS 1 st1 = Some (rc, st')" using 2 by simp
    from q1 unixShmSystemLock_quiet [OF this shm_quiet_table [OF q1 tab]] show ?thesis by (rule shm_quiet_trans)
  qed (use 2 q1 in simp)
qed

section \<open>Mapping\<close>

lemma length_set_regions:
  "k + step \<le> length rs \<Longrightarrow> length (set_regions rs k p sz step) = length rs"
  by (simp add: set_regions_def)

text \<open>The regions a node has keep their addresses when more are mapped.\<close>

definition node_extends :: "unixShmNode \<Rightarrow> unixShmNode \<Rightarrow> bool" where
  "node_extends n n' \<longleftrightarrow> pFirst n' = pFirst n \<and> sn_nRef n' = sn_nRef n \<and> hShm n' = hShm n \<and>
     sn_zFilename n' = sn_zFilename n \<and> isReadonly n' = isReadonly n \<and> nRegion n \<le> nRegion n' \<and>
     unat (nRegion n') \<le> length (apRegion n') \<and>
     take (unat (nRegion n)) (apRegion n') = take (unat (nRegion n)) (apRegion n)"

lemma node_extends_trans:
  assumes "node_extends n n1" and "node_extends n1 n2" shows "node_extends n n2"
proof -
  have "unat (nRegion n) \<le> unat (nRegion n1)" using assms by (simp add: node_extends_def word_le_nat_alt)
  then have "take (unat (nRegion n)) rs = take (unat (nRegion n)) (take (unat (nRegion n1)) rs)" for rs :: "ptr list"
    by (simp add: min_def)
  then show ?thesis using assms unfolding node_extends_def by (metis order_trans)
qed

lemma shm_map_one_grown:
  assumes "shm_map_one S node nMap u = (rc, p, v)" and "table_ok u" and "0 < nMap"
  shows "grown u v"
proof (cases "0 \<le> sint (hShm node)")
  case True
  then show ?thesis using assms grown_os [OF grown_refl [OF assms(2)]]
    by (auto simp: shm_map_one_def split: prod.splits)
next
  case False
  then obtain q where "us_malloc nMap u = (q, v)"
    using assms(1) by (auto simp: shm_map_one_def split: prod.splits)
  then show ?thesis using us_malloc_grown assms(2,3) by blast
qed

text \<open>What the mapping loop and its frame do to a node; \<open>k\<close> bounds the regions there may be.\<close>

definition node_mapped :: "int \<Rightarrow> unixShmNode \<Rightarrow> unixShmNode \<Rightarrow> bool" where
  "node_mapped k n n' \<longleftrightarrow> pFirst n' = pFirst n \<and> sn_nRef n' = sn_nRef n \<and>
     (unat (nRegion n) \<le> length (apRegion n) \<longrightarrow>
        unat (nRegion n') \<le> length (apRegion n') \<and> (k < 2 ^ 16 \<longrightarrow> node_extends n n'))"

lemma node_mapped_trans: "node_mapped k n n1 \<Longrightarrow> node_mapped k n1 n2 \<Longrightarrow> node_mapped k n n2"
  by (auto simp: node_mapped_def intro: node_extends_trans)

lemma node_mapped_refl: "node_mapped k n n"
  by (simp add: node_mapped_def node_extends_def)

lemma regions_fit:
  fixes w :: "16 word"
  assumes "0 < step" and "uint w + step \<le> int k"
  shows "unat w + nat step \<le> k"
proof -
  have "int (unat w + nat step) = uint w + step" using assms(1) by simp
  then show ?thesis using assms(2) by linarith
qed

lemma node_mapped_step:
  assumes "0 < step" and "uint (nRegion n) + step \<le> int (length (apRegion n))" and "int (length (apRegion n)) \<le> k"
  shows "node_mapped k n
    (n\<lparr>apRegion := set_regions (apRegion n) (unat (nRegion n)) p (szRegion n) (nat step),
       nRegion := nRegion n + word_of_int step\<rparr>)"
proof -
  have le: "unat (nRegion n) + nat step \<le> length (apRegion n)"
    by (rule regions_fit [OF assms(1,2)])
  have eq: "uint (nRegion n + word_of_int step) = (uint (nRegion n) + step) mod 2 ^ 16"
    by (simp add: uint_word_ariths uint_word_of_int mod_simps)
  have sum: "int (unat (nRegion n) + nat step) = uint (nRegion n) + step" using assms(1) by simp
  have "uint (nRegion n + word_of_int step) \<le> uint (nRegion n) + step"
    unfolding eq using assms(1) by (simp add: zmod_le_nonneg_dividend)
  then have w: "unat (nRegion n + word_of_int step) \<le> unat (nRegion n) + nat step"
    using sum by (metis of_nat_le_iff uint_nat)
  have "unat (nRegion n) \<le> unat (nRegion n + word_of_int step)" if "k < 2 ^ 16"
  proof -
    have "uint (nRegion n + word_of_int step) = uint (nRegion n) + step"
      unfolding eq using assms that by (intro mod_pos_pos_trivial) simp_all
    then show ?thesis using assms(1) by (metis of_nat_le_iff uint_nat le_add_same_cancel1 less_imp_le)
  qed
  then show ?thesis
    using w le by (auto simp: node_mapped_def node_extends_def length_set_regions word_le_nat_alt set_regions_def)
qed

lemma shm_map_loop_spec:
  assumes run: "shm_map_loop S step nReq n u = Some (rc, n', v)"
    and "0 < step" "0 < szRegion n" "int (length (apRegion n)) = nReq" "table_ok u"
  shows "grown u v \<and> node_mapped nReq n n' \<and> (rc = SQLITE_OK \<longrightarrow> nReq \<le> uint (nRegion n'))"
proof -
  define P where "P = (\<lambda>(S :: 'a syscalls) (step :: int) (nReq :: int) n (u :: 'a unix_state) r.
     0 < step \<longrightarrow> 0 < szRegion n \<longrightarrow> int (length (apRegion n)) = nReq \<longrightarrow> table_ok u \<longrightarrow>
     (case r of (rc, n', v) \<Rightarrow>
       grown u v \<and> node_mapped nReq n n' \<and> (rc = SQLITE_OK \<longrightarrow> nReq \<le> uint (nRegion n'))))"
  have "P S step nReq n u (rc, n', v)"
    using run
  proof (rule shm_map_loop.raw_induct [where P = P, rotated])
    fix rec and S :: "'a syscalls" and step nReq n u r
    assume IH: "\<And>S step nReq n u r. rec S step nReq n u = Some r \<Longrightarrow> P S step nReq n u r"
      and eq: "(if nReq \<le> uint (nRegion n) then Some (SQLITE_OK, n, u)
      else (case shm_map_one S n (szRegion n * step) u of (rc, p, u) \<Rightarrow>
        if rc \<noteq> SQLITE_OK then Some (rc, n, u)
        else if int (length (apRegion n)) < uint (nRegion n) + step then None
        else rec S step nReq
          (n\<lparr>apRegion := set_regions (apRegion n) (unat (nRegion n)) p (szRegion n) (nat step),
                nRegion := nRegion n + word_of_int step\<rparr>) u)) = Some r"
    show "P S step nReq n u r"
      unfolding P_def
    proof (intro impI)
      assume A: "0 < step" "0 < szRegion n" "int (length (apRegion n)) = nReq" "table_ok u"
      obtain rc1 p u1 where m: "shm_map_one S n (szRegion n * step) u = (rc1, p, u1)" by (rule prod_cases3)
      have g: "grown u u1" using shm_map_one_grown [OF m A(4)] A by simp
      let ?n = "n\<lparr>apRegion := set_regions (apRegion n) (unat (nRegion n)) p (szRegion n) (nat step),
                nRegion := nRegion n + word_of_int step\<rparr>"
      show "case r of (rc, n', v) \<Rightarrow>
          grown u v \<and> node_mapped nReq n n' \<and> (rc = SQLITE_OK \<longrightarrow> nReq \<le> uint (nRegion n'))"
      proof (cases "nReq \<le> uint (nRegion n) \<or> rc1 \<noteq> SQLITE_OK")
        case True
        then show ?thesis using eq m g grown_refl [OF A(4)] node_mapped_refl by (auto split: if_splits)
      next
        case False
        then have le: "uint (nRegion n) + step \<le> int (length (apRegion n))" and r: "rec S step nReq ?n u1 = Some r"
          using eq m by (auto split: if_splits)
        have "unat (nRegion n) + nat step \<le> length (apRegion n)"
          by (rule regions_fit [OF A(1) le])
        then have "int (length (apRegion ?n)) = nReq" using A(3) by (simp add: length_set_regions)
        then have "case r of (rc, n', v) \<Rightarrow>
            grown u1 v \<and> node_mapped nReq ?n n' \<and> (rc = SQLITE_OK \<longrightarrow> nReq \<le> uint (nRegion n'))"
          using IH [OF r, unfolded P_def] A grown_table [OF g A(4)] by simp
        moreover have "node_mapped nReq n ?n" by (rule node_mapped_step) (use A le in simp_all)
        ultimately show ?thesis using g grown_trans node_mapped_trans by (cases r) blast
      qed
    qed
  qed
  then show ?thesis using assms by (simp add: P_def)
qed

lemma shm_map_more_spec:
  assumes run: "shm_map_more S step nReq sz e n u = Some (rc, n', v)"
    and A: "0 < step" "0 < sz" "uint (nRegion n) < nReq" "table_ok u"
  shows "grown u v \<and> node_mapped nReq n n' \<and> (rc = SQLITE_OK \<and> e \<longrightarrow> nReq \<le> uint (nRegion n'))"
proof -
  let ?n = "n\<lparr>szRegion := sz\<rparr>"
  obtain rc1 go os where gf: "shm_grow_file S ?n (nReq * sz) e (us_os u) = Some (rc1, go, os)"
    using run by (cases "shm_grow_file S ?n (nReq * sz) e (us_os u)") (auto simp: shm_map_more_def Let_def)
  have g0: "grown u (u\<lparr>us_os := os\<rparr>)" by (rule grown_os [OF grown_refl [OF A(4)]])
  have n0: "node_mapped nReq n ?n" by (simp add: node_mapped_def node_extends_def)
  show ?thesis
  proof (cases go)
    case False
    have "\<not> (rc1 = SQLITE_OK \<and> e)"
      using gf False by (auto simp: shm_grow_file_def bind_eq_Some_iff split: if_splits prod.splits)
    then show ?thesis using False run gf g0 n0 by (auto simp: shm_map_more_def)
  next
    case True
    obtain a u1 where m: "us_malloc (nReq * 8) (u\<lparr>us_os := os\<rparr>) = (a, u1)" by fastforce
    have nR: "0 < nReq" using A(3) uint_ge_0 [of "nRegion n"] by linarith
    have g1: "grown u u1"
      using g0 us_malloc_grown(1) [OF m grown_table [OF g0 A(4)]] nR by (simp add: grown_trans)
    show ?thesis
    proof (cases "a = NULL")
      case True': True
      then show ?thesis using run gf True m g1 n0 by (simp add: shm_map_more_def)
    next
      case False
      let ?k = "?n\<lparr>apRegion := take (nat nReq) (apRegion n @ replicate (nat nReq - length (apRegion n)) NULL)\<rparr>"
      have l: "shm_map_loop S step nReq ?k u1 = Some (rc, n', v)"
        using run gf True m False by (simp add: shm_map_more_def)
      have "int (length (apRegion ?k)) = nReq" using nR by auto
      then have "grown u1 v" "node_mapped nReq ?k n'" "rc = SQLITE_OK \<longrightarrow> nReq \<le> uint (nRegion n')"
        using shm_map_loop_spec [OF l A(1) _ _ grown_table [OF g1 A(4)]] A(2) by simp_all
      moreover have "node_mapped nReq n ?k"
      proof -
        have "unat (nRegion n) \<le> nat nReq" using A(3) by (simp flip: nat_uint_eq)
        then show ?thesis by (auto simp: node_mapped_def node_extends_def min_def)
      qed
      ultimately show ?thesis using g1 grown_trans node_mapped_trans by blast
    qed
  qed
qed

lemma unixShmRegionPerMap_pos: "0 < unixShmRegionPerMap S"
  by (simp add: unixShmRegionPerMap_def Let_def pos_imp_zdiv_pos_iff)

text \<open>Regions come in multiples of \<open>step\<close>: the smallest multiple above \<open>iRegion\<close>.\<close>

lemma region_round_up:
  assumes "0 < (step :: int)" and "0 \<le> iRegion"
  shows "iRegion < (iRegion + step) div step * step" and "(iRegion + step) div step * step \<le> iRegion + step"
proof -
  have "(iRegion + step) div step * step = iRegion + step - (iRegion + step) mod step"
    by (rule minus_mod_eq_div_mult [symmetric])
  then show "iRegion < (iRegion + step) div step * step" "(iRegion + step) div step * step \<le> iRegion + step"
    using assms pos_mod_bound [of step "iRegion + step"] pos_mod_sign [of step "iRegion + step"] by linarith+
qed

lemma unixLockSharedMemory_node:
  assumes r: "unixLockSharedMemory S f p st = Some (rc, st')" and n: "shmNodes st p = Some node"
  shows "\<exists>b. shmNodes st' = (shmNodes st)(p \<mapsto> node\<lparr>isUnlocked := b\<rparr>)"
proof -
  have same: "(shmNodes st)(p \<mapsto> node\<lparr>isUnlocked := isUnlocked node\<rparr>) = shmNodes st"
    using n by auto
  obtain r0 lock os where g: "osGetlk S (hShm node) (shm_flock F_WRLCK UNIX_SHM_DMS 1) (sh_os st) = (r0, lock, os)"
    by (rule prod_cases3)
  obtain rc1 st1 where 1: "shm_dms_first S f p node r0 lock (put_sh_os os st) = Some (rc1, st1)"
    and 2: "(if rc1 = SQLITE_OK then unixShmSystemLock S f F_RDLCK UNIX_SHM_DMS 1 st1
        else Some (rc1, st1)) = Some (rc, st')"
    using r n g by (auto simp: unixLockSharedMemory_def bind_eq_Some_iff)
  have "shmNodes st' = shmNodes st1"
    using 2 by (auto elim: unixShmSystemLock_os split: if_splits)
  moreover have "shmNodes st1 = shmNodes st \<or> shmNodes st1 = (shmNodes st)(p \<mapsto> node\<lparr>isUnlocked := True\<rparr>)"
    using 1 by (auto simp: shm_dms_first_def bind_eq_Some_iff put_shm_node_def
        elim: unixShmSystemLock_os split: if_splits)
  ultimately show ?thesis using same by metis
qed

lemma shm_map_region_spec:
  assumes run: "shm_map_region S f iRegion sz e st = Some (rc, pp, st')"
    and c: "shmConns st (pShm f) = Some c" and n: "shmNodes st (sh_node c) = Some n"
    and A: "0 \<le> iRegion" "0 < sz" "table_ok (sh_unix st)" "unat (nRegion n) \<le> length (apRegion n)"
  obtains n' where "shm_quiet st st'" "shmNodes st' (sh_node c) = Some n'" "shmConns st' = shmConns st"
    "pp = (if iRegion < uint (nRegion n') then apRegion n' ! nat iRegion else NULL)"
    "iRegion + unixShmRegionPerMap S < 2 ^ 16 \<Longrightarrow> node_extends n n'"
    "rc = SQLITE_OK \<Longrightarrow> e \<Longrightarrow> iRegion < uint (nRegion n')"
    "\<And>r. r \<noteq> sh_node c \<Longrightarrow> shmNodes st' r = shmNodes st r"
proof -
  let ?q = "sh_node c"
  obtain rc1 st1 n1 where n1: "shmNodes st1 ?q = Some n1" and q1: "shm_quiet st st1"
    and b: "\<exists>b. n1 = n\<lparr>isUnlocked := b\<rparr>" and oth: "\<forall>r. r \<noteq> ?q \<longrightarrow> shmNodes st1 r = shmNodes st r"
    and rest: "do {
     let step = unixShmRegionPerMap S;
     let nReq = ((iRegion + step) div step) * step;
     (rc, node, ust) \<leftarrow>
       (if rc1 = SQLITE_OK \<and> uint (nRegion n1) < nReq
        then shm_map_more S step nReq sz e n1 (sh_unix st1)
        else Some (rc1, n1, sh_unix st1));
     (rc, pp) \<leftarrow> shm_page_out iRegion rc node;
     Some (rc, pp, put_shm_node ?q node (st1\<lparr>sh_unix := ust\<rparr>))
   } = Some (rc, pp, st')"
  proof (cases "isUnlocked n")
    case False
    have "\<exists>b. n = n\<lparr>isUnlocked := b\<rparr>" by (rule exI [of _ "isUnlocked n"]) simp
    then show ?thesis using run c n False that [of st n SQLITE_OK] shm_quiet_refl [OF A(3)]
      by (simp add: shm_map_region_def Let_def)
  next
    case True
    obtain rc0 st0 where l: "unixLockSharedMemory S f ?q st = Some (rc0, st0)"
      using run c n True by (auto simp: shm_map_region_def Let_def bind_eq_Some_iff)
    obtain b where N: "shmNodes st0 = (shmNodes st)(?q \<mapsto> n\<lparr>isUnlocked := b\<rparr>)"
      using unixLockSharedMemory_node [OF l n] by blast
    have q0: "shm_quiet st st0" by (rule unixLockSharedMemory_quiet [OF l A(3)])
    let ?st1 = "if rc0 = SQLITE_OK then put_shm_node ?q (n\<lparr>isUnlocked := False\<rparr>) st0 else st0"
    let ?n1 = "if rc0 = SQLITE_OK then n\<lparr>isUnlocked := False\<rparr> else n\<lparr>isUnlocked := b\<rparr>"
    have "shm_quiet st ?st1"
      using q0 shm_quiet_node [OF q0, of ?q "n\<lparr>isUnlocked := b\<rparr>" "n\<lparr>isUnlocked := False\<rparr>"] N by simp
    moreover have "shmNodes ?st1 ?q = Some ?n1" using N by (simp add: put_shm_node_def)
    moreover have "\<exists>b. ?n1 = n\<lparr>isUnlocked := b\<rparr>" by auto
    moreover have "\<forall>r. r \<noteq> ?q \<longrightarrow> shmNodes ?st1 r = shmNodes st r" using N by (simp add: put_shm_node_def)
    ultimately show ?thesis using run c n True l N that [of ?st1 ?n1 rc0]
      by (auto simp: shm_map_region_def Let_def put_shm_node_def split: if_splits)
  qed
  let ?step = "unixShmRegionPerMap S"
  let ?nReq = "(iRegion + ?step) div ?step * ?step"
  obtain rc2 n2 u2 where m: "(if rc1 = SQLITE_OK \<and> uint (nRegion n1) < ?nReq
        then shm_map_more S ?step ?nReq sz e n1 (sh_unix st1)
        else Some (rc1, n1, sh_unix st1)) = Some (rc2, n2, u2)"
    and po: "shm_page_out iRegion rc2 n2 = Some (rc, pp)" and st': "st' = put_shm_node ?q n2 (st1\<lparr>sh_unix := u2\<rparr>)"
    using rest unfolding Let_def by (auto simp: bind_eq_Some_iff)
  have t1: "table_ok (sh_unix st1)" by (rule shm_quiet_table [OF q1 A(3)])
  have gm: "grown (sh_unix st1) u2 \<and> node_mapped ?nReq n1 n2 \<and> (rc2 = SQLITE_OK \<and> e \<longrightarrow> ?nReq \<le> uint (nRegion n2))"
  proof (cases "rc1 = SQLITE_OK \<and> uint (nRegion n1) < ?nReq")
    case True
    then have "shm_map_more S ?step ?nReq sz e n1 (sh_unix st1) = Some (rc2, n2, u2)" using m by simp
    from shm_map_more_spec [OF this unixShmRegionPerMap_pos A(2) _ t1] True show ?thesis by simp
  next
    case False
    then show ?thesis using m grown_refl [OF t1] node_mapped_refl by auto
  qed
  have "shm_quiet st1 (st1\<lparr>sh_unix := u2\<rparr>)" by (rule shm_quiet_unix [OF t1]) (use gm in simp)
  with q1 have q2: "shm_quiet st (st1\<lparr>sh_unix := u2\<rparr>)" by (rule shm_quiet_trans)
  have q': "shm_quiet st st'"
    unfolding st' by (rule shm_quiet_node [OF q2, of _ n1]) (use gm n1 in \<open>simp_all add: node_mapped_def\<close>)
  show ?thesis
  proof (rule that [OF q'])
    show "shmNodes st' ?q = Some n2" "shmConns st' = shmConns st"
      using q' by (simp_all add: st' put_shm_node_def shm_quiet_def)
    show "pp = (if iRegion < uint (nRegion n2) then apRegion n2 ! nat iRegion else NULL)"
      using po A(1) by (auto simp: shm_page_out_def bind_eq_Some_iff split: if_splits)
    show "node_extends n n2" if "iRegion + unixShmRegionPerMap S < 2 ^ 16"
    proof -
      have "?nReq \<le> iRegion + ?step" by (rule region_round_up(2) [OF unixShmRegionPerMap_pos A(1)])
      then have "node_extends n1 n2" using gm that b A(4) by (auto simp: node_mapped_def)
      then show ?thesis using b by (auto simp: node_extends_def)
    qed
    show "iRegion < uint (nRegion n2)" if "rc = SQLITE_OK" e
    proof -
      have "rc2 = SQLITE_OK" using po that(1) by (auto simp: shm_page_out_def bind_eq_Some_iff split: if_splits)
      then show ?thesis using gm that(2) region_round_up(1) [OF unixShmRegionPerMap_pos [of S] A(1)] by simp
    qed
    show "shmNodes st' r = shmNodes st r" if "r \<noteq> ?q" for r
      using oth that by (simp add: st' put_shm_node_def)
  qed
qed

end
