(* ===== verification/Shm_Life.thy ===== *)
theory Shm_Life
  imports Shm_Inv
begin

text \<open>
  How connections to shared memory begin and end: opening the file, the first and the last
  connection of a node, and what a failure leaves behind.
\<close>

section \<open>A new connection\<close>

text \<open>The state below has changed in one inode object and given memory out.\<close>

definition inode_updated :: "ptr \<Rightarrow> unixInodeInfo \<Rightarrow> 'os unix_state \<Rightarrow> 'os unix_state \<Rightarrow> bool" where
  "inode_updated k j u v \<longleftrightarrow> table_ok v \<and> uint (us_brk u) \<le> uint (us_brk v) \<and>
     (\<forall>l. inode_at l v = (if l = k then Some j else inode_at l u))"

lemma inode_updated_grown:
  "inode_updated k j u v \<Longrightarrow> grown v w \<Longrightarrow> inode_updated k j u w"
  using grown_fields(1) [of v w] grown_table [of v w] by (auto simp: inode_updated_def grown_def)

lemma shm_inv_join:
  fixes st st1 :: "'os shm_state"
  assumes inv: "shm_inv st"
    and C: "shmConns st1 = (shmConns st)(p \<mapsto> d)"
    and p: "p \<noteq> NULL" "shmConns st p = None" "uint p < uint (us_brk (sh_unix st1))"
    and q: "q \<noteq> NULL" "uint q < uint (us_brk (sh_unix st1))"
    and i: "inode_at k (sh_unix st) = Some i" "ii_shm i = NULL \<or> ii_shm i = q" "ii_shm j = q"
    and own: "\<And>l i. inode_at l (sh_unix st) = Some i \<Longrightarrow> ii_shm i = q \<Longrightarrow> l = k"
    and upd: "inode_updated k j (sh_unix st) (sh_unix st1)"
    and N: "\<And>r. r \<noteq> q \<Longrightarrow> shmNodes st1 r = shmNodes st r" "shmNodes st1 q = Some n"
    and n: "distinct (pFirst n)" "sn_nRef n = int (length (pFirst n))" "unat (nRegion n) \<le> length (apRegion n)"
      "\<And>x. x \<in> set (pFirst n) \<longleftrightarrow> (\<exists>c. shmConns st x = Some c \<and> sh_node c = q)"
  defines "st' \<equiv> put_shm_conn p (zero_unixShm\<lparr>sh_node := q\<rparr>)
      (put_shm_node q (n\<lparr>sn_nRef := sn_nRef n + 1, pFirst := p # pFirst n\<rparr>) st1)"
  shows "shm_inv st'" and "shm_handle st g \<Longrightarrow> shm_handle st' g"
    and "pInode g = k \<Longrightarrow> pShm g = p \<Longrightarrow> shm_handle st' g"
proof -
  let ?u = "sh_unix st" and ?v = "sh_unix st1"
  have I: "inode_at l ?v = (if l = k then Some j else inode_at l ?u)" for l
    using upd by (simp add: inode_updated_def)
  have t1: "table_ok ?v" and le: "uint (us_brk ?u) \<le> uint (us_brk ?v)"
    using upd by (simp_all add: inode_updated_def)
  have S0: "sh_unix st' = ?v" "shmConns st' = (shmConns st)(p \<mapsto> zero_unixShm\<lparr>sh_node := q\<rparr>)"
    "shmNodes st' q = Some (n\<lparr>sn_nRef := sn_nRef n + 1, pFirst := p # pFirst n\<rparr>)"
    using C N by (simp_all add: st'_def put_shm_conn_def put_shm_node_def)
  have S1: "shmNodes st' r = shmNodes st r" if "r \<noteq> q" for r
    using that N by (simp add: st'_def put_shm_conn_def put_shm_node_def)
  note S = S0 S1
  have fresh: "p \<notin> set (pFirst m)" if "shmNodes st r = Some m" for r m
    using shm_invD(3) [OF inv that] p(2) by (simp add: node_ok_def)
  have qk: "\<exists>k i. inode_at k ?v = Some i \<and> ii_shm i = q" using I i(3) by (intro exI [of _ k] exI [of _ j]) simp
  have node: "node_ok st' r m" if m: "shmNodes st' r = Some m" for r m
  proof (cases "r = q")
    case True
    have "x \<in> set (pFirst m) \<longleftrightarrow> (\<exists>c. shmConns st' x = Some c \<and> sh_node c = q)" for x
      using m True n(4) [of x] by (auto simp: S)
    moreover have "p \<notin> set (pFirst n)" using n(4) p(2) by simp
    ultimately show ?thesis using True m n(1-3) q qk by (auto simp: node_ok_def S)
  next
    case False
    then have m': "shmNodes st r = Some m" using m S by simp
    note A = shm_invD(3) [OF inv m', unfolded node_ok_def]
    then obtain l a where l: "inode_at l ?u = Some a" "ii_shm a = r" by blast
    have "l \<noteq> k" using l i(1,2) False A by auto
    then have "\<exists>k i. inode_at k ?v = Some i \<and> ii_shm i = r" using l I by (intro exI [of _ l] exI [of _ a]) simp
    moreover have "x \<in> set (pFirst m) \<longleftrightarrow> (\<exists>c. shmConns st' x = Some c \<and> sh_node c = r)" for x
      using A False p(2) by (auto simp: S)
    ultimately show ?thesis using A le by (auto simp: node_ok_def S)
  qed
  have conn: "conn_ok st' r c" if c: "shmConns st' r = Some c" for r c
  proof (cases "r = p")
    case True
    then show ?thesis using c p by (auto simp: conn_ok_def S zero_unixShm_def compatible_conns_def)
  next
    case False
    then have c': "shmConns st r = Some c" using c S by simp
    note A = shm_invD(4) [OF inv c', unfolded conn_ok_def]
    have "shmNodes st' (sh_node c) \<noteq> None" using A S by (cases "sh_node c = q") auto
    then show ?thesis using A le by (auto simp: conn_ok_def S zero_unixShm_def compatible_conns_def)
  qed
  have "inodes_shm_ok st'"
    unfolding inodes_shm_ok_def
  proof (intro allI impI)
    fix l a assume a: "inode_at l (sh_unix st') = Some a" "ii_shm a \<noteq> NULL"
    show "shmNodes st' (ii_shm a) \<noteq> None \<and>
        (\<forall>m b. inode_at m (sh_unix st') = Some b \<longrightarrow> ii_shm b = ii_shm a \<longrightarrow> m = l)"
    proof (cases "l = k")
      case True
      then have "ii_shm a = q" using a I i(3) by (simp add: S)
      then show ?thesis using True own I by (auto simp: S)
    next
      case False
      then have a': "inode_at l ?u = Some a" using a I by (simp add: S)
      then have "ii_shm a \<noteq> q" using own False by blast
      moreover have "m = l" if "inode_at m (sh_unix st') = Some b" "ii_shm b = ii_shm a" for m b
        using shm_invD(2) [OF inv] a' a(2) that I i(3) calculation
        by (auto simp: inodes_shm_ok_def S split: if_splits)
      ultimately show ?thesis using shm_invD(2) [OF inv] a' a(2) by (auto simp: inodes_shm_ok_def S)
    qed
  qed
  then show "shm_inv st'" using node conn t1 S(1) by (simp add: shm_inv_def)
  show "shm_handle st' g" if g: "shm_handle st g"
  proof -
    have "pShm g \<noteq> p" if "pShm g \<noteq> NULL" using g that p by (auto simp: shm_handle_def)
    moreover have "inode_shm g st' = Some r" if "inode_shm g st = Some r" "r \<noteq> NULL" for r
      using that i I by (auto simp: inode_shm_def S)
    moreover have "sh_node c \<noteq> NULL" if "shmConns st x = Some c" for x c
      using shm_invD(4) [OF inv that] shm_invD(3) [OF inv, of NULL] by (auto simp: conn_ok_def node_ok_def)
    moreover have "inode_at (pInode g) (sh_unix st') \<noteq> None" using g I by (simp add: shm_handle_def S)
    moreover obtain c where "pShm g = NULL \<or> shmConns st (pShm g) = Some c \<and> inode_shm g st = Some (sh_node c)"
      using g by (auto simp: shm_handle_def)
    ultimately show ?thesis unfolding shm_handle_def S(2) by auto
  qed
  show "shm_handle st' g" if "pInode g = k" "pShm g = p"
    using that I i(3) by (simp add: shm_handle_def inode_shm_def S zero_unixShm_def)
qed

section \<open>A new node\<close>

text \<open>The empty node \<open>q\<close> has been made for the inode of \<open>f\<close>, whose object was \<open>i\<close>.\<close>

definition node_made :: "unixFile \<Rightarrow> unixInodeInfo \<Rightarrow> ptr \<Rightarrow> 'os shm_state \<Rightarrow> 'os shm_state \<Rightarrow> bool" where
  "node_made f i q st st' \<longleftrightarrow> q \<noteq> NULL \<and> uint (us_brk (sh_unix st)) \<le> uint q \<and>
     uint q < uint (us_brk (sh_unix st')) \<and> shmConns st' = shmConns st \<and>
     (\<exists>n. shmNodes st' = (shmNodes st)(q \<mapsto> n) \<and> pFirst n = [] \<and> sn_nRef n = 0 \<and> nRegion n = 0) \<and>
     inode_updated (pInode f) (i\<lparr>ii_shm := q\<rparr>) (sh_unix st) (sh_unix st')"

lemma node_made_later:
  assumes "node_made f i q st st1" and "shmConns st2 = shmConns st1" and "shmNodes st2 = (shmNodes st1)(q \<mapsto> n)"
    and "pFirst n = []" "sn_nRef n = 0" "nRegion n = 0" and "grown (sh_unix st1) (sh_unix st2)"
  shows "node_made f i q st st2"
  using assms inode_updated_grown [of "pInode f" _ "sh_unix st" "sh_unix st1" "sh_unix st2"]
  by (auto simp: node_made_def grown_def)

lemma shm_attach_file_made:
  assumes r: "shm_attach_file S f zDb q n sb st1 = Some (rc, st2)" and m: "node_made f i q st st1"
    and n: "shmNodes st1 q = Some n" "pFirst n = []" "sn_nRef n = 0" "nRegion n = 0"
  shows "node_made f i q st st2"
proof -
  have t1: "table_ok (sh_unix st1)" using m by (simp add: node_made_def inode_updated_def)
  obtain h ro os where o: "shm_open_file S zDb (sn_zFilename n) (st_mode sb AND 0x1FF) (sh_os st1) = Some (h, ro, os)"
    using r by (auto simp: shm_attach_file_def bind_eq_Some_iff)
  show ?thesis
  proof (cases "sint h < 0")
    case True
    then have st2: "st2 = put_sh_os os st1" using r o by (simp add: shm_attach_file_def)
    have "shmNodes st2 = (shmNodes st1)(q \<mapsto> n)" using n(1) by (auto simp: st2)
    moreover have "grown (sh_unix st1) (sh_unix st2)"
      using grown_os [OF grown_refl [OF t1]] by (simp add: st2 put_sh_os_def)
    ultimately show ?thesis by (intro node_made_later [OF m, of _ n]) (use n in \<open>simp_all add: st2\<close>)
  next
    case False
    let ?n = "n\<lparr>hShm := h, isReadonly := ro\<rparr>"
    let ?s = "put_shm_node q ?n (put_sh_os os st1)"
    have l: "unixLockSharedMemory S f q ?s = Some (rc, st2)"
      using r o False by (simp add: shm_attach_file_def robustFchown_def)
    have s: "shmNodes ?s = (shmNodes st1)(q \<mapsto> ?n)" "shmConns ?s = shmConns st1"
      "sh_unix ?s = (sh_unix st1)\<lparr>us_os := os\<rparr>"
      by (simp_all add: put_shm_node_def put_sh_os_def)
    have g: "grown (sh_unix st1) (sh_unix ?s)" unfolding s by (rule grown_os [OF grown_refl [OF t1]])
    obtain b where "shmNodes st2 = (shmNodes ?s)(q \<mapsto> ?n\<lparr>isUnlocked := b\<rparr>)"
      using unixLockSharedMemory_node [OF l, of ?n] s by auto
    moreover have "shm_quiet ?s st2" by (rule unixLockSharedMemory_quiet [OF l grown_table [OF g t1]])
    then have "grown (sh_unix ?s) (sh_unix st2)" "shmConns st2 = shmConns ?s" by (simp_all add: shm_quiet_def)
    ultimately show ?thesis
      using s g n by (intro node_made_later [OF m, of _ "?n\<lparr>isUnlocked := b\<rparr>"]) (auto intro: grown_trans)
  qed
qed

text \<open>Before the node exists, a failure changes nothing but the kernel.\<close>

definition shm_unmade :: "'os shm_state \<Rightarrow> 'os shm_state \<Rightarrow> bool" where
  "shm_unmade st st' \<longleftrightarrow> shmConns st' = shmConns st \<and> shmNodes st' = shmNodes st \<and>
     grown (sh_unix st) (sh_unix st')"

lemma shm_create_node_cases:
  assumes r: "shm_create_node S mem f st = Some (rc, st')" and tab: "table_ok (sh_unix st)"
    and i: "inode_at (pInode f) (sh_unix st) = Some i"
  obtains "shm_unmade st st'" "rc \<noteq> SQLITE_OK" "rc \<noteq> SQLITE_READONLY_CANTINIT"
  | q where "node_made f i q st st'"
proof -
  obtain x sb os where fs: "osFstat S (h_fd f) (sh_os st) = (x, sb, os)" by (rule prod_cases3)
  let ?st0 = "put_sh_os os st"
  have g0: "grown (sh_unix st) (sh_unix ?st0)"
    using grown_os [OF grown_refl [OF tab]] by (simp add: put_sh_os_def)
  note t0 = grown_table [OF g0 tab]
  show ?thesis
  proof (cases "x \<noteq> 0")
    case True
    then have "rc = SQLITE_IOERR_FSTAT" "st' = ?st0" using r fs by (simp_all add: shm_create_node_def Let_def)
    then show ?thesis using g0 that(1) by (simp add: shm_unmade_def)
  next
    case False
    obtain zDb n where z: "mem (zPath f) = Some zDb" "c_strlen zDb = Some n"
      using r fs False by (auto simp: shm_create_node_def Let_def bind_eq_Some_iff)
    obtain p u where m: "us_malloc (SIZE_unixShmNode + (6 + int n)) (sh_unix ?st0) = (p, u)" by fastforce
    have pos: "0 < SIZE_unixShmNode + (6 + int n)" by (simp add: SIZE_unixShmNode_def)
    note M = us_malloc_grown [OF m t0 pos]
    have gu: "grown (sh_unix st) u" using g0 M(1) by (rule grown_trans)
    show ?thesis
    proof (cases "p = NULL")
      case True
      then have "rc = SQLITE_NOMEM" "st' = ?st0\<lparr>sh_unix := u\<rparr>"
        using r fs False z m by (simp_all add: shm_create_node_def Let_def)
      then show ?thesis using gu that(1) by (simp add: shm_unmade_def)
    next
      case p: False
      let ?n = "new_shm_node (take n zDb @ shm_suffix)"
      have iu: "inode_at (pInode f) u = Some i" using grown_fields(1) [OF gu] i by simp
      let ?u1 = "put_inode (pInode f) (i\<lparr>ii_shm := p\<rparr>) u"
      let ?st1 = "(put_shm_node p ?n (?st0\<lparr>sh_unix := u\<rparr>))\<lparr>sh_unix := ?u1\<rparr>"
      have set: "set_inode_shm f p (put_shm_node p ?n (?st0\<lparr>sh_unix := u\<rparr>)) = Some ?st1"
        using iu by (simp add: set_inode_shm_def put_shm_node_def)
      have t1: "table_ok ?u1"
        by (rule table_ok_put_inode [OF grown_table [OF gu tab] iu]) simp_all
      have up: "inode_updated (pInode f) (i\<lparr>ii_shm := p\<rparr>) (sh_unix st) ?u1"
        using t1 gu grown_fields(1) [OF gu] i by (auto simp: inode_updated_def grown_def)
      have brk: "p = us_brk (sh_unix st)" "uint (us_brk (sh_unix st)) < uint (us_brk u)"
        using M(2) [OF p] by (simp_all add: put_sh_os_def)
      have made1: "node_made f i p st ?st1"
        unfolding node_made_def
        by (intro conjI exI [of _ ?n]) (use p brk up in \<open>simp_all add: put_shm_node_def new_shm_node_def\<close>)
      obtain m2 u2 where m2: "us_malloc SIZE_mutex ?u1 = (m2, u2)" by fastforce
      have g2: "grown ?u1 u2" using us_malloc_grown(1) [OF m2 t1] by (simp add: SIZE_mutex_def)
      let ?st2 = "?st1\<lparr>sh_unix := u2\<rparr>"
      have made2: "node_made f i p st ?st2"
        by (rule node_made_later [OF made1, of _ ?n]) (use g2 in \<open>auto simp: put_shm_node_def new_shm_node_def\<close>)
      have i2: "inode_at (pInode f) u2 = Some (i\<lparr>ii_shm := p\<rparr>)"
        using grown_fields(1) [OF g2] iu by simp
      have run: "(if m2 = NULL then Some (SQLITE_NOMEM, ?st2)
          else if bProcessLock i then Some (SQLITE_OK, ?st2)
          else shm_attach_file S f zDb p ?n sb ?st2) = Some (rc, st')"
        using r fs False z m p set m2 i2 by (auto simp: shm_create_node_def Let_def split: if_splits)
      show ?thesis
      proof (cases "m2 = NULL \<or> bProcessLock i")
        case True
        then have "st' = ?st2" using run by (auto split: if_splits)
        then show ?thesis using made2 that(2) by blast
      next
        case False
        then have a: "shm_attach_file S f zDb p ?n sb ?st2 = Some (rc, st')" using run by simp
        have "node_made f i p st st'"
          by (rule shm_attach_file_made [OF a made2]) (simp_all add: put_shm_node_def new_shm_node_def)
        then show ?thesis by (rule that(2))
      qed
    qed
  qed
qed

section \<open>Opening\<close>

text \<open>Nothing is left of a failed attempt but what the kernel did.\<close>

definition shm_restored :: "'os shm_state \<Rightarrow> 'os shm_state \<Rightarrow> bool" where
  "shm_restored st st' \<longleftrightarrow> shmConns st' = shmConns st \<and> shmNodes st' = shmNodes st \<and>
     table_ok (sh_unix st') \<and> uint (us_brk (sh_unix st)) \<le> uint (us_brk (sh_unix st')) \<and>
     (\<forall>l. inode_at l (sh_unix st') = inode_at l (sh_unix st))"

lemma shm_restored_inv:
  assumes "shm_restored st st'" and "shm_inv st"
  shows "shm_inv st'" and "shm_handle st' g = shm_handle st g"
proof -
  have "node_ok st' p n" if "shmNodes st p = Some n" for p n
    using assms shm_invD(3) [OF assms(2) that] by (auto simp: shm_restored_def node_ok_def)
  moreover have "conn_ok st' q c" if "shmConns st q = Some c" for q c
    using assms shm_invD(4) [OF assms(2) that] by (auto simp: shm_restored_def conn_ok_def)
  ultimately show "shm_inv st'" using assms by (auto simp: shm_restored_def shm_inv_def inodes_shm_ok_def)
  show "shm_handle st' g = shm_handle st g"
    using assms by (simp add: shm_restored_def shm_handle_def inode_shm_def)
qed

lemma shm_unmade_restored: "shm_unmade st st' \<Longrightarrow> table_ok (sh_unix st) \<Longrightarrow> shm_restored st st'"
  using grown_fields(1) [of "sh_unix st" "sh_unix st'"] grown_table [of "sh_unix st" "sh_unix st'"]
  by (auto simp: shm_unmade_def shm_restored_def grown_def)

lemma unixShmPurge_made:
  assumes r: "unixShmPurge S f st1 = Some st2" and m: "node_made f i q st st1"
    and i: "inode_at (pInode f) (sh_unix st) = Some i" "ii_shm i = NULL" and q: "shmNodes st q = None"
  shows "shm_restored st st2"
proof -
  let ?j = "i\<lparr>ii_shm := q\<rparr>"
  obtain n where n: "shmNodes st1 = (shmNodes st)(q \<mapsto> n)" "sn_nRef n = 0" "nRegion n = 0" and q0: "q \<noteq> NULL"
    and C: "shmConns st1 = shmConns st" and up: "inode_updated (pInode f) ?j (sh_unix st) (sh_unix st1)"
    using m by (auto simp: node_made_def)
  have j: "inode_at (pInode f) (sh_unix st1) = Some ?j" using up by (simp add: inode_updated_def)
  have ur: "unmap_regions S n k 0 os = Some os" for k os
    using n(3) by (subst unmap_regions.simps) simp
  obtain os where st2: "st2 = st1\<lparr>sh_unix := put_inode (pInode f) (?j\<lparr>ii_shm := NULL\<rparr>) ((sh_unix st1)\<lparr>us_os := os\<rparr>),
      shmNodes := (shmNodes st1)(q := None)\<rparr>"
    using r n j q0 ur by (auto simp: unixShmPurge_def inode_shm_def bind_eq_Some_iff set_inode_shm_def put_sh_os_def Let_def)
  have "?j\<lparr>ii_shm := NULL\<rparr> = i" using i(2) by simp
  moreover have "table_ok (put_inode (pInode f) (?j\<lparr>ii_shm := NULL\<rparr>) ((sh_unix st1)\<lparr>us_os := os\<rparr>))"
    by (rule table_ok_put_inode [of _ _ ?j]) (use up j in \<open>simp_all add: inode_updated_def table_ok_def\<close>)
  moreover have "(shmNodes st1)(q := None) = shmNodes st" using n(1) q by auto
  ultimately show ?thesis using up C i(1) by (auto simp: shm_restored_def st2 inode_updated_def)
qed

lemma unixOpenSharedMemory_spec:
  assumes r: "unixOpenSharedMemory S mem f st = Some (rc, f', st')" and inv: "shm_inv st"
    and f: "shm_handle st f" "pShm f = NULL"
  obtains (failed) "rc \<noteq> SQLITE_OK" "rc \<noteq> SQLITE_READONLY_CANTINIT" "f' = f" "shm_restored st st'"
  | (opened) p where "rc = SQLITE_OK \<or> rc = SQLITE_READONLY_CANTINIT" "f' = f\<lparr>pShm := p\<rparr>" "p \<noteq> NULL"
      "shmConns st p = None" "shm_inv st'" "shm_handle st' f'" "\<And>g. shm_handle st g \<Longrightarrow> shm_handle st' g"
      "\<And>q n. shmNodes st q = Some n \<Longrightarrow> \<exists>n'. shmNodes st' q = Some n' \<and> nRegion n' = nRegion n \<and> apRegion n' = apRegion n"
      "\<And>q c. shmConns st q = Some c \<Longrightarrow> shmConns st' q = Some c"
proof -
  have tab: "table_ok (sh_unix st)" by (rule shm_invD(1) [OF inv])
  obtain i where i: "inode_at (pInode f) (sh_unix st) = Some i" using f(1) by (auto simp: shm_handle_def)
  obtain p u where m: "us_malloc SIZE_unixShm (sh_unix st) = (p, u)" by fastforce
  have gu: "grown (sh_unix st) u" using us_malloc_grown(1) [OF m tab] by (simp add: SIZE_unixShm_def)
  note tu = grown_table [OF gu tab]
  have iu: "inode_at l u = inode_at l (sh_unix st)" for l by (rule grown_fields(1) [OF gu])
  show ?thesis
  proof (cases "p = NULL")
    case True
    then have "rc = SQLITE_NOMEM" "f' = f" "st' = st\<lparr>sh_unix := u\<rparr>"
      using r m by (simp_all add: unixOpenSharedMemory_def)
    moreover have "shm_restored st (st\<lparr>sh_unix := u\<rparr>)"
      by (rule shm_unmade_restored [OF _ tab]) (use gu in \<open>simp add: shm_unmade_def\<close>)
    ultimately show ?thesis using that(1) by simp
  next
    case p: False
    have brk: "p = us_brk (sh_unix st)" "uint p < uint (us_brk u)"
      using us_malloc_grown(2) [OF m tab _ p] by (simp_all add: SIZE_unixShm_def)
    have pc: "shmConns st p = None"
      using shm_invD(4) [OF inv, of p] brk by (cases "shmConns st p") (auto simp: conn_ok_def)
    let ?st1 = "put_shm_conn p zero_unixShm (st\<lparr>sh_unix := u\<rparr>)"
    have C1: "shmConns ?st1 = (shmConns st)(p \<mapsto> zero_unixShm)" "shmNodes ?st1 = shmNodes st" "sh_unix ?st1 = u"
      by (simp_all add: put_shm_conn_def)
    have own: "l = pInode f" if "inode_at l (sh_unix st) = Some a" "ii_shm a = q" "ii_shm i = q" "q \<noteq> NULL" for l a q
      using shm_invD(2) [OF inv] that i by (auto simp: inodes_shm_ok_def)
    have own0: "ii_shm a \<noteq> q" if "inode_at l (sh_unix st) = Some a" "shmNodes st q = None" "q \<noteq> NULL" for l a q
      using shm_invD(2) [OF inv, unfolded inodes_shm_ok_def, rule_format, OF that(1)] that(2,3) by auto
    show ?thesis
    proof (cases "ii_shm i = NULL")
      case False
      let ?q = "ii_shm i"
      obtain n where n: "shmNodes st ?q = Some n"
        by (rule inodes_shm_okD [OF shm_invD(2) [OF inv] i False])
      have res: "rc = SQLITE_OK" "f' = f\<lparr>pShm := p\<rparr>" "st' = put_shm_conn p (zero_unixShm\<lparr>sh_node := ?q\<rparr>)
          (put_shm_node ?q (n\<lparr>sn_nRef := sn_nRef n + 1, pFirst := p # pFirst n\<rparr>) ?st1)"
        using r m p False i n iu by (auto simp: unixOpenSharedMemory_def inode_shm_def C1 Let_def)
      note N = shm_invD(3) [OF inv n, unfolded node_ok_def]
      have up: "inode_updated (pInode f) i (sh_unix st) (sh_unix ?st1)"
        using tu gu iu i by (auto simp: inode_updated_def C1 grown_def)
      have pl: "uint p < uint (us_brk (sh_unix ?st1))" "uint ?q < uint (us_brk (sh_unix ?st1))"
        unfolding C1(3) using brk N by auto
      note J = shm_inv_join [OF inv C1(1) p pc pl(1) False pl(2) i(1) disjI2 [OF refl] refl own [OF _ _ refl False] up,
          where n = n]
      have "\<exists>n'. shmNodes st' q = Some n' \<and> nRegion n' = nRegion k \<and> apRegion n' = apRegion k"
        if "shmNodes st q = Some k" for q k
        using that n by (auto simp: res(3) put_shm_conn_def put_shm_node_def)
      moreover have "shmConns st' q = Some d" if "shmConns st q = Some d" for q d
        using that pc by (auto simp: res(3) put_shm_conn_def put_shm_node_def)
      ultimately show ?thesis using J
        by (intro that(2) [of p]) (use res p pc N n in \<open>auto simp: C1\<close>)
    next
      case True
      then obtain st2 where cr: "shm_create_node S mem f ?st1 = Some (rc, st2)"
        using r m p i iu by (auto simp: unixOpenSharedMemory_def inode_shm_def C1 Let_def bind_eq_Some_iff split: if_splits)
      have i1: "inode_at (pInode f) (sh_unix ?st1) = Some i" using i iu C1 by simp
      have t1: "table_ok (sh_unix ?st1)" using tu C1 by simp
      have undo: "shm_restored st (free_shm_conn p st3)" if "shm_restored ?st1 st3" for st3
      proof -
        have "((shmConns st)(p \<mapsto> zero_unixShm))(p := None) = shmConns st" using pc by auto
        then show ?thesis using that gu iu by (auto simp: shm_restored_def free_shm_conn_def C1 grown_def)
      qed
      have fail: "shm_restored ?st1 st3" if "unixShmPurge S f st2 = Some st3" "rc \<noteq> SQLITE_OK" "rc \<noteq> SQLITE_READONLY_CANTINIT" for st3
        using cr t1 i1
      proof (cases rule: shm_create_node_cases)
        case 1
        have "inode_shm f st2 = Some NULL"
          using 1 i1 True grown_fields(1) [of "sh_unix ?st1" "sh_unix st2"]
          by (simp add: inode_shm_def shm_unmade_def)
        then have "st3 = st2" using that(1) by (simp add: unixShmPurge_def)
        then show ?thesis using shm_unmade_restored [OF 1(1) t1] by simp
      next
        case (2 q)
        have "shmNodes ?st1 q = None"
          using 2 shm_invD(3) [OF inv, of q] gu
          by (cases "shmNodes st q") (auto simp: node_made_def node_ok_def C1 grown_def)
        then show ?thesis by (rule unixShmPurge_made [OF that(1) 2 i1 True])
      qed
      show ?thesis
      proof (cases "rc \<noteq> SQLITE_OK \<and> rc \<noteq> SQLITE_READONLY_CANTINIT")
        case bad: True
        then obtain st3 where "unixShmPurge S f st2 = Some st3" "f' = f" "st' = free_shm_conn p st3"
          using r m p i iu True cr by (auto simp: unixOpenSharedMemory_def inode_shm_def C1 Let_def bind_eq_Some_iff)
        then show ?thesis using bad that(1) fail undo by simp
      next
        case good: False
        obtain q where made: "node_made f i q ?st1 st2"
          using cr t1 i1 by (cases rule: shm_create_node_cases) (use good in auto)
        then obtain n where N: "shmNodes st2 = (shmNodes st)(q \<mapsto> n)" "pFirst n = []" "sn_nRef n = 0" "nRegion n = 0"
          and q: "q \<noteq> NULL" "uint (us_brk u) \<le> uint q" "uint q < uint (us_brk (sh_unix st2))"
          and C2: "shmConns st2 = (shmConns st)(p \<mapsto> zero_unixShm)"
          and up: "inode_updated (pInode f) (i\<lparr>ii_shm := q\<rparr>) u (sh_unix st2)"
          by (auto simp: node_made_def C1)
        have up': "inode_updated (pInode f) (i\<lparr>ii_shm := q\<rparr>) (sh_unix st) (sh_unix st2)"
          using up gu iu by (auto simp: inode_updated_def grown_def)
        have nq: "shmNodes st q = None"
          using q gu shm_invD(3) [OF inv, of q] by (cases "shmNodes st q") (auto simp: node_ok_def grown_def)
        have "inode_shm f st2 = Some q" using up' by (simp add: inode_shm_def inode_updated_def)
        then have res: "f' = f\<lparr>pShm := p\<rparr>" "st' = put_shm_conn p (zero_unixShm\<lparr>sh_node := q\<rparr>)
            (put_shm_node q (n\<lparr>sn_nRef := sn_nRef n + 1, pFirst := p # pFirst n\<rparr>) st2)"
          using r m p i iu True cr good N by (auto simp: unixOpenSharedMemory_def inode_shm_def C1 Let_def)
        have pl: "uint p < uint (us_brk (sh_unix st2))" using brk up by (simp add: inode_updated_def)
        have emp: "x \<in> set (pFirst n) \<longleftrightarrow> (\<exists>c. shmConns st x = Some c \<and> sh_node c = q)" for x
          using shm_invD(4) [OF inv, of x] N(2) nq by (auto simp: conn_ok_def)
        have ow: "l = pInode f" if "inode_at l (sh_unix st) = Some a" "ii_shm a = q" for l a
          using own0 [OF that(1) nq q(1)] that(2) by simp
        have j: "ii_shm (i\<lparr>ii_shm := q\<rparr>) = q" by simp
        note J = shm_inv_join [OF inv C2 p pc pl q(1,3) i(1) disjI1 [OF True] j ow up', where n = n]
        have "\<exists>n'. shmNodes st' x = Some n' \<and> nRegion n' = nRegion k \<and> apRegion n' = apRegion k"
          if "shmNodes st x = Some k" for x k
          using that N(1) nq by (auto simp: res(2) put_shm_conn_def put_shm_node_def)
        moreover have "shmConns st' x = Some d" if "shmConns st x = Some d" for x d
          using that pc by (auto simp: res(2) C2 put_shm_conn_def put_shm_node_def)
        ultimately show ?thesis using J
          by (intro that(2) [of p]) (use good res p pc N emp in auto)
      qed
    qed
  qed
qed

text \<open>
  The one error that leaves the connection in place: a read-only file whose deadman switch no
  process holds. The new node is there, read-only and marked unlocked, for \<open>unixShmMap\<close> to
  try its lock again.
\<close>

lemma unixShmSystemLock_rc: "unixShmSystemLock S f t ofst n st \<noteq> Some (SQLITE_READONLY_CANTINIT, st')"
  by (auto simp: unixShmSystemLock_def bind_eq_Some_iff split: prod.splits)

lemma shm_dms_first_cantinit:
  assumes r: "shm_dms_first S f p node x lock st = Some (SQLITE_READONLY_CANTINIT, st')"
  shows "isReadonly node \<and> st' = put_shm_node p (node\<lparr>isUnlocked := True\<rparr>) st"
proof (cases "x = 0 \<and> l_type lock = F_UNLCK \<and> \<not> isReadonly node")
  case False
  then show ?thesis using r by (auto simp: shm_dms_first_def split: if_splits)
next
  case True
  then obtain rc st1 where "unixShmSystemLock S f F_WRLCK UNIX_SHM_DMS 1 st = Some (rc, st1)"
    using r by (auto simp: shm_dms_first_def bind_eq_Some_iff)
  with True r unixShmSystemLock_rc [of S f F_WRLCK UNIX_SHM_DMS 1 st st1] show ?thesis
    by (auto simp: shm_dms_first_def bind_eq_Some_iff split: if_splits)
qed

lemma unixLockSharedMemory_cantinit:
  assumes r: "unixLockSharedMemory S f p st = Some (SQLITE_READONLY_CANTINIT, st')"
  obtains n os where "shmNodes st p = Some n" "isReadonly n"
    "st' = put_shm_node p (n\<lparr>isUnlocked := True\<rparr>) (put_sh_os os st)"
proof -
  obtain n where n: "shmNodes st p = Some n" using r by (auto simp: unixLockSharedMemory_def bind_eq_Some_iff)
  obtain x lock os where g: "osGetlk S (hShm n) (shm_flock F_WRLCK UNIX_SHM_DMS 1) (sh_os st) = (x, lock, os)"
    by (rule prod_cases3)
  obtain rc st1 where d: "shm_dms_first S f p n x lock (put_sh_os os st) = Some (rc, st1)"
    using r n g by (auto simp: unixLockSharedMemory_def bind_eq_Some_iff)
  with r n g have "rc = SQLITE_READONLY_CANTINIT \<and> st1 = st'"
    using unixShmSystemLock_rc [of S f F_RDLCK UNIX_SHM_DMS 1 st1 st']
    by (auto simp: unixLockSharedMemory_def split: if_splits)
  with d have "isReadonly n \<and> st' = put_shm_node p (n\<lparr>isUnlocked := True\<rparr>) (put_sh_os os st)"
    using shm_dms_first_cantinit [of S f p n x lock "put_sh_os os st" st1] by simp
  then show ?thesis using n that by blast
qed

lemma us_malloc_inode_at: "us_malloc n st = (p, st') \<Longrightarrow> inode_at q st' = inode_at q st"
  by (auto simp: us_malloc_def inode_at_def split: if_splits)

lemma shm_create_node_cantinit:
  assumes r: "shm_create_node S mem f st = Some (SQLITE_READONLY_CANTINIT, st')"
  obtains q n where "inode_shm f st' = Some q" "shmNodes st' q = Some n" "isReadonly n" "isUnlocked n"
proof -
  obtain x sb os where fs: "osFstat S (h_fd f) (sh_os st) = (x, sb, os)" by (rule prod_cases3)
  have x: "x = 0" using r fs by (auto simp: shm_create_node_def Let_def split: if_splits)
  obtain zDb k where z: "mem (zPath f) = Some zDb" "c_strlen zDb = Some k"
    using r fs x by (auto simp: shm_create_node_def Let_def bind_eq_Some_iff)
  obtain p u where m: "us_malloc (SIZE_unixShmNode + (6 + int k)) (sh_unix (put_sh_os os st)) = (p, u)" by fastforce
  let ?n = "new_shm_node (take k zDb @ shm_suffix)"
  obtain st1 where s: "set_inode_shm f p (put_shm_node p ?n ((put_sh_os os st)\<lparr>sh_unix := u\<rparr>)) = Some st1"
    using r fs x z m by (auto simp: shm_create_node_def Let_def bind_eq_Some_iff split: if_splits)
  obtain a v where m2: "us_malloc SIZE_mutex (sh_unix st1) = (a, v)" by fastforce
  let ?st2 = "st1\<lparr>sh_unix := v\<rparr>"
  have "inode_shm f st1 = Some p" using s by (auto simp: set_inode_shm_def inode_shm_def bind_eq_Some_iff)
  then have i2: "inode_shm f ?st2 = Some p" using us_malloc_inode_at [OF m2] by (simp add: inode_shm_def)
  have at: "shm_attach_file S f zDb p ?n sb ?st2 = Some (SQLITE_READONLY_CANTINIT, st')"
    using r fs x z m s m2 by (auto simp: shm_create_node_def Let_def bind_eq_Some_iff split: if_splits)
  then obtain h ro os2 where "unixLockSharedMemory S f p (put_shm_node p (?n\<lparr>hShm := h, isReadonly := ro\<rparr>)
      (put_sh_os os2 ?st2)) = Some (SQLITE_READONLY_CANTINIT, st')"
    by (auto simp: shm_attach_file_def bind_eq_Some_iff split: if_splits)
  then show ?thesis
    by (rule unixLockSharedMemory_cantinit)
      (use i2 in \<open>auto simp: put_shm_node_def put_sh_os_def inode_shm_def inode_at_def intro!: that [of p]\<close>)
qed

lemma unixOpenSharedMemory_cantinit:
  assumes r: "unixOpenSharedMemory S mem f st = Some (SQLITE_READONLY_CANTINIT, g, st')"
  obtains p q n where "g = f\<lparr>pShm := p\<rparr>" "shmConns st' p = Some (zero_unixShm\<lparr>sh_node := q\<rparr>)"
    "inode_shm f st' = Some q" "shmNodes st' q = Some n" "p \<in> set (pFirst n)" "isReadonly n" "isUnlocked n"
proof -
  obtain p u where m: "us_malloc SIZE_unixShm (sh_unix st) = (p, u)" by fastforce
  let ?st1 = "put_shm_conn p zero_unixShm (st\<lparr>sh_unix := u\<rparr>)"
  have p: "p \<noteq> NULL" using r m by (auto simp: unixOpenSharedMemory_def)
  obtain q0 where q0: "inode_shm f ?st1 = Some q0"
    using r m p by (auto simp: unixOpenSharedMemory_def Let_def bind_eq_Some_iff)
  have "q0 = NULL" using r m p q0 by (auto simp: unixOpenSharedMemory_def Let_def bind_eq_Some_iff split: if_splits)
  then obtain st2 where c: "shm_create_node S mem f ?st1 = Some (SQLITE_READONLY_CANTINIT, st2)"
    using r m p q0 by (auto simp: unixOpenSharedMemory_def Let_def bind_eq_Some_iff split: if_splits)
  obtain q n where q: "inode_shm f st2 = Some q" "shmNodes st2 q = Some n" "isReadonly n" "isUnlocked n"
    by (rule shm_create_node_cantinit [OF c])
  have "g = f\<lparr>pShm := p\<rparr>" "st' = put_shm_conn p (zero_unixShm\<lparr>sh_node := q\<rparr>)
      (put_shm_node q (n\<lparr>sn_nRef := sn_nRef n + 1, pFirst := p # pFirst n\<rparr>) st2)"
    using r m p q0 \<open>q0 = NULL\<close> c q by (auto simp: unixOpenSharedMemory_def Let_def)
  then show ?thesis using that [of p q "n\<lparr>sn_nRef := sn_nRef n + 1, pFirst := p # pFirst n\<rparr>"] q
    by (simp add: put_shm_conn_def put_shm_node_def inode_shm_def)
qed

section \<open>The end of a connection\<close>

text \<open>Unmapping the regions of a well-formed node ends, whatever the kernel answers.\<close>

lemma unmap_regions_returns:
  assumes "0 < step" and "0 \<le> i" and "unat (nRegion n) \<le> length (apRegion n)"
  shows "\<exists>os'. unmap_regions S n step i os = Some os'"
  using assms(2)
proof (induction "nat (uint (nRegion n) - i)" arbitrary: i os rule: less_induct)
  case less
  show ?case
  proof (cases "uint (nRegion n) \<le> i")
    case True
    then show ?thesis by (subst unmap_regions.simps) simp
  next
    case False
    have "uint (nRegion n) \<le> int (length (apRegion n))"
      using assms(3) by (metis of_nat_le_iff uint_nat)
    then have "\<not> int (length (apRegion n)) \<le> i" using False by linarith
    moreover have "\<exists>os'. unmap_regions S n step (i + step) os1 = Some os'" for os1
      by (rule less.hyps) (use False less.prems assms(1) in auto)
    ultimately show ?thesis using False by (subst unmap_regions.simps) simp
  qed
qed

text \<open>Leaving a node that other connections still use.\<close>

lemma shm_inv_leave:
  assumes inv: "shm_inv st" and c: "shmConns st p = Some c" "sh_node c = q"
    and n: "shmNodes st q = Some n" and more: "remove1 p (pFirst n) \<noteq> []"
  shows "shm_inv (put_shm_node q (n\<lparr>pFirst := remove1 p (pFirst n), sn_nRef := sn_nRef n - 1\<rparr>) (free_shm_conn p st))"
proof -
  define m where "m = n\<lparr>pFirst := remove1 p (pFirst n), sn_nRef := sn_nRef n - 1\<rparr>"
  define t where "t = put_shm_node q m (free_shm_conn p st)"
  have S: "sh_unix t = sh_unix st" "shmConns t = (shmConns st)(p := None)" "shmNodes t = (shmNodes st)(q \<mapsto> m)"
    by (simp_all add: t_def put_shm_node_def free_shm_conn_def)
  note N = shm_invD(3) [OF inv n, unfolded node_ok_def]
  have pn: "p \<in> set (pFirst n)" using N c by blast
  have mq: "node_ok t q m"
  proof -
    obtain k where "length (pFirst n) = Suc k" using pn length_pos_if_in_set gr0_conv_Suc by metis
    then have "sn_nRef m = int (length (pFirst m))"
      using N pn by (simp add: m_def length_remove1)
    moreover have "x \<in> set (pFirst m) \<longleftrightarrow> (\<exists>d. shmConns t x = Some d \<and> sh_node d = q)" for x
      using N by (auto simp: m_def S)
    moreover have "distinct (pFirst m)" "pFirst m \<noteq> []" "unat (nRegion m) \<le> length (apRegion m)"
      using N more by (simp_all add: m_def)
    ultimately show ?thesis using N unfolding node_ok_def S(1) by blast
  qed
  have "node_ok t r k" if k: "shmNodes t r = Some k" for r k
  proof (cases "r = q")
    case True
    then show ?thesis using k mq S by simp
  next
    case False
    then have "node_ok st r k" using k by (intro shm_invD(3) [OF inv]) (simp add: S)
    then show ?thesis using False c by (auto simp: node_ok_def S)
  qed
  moreover have "conn_ok t r d" if d: "shmConns t r = Some d" for r d
  proof -
    have "conn_ok st r d" using d by (intro shm_invD(4) [OF inv]) (simp add: S split: if_splits)
    then show ?thesis by (auto simp: conn_ok_def S split: if_splits)
  qed
  moreover have "inodes_shm_ok t" using shm_invD(2) [OF inv] by (simp add: inodes_shm_ok_def S)
  ultimately show ?thesis using shm_invD(1) [OF inv] by (simp add: shm_inv_def S flip: m_def t_def)
qed

text \<open>Leaving it as the last one: the node goes too.\<close>

lemma shm_inv_last:
  assumes inv: "shm_inv st" and c: "shmConns st p = Some c" "sh_node c = q"
    and n: "shmNodes st q = Some n" and last: "remove1 p (pFirst n) = []"
    and i: "inode_at k (sh_unix st) = Some i" "ii_shm i = q"
    and t: "shmConns t = (shmConns st)(p := None)" "shmNodes t = (shmNodes st)(q := None)"
      "inode_updated k (i\<lparr>ii_shm := NULL\<rparr>) (sh_unix st) (sh_unix t)"
  shows "shm_inv t" and "shm_handle st g \<Longrightarrow> pShm g \<noteq> p \<Longrightarrow> shm_handle t g"
proof -
  note N = shm_invD(3) [OF inv n, unfolded node_ok_def]
  have I: "inode_at l (sh_unix t) = (if l = k then Some (i\<lparr>ii_shm := NULL\<rparr>) else inode_at l (sh_unix st))" for l
    using t(3) by (simp add: inode_updated_def)
  have le: "uint (us_brk (sh_unix st)) \<le> uint (us_brk (sh_unix t))" using t(3) by (simp add: inode_updated_def)
  have pn: "p \<in> set (pFirst n)" using N c by blast
  then have only: "x = p" if "x \<in> set (pFirst n)" for x
    using that last N by (metis in_set_remove1 empty_iff list.set(1))
  have others: "sh_node d \<noteq> q" if "shmConns st r = Some d" "r \<noteq> p" for r d
    using that only N by blast
  have "node_ok t r m" if m: "shmNodes t r = Some m" for r m
  proof -
    have r: "r \<noteq> q" and "shmNodes st r = Some m" using m t(2) by (auto split: if_splits)
    then have A: "node_ok st r m" by (intro shm_invD(3) [OF inv])
    then obtain l a where l: "inode_at l (sh_unix st) = Some a" "ii_shm a = r" by (auto simp: node_ok_def)
    then have "l \<noteq> k" using i r by auto
    then have "\<exists>k i. inode_at k (sh_unix t) = Some i \<and> ii_shm i = r"
      using l I by (intro exI [of _ l] exI [of _ a]) simp
    then show ?thesis using A le r c t(1) by (auto simp: node_ok_def)
  qed
  moreover have "conn_ok t r d" if d: "shmConns t r = Some d" for r d
  proof -
    have r: "r \<noteq> p" and d': "shmConns st r = Some d" using d t(1) by (auto split: if_splits)
    then have "conn_ok st r d" by (intro shm_invD(4) [OF inv])
    then show ?thesis using le others [OF d' r] t(1,2) by (auto simp: conn_ok_def split: if_splits)
  qed
  moreover have "inodes_shm_ok t"
    unfolding inodes_shm_ok_def
  proof (intro allI impI)
    fix l a assume a: "inode_at l (sh_unix t) = Some a" "ii_shm a \<noteq> NULL"
    then have l: "l \<noteq> k" "inode_at l (sh_unix st) = Some a" using I by (auto split: if_splits)
    obtain m where m: "shmNodes st (ii_shm a) = Some m"
      and own: "\<And>l' j. inode_at l' (sh_unix st) = Some j \<Longrightarrow> ii_shm j = ii_shm a \<Longrightarrow> l' = l"
      by (rule inodes_shm_okD [OF shm_invD(2) [OF inv] l(2) a(2)]) (rule that)
    have "ii_shm a \<noteq> q" using own [OF i(1)] i(2) l(1) by auto
    then show "shmNodes t (ii_shm a) \<noteq> None \<and>
        (\<forall>l' j. inode_at l' (sh_unix t) = Some j \<longrightarrow> ii_shm j = ii_shm a \<longrightarrow> l' = l)"
      using m own a(2) I t(2) by (auto split: if_splits)
  qed
  ultimately show "shm_inv t" using t(3) by (simp add: shm_inv_def inode_updated_def)
  show "shm_handle t g" if g: "shm_handle st g" "pShm g \<noteq> p"
  proof -
    have "pInode g \<noteq> k" if d: "shmConns st (pShm g) = Some d" "inode_shm g st = Some (sh_node d)" for d
      using d others [OF d(1) g(2)] i by (auto simp: inode_shm_def)
    then show ?thesis using g I t(1) by (auto simp: shm_handle_def inode_shm_def)
  qed
qed

text \<open>
  \<open>unixShmUnmap\<close> always returns, always succeeds, and takes the connection away. The node
  goes with its last connection.
\<close>

lemma unixShmUnmap_spec:
  assumes inv: "shm_inv st" and f: "shm_handle st f" "pShm f \<noteq> NULL"
  obtains c n st' where "unixShmUnmap S f del st = Some (SQLITE_OK, f\<lparr>pShm := NULL\<rparr>, st')" "shm_inv st'"
    "shmConns st (pShm f) = Some c" "shmNodes st (sh_node c) = Some n"
    "shmConns st' = (shmConns st)(pShm f := None)"
    "\<And>g. shm_handle st g \<Longrightarrow> pShm g \<noteq> pShm f \<Longrightarrow> shm_handle st' g" "shm_handle st' (f\<lparr>pShm := NULL\<rparr>)"
    "pFirst n = [pShm f] \<Longrightarrow> shmNodes st' = (shmNodes st)(sh_node c := None) \<and> inode_shm f st' = Some NULL"
    "pFirst n \<noteq> [pShm f] \<Longrightarrow> \<exists>m. shmNodes st' = (shmNodes st)(sh_node c \<mapsto> m) \<and> hShm m = hShm n \<and>
       apRegion m = apRegion n \<and> nRegion m = nRegion n"
proof -
  let ?p = "pShm f"
  obtain c where c: "shmConns st ?p = Some c" and isn: "inode_shm f st = Some (sh_node c)"
    using f by (auto simp: shm_handle_def)
  obtain i where i: "inode_at (pInode f) (sh_unix st) = Some i" "ii_shm i = sh_node c"
    using isn by (auto simp: inode_shm_def)
  obtain n where n: "shmNodes st (sh_node c) = Some n"
    using shm_invD(4) [OF inv c] by (auto simp: conn_ok_def)
  note N = shm_invD(3) [OF inv n, unfolded node_ok_def]
  have pn: "?p \<in> set (pFirst n)" using N c by blast
  define m where "m = n\<lparr>pFirst := remove1 ?p (pFirst n), sn_nRef := sn_nRef n - 1\<rparr>"
  define t where "t = put_shm_node (sh_node c) m (free_shm_conn ?p st)"
  have T: "sh_unix t = sh_unix st" "shmConns t = (shmConns st)(?p := None)" "shmNodes t = (shmNodes st)(sh_node c \<mapsto> m)"
    by (simp_all add: t_def put_shm_node_def free_shm_conn_def)
  have rm: "remove1 ?p (pFirst n) = [] \<longleftrightarrow> pFirst n = [?p]"
    using pn by (cases "pFirst n") auto
  have one: "sn_nRef m = 0 \<longleftrightarrow> pFirst n = [?p]"
  proof -
    have "sn_nRef m = int (length (pFirst n)) - 1" using N by (simp add: m_def)
    then show ?thesis using pn by (cases "pFirst n"; cases "tl (pFirst n)") auto
  qed
  have run: "unixShmUnmap S f del st = do {
      st \<leftarrow> (if sn_nRef m = 0
            then unixShmPurge S f (if del \<and> 0 \<le> sint (hShm m)
               then put_sh_os (snd (osUnlink S (sn_zFilename m) (sh_os t))) t else t)
            else Some t);
      Some (SQLITE_OK, f\<lparr>pShm := NULL\<rparr>, st) }"
    using f(2) c n pn by (simp add: unixShmUnmap_def Let_def flip: m_def t_def)
  show ?thesis
  proof (cases "pFirst n = [?p]")
    case False
    then have more: "remove1 ?p (pFirst n) \<noteq> []" using rm by simp
    have "shm_inv t" using shm_inv_leave [OF inv c refl n more] by (simp add: t_def m_def)
    moreover have "shm_handle t g" if "shm_handle st g" "pShm g \<noteq> ?p" for g
      using that by (auto simp: shm_handle_def inode_shm_def T)
    moreover have "\<exists>m. shmNodes t = (shmNodes st)(sh_node c \<mapsto> m) \<and> hShm m = hShm n \<and>
       apRegion m = apRegion n \<and> nRegion m = nRegion n"
      using T(3) by (intro exI [of _ m]) (simp add: m_def)
    moreover have "shm_handle t (f\<lparr>pShm := NULL\<rparr>)" using i by (simp add: shm_handle_def T)
    ultimately show ?thesis using run one False T c n that [of t c n] by simp
  next
    case True
    define t1 where "t1 = (if del \<and> 0 \<le> sint (hShm m)
               then put_sh_os (snd (osUnlink S (sn_zFilename m) (sh_os t))) t else t)"
    have T1: "\<exists>os. sh_unix t1 = (sh_unix st)\<lparr>us_os := os\<rparr>" "shmConns t1 = (shmConns st)(?p := None)"
      "shmNodes t1 = (shmNodes st)(sh_node c \<mapsto> m)" "inode_shm f t1 = Some (sh_node c)"
      using isn T by (auto simp: t1_def put_sh_os_def inode_shm_def intro: exI [of _ "sh_os st"])
    have len: "unat (nRegion m) \<le> length (apRegion m)" using N by (simp add: m_def)
    obtain os where u: "unmap_regions S m (unixShmRegionPerMap S) 0 (sh_os t1) = Some os"
      using unmap_regions_returns [OF unixShmRegionPerMap_pos [of S] order_refl len, of S "sh_os t1"] by blast
    obtain os1 where os1: "sh_unix t1 = (sh_unix st)\<lparr>us_os := os1\<rparr>" using T1(1) by blast
    let ?os2 = "if 0 \<le> sint (hShm m) then robust_close S (hShm m) os else os"
    let ?u = "put_inode (pInode f) (i\<lparr>ii_shm := NULL\<rparr>) ((sh_unix st)\<lparr>us_os := ?os2\<rparr>)"
    let ?t2 = "t1\<lparr>sh_unix := ?u, shmNodes := (shmNodes t1)(sh_node c := None)\<rparr>"
    have purge: "unixShmPurge S f t1 = Some ?t2"
      using T1 u one True N i os1 by (simp add: unixShmPurge_def set_inode_shm_def put_sh_os_def Let_def)
    have tab: "table_ok ?u"
      by (rule table_ok_put_inode [of _ _ i]) (use shm_invD(1) [OF inv] i in \<open>simp_all add: table_ok_def\<close>)
    then have up: "inode_updated (pInode f) (i\<lparr>ii_shm := NULL\<rparr>) (sh_unix st) (sh_unix ?t2)"
      using i by (auto simp: inode_updated_def)
    have last: "remove1 ?p (pFirst n) = []" using True rm by simp
    note L = shm_inv_last [OF inv c refl n last i _ _ up]
    have "shm_inv ?t2" by (rule L(1)) (use T1 in auto)
    moreover have "shm_handle ?t2 g" if "shm_handle st g" "pShm g \<noteq> ?p" for g
      by (rule L(2) [OF _ _ that]) (use T1 in auto)
    moreover have "shmNodes ?t2 = (shmNodes st)(sh_node c := None)" using T1 by auto
    moreover have "inode_shm f ?t2 = Some NULL" using i by (simp add: inode_shm_def)
    moreover have "shm_handle ?t2 (f\<lparr>pShm := NULL\<rparr>)" using i by (simp add: shm_handle_def)
    ultimately show ?thesis using run one True purge c n T1 that [of ?t2 c n] by (simp flip: t1_def)
  qed
qed

end
