(* ===== verification/Shm_Lock.thy ===== *)
theory Shm_Lock
  imports Shm_Life
begin

text \<open>
  What \<open>unixShmLock\<close> does: it always returns, it keeps the invariant, it takes or gives back
  the locks it was asked for or leaves everything alone, and the locks the kernel has for the
  process are the ones its connections hold together.
\<close>

section \<open>Masks\<close>

definition shm_range_ok :: "int \<Rightarrow> int \<Rightarrow> bool" where
  "shm_range_ok ofst n \<longleftrightarrow> 0 \<le> ofst \<and> 1 \<le> n \<and> ofst + n \<le> int SQLITE_SHM_NLOCK"

lemma bit_shm_mask:
  assumes "shm_range_ok ofst n" and "k < 16"
  shows "bit (shm_mask ofst n) k \<longleftrightarrow> ofst \<le> int k \<and> int k < ofst + n"
proof -
  have r: "0 \<le> ofst" "1 \<le> n" "ofst + n \<le> 8"
    using assms(1) by (simp_all add: shm_range_ok_def SQLITE_SHM_NLOCK_def)
  have "2 ^ nat (ofst + n) - 2 ^ nat ofst = push_bit (nat ofst) (mask (nat n) :: int)"
    using r by (simp add: push_bit_eq_mult mask_eq_exp_minus_1 nat_add_distrib power_add algebra_simps)
  then have "bit (shm_mask ofst n) k \<longleftrightarrow> bit (push_bit (nat ofst) (mask (nat n) :: int)) k"
    using assms(2) by (simp add: shm_mask_def bit_word_of_int_iff)
  also have "\<dots> \<longleftrightarrow> ofst \<le> int k \<and> int k < ofst + n"
    using r by (auto simp: bit_push_bit_iff bit_mask_iff nat_le_iff)
  finally show ?thesis .
qed

lemma word_and_zero_iff: "(a :: 16 word) AND b = 0 \<longleftrightarrow> (\<forall>k < 16. \<not> (bit a k \<and> bit b k))"
  by (auto simp: bit_eq_iff bit_and_iff dest: bit_imp_le_length)

lemma word_and_nonzero: "(a :: 16 word) AND b \<noteq> 0 \<Longrightarrow> \<exists>k < 16. bit a k \<and> bit b k"
  by (simp add: word_and_zero_iff)

lemma bit_all_shared: "bit (all_shared cs) k \<longleftrightarrow> (\<exists>(q, c) \<in> set cs. bit (sharedMask c) k)"
proof -
  have "bit (fold (\<lambda>(q, c) m. m OR sharedMask c) cs m) k \<longleftrightarrow> bit m k \<or> (\<exists>(q, c) \<in> set cs. bit (sharedMask c) k)" for m
    by (induction cs arbitrary: m) (auto simp: bit_or_iff)
  then show ?thesis by (simp add: all_shared_def)
qed

section \<open>The connections of a node\<close>

lemma shm_siblings_Some:
  assumes "\<And>q. q \<in> set qs \<Longrightarrow> shmConns st q \<noteq> None"
  obtains cs where "shm_siblings st qs = Some cs"
    "set cs = {(q, c). q \<in> set qs \<and> shmConns st q = Some c}"
proof -
  have "\<exists>cs. shm_siblings st qs = Some cs \<and> set cs = {(q, c). q \<in> set qs \<and> shmConns st q = Some c}"
    using assms
  proof (induction qs)
    case (Cons q qs)
    obtain c where "shmConns st q = Some c" using Cons.prems by fastforce
    then show ?case using Cons by auto
  qed simp
  then show ?thesis using that by blast
qed

lemma siblings_of_node:
  assumes "shm_inv st" and "shmNodes st q = Some n"
  obtains cs where "shm_siblings st (pFirst n) = Some cs"
    "\<And>r d. (r, d) \<in> set cs \<longleftrightarrow> shmConns st r = Some d \<and> sh_node d = q"
proof -
  note N = shm_invD(3) [OF assms, unfolded node_ok_def]
  obtain cs where cs: "shm_siblings st (pFirst n) = Some cs"
    "set cs = {(r, c). r \<in> set (pFirst n) \<and> shmConns st r = Some c}"
    by (rule shm_siblings_Some [of "pFirst n" st]) (use N in auto)
  show ?thesis by (rule that [OF cs(1)]) (use cs(2) N in auto)
qed

section \<open>Other masks for a connection\<close>

lemma shm_inv_masks:
  assumes inv: "shm_inv st" and c: "shmConns st p = Some c" and c': "sh_node c' = sh_node c"
    "exclMask c' AND sharedMask c' = 0"
    and comp: "\<And>r d. shmConns st r = Some d \<Longrightarrow> r \<noteq> p \<Longrightarrow> sh_node d = sh_node c \<Longrightarrow> compatible_conns c' d"
  shows "shm_inv (put_shm_conn p c' st)" and "shm_handle st g \<Longrightarrow> shm_handle (put_shm_conn p c' st) g"
proof -
  define t where "t = put_shm_conn p c' st"
  have T: "sh_unix t = sh_unix st" "shmNodes t = shmNodes st" "shmConns t = (shmConns st)(p \<mapsto> c')"
    by (simp_all add: t_def put_shm_conn_def)
  have "node_ok t r m" if m: "shmNodes t r = Some m" for r m
  proof -
    have "node_ok st r m" using m by (intro shm_invD(3) [OF inv]) (simp add: T)
    moreover have "(\<exists>d. shmConns t x = Some d \<and> sh_node d = r) \<longleftrightarrow> (\<exists>d. shmConns st x = Some d \<and> sh_node d = r)" for x
      using c c'(1) by (auto simp: T)
    ultimately show ?thesis by (simp add: node_ok_def T(1))
  qed
  moreover have "conn_ok t r d" if d: "shmConns t r = Some d" for r d
  proof (cases "r = p")
    case True
    then have "d = c'" using d T by simp
    then show ?thesis using True shm_invD(4) [OF inv c] c' comp by (auto simp: conn_ok_def T)
  next
    case False
    then have d': "shmConns st r = Some d" using d T by simp
    have "compatible_conns d c'" if "sh_node c' = sh_node d"
      using comp [OF d' False] that c'(1) by (auto simp: compatible_conns_def and.commute)
    then show ?thesis using shm_invD(4) [OF inv d'] by (auto simp: conn_ok_def T)
  qed
  ultimately show "shm_inv (put_shm_conn p c' st)"
    using inv by (simp add: shm_inv_def inodes_shm_ok_def T flip: t_def)
  show "shm_handle (put_shm_conn p c' st) g" if "shm_handle st g"
    using that c c'(1) by (auto simp: shm_handle_def inode_shm_def T simp flip: t_def)
qed

section \<open>The operation\<close>

text \<open>What a granted request makes of the connection's masks.\<close>

definition granted_masks :: "cint \<Rightarrow> 16 word \<Rightarrow> unixShm \<Rightarrow> unixShm" where
  "granted_masks flags m c =
     (if flags AND SQLITE_SHM_UNLOCK \<noteq> 0
      then c\<lparr>exclMask := exclMask c AND NOT m, sharedMask := sharedMask c AND NOT m\<rparr>
      else if flags AND SQLITE_SHM_SHARED \<noteq> 0 then c\<lparr>sharedMask := sharedMask c OR m\<rparr>
      else c\<lparr>exclMask := exclMask c OR m\<rparr>)"

text \<open>Only the kernel and the masks of the one connection change.\<close>

definition shm_granted :: "unixFile \<Rightarrow> unixShm \<Rightarrow> 'os shm_state \<Rightarrow> 'os shm_state \<Rightarrow> bool" where
  "shm_granted f c' st st' \<longleftrightarrow> (\<exists>os. st' = put_shm_conn (pShm f) c' (put_sh_os os st))"

lemma unixShmSystemLock_returns:
  assumes "inode_shm f st = Some q" and "shmNodes st q = Some n"
  obtains rc os where "unixShmSystemLock S f t ofst k st = Some (rc, put_sh_os os st)"
    "rc = SQLITE_OK \<or> rc = SQLITE_BUSY"
    "if 0 \<le> sint (hShm n) then \<exists>x. osSetlk S (hShm n) (shm_flock t ofst k) (sh_os st) = (x, os) \<and>
       (rc = SQLITE_OK \<longleftrightarrow> x \<noteq> - 1) else rc = SQLITE_OK \<and> os = sh_os st"
proof -
  obtain x os where x: "osSetlk S (hShm n) (shm_flock t ofst k) (sh_os st) = (x, os)" by fastforce
  have same: "put_sh_os (sh_os st) st = st" by (simp add: put_sh_os_def)
  show ?thesis
  proof (cases "0 \<le> sint (hShm n)")
    case True
    then show ?thesis using assms x that [of "if x \<noteq> - 1 then SQLITE_OK else SQLITE_BUSY" os]
      by (simp add: unixShmSystemLock_def)
  next
    case False
    then show ?thesis using assms same that [of SQLITE_OK "sh_os st"] by (simp add: unixShmSystemLock_def)
  qed
qed

text \<open>The kernel took the request for the bytes of the locks, or the node needs no kernel.\<close>

definition system_locked ::
  "'os syscalls \<Rightarrow> unixShmNode \<Rightarrow> lock_type \<Rightarrow> int \<Rightarrow> int \<Rightarrow> 'os \<Rightarrow> 'os \<Rightarrow> bool" where
  "system_locked S n t ofst k os os' \<longleftrightarrow>
     (if 0 \<le> sint (hShm n)
      then \<exists>x. x \<noteq> - 1 \<and> osSetlk S (hShm n) (shm_flock t (ofst + UNIX_SHM_BASE) k) os = (x, os')
      else os' = os)"

text \<open>What held when a request was granted: which connections were in the way, which system lock was set.\<close>

definition shm_grant_ok ::
  "'os syscalls \<Rightarrow> unixShmNode \<Rightarrow> (ptr \<times> unixShm) set \<Rightarrow> ptr \<Rightarrow> int \<Rightarrow> int \<Rightarrow> cint \<Rightarrow> 'os \<Rightarrow> 'os \<Rightarrow> bool" where
  "shm_grant_ok S n X p ofst k flags os os' \<longleftrightarrow>
     (let m = shm_mask ofst k in
      if flags AND SQLITE_SHM_UNLOCK \<noteq> 0 then
        (if \<exists>(r, d) \<in> X. r \<noteq> p \<and> sharedMask d AND m \<noteq> 0 then os' = os
         else system_locked S n F_UNLCK ofst k os os')
      else if flags AND SQLITE_SHM_SHARED \<noteq> 0 then
        (\<forall>(r, d) \<in> X. exclMask d AND m = 0) \<and>
        (if \<exists>(r, d) \<in> X. sharedMask d AND m \<noteq> 0 then os' = os
         else system_locked S n F_RDLCK ofst k os os')
      else (\<forall>(r, d) \<in> X. exclMask d AND m = 0 \<and> sharedMask d AND m = 0) \<and>
        system_locked S n F_WRLCK ofst k os os')"

definition node_conns :: "'os shm_state \<Rightarrow> ptr \<Rightarrow> (ptr \<times> unixShm) set" where
  "node_conns st q = {(r, d). shmConns st r = Some d \<and> sh_node d = q}"

lemma all_shared_zero: "all_shared cs AND m = 0 \<longleftrightarrow> (\<forall>(q, c) \<in> set cs. sharedMask c AND m = 0)"
  by (auto simp: word_and_zero_iff bit_all_shared)

lemma unixShmLock_cases:
  assumes inv: "shm_inv st" and f: "shm_handle st f"
    and c: "shmConns st (pShm f) = Some c" and n: "shmNodes st (sh_node c) = Some n" and p: "pShm f \<noteq> NULL"
  obtains (refused) os where "unixShmLock S f ofst k flags st = Some (SQLITE_BUSY, put_sh_os os st)"
      "os = sh_os st \<or> (\<exists>t. 0 \<le> sint (hShm n) \<and> osSetlk S (hShm n) (shm_flock t (ofst + UNIX_SHM_BASE) k) (sh_os st) = (- 1, os))"
  | (granted) os where "unixShmLock S f ofst k flags st =
        Some (SQLITE_OK, put_shm_conn (pShm f) (granted_masks flags (shm_mask ofst k) c) (put_sh_os os st))"
      "shm_grant_ok S n (node_conns st (sh_node c)) (pShm f) ofst k flags (sh_os st) os"
proof -
  let ?m = "shm_mask ofst k" and ?X = "node_conns st (sh_node c)" and ?p = "pShm f"
  obtain cs where cs: "shm_siblings st (pFirst n) = Some cs" and mem: "(r, d) \<in> set cs \<longleftrightarrow> (r, d) \<in> ?X" for r d
    by (rule siblings_of_node [OF inv n]) (auto simp: node_conns_def)
  have set: "set cs = ?X" using mem by auto
  have isn: "inode_shm f st = Some (sh_node c)" using f c p by (auto simp: shm_handle_def)
  have same: "put_sh_os (sh_os st) st = st" by (simp add: put_sh_os_def)
  note sys = unixShmSystemLock_returns [OF isn n]
  have run: "unixShmLock S f ofst k flags st =
      (if flags AND SQLITE_SHM_UNLOCK \<noteq> 0 then shm_unlock S f ofst k ?m c cs st
       else if flags AND SQLITE_SHM_SHARED \<noteq> 0 then shm_lock_shared S f ofst k ?m c cs st
       else shm_lock_exclusive S f ofst k ?m c cs st)"
    using c n cs by (simp add: unixShmLock_def Let_def)
  have go: thesis
    if r: "unixShmLock S f ofst k flags st = (case unixShmSystemLock S f t (ofst + UNIX_SHM_BASE) k st of
        None \<Rightarrow> None | Some (rc, st) \<Rightarrow> Some (rc, if rc = SQLITE_OK then put_shm_conn ?p (granted_masks flags ?m c) st else st))"
      and g: "\<And>os. system_locked S n t ofst k (sh_os st) os \<Longrightarrow> shm_grant_ok S n ?X ?p ofst k flags (sh_os st) os" for t
  proof (rule sys [of S t "ofst + UNIX_SHM_BASE" k])
    fix rc os
    assume A: "unixShmSystemLock S f t (ofst + UNIX_SHM_BASE) k st = Some (rc, put_sh_os os st)"
      "rc = SQLITE_OK \<or> rc = SQLITE_BUSY"
      "if 0 \<le> sint (hShm n) then \<exists>x. osSetlk S (hShm n) (shm_flock t (ofst + UNIX_SHM_BASE) k) (sh_os st) = (x, os) \<and>
         (rc = SQLITE_OK \<longleftrightarrow> x \<noteq> - 1) else rc = SQLITE_OK \<and> os = sh_os st"
    show thesis
    proof (cases "rc = SQLITE_OK")
      case True
      have "system_locked S n t ofst k (sh_os st) os" using A(3) True by (auto simp: system_locked_def)
      from g [OF this] show thesis by (rule granted [rotated]) (use r A(1) True in simp)
    next
      case False
      then show thesis using A r by (intro refused [of os]) (auto split: if_splits)
    qed
  qed
  have silent: thesis if "unixShmLock S f ofst k flags st = Some (SQLITE_OK, put_shm_conn ?p (granted_masks flags ?m c) st)"
    "shm_grant_ok S n ?X ?p ofst k flags (sh_os st) (sh_os st)"
    using granted [of "sh_os st"] that same by simp
  have busy: thesis if "unixShmLock S f ofst k flags st = Some (SQLITE_BUSY, st)"
    using refused [of "sh_os st"] that same by simp
  consider (unlock) "flags AND SQLITE_SHM_UNLOCK \<noteq> 0"
    | (shared) "flags AND SQLITE_SHM_UNLOCK = 0" "flags AND SQLITE_SHM_SHARED \<noteq> 0"
    | (excl) "flags AND SQLITE_SHM_UNLOCK = 0" "flags AND SQLITE_SHM_SHARED = 0" by blast
  then show thesis
  proof cases
    case unlock
    have z: "?m AND all_shared (filter (\<lambda>(q, _). q \<noteq> ?p) cs) = 0 \<longleftrightarrow> \<not> (\<exists>(r, d) \<in> ?X. r \<noteq> ?p \<and> sharedMask d AND ?m \<noteq> 0)"
      by (subst and.commute) (auto simp: all_shared_zero set)
    show thesis
    proof (cases "\<exists>(r, d) \<in> ?X. r \<noteq> ?p \<and> sharedMask d AND ?m \<noteq> 0")
      case True
      then show thesis using unlock z
        by (intro silent) (simp_all add: run shm_unlock_def granted_masks_def shm_grant_ok_def Let_def)
    next
      case False
      show thesis
        by (rule go [of F_UNLCK]) (use unlock z False in \<open>auto simp: run shm_unlock_def granted_masks_def
            shm_grant_ok_def Let_def bind_eq_Some_iff split: option.splits bind_splits\<close>)
    qed
  next
    case shared
    show thesis
    proof (cases "\<exists>(r, d) \<in> ?X. exclMask d AND ?m \<noteq> 0")
      case True
      then show thesis using shared by (intro busy) (simp add: run shm_lock_shared_def set)
    next
      case no: False
      have z: "all_shared cs AND ?m = 0 \<longleftrightarrow> \<not> (\<exists>(r, d) \<in> ?X. sharedMask d AND ?m \<noteq> 0)"
        by (auto simp: all_shared_zero set)
      show thesis
      proof (cases "\<exists>(r, d) \<in> ?X. sharedMask d AND ?m \<noteq> 0")
        case True
        then show thesis using shared z no
          by (intro silent) (auto simp: run shm_lock_shared_def set granted_masks_def shm_grant_ok_def Let_def)
      next
        case False
        show thesis
          by (rule go [of F_RDLCK]) (use shared z no False in \<open>auto simp: run shm_lock_shared_def set granted_masks_def
              shm_grant_ok_def Let_def split: option.splits bind_splits\<close>)
      qed
    qed
  next
    case excl
    show thesis
    proof (cases "\<exists>(r, d) \<in> ?X. exclMask d AND ?m \<noteq> 0 \<or> sharedMask d AND ?m \<noteq> 0")
      case True
      then show thesis using excl by (intro busy) (simp add: run shm_lock_exclusive_def set)
    next
      case False
      show thesis
        by (rule go [of F_WRLCK]) (use excl False in \<open>auto simp: run shm_lock_exclusive_def set granted_masks_def
            shm_grant_ok_def Let_def split: option.splits bind_splits\<close>)
    qed
  qed
qed

section \<open>The invariant\<close>

lemma and_or_zero: "((a :: 16 word) OR b) AND c = 0 \<longleftrightarrow> a AND c = 0 \<and> b AND c = 0"
  "c AND (a OR b) = 0 \<longleftrightarrow> c AND a = 0 \<and> c AND b = 0"
  "a AND c = 0 \<Longrightarrow> (a AND NOT b) AND c = 0" "a AND c = 0 \<Longrightarrow> (a AND NOT b) AND (c AND NOT b) = 0" "c AND a = 0 \<Longrightarrow> c AND (a AND NOT b) = 0"
  by (auto simp: word_and_zero_iff bit_or_iff bit_and_iff)

lemma granted_masks_node [simp]: "sh_node (granted_masks flags m c) = sh_node c"
  by (simp add: granted_masks_def)

lemma unixShmLock_inv:
  assumes inv: "shm_inv st" and f: "shm_handle st f" "pShm f \<noteq> NULL"
  obtains rc st' c d where "unixShmLock S f ofst k flags st = Some (rc, st')" "rc = SQLITE_OK \<or> rc = SQLITE_BUSY"
    "shm_inv st'" "\<And>g. shm_handle st g \<Longrightarrow> shm_handle st' g" "shmNodes st' = shmNodes st"
    "shmConns st (pShm f) = Some c" "shmConns st' = (shmConns st)(pShm f \<mapsto> d)"
    "d = (if rc = SQLITE_OK then granted_masks flags (shm_mask ofst k) c else c)"
proof -
  let ?p = "pShm f" and ?m = "shm_mask ofst k"
  obtain c where c: "shmConns st ?p = Some c" and isn: "inode_shm f st = Some (sh_node c)"
    using f by (auto simp: shm_handle_def)
  note C = shm_invD(4) [OF inv c, unfolded conn_ok_def]
  then obtain n where n: "shmNodes st (sh_node c) = Some n" by blast
  have q: "shm_quiet st (put_sh_os os st)" for os
    by (rule shm_quiet_os [OF shm_quiet_refl [OF shm_invD(1) [OF inv]]])
  show thesis
    using inv f(1) c n f(2)
  proof (cases rule: unixShmLock_cases [of st f c n S ofst k flags])
    case (refused os)
    have keep: "(shmConns st)(?p \<mapsto> c) = shmConns st" using c by auto
    show thesis
      by (rule that [OF refused(1) _ shm_quiet_inv(1) [OF q inv] shm_quiet_inv(2) [OF q inv] _ c]) (simp_all add: keep)
  next
    case (granted os)
    let ?d = "granted_masks flags ?m c" and ?t = "put_sh_os os st"
    have inv1: "shm_inv ?t" by (rule shm_quiet_inv(1) [OF q inv])
    have c1: "shmConns ?t ?p = Some c" using c by simp
    have self: "(?p, c) \<in> node_conns st (sh_node c)" using c by (simp add: node_conns_def)
    have G: "(if flags AND SQLITE_SHM_UNLOCK \<noteq> 0 then True
       else if flags AND SQLITE_SHM_SHARED \<noteq> 0 then exclMask d AND ?m = 0
       else exclMask d AND ?m = 0 \<and> sharedMask d AND ?m = 0)" if "shmConns st r = Some d" "sh_node d = sh_node c" for r d
      using granted(2) that by (auto simp: shm_grant_ok_def Let_def node_conns_def split: if_splits)
    have "exclMask ?d AND sharedMask ?d = 0"
      using C G [OF c refl] by (auto simp: granted_masks_def and_or_zero and.commute [of ?m])
    moreover have "compatible_conns ?d d"
      if "shmConns ?t r = Some d" "r \<noteq> ?p" "sh_node d = sh_node c" for r d
    proof -
      have "compatible_conns c d" using C that by simp
      then show ?thesis using G [of r d] that
        by (auto simp: compatible_conns_def granted_masks_def and_or_zero and.commute [of ?m])
    qed
    ultimately have "shm_inv (put_shm_conn ?p ?d ?t)" "shm_handle ?t g \<Longrightarrow> shm_handle (put_shm_conn ?p ?d ?t) g" for g
      using shm_inv_masks [OF inv1 c1, of ?d] by simp_all
    moreover have "shm_handle ?t g" if "shm_handle st g" for g by (rule shm_quiet_inv(2) [OF q inv that])
    ultimately show thesis
      using that [OF granted(1) _ _ _ _ c, of ?d] by (simp add: put_shm_conn_def)
  qed
qed

section \<open>The locks of the process\<close>

text \<open>
  \<open>held os fd b\<close> is the lock the process has on byte \<open>b\<close> of the file behind \<open>fd\<close>. A
  granted \<open>F_SETLK\<close> sets the bytes of its range; a refused one sets nothing.
\<close>

definition kernel_records_locks :: "'os syscalls \<Rightarrow> ('os \<Rightarrow> cint \<Rightarrow> int \<Rightarrow> lock_type) \<Rightarrow> bool" where
  "kernel_records_locks S held \<longleftrightarrow>
     (\<forall>fd lk os x os'. osSetlk S fd lk os = (x, os') \<longrightarrow>
        held os' = (if x = - 1 then held os
          else (held os)(fd := \<lambda>b. if l_start lk \<le> b \<and> b < l_start lk + l_len lk then l_type lk else held os fd b)))"

text \<open>The strongest lock a connection of the node has on lock number \<open>k\<close>.\<close>

definition shm_level :: "'os shm_state \<Rightarrow> ptr \<Rightarrow> nat \<Rightarrow> lock_type" where
  "shm_level st q k =
     (if \<exists>(r, d) \<in> node_conns st q. bit (exclMask d) k then F_WRLCK
      else if \<exists>(r, d) \<in> node_conns st q. bit (sharedMask d) k then F_RDLCK
      else F_UNLCK)"

definition shm_agrees :: "('os \<Rightarrow> cint \<Rightarrow> int \<Rightarrow> lock_type) \<Rightarrow> 'os shm_state \<Rightarrow> ptr \<Rightarrow> bool" where
  "shm_agrees held st q \<longleftrightarrow>
     (\<forall>n. shmNodes st q = Some n \<longrightarrow> 0 \<le> sint (hShm n) \<longrightarrow>
        (\<forall>k < SQLITE_SHM_NLOCK. held (sh_os st) (hShm n) (UNIX_SHM_BASE + int k) = shm_level st q k))"

text \<open>
  What the write-ahead log may ask for: one lock shared or a range exclusively, and to give back
  what the connection has.
\<close>

definition shm_request_ok :: "unixShm \<Rightarrow> int \<Rightarrow> int \<Rightarrow> cint \<Rightarrow> bool" where
  "shm_request_ok c ofst k flags \<longleftrightarrow> shm_range_ok ofst k \<and>
     (flags = (SQLITE_SHM_LOCK OR SQLITE_SHM_SHARED) \<and> k = 1 \<or>
      flags = (SQLITE_SHM_LOCK OR SQLITE_SHM_EXCLUSIVE) \<or>
      flags = (SQLITE_SHM_UNLOCK OR SQLITE_SHM_SHARED) \<and> k = 1 \<and>
        sharedMask c AND shm_mask ofst k = shm_mask ofst k \<or>
      flags = (SQLITE_SHM_UNLOCK OR SQLITE_SHM_EXCLUSIVE) \<and>
        exclMask c AND shm_mask ofst k = shm_mask ofst k)"

lemma node_conns_put:
  assumes "shmConns st p = Some c" and "sh_node d = sh_node c"
  shows "node_conns (put_shm_conn p d (put_sh_os os st)) (sh_node c) =
    insert (p, d) {(r, x) \<in> node_conns st (sh_node c). r \<noteq> p}"
  using assms by (auto simp: node_conns_def put_shm_conn_def split: if_splits)

lemma node_conns_os [simp]: "node_conns (put_sh_os os st) q = node_conns st q"
  by (simp add: node_conns_def)

lemma shm_level_os [simp]: "shm_level (put_sh_os os st) q k = shm_level st q k"
  by (simp add: shm_level_def)

lemma system_locked_held:
  assumes K: "kernel_records_locks S held" and l: "system_locked S n t ofst k os os'" and h: "0 \<le> sint (hShm n)"
  shows "held os' (hShm n) (UNIX_SHM_BASE + b) =
    (if ofst \<le> b \<and> b < ofst + k then t else held os (hShm n) (UNIX_SHM_BASE + b))"
proof -
  obtain x where "x \<noteq> - 1" "osSetlk S (hShm n) (shm_flock t (ofst + UNIX_SHM_BASE) k) os = (x, os')"
    using l h by (auto simp: system_locked_def)
  then show ?thesis using K by (auto simp: kernel_records_locks_def shm_flock_def)
qed

text \<open>The level of one lock number after a request that was granted.\<close>

lemma shm_level_put:
  assumes c: "shmConns st p = Some c" and d: "sh_node d = sh_node c"
  shows "shm_level (put_shm_conn p d (put_sh_os os st)) (sh_node c) k =
     (if bit (exclMask d) k \<or> (\<exists>(r, x) \<in> node_conns st (sh_node c). r \<noteq> p \<and> bit (exclMask x) k) then F_WRLCK
      else if bit (sharedMask d) k \<or> (\<exists>(r, x) \<in> node_conns st (sh_node c). r \<noteq> p \<and> bit (sharedMask x) k) then F_RDLCK
      else F_UNLCK)"
  unfolding shm_level_def node_conns_put [OF c d] by auto

lemma shm_level_get:
  assumes c: "shmConns st p = Some c"
  shows "shm_level st (sh_node c) k =
     (if bit (exclMask c) k \<or> (\<exists>(r, x) \<in> node_conns st (sh_node c). r \<noteq> p \<and> bit (exclMask x) k) then F_WRLCK
      else if bit (sharedMask c) k \<or> (\<exists>(r, x) \<in> node_conns st (sh_node c). r \<noteq> p \<and> bit (sharedMask x) k) then F_RDLCK
      else F_UNLCK)"
proof -
  have "(\<exists>(r, x) \<in> node_conns st (sh_node c). P x) \<longleftrightarrow>
      P c \<or> (\<exists>(r, x) \<in> node_conns st (sh_node c). r \<noteq> p \<and> P x)" for P
    using c by (auto simp: node_conns_def) (metis option.inject)
  from this [of "\<lambda>x. bit (exclMask x) k"] this [of "\<lambda>x. bit (sharedMask x) k"] show ?thesis
    by (simp add: shm_level_def)
qed

lemma unixShmLock_agrees:
  assumes inv: "shm_inv st" and f: "shm_handle st f" "pShm f \<noteq> NULL" and c: "shmConns st (pShm f) = Some c"
    and K: "kernel_records_locks S held" and ag: "shm_agrees held st (sh_node c)"
    and ok: "shm_request_ok c ofst k flags" and run: "unixShmLock S f ofst k flags st = Some (rc, st')"
  shows "shm_agrees held st' (sh_node c)"
  unfolding shm_agrees_def
proof (intro allI impI)
  let ?p = "pShm f" and ?m = "shm_mask ofst k" and ?X = "node_conns st (sh_node c)"
  fix n' j assume n': "shmNodes st' (sh_node c) = Some n'" "0 \<le> sint (hShm n')" and j: "j < SQLITE_SHM_NLOCK"
  obtain n where n: "shmNodes st (sh_node c) = Some n"
    using shm_invD(4) [OF inv c] by (auto simp: conn_ok_def)
  have j16: "j < 16" using j by (simp add: SQLITE_SHM_NLOCK_def)
  have rg: "shm_range_ok ofst k" using ok by (simp add: shm_request_ok_def)
  note mbit = bit_shm_mask [OF rg j16]
  show "held (sh_os st') (hShm n') (UNIX_SHM_BASE + int j) = shm_level st' (sh_node c) j"
    using inv f(1) c n f(2)
  proof (cases rule: unixShmLock_cases [of st f c n S ofst k flags])
    case (refused os)
    then have st': "st' = put_sh_os os st" using run by simp
    then have nn: "n' = n" using n n' by simp
    have "held os (hShm n) = held (sh_os st) (hShm n)"
      using refused(2) K by (auto simp: kernel_records_locks_def)
    then show ?thesis using ag n n'(2) j nn
      by (simp add: shm_agrees_def st')
  next
    case (granted os)
    let ?d = "granted_masks flags ?m c"
    have st': "st' = put_shm_conn ?p ?d (put_sh_os os st)" using granted(1) run by simp
    then have nn: "n' = n" using n n' by (simp add: put_shm_conn_def)
    have os': "sh_os st' = os" by (simp add: st' put_shm_conn_def)
    note lv = shm_level_put [OF c, of ?d os j, folded st', simplified]
    note l0 = shm_level_get [OF c, of j]
    have old: "held (sh_os st) (hShm n) (UNIX_SHM_BASE + int j) = shm_level st (sh_node c) j"
      using ag n n'(2) j nn by (simp add: shm_agrees_def)
    note held = system_locked_held [OF K _ n'(2) [unfolded nn], of _ ofst k "sh_os st" os "int j"]
    have comp: "\<not> (bit (exclMask c) j \<and> bit (sharedMask x) j) \<and> \<not> (bit (exclMask c) j \<and> bit (exclMask x) j) \<and>
        \<not> (bit (sharedMask c) j \<and> bit (exclMask x) j)" if "(r, x) \<in> ?X" "r \<noteq> ?p" for r x
    proof -
      have "compatible_conns c x"
        using shm_invD(4) [OF inv c] that by (auto simp: conn_ok_def node_conns_def)
      then show ?thesis using j16 by (auto simp: compatible_conns_def word_and_zero_iff)
    qed
    have self: "(?p, c) \<in> ?X" using c by (simp add: node_conns_def)
    note G = granted(2) [unfolded shm_grant_ok_def Let_def]
    have in_mask: "bit x j" if "x AND ?m = ?m" "bit ?m j" for x :: "16 word"
      using that by (metis bit_and_iff)
    have hit: "x AND ?m \<noteq> 0" if "bit x j" "bit ?m j" for x :: "16 word"
      using that j16 by (auto simp: word_and_zero_iff)
    show ?thesis
    proof (cases "bit ?m j")
      case False
      have "bit (exclMask ?d) j = bit (exclMask c) j" "bit (sharedMask ?d) j = bit (sharedMask c) j"
        using False j16 by (auto simp: granted_masks_def bit_and_iff bit_or_iff bit_not_iff)
      then have "shm_level st' (sh_node c) j = shm_level st (sh_node c) j" using lv l0 by simp
      moreover have "held os (hShm n) (UNIX_SHM_BASE + int j) = held (sh_os st) (hShm n) (UNIX_SHM_BASE + int j)"
      proof -
        have "os = sh_os st \<or> (\<exists>t. system_locked S n t ofst k (sh_os st) os)"
          using G by (auto split: if_splits)
        then show ?thesis
        proof
          assume "\<exists>t. system_locked S n t ofst k (sh_os st) os"
          then obtain t where "system_locked S n t ofst k (sh_os st) os" by blast
          from held [OF this] show ?thesis using False mbit by auto
        qed simp
      qed
      ultimately show ?thesis using old os' nn by simp
    next
      case True
      then have jr: "ofst \<le> int j" "int j < ofst + k" using mbit by simp_all
      have one: "i = j" if "k = 1" "i < 16" "bit ?m i" for i
        using that jr bit_shm_mask [OF rg that(2)] by simp
      from ok consider (ls) "flags = 6" "k = 1" | (lx) "flags = 10"
        | (us) "flags = 5" "k = 1" "sharedMask c AND ?m = ?m" | (ux) "flags = 9" "exclMask c AND ?m = ?m"
        by (auto simp: shm_request_ok_def)
      then show ?thesis
      proof cases
        case ls
        have no: "\<not> bit (exclMask x) j" if "(r, x) \<in> ?X" for r x
          using G that True hit ls by (auto split: if_splits)
        have d: "exclMask ?d = exclMask c" "bit (sharedMask ?d) j" using ls True by (simp_all add: granted_masks_def bit_or_iff)
        have "shm_level st' (sh_node c) j = F_RDLCK" using lv d no self by auto
        moreover have "held os (hShm n) (UNIX_SHM_BASE + int j) = F_RDLCK"
        proof (cases "\<exists>(r, d) \<in> ?X. sharedMask d AND ?m \<noteq> 0")
          case sh: True
          then obtain r x where x: "(r, x) \<in> ?X" "bit (sharedMask x) j"
            using one [OF ls(2)] by (auto dest!: word_and_nonzero)
          then have "shm_level st (sh_node c) j = F_RDLCK" using no by (auto simp: shm_level_def)
          then show ?thesis using old G ls sh by (auto split: if_splits)
        next
          case False
          then show ?thesis using G ls held jr by auto
        qed
        ultimately show ?thesis using os' nn by simp
      next
        case lx
        then have "system_locked S n F_WRLCK ofst k (sh_os st) os" using G by simp
        moreover have "bit (exclMask ?d) j" using lx True by (simp add: granted_masks_def bit_or_iff)
        ultimately show ?thesis using held lv os' nn jr by simp
      next
        case us
        have cj: "bit (sharedMask c) j" by (rule in_mask [OF us(3) True])
        have ce: "\<not> bit (exclMask c) j"
          using shm_invD(4) [OF inv c] cj j16 by (auto simp: conn_ok_def word_and_zero_iff)
        have no: "\<not> bit (exclMask x) j" if "(r, x) \<in> ?X" "r \<noteq> ?p" for r x using comp [OF that] cj by blast
        have d: "\<not> bit (exclMask ?d) j" "\<not> bit (sharedMask ?d) j"
          using us True j16 by (simp_all add: granted_masks_def bit_and_iff bit_not_iff)
        show ?thesis
        proof (cases "\<exists>(r, x) \<in> ?X. r \<noteq> ?p \<and> sharedMask x AND ?m \<noteq> 0")
          case sh: True
          then obtain r x where x: "(r, x) \<in> ?X" "r \<noteq> ?p" "bit (sharedMask x) j"
            using one [OF us(2)] by (auto dest!: word_and_nonzero)
          then have "shm_level st' (sh_node c) j = F_RDLCK" using lv d no by auto
          moreover have "shm_level st (sh_node c) j = F_RDLCK" using l0 no cj ce by auto
          moreover have "os = sh_os st" using G us sh by auto
          ultimately show ?thesis using old os' nn by simp
        next
          case no_sh: False
          then have "\<not> bit (sharedMask x) j" if "(r, x) \<in> ?X" "r \<noteq> ?p" for r x
            using that hit [OF _ True] by blast
          then have "shm_level st' (sh_node c) j = F_UNLCK" using lv d no by auto
          moreover have "system_locked S n F_UNLCK ofst k (sh_os st) os" using G us no_sh by auto
          ultimately show ?thesis using held os' nn jr by simp
        qed
      next
        case ux
        have cj: "bit (exclMask c) j" by (rule in_mask [OF ux(2) True])
        have no: "\<not> bit (exclMask x) j" "\<not> bit (sharedMask x) j" if "(r, x) \<in> ?X" "r \<noteq> ?p" for r x
          using comp [OF that] cj by blast+
        have d: "\<not> bit (exclMask ?d) j" "\<not> bit (sharedMask ?d) j"
          using ux True j16 by (simp_all add: granted_masks_def bit_and_iff bit_not_iff)
        have "\<not> (\<exists>(r, x) \<in> ?X. r \<noteq> ?p \<and> sharedMask x AND ?m \<noteq> 0)"
        proof
          assume "\<exists>(r, x) \<in> ?X. r \<noteq> ?p \<and> sharedMask x AND ?m \<noteq> 0"
          then obtain r x where x: "(r, x) \<in> ?X" "r \<noteq> ?p" "sharedMask x AND ?m \<noteq> 0" by auto
          then obtain i where "i < 16" "bit (sharedMask x) i" "bit ?m i" using word_and_nonzero by blast
          moreover have "bit (exclMask c) i" using ux(2) calculation(3) by (metis bit_and_iff)
          moreover have "compatible_conns c x"
            using shm_invD(4) [OF inv c] x by (auto simp: conn_ok_def node_conns_def)
          ultimately show False by (auto simp: compatible_conns_def word_and_zero_iff)
        qed
        then have "system_locked S n F_UNLCK ofst k (sh_os st) os" using G ux by auto
        moreover have "shm_level st' (sh_node c) j = F_UNLCK" using lv d no by auto
        ultimately show ?thesis using held os' nn jr by simp
      qed
    qed
  qed
qed

end
