(* ===== verification/Shm_System.thy ===== *)
theory Shm_System
  imports Shm_Lock "HOL-Library.Multiset"
begin

text \<open>
  The connections of one process to shared memory as a transition system, and what holds in its
  reachable states: the invariant, exclusion of the locks of the write-ahead log, and regions
  that stay where they are.
\<close>

section \<open>Mapping\<close>

lemma unixShmMap_spec:
  assumes r: "unixShmMap S mem f iRegion sz e pp st = Some (rc, pp', g, st')" and inv: "shm_inv st"
    and f: "shm_handle st f" and A: "0 \<le> iRegion" "0 < sz"
  shows "shm_inv st'" and "shm_handle st' g" and "shm_handle st h \<Longrightarrow> shm_handle st' h"
    and "pShm g = pShm f \<or> pShm f = NULL \<and> shmConns st (pShm g) = None"
    and "iRegion + unixShmRegionPerMap S < 2 ^ 16 \<Longrightarrow> shmNodes st q = Some n \<Longrightarrow>
      \<exists>n'. shmNodes st' q = Some n' \<and> nRegion n \<le> nRegion n' \<and>
        take (unat (nRegion n)) (apRegion n') = take (unat (nRegion n)) (apRegion n)"
    and "pShm g \<noteq> NULL \<Longrightarrow> rc = SQLITE_OK \<Longrightarrow>
      \<exists>c n'. shmConns st' (pShm g) = Some c \<and> shmNodes st' (sh_node c) = Some n' \<and>
        pp' = (if iRegion < uint (nRegion n') then apRegion n' ! nat iRegion else NULL) \<and>
        (e \<longrightarrow> iRegion < uint (nRegion n'))"
    and "shmConns st x = Some d \<Longrightarrow> shmConns st' x = Some d"
proof -
  obtain rc1 f1 st1 where o: "(if pShm f = NULL then unixOpenSharedMemory S mem f st else Some (SQLITE_OK, f, st)) = Some (rc1, f1, st1)"
    and rest: "(if rc1 \<noteq> SQLITE_OK then Some (rc1, pp, f1, st1)
     else do {
       (rc, pp, st) \<leftarrow> shm_map_region S f1 iRegion sz e st1;
       Some (rc, pp, f1, st)
     }) = Some (rc, pp', g, st')"
    using r by (auto simp: unixShmMap_def bind_eq_Some_iff)
  have f1: "shm_inv st1 \<and> shm_handle st1 f1 \<and> (shm_handle st h \<longrightarrow> shm_handle st1 h) \<and>
      (pShm f1 = pShm f \<or> pShm f = NULL \<and> shmConns st (pShm f1) = None) \<and> (rc1 = SQLITE_OK \<longrightarrow> pShm f1 \<noteq> NULL) \<and>
      (\<forall>q n. shmNodes st q = Some n \<longrightarrow>
         (\<exists>n'. shmNodes st1 q = Some n' \<and> nRegion n' = nRegion n \<and> apRegion n' = apRegion n)) \<and>
      (shmConns st x = Some d \<longrightarrow> shmConns st1 x = Some d)"
  proof (cases "pShm f = NULL")
    case False
    then show ?thesis using o inv f by auto
  next
    case True
    then have "unixOpenSharedMemory S mem f st = Some (rc1, f1, st1)" using o by simp
    from this inv f True show ?thesis
    proof (cases rule: unixOpenSharedMemory_spec)
      case failed
      then show ?thesis using shm_restored_inv [OF failed(4) inv] f by (auto simp: shm_restored_def)
    next
      case (opened p)
      then show ?thesis using True by auto
    qed
  qed
  have goal: "shm_inv st' \<and> shm_handle st' g \<and> (shm_handle st h \<longrightarrow> shm_handle st' h) \<and>
    (pShm g = pShm f \<or> pShm f = NULL \<and> shmConns st (pShm g) = None) \<and>
    (iRegion + unixShmRegionPerMap S < 2 ^ 16 \<longrightarrow> shmNodes st q = Some n \<longrightarrow>
      (\<exists>n'. shmNodes st' q = Some n' \<and> nRegion n \<le> nRegion n' \<and>
        take (unat (nRegion n)) (apRegion n') = take (unat (nRegion n)) (apRegion n))) \<and>
    (pShm g \<noteq> NULL \<longrightarrow> rc = SQLITE_OK \<longrightarrow>
      (\<exists>c n'. shmConns st' (pShm g) = Some c \<and> shmNodes st' (sh_node c) = Some n' \<and>
        pp' = (if iRegion < uint (nRegion n') then apRegion n' ! nat iRegion else NULL) \<and>
        (e \<longrightarrow> iRegion < uint (nRegion n')))) \<and>
    (shmConns st x = Some d \<longrightarrow> shmConns st' x = Some d)"
  proof (cases "rc1 = SQLITE_OK")
    case False
    then have same: "rc = rc1" "g = f1" "st' = st1" using rest by auto
    have "\<exists>n'. shmNodes st' q = Some n' \<and> nRegion n \<le> nRegion n' \<and>
        take (unat (nRegion n)) (apRegion n') = take (unat (nRegion n)) (apRegion n)" if q: "shmNodes st q = Some n"
    proof -
      obtain k where "shmNodes st1 q = Some k" "nRegion k = nRegion n" "apRegion k = apRegion n"
        using f1 q by blast
      then show ?thesis using same by simp
    qed
    then show ?thesis using False f1 unfolding same by blast
  next
    case True
    then have m: "shm_map_region S f1 iRegion sz e st1 = Some (rc, pp', st')" and g: "g = f1"
      using rest by (auto simp: bind_eq_Some_iff)
    have inv1: "shm_inv st1" and h1: "shm_handle st1 f1" "pShm f1 \<noteq> NULL" using f1 True by auto
    obtain c where c: "shmConns st1 (pShm f1) = Some c" using h1 by (auto simp: shm_handle_def)
    obtain m1 where n1: "shmNodes st1 (sh_node c) = Some m1"
      using shm_invD(4) [OF inv1 c] by (auto simp: conn_ok_def)
    have len: "unat (nRegion m1) \<le> length (apRegion m1)" using shm_invD(3) [OF inv1 n1] by (simp add: node_ok_def)
    obtain n' where R: "shm_quiet st1 st'" "shmNodes st' (sh_node c) = Some n'" "shmConns st' = shmConns st1"
      "pp' = (if iRegion < uint (nRegion n') then apRegion n' ! nat iRegion else NULL)"
      "iRegion + unixShmRegionPerMap S < 2 ^ 16 \<Longrightarrow> node_extends m1 n'"
      "rc = SQLITE_OK \<Longrightarrow> e \<Longrightarrow> iRegion < uint (nRegion n')"
      "\<And>r. r \<noteq> sh_node c \<Longrightarrow> shmNodes st' r = shmNodes st1 r"
      by (rule shm_map_region_spec [OF m c n1 A shm_invD(1) [OF inv1] len]) (rule that)
    have "\<exists>n'. shmNodes st' q = Some n' \<and> nRegion n \<le> nRegion n' \<and>
        take (unat (nRegion n)) (apRegion n') = take (unat (nRegion n)) (apRegion n)"
      if small: "iRegion + unixShmRegionPerMap S < 2 ^ 16" and q: "shmNodes st q = Some n"
    proof -
      obtain k where k: "shmNodes st1 q = Some k" "nRegion k = nRegion n" "apRegion k = apRegion n"
        using f1 q by blast
      show ?thesis
      proof (cases "q = sh_node c")
        case True
        then show ?thesis using R(2,5) small k n1 by (auto simp: node_extends_def)
      next
        case False
        then show ?thesis using R(7) k by simp
      qed
    qed
    then show ?thesis
      using shm_quiet_inv [OF R(1) inv1] f1 h1 g R(2-4,6) c by auto
  qed
  then show "shm_inv st'" "shm_handle st' g" "shm_handle st h \<Longrightarrow> shm_handle st' h"
    "pShm g = pShm f \<or> pShm f = NULL \<and> shmConns st (pShm g) = None"
    "iRegion + unixShmRegionPerMap S < 2 ^ 16 \<Longrightarrow> shmNodes st q = Some n \<Longrightarrow>
      \<exists>n'. shmNodes st' q = Some n' \<and> nRegion n \<le> nRegion n' \<and>
        take (unat (nRegion n)) (apRegion n') = take (unat (nRegion n)) (apRegion n)"
    "pShm g \<noteq> NULL \<Longrightarrow> rc = SQLITE_OK \<Longrightarrow>
      \<exists>c n'. shmConns st' (pShm g) = Some c \<and> shmNodes st' (sh_node c) = Some n' \<and>
        pp' = (if iRegion < uint (nRegion n') then apRegion n' ! nat iRegion else NULL) \<and>
        (e \<longrightarrow> iRegion < uint (nRegion n'))"
    "shmConns st x = Some d \<Longrightarrow> shmConns st' x = Some d"
    by blast+
qed

section \<open>The transition system\<close>

text \<open>The handles open on databases in write-ahead mode, and the process's state.\<close>

record 'os shm_sys =
  sfiles :: "unixFile multiset"
  smem :: "'os shm_state"

inductive shm_step :: "'os syscalls \<Rightarrow> (ptr \<Rightarrow> bytes option) \<Rightarrow> 'os shm_sys \<Rightarrow> 'os shm_sys \<Rightarrow> bool"
  for S mem where
  map: "sfiles s = add_mset f F \<Longrightarrow> 0 \<le> iRegion \<Longrightarrow> 0 < sz \<Longrightarrow>
    unixShmMap S mem f iRegion sz e pp (smem s) = Some (rc, pp', g, st) \<Longrightarrow>
    shm_step S mem s \<lparr>sfiles = add_mset g F, smem = st\<rparr>"
| lock: "f \<in># sfiles s \<Longrightarrow> pShm f \<noteq> NULL \<Longrightarrow>
    unixShmLock S f ofst k flags (smem s) = Some (rc, st) \<Longrightarrow>
    shm_step S mem s (s\<lparr>smem := st\<rparr>)"
| unmap: "sfiles s = add_mset f F \<Longrightarrow>
    unixShmUnmap S f del (smem s) = Some (rc, g, st) \<Longrightarrow>
    shm_step S mem s \<lparr>sfiles = add_mset g F, smem = st\<rparr>"

text \<open>At first the handles have no shared memory.\<close>

definition shm_start :: "'os shm_sys \<Rightarrow> bool" where
  "shm_start s \<longleftrightarrow> table_ok (sh_unix (smem s)) \<and>
     shmNodes (smem s) = Map.empty \<and> shmConns (smem s) = Map.empty \<and>
     (\<forall>k i. inode_at k (sh_unix (smem s)) = Some i \<longrightarrow> ii_shm i = NULL) \<and>
     (\<forall>f \<in># sfiles s. pShm f = NULL \<and> inode_at (pInode f) (sh_unix (smem s)) \<noteq> None)"

inductive shm_reachable :: "'os syscalls \<Rightarrow> (ptr \<Rightarrow> bytes option) \<Rightarrow> 'os shm_sys \<Rightarrow> bool"
  for S mem where
  start: "shm_start s \<Longrightarrow> shm_reachable S mem s"
| step: "shm_reachable S mem s \<Longrightarrow> shm_step S mem s t \<Longrightarrow> shm_reachable S mem t"

definition shm_sys_inv :: "'os shm_sys \<Rightarrow> bool" where
  "shm_sys_inv s \<longleftrightarrow> shm_inv (smem s) \<and> (\<forall>f \<in># sfiles s. shm_handle (smem s) f) \<and>
     (\<forall>f g F. sfiles s = add_mset f (add_mset g F) \<longrightarrow> pShm f = pShm g \<longrightarrow> pShm f = NULL)"

lemma shm_sys_inv_start: "shm_start s \<Longrightarrow> shm_sys_inv s"
  by (auto simp: shm_start_def shm_sys_inv_def shm_inv_def inodes_shm_ok_def shm_handle_def)

text \<open>One handle is replaced by another with the same connection, a new one, or none.\<close>

lemma distinct_conns_replace:
  assumes d: "\<forall>f g F. M = add_mset f (add_mset g F) \<longrightarrow> pShm f = pShm g \<longrightarrow> pShm f = NULL"
    and M: "M = add_mset f F" and g: "pShm g = pShm f \<or> pShm g = NULL \<or> (\<forall>h \<in># F. pShm h \<noteq> pShm g)"
  shows "\<forall>a b G. add_mset g F = add_mset a (add_mset b G) \<longrightarrow> pShm a = pShm b \<longrightarrow> pShm a = NULL"
proof (intro allI impI)
  fix a b G assume e: "add_mset g F = add_mset a (add_mset b G)" "pShm a = pShm b"
  consider (ga) "g = a" "F = add_mset b G" | (gb) "g = b" "F = add_mset a G"
    | (no) H where "F = add_mset a (add_mset b H)"
  proof (cases "g = a")
    case True
    then show thesis using e(1) ga by simp
  next
    case False
    then obtain K where K: "F = add_mset a K" "add_mset b G = add_mset g K"
      using e(1) by (auto simp: add_eq_conv_ex)
    show thesis
    proof (cases "g = b")
      case True
      then show thesis using K gb by simp
    next
      case False
      then show thesis using K no by (auto simp: add_eq_conv_ex)
    qed
  qed
  then show "pShm a = NULL"
  proof cases
    case ga
    then have "pShm f = NULL" if "pShm f = pShm b" using d [rule_format, of f b G] M that by simp
    then show ?thesis using g ga e(2) by auto
  next
    case gb
    then have "pShm f = NULL" if "pShm f = pShm a" using d [rule_format, of f a G] M that by simp
    then show ?thesis using g gb e(2) by auto
  next
    case (no H)
    then have "M = add_mset a (add_mset b (add_mset f H))" using M by (simp add: add_mset_commute)
    then show ?thesis using d e(2) by blast
  qed
qed

lemma shm_sys_inv_step:
  assumes inv: "shm_sys_inv s" and step: "shm_step S mem s t"
  shows "shm_sys_inv t"
  using step
proof cases
  case (map f F iRegion sz e pp rc pp' g st)
  have I: "shm_inv (smem s)" "\<forall>h \<in># sfiles s. shm_handle (smem s) h"
    using inv by (simp_all add: shm_sys_inv_def)
  have f: "shm_handle (smem s) f" using I(2) map by simp
  note M = unixShmMap_spec [OF map(5) I(1) f map(3,4)]
  have "pShm g = pShm f \<or> pShm g = NULL \<or> (\<forall>h \<in># F. pShm h \<noteq> pShm g)"
    using M(4) I(2) map(2) by (auto simp: shm_handle_def)
  then have "\<forall>a b G. add_mset g F = add_mset a (add_mset b G) \<longrightarrow> pShm a = pShm b \<longrightarrow> pShm a = NULL"
    by (rule distinct_conns_replace [rotated 2]) (use inv map in \<open>auto simp: shm_sys_inv_def\<close>)
  then show ?thesis using M(1-3) I(2) map by (simp add: shm_sys_inv_def)
next
  case (lock f ofst k flags rc st)
  have I: "shm_inv (smem s)" "\<forall>h \<in># sfiles s. shm_handle (smem s) h"
    using inv by (simp_all add: shm_sys_inv_def)
  have f: "shm_handle (smem s) f" using I(2) lock by simp
  obtain rc' st' where r: "unixShmLock S f ofst k flags (smem s) = Some (rc', st')" "shm_inv st'"
    "\<And>h. shm_handle (smem s) h \<Longrightarrow> shm_handle st' h"
    by (rule unixShmLock_inv [OF I(1) f lock(3)]) (rule that)
  then show ?thesis using inv lock by (auto simp: shm_sys_inv_def)
next
  case (unmap f F del rc g st)
  have I: "shm_inv (smem s)" "\<forall>h \<in># sfiles s. shm_handle (smem s) h"
    using inv by (simp_all add: shm_sys_inv_def)
  have f: "shm_handle (smem s) f" using I(2) unmap by simp
  have d: "\<forall>a b G. add_mset g F = add_mset a (add_mset b G) \<longrightarrow> pShm a = pShm b \<longrightarrow> pShm a = NULL"
    if "pShm g = NULL"
    by (rule distinct_conns_replace [of "sfiles s" f]) (use inv unmap that in \<open>auto simp: shm_sys_inv_def\<close>)
  show ?thesis
  proof (cases "pShm f = NULL")
    case True
    then have "g = f" "st = smem s" using unmap by (simp_all add: unixShmUnmap_def)
    then have "t = s" using unmap by simp
    then show ?thesis using inv by simp
  next
    case False
    obtain st' where r: "unixShmUnmap S f del (smem s) = Some (SQLITE_OK, f\<lparr>pShm := NULL\<rparr>, st')" "shm_inv st'"
      "\<And>h. shm_handle (smem s) h \<Longrightarrow> pShm h \<noteq> pShm f \<Longrightarrow> shm_handle st' h"
      "shm_handle st' (f\<lparr>pShm := NULL\<rparr>)"
      by (rule unixShmUnmap_spec [OF I(1) f False]) (rule that)
    then have g: "g = f\<lparr>pShm := NULL\<rparr>" "st = st'" using unmap by simp_all
    have "pShm h \<noteq> pShm f" if h: "h \<in># F" for h
    proof
      assume e: "pShm h = pShm f"
      obtain G where "F = add_mset h G" using h by (metis insert_DiffM)
      then have "sfiles s = add_mset f (add_mset h G)" using unmap by simp
      with inv e False show False unfolding shm_sys_inv_def by metis
    qed
    then have "\<forall>h \<in># F. shm_handle st h" using r(3) I(2) unmap g by auto
    moreover have "shm_handle st g" using r(4) g by simp
    ultimately show ?thesis using r(2) g d unmap by (simp add: shm_sys_inv_def)
  qed
qed

lemma shm_reachable_inv: "shm_reachable S mem s \<Longrightarrow> shm_sys_inv s"
  by (induction rule: shm_reachable.induct) (auto intro: shm_sys_inv_start shm_sys_inv_step)

section \<open>What the reachable states have\<close>

text \<open>Two handles on one database never hold conflicting locks of the write-ahead log.\<close>

lemma shm_reachable_exclusion:
  assumes r: "shm_reachable S mem s" and F: "sfiles s = add_mset f (add_mset g F)" and same: "pInode f = pInode g"
    and c: "shmConns (smem s) (pShm f) = Some c" and d: "shmConns (smem s) (pShm g) = Some d"
  shows "compatible_conns c d"
proof -
  have inv: "shm_sys_inv s" by (rule shm_reachable_inv [OF r])
  then have I: "shm_inv (smem s)" and h: "shm_handle (smem s) f" "shm_handle (smem s) g"
    and dis: "pShm f = pShm g \<longrightarrow> pShm f = NULL"
    using F by (auto simp: shm_sys_inv_def)
  note C = shm_invD(4) [OF I c, unfolded conn_ok_def] and D = shm_invD(4) [OF I d, unfolded conn_ok_def]
  have "inode_shm f (smem s) = inode_shm g (smem s)" using same by (simp add: inode_shm_def)
  then have "sh_node d = sh_node c" using h c d C D by (auto simp: shm_handle_def)
  moreover have "pShm g \<noteq> pShm f" using dis C by auto
  ultimately show ?thesis using C d by blast
qed

text \<open>
  A region handed out stays where it is: after any other handle of the process has mapped what it
  likes, asking for the region again gives the same address.
\<close>

lemma mapped_region_stays:
  assumes inv: "shm_inv st" and f: "shm_handle st f" and h: "shm_handle st h" and g: "pShm g \<noteq> NULL"
    and A: "0 \<le> i" "0 < sz" "0 \<le> j" "0 < tz"
    and small: "i + unixShmRegionPerMap S < 2 ^ 16" "j + unixShmRegionPerMap S < 2 ^ 16"
    and m1: "unixShmMap S mem f i sz True pp st = Some (SQLITE_OK, p, g, st1)"
    and m2: "unixShmMap S mem h j tz e pp' st1 = Some (rc, p', h', st2)"
    and m3: "unixShmMap S mem g i sz e' pp'' st2 = Some (SQLITE_OK, p'', g', st3)"
  shows "p'' = p"
proof -
  note M1 = unixShmMap_spec [OF m1 inv f A(1,2)]
  obtain c n where c: "shmConns st1 (pShm g) = Some c" and n: "shmNodes st1 (sh_node c) = Some n"
    and p: "p = (if i < uint (nRegion n) then apRegion n ! nat i else NULL)" and in_n: "i < uint (nRegion n)"
    using M1(6) [OF g refl] by auto
  have h1: "shm_handle st1 h" by (rule M1(3) [OF h])
  note M2 = unixShmMap_spec [OF m2 M1(1) h1 A(3,4)]
  have g2: "shm_handle st2 g" by (rule M2(3) [OF M1(2)])
  obtain n2 where n2: "shmNodes st2 (sh_node c) = Some n2" and e2: "nRegion n \<le> nRegion n2"
    "take (unat (nRegion n)) (apRegion n2) = take (unat (nRegion n)) (apRegion n)"
    using M2(5) [OF small(2) n] by blast
  note M3 = unixShmMap_spec [OF m3 M2(1) g2 A(1,2)]
  have g': "pShm g' = pShm g" using M3(4) g by auto
  obtain n3 where n3: "shmNodes st3 (sh_node c) = Some n3" and e3: "nRegion n2 \<le> nRegion n3"
    "take (unat (nRegion n2)) (apRegion n3) = take (unat (nRegion n2)) (apRegion n2)"
    using M3(5) [OF small(1) n2] by blast
  obtain c' k where c': "shmConns st3 (pShm g') = Some c'" and k: "shmNodes st3 (sh_node c') = Some k"
    and p'': "p'' = (if i < uint (nRegion k) then apRegion k ! nat i else NULL)"
    using M3(6) g g' by auto
  have "c' = c" using M3(7) [OF M2(7) [OF c]] c' g' by simp
  then have n3k: "n3 = k" using n3 k by simp
  have i: "nat i < unat (nRegion n)" using in_n A(1) by (simp add: nat_less_iff)
  have le: "unat (nRegion n) \<le> unat (nRegion n2)" "unat (nRegion n2) \<le> unat (nRegion n3)"
    using e2(1) e3(1) by (simp_all add: word_le_nat_alt)
  have "apRegion n3 ! nat i = apRegion n ! nat i"
    using i le e2(2) e3(2) by (metis nth_take order_less_le_trans)
  moreover have "i < uint (nRegion k)" using in_n e2(1) e3(1) n3k by (simp add: word_le_def)
  ultimately show ?thesis using p p'' in_n n3k by simp
qed

end
