(* ===== verification/Arg_Convert.thy ===== *)
theory Arg_Convert
  imports Method_List
begin

text \<open>
  The conversion functions of \<open>os_arg_convert.c\<close>: for each remote call, the client packs
  its arguments into an array and unpacks the reply, the server unpacks the arguments and
  packs the results. \<open>arg\<close> is always the array that is read or written, with its real
  length, so a conversion that leaves the array gives \<open>None\<close>. Parameters the C functions
  do not use (the VFS pointer) are left out. The functions of the client end with
  \<open>setClientRemotePMethods\<close> of \<open>os_remote_init.c\<close>.
\<close>

definition MAX_SIZE :: nat where
  [size_simps]: "MAX_SIZE = 8192"

definition remote_posixIoMethods :: ptr where
  "remote_posixIoMethods = 0x20000"

definition setClientRemotePMethods :: "unixFile \<Rightarrow> unixFile" where
  "setClientRemotePMethods pf =
     (if pMethod pf \<noteq> NULL then pf\<lparr>pMethod := remote_posixIoMethods\<rparr> else pf)"

text \<open>Reading \<open>n\<close> bytes through a pointer that may be null.\<close>

definition load_ptr :: "bytes option \<Rightarrow> nat \<Rightarrow> bytes option" where
  "load_ptr p n = (case p of None \<Rightarrow> if n = 0 then Some [] else None | Some b \<Rightarrow> read_at b 0 n)"

text \<open>Writing bytes through a pointer that may be null.\<close>

definition store_ptr :: "bytes option \<Rightarrow> bytes \<Rightarrow> bytes option option" where
  "store_ptr p s = (case p of None \<Rightarrow> if s = [] then Some None else None
                    | Some b \<Rightarrow> map_option Some (memcpy b 0 s))"

section \<open>Sizes of the wire structures\<close>

definition SIZE_ArgInInit :: nat where [size_simps]: "SIZE_ArgInInit = 0"
definition SIZE_ReturnInit :: nat where [size_simps]: "SIZE_ReturnInit = 4"
definition SIZE_ArgInOpen :: nat where [size_simps]: "SIZE_ArgInOpen = 640"
definition SIZE_ReturnOpen :: nat where [size_simps]: "SIZE_ReturnOpen = 128"
definition SIZE_ArgInDelete :: nat where [size_simps]: "SIZE_ArgInDelete = 516"
definition SIZE_ReturnDelete :: nat where [size_simps]: "SIZE_ReturnDelete = 4"
definition SIZE_ArgInAccess :: nat where [size_simps]: "SIZE_ArgInAccess = 520"
definition SIZE_ReturnAccess :: nat where [size_simps]: "SIZE_ReturnAccess = 8"
definition SIZE_ArgInGetLastError :: nat where [size_simps]: "SIZE_ArgInGetLastError = 8"
definition SIZE_ReturnGetLastError :: nat where [size_simps]: "SIZE_ReturnGetLastError = 4"
definition SIZE_ArgInRead :: nat where [size_simps]: "SIZE_ArgInRead = 8328"
definition SIZE_ReturnRead :: nat where [size_simps]: "SIZE_ReturnRead = 8316"
definition SIZE_ArgInWrite :: nat where [size_simps]: "SIZE_ArgInWrite = 8328"
definition SIZE_ReturnWrite :: nat where [size_simps]: "SIZE_ReturnWrite = 8316"
definition SIZE_ArgInTruncate :: nat where [size_simps]: "SIZE_ArgInTruncate = 128"
definition SIZE_ReturnTruncate :: nat where [size_simps]: "SIZE_ReturnTruncate = 124"
definition SIZE_ArgInSync :: nat where [size_simps]: "SIZE_ArgInSync = 124"
definition SIZE_ReturnSync :: nat where [size_simps]: "SIZE_ReturnSync = 124"
definition SIZE_ArgInFileSize :: nat where [size_simps]: "SIZE_ArgInFileSize = 128"
definition SIZE_ReturnFileSize :: nat where [size_simps]: "SIZE_ReturnFileSize = 136"
definition SIZE_ArgInFileControl :: nat where [size_simps]: "SIZE_ArgInFileControl = 640"
definition SIZE_ReturnFileControl :: nat where [size_simps]: "SIZE_ReturnFileControl = 640"
definition SIZE_ArgInSectorSize :: nat where [size_simps]: "SIZE_ArgInSectorSize = 120"
definition SIZE_ReturnSectorSize :: nat where [size_simps]: "SIZE_ReturnSectorSize = 124"
definition SIZE_ArgInDeviceCharacteristics :: nat where
  [size_simps]: "SIZE_ArgInDeviceCharacteristics = 120"
definition SIZE_ReturnDeviceCharacteristics :: nat where
  [size_simps]: "SIZE_ReturnDeviceCharacteristics = 124"
definition SIZE_ArgInClose :: nat where [size_simps]: "SIZE_ArgInClose = 120"
definition SIZE_ReturnClose :: nat where [size_simps]: "SIZE_ReturnClose = 124"
definition SIZE_ArgInLock :: nat where [size_simps]: "SIZE_ArgInLock = 124"
definition SIZE_ReturnLock :: nat where [size_simps]: "SIZE_ReturnLock = 124"
definition SIZE_ArgInUnlock :: nat where [size_simps]: "SIZE_ArgInUnlock = 124"
definition SIZE_ReturnUnlock :: nat where [size_simps]: "SIZE_ReturnUnlock = 124"
definition SIZE_ArgInCheckReservedLock :: nat where
  [size_simps]: "SIZE_ArgInCheckReservedLock = 124"
definition SIZE_ReturnCheckReservedLock :: nat where
  [size_simps]: "SIZE_ReturnCheckReservedLock = 128"
definition SIZE_ArgInFetch :: nat where [size_simps]: "SIZE_ArgInFetch = 8328"
definition SIZE_ReturnFetch :: nat where [size_simps]: "SIZE_ReturnFetch = 8316"
definition SIZE_ArgInUnfetch :: nat where [size_simps]: "SIZE_ArgInUnfetch = 136"
definition SIZE_ReturnUnfetch :: nat where [size_simps]: "SIZE_ReturnUnfetch = 124"

section \<open>The VFS calls: init, open, delete, access, full path name, last error\<close>

definition sqlite3_os_initConvertCharToReturn :: "bytes \<Rightarrow> cint option" where
  [conv_defs]: "sqlite3_os_initConvertCharToReturn arg = get32 arg 0"

definition sqlite3_os_initConvertReturnToChar :: "cint \<Rightarrow> bytes \<Rightarrow> bytes option" where
  [conv_defs]: "sqlite3_os_initConvertReturnToChar rc arg = memcpy arg 0 (le32 rc)"

text \<open>A null \<open>pOutFlags\<close> is \<open>None\<close>; it crosses the wire as -1.\<close>

definition unixOpenConvertArgInToChar ::
  "bytes \<Rightarrow> unixFile \<Rightarrow> cint \<Rightarrow> cint option \<Rightarrow> bytes \<Rightarrow> bytes option" where
  [conv_defs]: "unixOpenConvertArgInToChar zName pFile flags pOutFlags arg = do {
     arg \<leftarrow> strcpy arg 0 zName;
     arg \<leftarrow> memcpy arg 512 (enc_unixFile pFile);
     arg \<leftarrow> memcpy arg (512 + SIZE_UNIXFILE) (le32 flags);
     memcpy arg (512 + SIZE_UNIXFILE + 4)
       (le32 (case pOutFlags of None \<Rightarrow> - 1 | Some v \<Rightarrow> v))
   }"

definition unixOpenConvertCharToReturn ::
  "bytes \<Rightarrow> cint option \<Rightarrow> (unixFile \<times> cint option \<times> cint) option" where
  [conv_defs]: "unixOpenConvertCharToReturn arg pOutFlags = do {
     pFile \<leftarrow> get_unixFile arg 0;
     temp \<leftarrow> get32 arg SIZE_UNIXFILE;
     rc \<leftarrow> get32 arg (SIZE_UNIXFILE + 4);
     out \<leftarrow> (if temp = - 1 then Some pOutFlags
            else case pOutFlags of None \<Rightarrow> None
                 | Some _ \<Rightarrow> map_option Some (get32 arg SIZE_UNIXFILE));
     Some (setClientRemotePMethods pFile, out, rc)
   }"

text \<open>\<open>zName\<close> is the array the path is copied into.\<close>

definition unixOpenConvertCharToArgIn ::
  "bytes \<Rightarrow> bytes \<Rightarrow> (bytes \<times> unixFile \<times> cint \<times> cint) option" where
  [conv_defs]: "unixOpenConvertCharToArgIn arg zName = do {
     zName \<leftarrow> strcpy zName 0 arg;
     pFile \<leftarrow> get_unixFile arg 512;
     flags \<leftarrow> get32 arg (512 + SIZE_UNIXFILE);
     outFlags \<leftarrow> get32 arg (512 + SIZE_UNIXFILE + 4);
     Some (zName, pFile, flags, outFlags)
   }"

definition unixOpenConvertReturnToChar ::
  "unixFile \<Rightarrow> cint \<Rightarrow> cint \<Rightarrow> bytes \<Rightarrow> bytes option" where
  [conv_defs]: "unixOpenConvertReturnToChar pFile outFlags rc arg = do {
     arg \<leftarrow> memcpy arg 0 (enc_unixFile pFile);
     arg \<leftarrow> memcpy arg SIZE_UNIXFILE (le32 outFlags);
     memcpy arg (SIZE_UNIXFILE + 4) (le32 rc)
   }"

definition unixDeleteConvertArgInToChar :: "bytes \<Rightarrow> cint \<Rightarrow> bytes \<Rightarrow> bytes option" where
  [conv_defs]: "unixDeleteConvertArgInToChar zName dirSync arg = do {
     arg \<leftarrow> strcpy arg 0 zName;
     memcpy arg 512 (le32 dirSync)
   }"

definition unixDeleteConvertCharToReturn :: "bytes \<Rightarrow> cint option" where
  [conv_defs]: "unixDeleteConvertCharToReturn arg = get32 arg 0"

definition unixDeleteConvertCharToArgIn :: "bytes \<Rightarrow> bytes \<Rightarrow> (bytes \<times> cint) option" where
  [conv_defs]: "unixDeleteConvertCharToArgIn arg zName = do {
     zName \<leftarrow> strcpy zName 0 arg;
     dirSync \<leftarrow> get32 arg 512;
     Some (zName, dirSync)
   }"

definition unixDeleteConvertReturnToChar :: "cint \<Rightarrow> bytes \<Rightarrow> bytes option" where
  [conv_defs]: "unixDeleteConvertReturnToChar rc arg = memcpy arg 0 (le32 rc)"

definition unixAccessConvertArgInToChar :: "bytes \<Rightarrow> cint \<Rightarrow> cint \<Rightarrow> bytes \<Rightarrow> bytes option" where
  [conv_defs]: "unixAccessConvertArgInToChar zName flags resOut arg = do {
     arg \<leftarrow> strcpy arg 0 zName;
     arg \<leftarrow> memcpy arg 512 (le32 flags);
     memcpy arg (512 + 4) (le32 resOut)
   }"

definition unixAccessConvertCharToReturn :: "bytes \<Rightarrow> (cint \<times> cint) option" where
  [conv_defs]: "unixAccessConvertCharToReturn arg = do {
     resOut \<leftarrow> get32 arg 0;
     rc \<leftarrow> get32 arg 4;
     Some (resOut, rc)
   }"

definition unixAccessConvertCharToArgIn ::
  "bytes \<Rightarrow> bytes \<Rightarrow> (bytes \<times> cint \<times> cint) option" where
  [conv_defs]: "unixAccessConvertCharToArgIn arg zName = do {
     zName \<leftarrow> strcpy zName 0 arg;
     flags \<leftarrow> get32 arg 512;
     resOut \<leftarrow> get32 arg (512 + 4);
     Some (zName, flags, resOut)
   }"

definition unixAccessConvertReturnToChar :: "cint \<Rightarrow> cint \<Rightarrow> bytes \<Rightarrow> bytes option" where
  [conv_defs]: "unixAccessConvertReturnToChar resOut rc arg = do {
     arg \<leftarrow> memcpy arg 0 (le32 resOut);
     memcpy arg 4 (le32 rc)
   }"

definition getFullPathname_ARG_LEN :: "cint \<Rightarrow> cint" where
  [conv_defs]: "getFullPathname_ARG_LEN nOut = 4 + nOut"

definition getFullPathname_RETURN_LEN :: "cint \<Rightarrow> cint" where
  [conv_defs]: "getFullPathname_RETURN_LEN nOut = 4 + nOut"

definition getFullPathname_OUT_LEN :: "bytes \<Rightarrow> cint option" where
  [conv_defs]: "getFullPathname_OUT_LEN arg = get32 arg 0"

definition unixFullPathnameConvertArgInToChar :: "bytes \<Rightarrow> cint \<Rightarrow> bytes \<Rightarrow> bytes option" where
  [conv_defs]: "unixFullPathnameConvertArgInToChar zName nOut arg = do {
     arg \<leftarrow> memcpy arg 0 (le32 nOut);
     p \<leftarrow> read_at zName 0 (csize nOut);
     memcpy arg 4 p
   }"

definition unixFullPathnameConvertCharToReturn ::
  "bytes \<Rightarrow> cint \<Rightarrow> bytes \<Rightarrow> (bytes \<times> cint) option" where
  [conv_defs]: "unixFullPathnameConvertCharToReturn arg nOut zOut = do {
     p \<leftarrow> read_at arg 0 (csize nOut);
     zOut \<leftarrow> memcpy zOut 0 p;
     rc \<leftarrow> get32 arg (csize nOut);
     Some (zOut, rc)
   }"

definition unixFullPathnameConvertCharToArgIn :: "bytes \<Rightarrow> bytes \<Rightarrow> (bytes \<times> cint) option" where
  [conv_defs]: "unixFullPathnameConvertCharToArgIn arg zName = do {
     nOut \<leftarrow> getFullPathname_OUT_LEN arg;
     zName \<leftarrow> strcpy zName 0 (drop 4 arg);
     Some (zName, nOut)
   }"

definition unixFullPathnameConvertReturnToChar ::
  "cint \<Rightarrow> bytes \<Rightarrow> cint \<Rightarrow> bytes \<Rightarrow> bytes option" where
  [conv_defs]: "unixFullPathnameConvertReturnToChar nOut zOut rc arg = do {
     arg \<leftarrow> strcpy arg 0 zOut;
     memcpy arg (csize nOut) (le32 rc)
   }"

definition unixGetLastErrorConvertArgInToChar :: "bytes \<Rightarrow> bytes option" where
  [conv_defs]: "unixGetLastErrorConvertArgInToChar arg = Some arg"

definition unixGetLastErrorConvertCharToReturn :: "bytes \<Rightarrow> cint option" where
  [conv_defs]: "unixGetLastErrorConvertCharToReturn arg = get32 arg 0"

definition unixGetLastErrorConvertReturnToChar :: "cint \<Rightarrow> bytes \<Rightarrow> bytes option" where
  [conv_defs]: "unixGetLastErrorConvertReturnToChar rc_errno arg = memcpy arg 0 (le32 rc_errno)"

section \<open>The file calls: read, write, truncate, sync, size\<close>

definition unixReadConvertArgInToChar ::
  "unixFile \<Rightarrow> bytes \<Rightarrow> cint \<Rightarrow> i64 \<Rightarrow> bytes \<Rightarrow> bytes option" where
  [conv_defs]: "unixReadConvertArgInToChar f pBuf amt offset arg = do {
     arg \<leftarrow> memcpy arg 0 (enc_unixFile f);
     b \<leftarrow> read_at pBuf 0 (csize amt);
     arg \<leftarrow> memcpy arg SIZE_UNIXFILE b;
     arg \<leftarrow> memcpy arg (SIZE_UNIXFILE + MAX_SIZE) (le32 amt);
     memcpy arg (SIZE_UNIXFILE + MAX_SIZE + 4) (le64 offset)
   }"

definition unixReadConvertCharToReturn ::
  "bytes \<Rightarrow> bytes \<Rightarrow> cint \<Rightarrow> (unixFile \<times> bytes \<times> cint) option" where
  [conv_defs]: "unixReadConvertCharToReturn arg pBuf amt = do {
     f \<leftarrow> get_unixFile arg 0;
     b \<leftarrow> read_at arg SIZE_UNIXFILE (csize amt);
     pBuf \<leftarrow> memcpy pBuf 0 b;
     rc \<leftarrow> get32 arg (SIZE_UNIXFILE + MAX_SIZE);
     Some (setClientRemotePMethods f, pBuf, rc)
   }"

definition unixReadConvertCharToArgIn ::
  "bytes \<Rightarrow> bytes \<Rightarrow> (unixFile \<times> bytes \<times> cint \<times> i64) option" where
  [conv_defs]: "unixReadConvertCharToArgIn arg pBuf = do {
     f \<leftarrow> get_unixFile arg 0;
     amt \<leftarrow> get32 arg (SIZE_UNIXFILE + MAX_SIZE);
     b \<leftarrow> read_at arg SIZE_UNIXFILE (csize amt);
     pBuf \<leftarrow> memcpy pBuf 0 b;
     offset \<leftarrow> get64 arg (SIZE_UNIXFILE + MAX_SIZE + 4);
     Some (f, pBuf, amt, offset)
   }"

definition unixReadConvertReturnToChar ::
  "unixFile \<Rightarrow> bytes \<Rightarrow> cint \<Rightarrow> cint \<Rightarrow> bytes \<Rightarrow> bytes option" where
  [conv_defs]: "unixReadConvertReturnToChar f pBuf amt rc arg = do {
     arg \<leftarrow> memcpy arg 0 (enc_unixFile f);
     b \<leftarrow> read_at pBuf 0 (csize amt);
     arg \<leftarrow> memcpy arg SIZE_UNIXFILE b;
     memcpy arg (SIZE_UNIXFILE + MAX_SIZE) (le32 rc)
   }"

definition unixWriteConvertArgInToChar ::
  "unixFile \<Rightarrow> bytes \<Rightarrow> cint \<Rightarrow> i64 \<Rightarrow> bytes \<Rightarrow> bytes option" where
  [conv_defs]: "unixWriteConvertArgInToChar f pBuf amt offset arg = do {
     arg \<leftarrow> memcpy arg 0 (enc_unixFile f);
     b \<leftarrow> read_at pBuf 0 (csize amt);
     arg \<leftarrow> memcpy arg SIZE_UNIXFILE b;
     arg \<leftarrow> memcpy arg (SIZE_UNIXFILE + MAX_SIZE) (le32 amt);
     memcpy arg (SIZE_UNIXFILE + MAX_SIZE + 4) (le64 offset)
   }"

definition unixWriteConvertCharToReturn :: "bytes \<Rightarrow> (unixFile \<times> cint) option" where
  [conv_defs]: "unixWriteConvertCharToReturn arg = do {
     f \<leftarrow> get_unixFile arg 0;
     rc \<leftarrow> get32 arg (SIZE_UNIXFILE + MAX_SIZE);
     Some (setClientRemotePMethods f, rc)
   }"

definition unixWriteConvertCharToArgIn ::
  "bytes \<Rightarrow> bytes \<Rightarrow> (unixFile \<times> bytes \<times> cint \<times> i64) option" where
  [conv_defs]: "unixWriteConvertCharToArgIn arg pBuf = do {
     f \<leftarrow> get_unixFile arg 0;
     amt \<leftarrow> get32 arg (SIZE_UNIXFILE + MAX_SIZE);
     b \<leftarrow> read_at arg SIZE_UNIXFILE (csize amt);
     pBuf \<leftarrow> memcpy pBuf 0 b;
     offset \<leftarrow> get64 arg (SIZE_UNIXFILE + MAX_SIZE + 4);
     Some (f, pBuf, amt, offset)
   }"

definition unixWriteConvertReturnToChar :: "unixFile \<Rightarrow> cint \<Rightarrow> bytes \<Rightarrow> bytes option" where
  [conv_defs]: "unixWriteConvertReturnToChar f rc arg = do {
     arg \<leftarrow> memcpy arg 0 (enc_unixFile f);
     memcpy arg (SIZE_UNIXFILE + MAX_SIZE) (le32 rc)
   }"

definition unixTruncateConvertArgInToChar :: "unixFile \<Rightarrow> i64 \<Rightarrow> bytes \<Rightarrow> bytes option" where
  [conv_defs]: "unixTruncateConvertArgInToChar f nByte arg = do {
     arg \<leftarrow> memcpy arg 0 (enc_unixFile f);
     memcpy arg SIZE_UNIXFILE (le64 nByte)
   }"

definition unixTruncateConvertCharToReturn :: "bytes \<Rightarrow> (unixFile \<times> cint) option" where
  [conv_defs]: "unixTruncateConvertCharToReturn arg = do {
     f \<leftarrow> get_unixFile arg 0;
     rc \<leftarrow> get32 arg SIZE_UNIXFILE;
     Some (setClientRemotePMethods f, rc)
   }"

definition unixTruncateConvertCharToArgIn :: "bytes \<Rightarrow> (unixFile \<times> i64) option" where
  [conv_defs]: "unixTruncateConvertCharToArgIn arg = do {
     f \<leftarrow> get_unixFile arg 0;
     nByte \<leftarrow> get64 arg SIZE_UNIXFILE;
     Some (f, nByte)
   }"

definition unixTruncateConvertReturnToChar :: "unixFile \<Rightarrow> cint \<Rightarrow> bytes \<Rightarrow> bytes option" where
  [conv_defs]: "unixTruncateConvertReturnToChar f rc arg = do {
     arg \<leftarrow> memcpy arg 0 (enc_unixFile f);
     memcpy arg SIZE_UNIXFILE (le32 rc)
   }"

definition unixSyncConvertArgInToChar :: "unixFile \<Rightarrow> cint \<Rightarrow> bytes \<Rightarrow> bytes option" where
  [conv_defs]: "unixSyncConvertArgInToChar f flags arg = do {
     arg \<leftarrow> memcpy arg 0 (enc_unixFile f);
     memcpy arg SIZE_UNIXFILE (le32 flags)
   }"

definition unixSyncConvertCharToReturn :: "bytes \<Rightarrow> (unixFile \<times> cint) option" where
  [conv_defs]: "unixSyncConvertCharToReturn arg = do {
     f \<leftarrow> get_unixFile arg 0;
     rc \<leftarrow> get32 arg SIZE_UNIXFILE;
     Some (setClientRemotePMethods f, rc)
   }"

definition unixSyncConvertCharToArgIn :: "bytes \<Rightarrow> (unixFile \<times> cint) option" where
  [conv_defs]: "unixSyncConvertCharToArgIn arg = do {
     f \<leftarrow> get_unixFile arg 0;
     flags \<leftarrow> get32 arg SIZE_UNIXFILE;
     Some (f, flags)
   }"

definition unixSyncConvertReturnToChar :: "unixFile \<Rightarrow> cint \<Rightarrow> bytes \<Rightarrow> bytes option" where
  [conv_defs]: "unixSyncConvertReturnToChar f rc arg = do {
     arg \<leftarrow> memcpy arg 0 (enc_unixFile f);
     memcpy arg SIZE_UNIXFILE (le32 rc)
   }"

definition unixFileSizeConvertArgInToChar :: "unixFile \<Rightarrow> i64 \<Rightarrow> bytes \<Rightarrow> bytes option" where
  [conv_defs]: "unixFileSizeConvertArgInToChar f pSize arg = do {
     arg \<leftarrow> memcpy arg 0 (enc_unixFile f);
     memcpy arg SIZE_UNIXFILE (le64 pSize)
   }"

definition unixFileSizeConvertCharToReturn :: "bytes \<Rightarrow> (unixFile \<times> i64 \<times> cint) option" where
  [conv_defs]: "unixFileSizeConvertCharToReturn arg = do {
     f \<leftarrow> get_unixFile arg 0;
     pSize \<leftarrow> get64 arg SIZE_UNIXFILE;
     rc \<leftarrow> get32 arg (SIZE_UNIXFILE + 8);
     Some (setClientRemotePMethods f, pSize, rc)
   }"

definition unixFileSizeConvertCharToArgIn :: "bytes \<Rightarrow> (unixFile \<times> i64) option" where
  [conv_defs]: "unixFileSizeConvertCharToArgIn arg = do {
     f \<leftarrow> get_unixFile arg 0;
     pSize \<leftarrow> get64 arg SIZE_UNIXFILE;
     Some (f, pSize)
   }"

definition unixFileSizeConvertReturnToChar ::
  "unixFile \<Rightarrow> i64 \<Rightarrow> cint \<Rightarrow> bytes \<Rightarrow> bytes option" where
  [conv_defs]: "unixFileSizeConvertReturnToChar f pSize rc arg = do {
     arg \<leftarrow> memcpy arg 0 (enc_unixFile f);
     arg \<leftarrow> memcpy arg SIZE_UNIXFILE (le64 pSize);
     memcpy arg (SIZE_UNIXFILE + 8) (le32 rc)
   }"

section \<open>File control\<close>

text \<open>The kind of an operation's argument: 1 an \<open>int\<close>, 2 an \<open>i64\<close>, 3 a string, 0 other.\<close>

definition ControlType :: "int \<Rightarrow> nat" where
  "ControlType op =
     (if SQLITE_FCNTL_LOCKSTATE = op \<or> SQLITE_FCNTL_LAST_ERRNO = op \<or>
         SQLITE_FCNTL_CHUNK_SIZE = op \<or> SQLITE_FCNTL_PERSIST_WAL = op \<or>
         SQLITE_FCNTL_POWERSAFE_OVERWRITE = op \<or> SQLITE_FCNTL_HAS_MOVED = op \<or>
         SQLITE_FCNTL_LOCK_TIMEOUT = op then 1
      else if SQLITE_FCNTL_SIZE_HINT = op \<or> SQLITE_FCNTL_MMAP_SIZE = op \<or>
         SQLITE_FCNTL_PDB = op \<or> SQLITE_FCNTL_BUSYHANDLER = op \<or>
         SQLITE_FCNTL_CHUNK_SIZE = op \<or> SQLITE_FCNTL_PERSIST_WAL = op then 2
      else if SQLITE_FCNTL_VFSNAME = op \<or> SQLITE_FCNTL_TEMPFILENAME = op \<or>
         SQLITE_FCNTL_GET_LOCKPROXYFILE = op then 3
      else 0)"

text \<open>
  The bytes of \<open>pArg\<close> that cross the wire. \<open>pArg\<close> is the object it points to, or
  \<open>None\<close> for a null pointer; \<open>deref\<close> gives the characters at an address of the process
  that runs the function. A string argument is a \<open>char **\<close>: its length is that of the
  string the object points to.
\<close>

definition LenFileControlPArg ::
  "(ptr \<Rightarrow> bytes option) \<Rightarrow> int \<Rightarrow> bytes option \<Rightarrow> cint option" where
  "LenFileControlPArg deref op pArg =
     (case pArg of
        None \<Rightarrow> Some 0
      | Some b \<Rightarrow>
          if ControlType op = 1 then Some 4
          else if ControlType op = 2 then Some 8
          else if ControlType op = 3 then do {
            p \<leftarrow> get64 b 0;
            s \<leftarrow> (if p = NULL then None else deref p);
            n \<leftarrow> c_strlen s;
            Some (word_of_nat n)
          }
          else Some 0)"

definition unixFileControlConvertArgInToChar ::
  "unixFile \<Rightarrow> cint \<Rightarrow> bytes option \<Rightarrow> bytes \<Rightarrow> cint \<Rightarrow> bytes option" where
  [conv_defs]: "unixFileControlConvertArgInToChar f op pArg arg sz = do {
     arg \<leftarrow> memcpy arg 0 (enc_unixFile f);
     arg \<leftarrow> memcpy arg SIZE_UNIXFILE (le32 op);
     arg \<leftarrow> (if 0 < sint sz
            then do { b \<leftarrow> load_ptr pArg (csize sz); memcpy arg (SIZE_UNIXFILE + 4) b }
            else Some arg);
     memcpy arg (SIZE_UNIXFILE + 4 + 512) (le32 sz)
   }"

definition unixFileControlConvertCharToReturn ::
  "bytes \<Rightarrow> bytes option \<Rightarrow> (unixFile \<times> bytes option \<times> cint) option" where
  [conv_defs]: "unixFileControlConvertCharToReturn arg pArg = do {
     sz \<leftarrow> get32 arg (SIZE_UNIXFILE + 512 + 4);
     f \<leftarrow> get_unixFile arg 0;
     pArg \<leftarrow> (if 0 < sint sz
             then do { b \<leftarrow> read_at arg SIZE_UNIXFILE (csize sz); store_ptr pArg b }
             else Some pArg);
     rc \<leftarrow> get32 arg (SIZE_UNIXFILE + 512);
     Some (setClientRemotePMethods f, pArg, rc)
   }"

definition unixFileControlConvertCharToArgIn ::
  "bytes \<Rightarrow> bytes \<Rightarrow> (unixFile \<times> cint \<times> bytes \<times> cint) option" where
  [conv_defs]: "unixFileControlConvertCharToArgIn arg pArg = do {
     sz \<leftarrow> get32 arg (SIZE_UNIXFILE + 4 + 512);
     f \<leftarrow> get_unixFile arg 0;
     op \<leftarrow> get32 arg SIZE_UNIXFILE;
     pArg \<leftarrow> (if 0 < sint sz
             then do { b \<leftarrow> read_at arg (SIZE_UNIXFILE + 4) (csize sz); memcpy pArg 0 b }
             else Some pArg);
     Some (f, op, pArg, sz)
   }"

definition unixFileControlConvertReturnToChar ::
  "unixFile \<Rightarrow> bytes \<Rightarrow> cint \<Rightarrow> bytes \<Rightarrow> cint \<Rightarrow> bytes option" where
  [conv_defs]: "unixFileControlConvertReturnToChar f pArg rc arg sz = do {
     arg \<leftarrow> memcpy arg (SIZE_UNIXFILE + 512 + 4) (le32 sz);
     arg \<leftarrow> memcpy arg 0 (enc_unixFile f);
     arg \<leftarrow> (if 0 < sint sz
            then do { b \<leftarrow> read_at pArg 0 (csize sz); memcpy arg SIZE_UNIXFILE b }
            else Some arg);
     memcpy arg (SIZE_UNIXFILE + 512) (le32 rc)
   }"

section \<open>Sector size, device characteristics, close\<close>

definition unixSectorSizeConvertArgInToChar :: "unixFile \<Rightarrow> bytes \<Rightarrow> bytes option" where
  [conv_defs]: "unixSectorSizeConvertArgInToChar f arg = memcpy arg 0 (enc_unixFile f)"

definition unixSectorSizeConvertCharToReturn :: "bytes \<Rightarrow> (unixFile \<times> cint) option" where
  [conv_defs]: "unixSectorSizeConvertCharToReturn arg = do {
     f \<leftarrow> get_unixFile arg 0;
     sz \<leftarrow> get32 arg SIZE_UNIXFILE;
     Some (setClientRemotePMethods f, sz)
   }"

definition unixSectorSizeConvertCharToArgIn :: "bytes \<Rightarrow> unixFile option" where
  [conv_defs]: "unixSectorSizeConvertCharToArgIn arg = get_unixFile arg 0"

definition unixSectorSizeConvertReturnToChar :: "unixFile \<Rightarrow> cint \<Rightarrow> bytes \<Rightarrow> bytes option" where
  [conv_defs]: "unixSectorSizeConvertReturnToChar f sz arg = do {
     arg \<leftarrow> memcpy arg 0 (enc_unixFile f);
     memcpy arg SIZE_UNIXFILE (le32 sz)
   }"

definition unixDeviceCharacteristicsConvertArgInToChar ::
  "unixFile \<Rightarrow> bytes \<Rightarrow> bytes option" where
  [conv_defs]: "unixDeviceCharacteristicsConvertArgInToChar f arg = memcpy arg 0 (enc_unixFile f)"

definition unixDeviceCharacteristicsConvertCharToReturn ::
  "bytes \<Rightarrow> (unixFile \<times> cint) option" where
  [conv_defs]: "unixDeviceCharacteristicsConvertCharToReturn arg = do {
     f \<leftarrow> get_unixFile arg 0;
     dc \<leftarrow> get32 arg SIZE_UNIXFILE;
     Some (setClientRemotePMethods f, dc)
   }"

definition unixDeviceCharacteristicsConvertCharToArgIn :: "bytes \<Rightarrow> unixFile option" where
  [conv_defs]: "unixDeviceCharacteristicsConvertCharToArgIn arg = get_unixFile arg 0"

definition unixDeviceCharacteristicsConvertReturnToChar ::
  "unixFile \<Rightarrow> cint \<Rightarrow> bytes \<Rightarrow> bytes option" where
  [conv_defs]: "unixDeviceCharacteristicsConvertReturnToChar f dc arg = do {
     arg \<leftarrow> memcpy arg 0 (enc_unixFile f);
     memcpy arg SIZE_UNIXFILE (le32 dc)
   }"

definition unixCloseConvertArgInToChar :: "unixFile \<Rightarrow> bytes \<Rightarrow> bytes option" where
  [conv_defs]: "unixCloseConvertArgInToChar f arg = memcpy arg 0 (enc_unixFile f)"

text \<open>The handle of the closed file stays the client's own, and the reply's handle is not set.\<close>

definition unixCloseConvertCharToReturn :: "bytes \<Rightarrow> unixFile \<Rightarrow> (unixFile \<times> cint) option" where
  [conv_defs]: "unixCloseConvertCharToReturn arg f = do {
     rc \<leftarrow> get32 arg SIZE_UNIXFILE;
     Some (setClientRemotePMethods f, rc)
   }"

definition unixCloseConvertCharToArgIn :: "bytes \<Rightarrow> unixFile option" where
  [conv_defs]: "unixCloseConvertCharToArgIn arg = get_unixFile arg 0"

definition unixCloseConvertReturnToChar :: "cint \<Rightarrow> bytes \<Rightarrow> bytes option" where
  [conv_defs]: "unixCloseConvertReturnToChar rc arg = memcpy arg SIZE_UNIXFILE (le32 rc)"

section \<open>Locks\<close>

definition unixLockConvertArgInToChar :: "unixFile \<Rightarrow> cint \<Rightarrow> bytes \<Rightarrow> bytes option" where
  [conv_defs]: "unixLockConvertArgInToChar f level arg = do {
     arg \<leftarrow> memcpy arg 0 (enc_unixFile f);
     memcpy arg SIZE_UNIXFILE (le32 level)
   }"

definition unixLockConvertCharToReturn :: "bytes \<Rightarrow> (unixFile \<times> cint) option" where
  [conv_defs]: "unixLockConvertCharToReturn arg = do {
     f \<leftarrow> get_unixFile arg 0;
     rc \<leftarrow> get32 arg SIZE_UNIXFILE;
     Some (setClientRemotePMethods f, rc)
   }"

definition unixLockConvertCharToArgIn :: "bytes \<Rightarrow> (unixFile \<times> cint) option" where
  [conv_defs]: "unixLockConvertCharToArgIn arg = do {
     f \<leftarrow> get_unixFile arg 0;
     level \<leftarrow> get32 arg SIZE_UNIXFILE;
     Some (f, level)
   }"

definition unixLockConvertReturnToChar :: "unixFile \<Rightarrow> cint \<Rightarrow> bytes \<Rightarrow> bytes option" where
  [conv_defs]: "unixLockConvertReturnToChar f rc arg = do {
     arg \<leftarrow> memcpy arg 0 (enc_unixFile f);
     memcpy arg SIZE_UNIXFILE (le32 rc)
   }"

definition unixUnlockConvertArgInToChar :: "unixFile \<Rightarrow> cint \<Rightarrow> bytes \<Rightarrow> bytes option" where
  [conv_defs]: "unixUnlockConvertArgInToChar f level arg = do {
     arg \<leftarrow> memcpy arg 0 (enc_unixFile f);
     memcpy arg SIZE_UNIXFILE (le32 level)
   }"

definition unixUnlockConvertCharToReturn :: "bytes \<Rightarrow> (unixFile \<times> cint) option" where
  [conv_defs]: "unixUnlockConvertCharToReturn arg = do {
     f \<leftarrow> get_unixFile arg 0;
     rc \<leftarrow> get32 arg SIZE_UNIXFILE;
     Some (setClientRemotePMethods f, rc)
   }"

definition unixUnlockConvertCharToArgIn :: "bytes \<Rightarrow> (unixFile \<times> cint) option" where
  [conv_defs]: "unixUnlockConvertCharToArgIn arg = do {
     f \<leftarrow> get_unixFile arg 0;
     level \<leftarrow> get32 arg SIZE_UNIXFILE;
     Some (f, level)
   }"

definition unixUnlockConvertReturnToChar :: "unixFile \<Rightarrow> cint \<Rightarrow> bytes \<Rightarrow> bytes option" where
  [conv_defs]: "unixUnlockConvertReturnToChar f rc arg = do {
     arg \<leftarrow> memcpy arg 0 (enc_unixFile f);
     memcpy arg SIZE_UNIXFILE (le32 rc)
   }"

definition unixCheckReservedLockConvertArgInToChar ::
  "unixFile \<Rightarrow> cint \<Rightarrow> bytes \<Rightarrow> bytes option" where
  [conv_defs]: "unixCheckReservedLockConvertArgInToChar f res arg = do {
     arg \<leftarrow> memcpy arg 0 (enc_unixFile f);
     memcpy arg SIZE_UNIXFILE (le32 res)
   }"

definition unixCheckReservedLockConvertCharToReturn ::
  "bytes \<Rightarrow> (unixFile \<times> cint \<times> cint) option" where
  [conv_defs]: "unixCheckReservedLockConvertCharToReturn arg = do {
     f \<leftarrow> get_unixFile arg 0;
     res \<leftarrow> get32 arg SIZE_UNIXFILE;
     rc \<leftarrow> get32 arg (SIZE_UNIXFILE + 4);
     Some (setClientRemotePMethods f, res, rc)
   }"

definition unixCheckReservedLockConvertCharToArgIn :: "bytes \<Rightarrow> (unixFile \<times> cint) option" where
  [conv_defs]: "unixCheckReservedLockConvertCharToArgIn arg = do {
     f \<leftarrow> get_unixFile arg 0;
     res \<leftarrow> get32 arg SIZE_UNIXFILE;
     Some (f, res)
   }"

definition unixCheckReservedLockConvertReturnToChar ::
  "unixFile \<Rightarrow> cint \<Rightarrow> cint \<Rightarrow> bytes \<Rightarrow> bytes option" where
  [conv_defs]: "unixCheckReservedLockConvertReturnToChar f res rc arg = do {
     arg \<leftarrow> memcpy arg 0 (enc_unixFile f);
     arg \<leftarrow> memcpy arg SIZE_UNIXFILE (le32 res);
     memcpy arg (SIZE_UNIXFILE + 4) (le32 rc)
   }"

section \<open>Memory-mapped pages\<close>

definition unixFetchConvertArgInToChar :: "unixFile \<Rightarrow> i64 \<Rightarrow> cint \<Rightarrow> bytes \<Rightarrow> bytes option" where
  [conv_defs]: "unixFetchConvertArgInToChar f iOff nAmt arg = do {
     arg \<leftarrow> memcpy arg 0 (enc_unixFile f);
     arg \<leftarrow> memcpy arg SIZE_UNIXFILE (le64 iOff);
     memcpy arg (SIZE_UNIXFILE + 8) (le32 nAmt)
   }"

definition unixFetchConvertCharToReturn ::
  "bytes \<Rightarrow> bytes \<Rightarrow> cint \<Rightarrow> (unixFile \<times> bytes \<times> cint) option" where
  [conv_defs]: "unixFetchConvertCharToReturn arg pp nAmt = do {
     f \<leftarrow> get_unixFile arg 0;
     b \<leftarrow> read_at arg SIZE_UNIXFILE (csize nAmt);
     pp \<leftarrow> memcpy pp 0 b;
     rc \<leftarrow> get32 arg (SIZE_UNIXFILE + MAX_SIZE);
     Some (setClientRemotePMethods f, pp, rc)
   }"

definition unixFetchConvertCharToArgIn :: "bytes \<Rightarrow> (unixFile \<times> i64 \<times> cint) option" where
  [conv_defs]: "unixFetchConvertCharToArgIn arg = do {
     f \<leftarrow> get_unixFile arg 0;
     iOff \<leftarrow> get64 arg SIZE_UNIXFILE;
     nAmt \<leftarrow> get32 arg (SIZE_UNIXFILE + 8);
     Some (f, iOff, nAmt)
   }"

text \<open>\<open>pp\<close> is the mapped page, null when the file is not mapped.\<close>

definition unixFetchsConvertReturnToChar ::
  "unixFile \<Rightarrow> bytes option \<Rightarrow> cint \<Rightarrow> cint \<Rightarrow> bytes \<Rightarrow> bytes option" where
  [conv_defs]: "unixFetchsConvertReturnToChar f pp nAmt rc arg = do {
     arg \<leftarrow> memcpy arg 0 (enc_unixFile f);
     b \<leftarrow> load_ptr pp (csize nAmt);
     arg \<leftarrow> memcpy arg SIZE_UNIXFILE b;
     memcpy arg (SIZE_UNIXFILE + MAX_SIZE) (le32 rc)
   }"

definition unixUnfetchConvertArgInToChar :: "unixFile \<Rightarrow> i64 \<Rightarrow> cint \<Rightarrow> bytes \<Rightarrow> bytes option" where
  [conv_defs]: "unixUnfetchConvertArgInToChar f iOff p_flag arg = do {
     arg \<leftarrow> memcpy arg 0 (enc_unixFile f);
     arg \<leftarrow> memcpy arg SIZE_UNIXFILE (le64 iOff);
     memcpy arg (SIZE_UNIXFILE + 8) (le32 p_flag)
   }"

text \<open>
  The C code copies \<open>sizeof(SIZE_UNIXFILE)\<close> bytes, the size of a \<open>size_t\<close>, and so
  only the first field of the handle.
\<close>

definition unixUnfetchConvertCharToReturn :: "bytes \<Rightarrow> unixFile \<Rightarrow> (unixFile \<times> cint) option" where
  [conv_defs]: "unixUnfetchConvertCharToReturn arg f = do {
     b \<leftarrow> read_at arg 0 8;
     rc \<leftarrow> get32 arg SIZE_UNIXFILE;
     Some (setClientRemotePMethods (dec_unixFile (overwrite (enc_unixFile f) 0 b)), rc)
   }"

definition unixUnfetchConvertCharToArgIn :: "bytes \<Rightarrow> (unixFile \<times> i64 \<times> cint) option" where
  [conv_defs]: "unixUnfetchConvertCharToArgIn arg = do {
     f \<leftarrow> get_unixFile arg 0;
     iOff \<leftarrow> get64 arg SIZE_UNIXFILE;
     p_flag \<leftarrow> get32 arg (SIZE_UNIXFILE + 8);
     Some (f, iOff, p_flag)
   }"

definition unixUnfetchConvertReturnToChar :: "unixFile \<Rightarrow> cint \<Rightarrow> bytes \<Rightarrow> bytes option" where
  [conv_defs]: "unixUnfetchConvertReturnToChar f rc arg = do {
     arg \<leftarrow> memcpy arg 0 (enc_unixFile f);
     memcpy arg SIZE_UNIXFILE (le32 rc)
   }"

end
