(* ===== verification/Server_Wrap.thy ===== *)
theory Server_Wrap
  imports Arg_Convert Unix_Open
begin

text \<open>
  The request handlers of \<open>os_server_wrap.c\<close>. A handler gets the array of the request
  and an array for the reply that nobody has initialised, unpacks the arguments, looks the
  handle's method table and name up in the list, calls the function of \<open>os_unix.c\<close>, stores
  method table and name back and packs the reply. \<open>None\<close> is a fault of the server process.
  A handler runs to its end before the next one starts.
\<close>

section \<open>The server process\<close>

text \<open>\<open>sv_strs\<close> are the strings a file control has allocated.\<close>

record 'os server =
  sv_list :: mlist
  sv_unix :: "'os unix_state"
  sv_strs :: "ptr \<rightharpoonup> bytes"

definition sv_init :: "'os \<Rightarrow> 'os server" where
  "sv_init os = \<lparr>sv_list = empty_mlist, sv_unix = us_init os, sv_strs = Map.empty\<rparr>"

abbreviation sv_os :: "'os server \<Rightarrow> 'os" where
  "sv_os sv \<equiv> us_os (sv_unix sv)"

definition put_os :: "'os \<Rightarrow> 'os server \<Rightarrow> 'os server" where
  "put_os os sv = sv\<lparr>sv_unix := (sv_unix sv)\<lparr>us_os := os\<rparr>\<rparr>"

text \<open>
  An uninitialised array of \<open>n\<close> bytes. \<open>junk k\<close> is what the memory of a handler's
  \<open>k\<close>-th array happens to hold.
\<close>

type_synonym junk = "nat \<Rightarrow> nat \<Rightarrow> byte"

definition uninit :: "junk \<Rightarrow> nat \<Rightarrow> nat \<Rightarrow> bytes" where
  "uninit junk k n = map (junk k) [0..<n]"

lemma length_uninit [simp]: "length (uninit junk k n) = n"
  by (simp add: uninit_def)

text \<open>The names the handlers' pointers reach.\<close>

definition server_mem :: "'os server \<Rightarrow> ptr \<Rightarrow> bytes option" where
  "server_mem sv = path_at (sv_list sv)"

text \<open>\<open>getServerUnixPMethods(id.h, pId); getServicePath(id.h, &id)\<close>.\<close>

definition lookup_file :: "unixFile \<Rightarrow> 'os server \<Rightarrow> (unixFile \<times> 'os server) option" where
  "lookup_file f sv = do {
     (f, ml) \<leftarrow> getServerUnixPMethods (h_fd f) f (sv_list sv);
     (f, ml) \<leftarrow> getServicePath (h_fd f) f ml;
     Some (f, sv\<lparr>sv_list := ml\<rparr>)
   }"

text \<open>\<open>setServerUnixPMethods(id.h, pId); setServicePath(id.h, id.zPath)\<close>.\<close>

definition record_file :: "unixFile \<Rightarrow> 'os server \<Rightarrow> 'os server option" where
  "record_file f sv = do {
     ml \<leftarrow> setServerUnixPMethods (h_fd f) f (sv_list sv);
     z \<leftarrow> path_at ml (zPath f);
     ml \<leftarrow> setServicePath (h_fd f) z ml;
     Some (sv\<lparr>sv_list := ml\<rparr>)
   }"

section \<open>The handlers of the VFS calls\<close>

text \<open>The server's own \<open>sqlite3_os_init\<close> registers its VFSes and succeeds.\<close>

definition WrapInit :: "bytes \<Rightarrow> bytes \<Rightarrow> 'os server \<Rightarrow> (bytes \<times> 'os server) option" where
  "WrapInit argIn argOut sv = do {
     argOut \<leftarrow> sqlite3_os_initConvertReturnToChar SQLITE_OK argOut;
     Some (argOut, sv)
   }"

text \<open>The address of the handler's array \<open>path\<close>, which is the name given to \<open>unixOpen\<close>.\<close>

definition STACK_path :: ptr where
  "STACK_path = 0x7FFFFFFDE000"

definition WrapOpen ::
  "'os syscalls \<Rightarrow> junk \<Rightarrow> bytes \<Rightarrow> bytes \<Rightarrow> 'os server \<Rightarrow> (bytes \<times> 'os server) option" where
  "WrapOpen S junk argIn argOut sv = do {
     (path, f, in_flags, out_flags) \<leftarrow> unixOpenConvertCharToArgIn argIn (uninit junk 1 512);
     (f, sv) \<leftarrow> lookup_file f sv;
     (rc, f, out, st) \<leftarrow> unixOpen S ((server_mem sv)(STACK_path \<mapsto> path)) STACK_path
       (in_flags AND 0x87f7f) (sv_unix sv);
     let sv = sv\<lparr>sv_unix := st\<rparr>;
     let out_flags = (if out_flags = - 1 then out_flags
                      else case out of None \<Rightarrow> out_flags | Some v \<Rightarrow> v);
     ml \<leftarrow> setServerUnixPMethods (h_fd f) f (sv_list sv);
     ml \<leftarrow> setServicePath (h_fd f) path ml;
     let sv = sv\<lparr>sv_list := ml\<rparr>;
     argOut \<leftarrow> unixOpenConvertReturnToChar f out_flags rc argOut;
     Some (argOut, sv)
   }"

definition WrapDelete ::
  "'os syscalls \<Rightarrow> junk \<Rightarrow> bytes \<Rightarrow> bytes \<Rightarrow> 'os server \<Rightarrow> (bytes \<times> 'os server) option" where
  "WrapDelete S junk argIn argOut sv = do {
     (path, dirSync) \<leftarrow> unixDeleteConvertCharToArgIn argIn (uninit junk 1 512);
     (rc, os) \<leftarrow> unixDelete S path dirSync (sv_os sv);
     argOut \<leftarrow> unixDeleteConvertReturnToChar rc argOut;
     Some (argOut, put_os os sv)
   }"

definition WrapAccess ::
  "'os syscalls \<Rightarrow> junk \<Rightarrow> bytes \<Rightarrow> bytes \<Rightarrow> 'os server \<Rightarrow> (bytes \<times> 'os server) option" where
  "WrapAccess S junk argIn argOut sv = do {
     (path, flags, res) \<leftarrow> unixAccessConvertCharToArgIn argIn (uninit junk 1 512);
     let (rc, res, os) = unixAccess S path flags (sv_os sv);
     argOut \<leftarrow> unixAccessConvertReturnToChar res rc argOut;
     Some (argOut, put_os os sv)
   }"

text \<open>Both arrays have the length the request gives.\<close>

definition WrapFullPathname ::
  "'os syscalls \<Rightarrow> junk \<Rightarrow> bytes \<Rightarrow> bytes \<Rightarrow> 'os server \<Rightarrow> (bytes \<times> 'os server) option" where
  "WrapFullPathname S junk argIn argOut sv = do {
     nOut \<leftarrow> getFullPathname_OUT_LEN argIn;
     (path, nOut) \<leftarrow> unixFullPathnameConvertCharToArgIn argIn (uninit junk 1 (csize nOut));
     (rc, zOut, os) \<leftarrow> unixFullPathname S path (sint nOut) (uninit junk 2 (csize nOut)) (sv_os sv);
     argOut \<leftarrow> unixFullPathnameConvertReturnToChar nOut zOut rc argOut;
     Some (argOut, put_os os sv)
   }"

definition WrapGetLastError ::
  "'os syscalls \<Rightarrow> bytes \<Rightarrow> bytes \<Rightarrow> 'os server \<Rightarrow> (bytes \<times> 'os server) option" where
  "WrapGetLastError S argIn argOut sv = do {
     argOut \<leftarrow> unixGetLastErrorConvertReturnToChar (unixGetLastError S (sv_os sv)) argOut;
     Some (argOut, sv)
   }"

section \<open>The handlers of the file calls\<close>

text \<open>
  All but one have the same frame: \<open>unpack\<close> gives the handle and the other arguments,
  \<open>call\<close> is the function of \<open>os_unix.c\<close>, \<open>pack\<close> packs the handle and the results.
\<close>

definition handle ::
  "(bytes \<Rightarrow> (unixFile \<times> 'x) option) \<Rightarrow>
   (unixFile \<Rightarrow> 'x \<Rightarrow> 'os server \<Rightarrow> (unixFile \<times> 'y \<times> 'os server) option) \<Rightarrow>
   (unixFile \<Rightarrow> 'y \<Rightarrow> bytes \<Rightarrow> bytes option) \<Rightarrow>
   bytes \<Rightarrow> bytes \<Rightarrow> 'os server \<Rightarrow> (bytes \<times> 'os server) option" where
  "handle unpack call pack argIn argOut sv = do {
     (f, x) \<leftarrow> unpack argIn;
     (f, sv) \<leftarrow> lookup_file f sv;
     (f, y, sv) \<leftarrow> call f x sv;
     sv \<leftarrow> record_file f sv;
     argOut \<leftarrow> pack f y argOut;
     Some (argOut, sv)
   }"

definition call_write ::
  "'os syscalls \<Rightarrow> unixFile \<Rightarrow> bytes \<times> cint \<times> i64 \<Rightarrow> 'os server \<Rightarrow>
     (unixFile \<times> cint \<times> 'os server) option" where
  "call_write S f x sv =
     (case x of (pBuf, amt, offset) \<Rightarrow> do {
        (rc, f, os) \<leftarrow> unixWrite S f pBuf (sint amt) (sint offset) (sv_os sv);
        Some (f, rc, put_os os sv)
      })"

definition WrapWrite ::
  "'os syscalls \<Rightarrow> junk \<Rightarrow> bytes \<Rightarrow> bytes \<Rightarrow> 'os server \<Rightarrow> (bytes \<times> 'os server) option" where
  "WrapWrite S junk =
     handle (\<lambda>argIn. unixWriteConvertCharToArgIn argIn (uninit junk 1 8192))
       (call_write S) unixWriteConvertReturnToChar"

definition call_read ::
  "'os syscalls \<Rightarrow> unixFile \<Rightarrow> bytes \<times> cint \<times> i64 \<Rightarrow> 'os server \<Rightarrow>
     (unixFile \<times> (bytes \<times> cint \<times> cint) \<times> 'os server) option" where
  "call_read S f x sv =
     (case x of (pBuf, amt, offset) \<Rightarrow> do {
        (rc, f, pBuf, os) \<leftarrow> unixRead S f pBuf (sint amt) (sint offset) (sv_os sv);
        Some (f, (pBuf, amt, rc), put_os os sv)
      })"

definition WrapRead ::
  "'os syscalls \<Rightarrow> junk \<Rightarrow> bytes \<Rightarrow> bytes \<Rightarrow> 'os server \<Rightarrow> (bytes \<times> 'os server) option" where
  "WrapRead S junk =
     handle (\<lambda>argIn. unixReadConvertCharToArgIn argIn (uninit junk 1 8192))
       (call_read S) (\<lambda>f (pBuf, amt, rc). unixReadConvertReturnToChar f pBuf amt rc)"

definition call_truncate ::
  "'os syscalls \<Rightarrow> unixFile \<Rightarrow> i64 \<Rightarrow> 'os server \<Rightarrow> (unixFile \<times> cint \<times> 'os server) option" where
  "call_truncate S f nByte sv = do {
     (rc, f, os) \<leftarrow> unixTruncate S f (sint nByte) (sv_os sv);
     Some (f, rc, put_os os sv)
   }"

definition WrapTruncate ::
  "'os syscalls \<Rightarrow> bytes \<Rightarrow> bytes \<Rightarrow> 'os server \<Rightarrow> (bytes \<times> 'os server) option" where
  "WrapTruncate S =
     handle unixTruncateConvertCharToArgIn (call_truncate S) unixTruncateConvertReturnToChar"

definition call_sync ::
  "'os syscalls \<Rightarrow> unixFile \<Rightarrow> cint \<Rightarrow> 'os server \<Rightarrow> (unixFile \<times> cint \<times> 'os server) option" where
  "call_sync S f flags sv = do {
     (rc, f, os) \<leftarrow> unixSync S (server_mem sv) f flags (sv_os sv);
     Some (f, rc, put_os os sv)
   }"

definition WrapSync ::
  "'os syscalls \<Rightarrow> bytes \<Rightarrow> bytes \<Rightarrow> 'os server \<Rightarrow> (bytes \<times> 'os server) option" where
  "WrapSync S = handle unixSyncConvertCharToArgIn (call_sync S) unixSyncConvertReturnToChar"

definition call_file_size ::
  "'os syscalls \<Rightarrow> unixFile \<Rightarrow> i64 \<Rightarrow> 'os server \<Rightarrow>
     (unixFile \<times> (i64 \<times> cint) \<times> 'os server) option" where
  "call_file_size S f pSize sv =
     (case unixFileSize S f pSize (sv_os sv) of (rc, pSize, f, os) \<Rightarrow>
        Some (f, (pSize, rc), put_os os sv))"

definition WrapFileSize ::
  "'os syscalls \<Rightarrow> bytes \<Rightarrow> bytes \<Rightarrow> 'os server \<Rightarrow> (bytes \<times> 'os server) option" where
  "WrapFileSize S =
     handle unixFileSizeConvertCharToArgIn (call_file_size S)
       (\<lambda>f (pSize, rc). unixFileSizeConvertReturnToChar f pSize rc)"

text \<open>
  The handler passes its array \<open>pArg\<close>, or null when the request has no argument, and then
  measures the argument again with the array.
\<close>

definition server_deref :: "'os server \<Rightarrow> ptr \<Rightarrow> bytes option" where
  "server_deref sv p = (case sv_strs sv p of None \<Rightarrow> server_mem sv p | Some z \<Rightarrow> Some z)"

definition call_file_control ::
  "'os syscalls \<Rightarrow> unixFile \<Rightarrow> cint \<times> bytes \<times> cint \<Rightarrow> 'os server \<Rightarrow>
     (unixFile \<times> (bytes \<times> cint \<times> cint \<times> (ptr \<rightharpoonup> bytes)) \<times> 'os server) option" where
  "call_file_control S f x sv =
     (case x of (op, pArg, sz) \<Rightarrow> do {
        (rc, f, arg, st, strs) \<leftarrow> unixFileControl S (server_mem sv) f (sint op)
          (if 0 < sint sz then Some pArg else None) (sv_unix sv) (sv_strs sv);
        let pArg = (case arg of None \<Rightarrow> pArg | Some b \<Rightarrow> b);
        let sv = sv\<lparr>sv_unix := st, sv_strs := strs\<rparr>;
        Some (f, (pArg, rc, op, server_deref sv), sv)
      })"

definition pack_file_control ::
  "unixFile \<Rightarrow> bytes \<times> cint \<times> cint \<times> (ptr \<rightharpoonup> bytes) \<Rightarrow> bytes \<Rightarrow> bytes option" where
  "pack_file_control f y argOut =
     (case y of (pArg, rc, op, deref) \<Rightarrow> do {
        sz \<leftarrow> LenFileControlPArg deref (sint op) (Some pArg);
        unixFileControlConvertReturnToChar f pArg rc argOut sz
      })"

definition WrapFileControl ::
  "'os syscalls \<Rightarrow> junk \<Rightarrow> bytes \<Rightarrow> bytes \<Rightarrow> 'os server \<Rightarrow> (bytes \<times> 'os server) option" where
  "WrapFileControl S junk =
     handle (\<lambda>argIn. unixFileControlConvertCharToArgIn argIn (uninit junk 1 512))
       (call_file_control S) pack_file_control"

definition call_device ::
  "(unixFile \<Rightarrow> cint \<times> unixFile) \<Rightarrow> unixFile \<Rightarrow> unit \<Rightarrow> 'os server \<Rightarrow>
     (unixFile \<times> cint \<times> 'os server) option" where
  "call_device op f _ sv = (case op f of (n, f) \<Rightarrow> Some (f, n, sv))"

definition WrapSectorSize :: "bytes \<Rightarrow> bytes \<Rightarrow> 'os server \<Rightarrow> (bytes \<times> 'os server) option" where
  "WrapSectorSize =
     handle (\<lambda>argIn. map_option (\<lambda>f. (f, ())) (unixSectorSizeConvertCharToArgIn argIn))
       (call_device unixSectorSize) unixSectorSizeConvertReturnToChar"

definition WrapDeviceCharacteristics ::
  "bytes \<Rightarrow> bytes \<Rightarrow> 'os server \<Rightarrow> (bytes \<times> 'os server) option" where
  "WrapDeviceCharacteristics =
     handle (\<lambda>argIn. map_option (\<lambda>f. (f, ())) (unixDeviceCharacteristicsConvertCharToArgIn argIn))
       (call_device unixDeviceCharacteristics) unixDeviceCharacteristicsConvertReturnToChar"

text \<open>
  The method table chooses the close; its entry in the list stays. Where the handle has no
  table \<open>rc\<close> is not set, but the lookup always gives one.
\<close>

definition xClose ::
  "'os syscalls \<Rightarrow> (ptr \<Rightarrow> bytes option) \<Rightarrow> unixFile \<Rightarrow> 'os unix_state \<Rightarrow>
     (cint \<times> unixFile \<times> 'os unix_state) option" where
  "xClose S mem f st =
     (if pMethod f = posixIoMethods then unixClose S mem f st
      else if pMethod f = nolockIoMethods then Some (nolockClose S f st)
      else None)"

definition WrapClose ::
  "'os syscalls \<Rightarrow> bytes \<Rightarrow> bytes \<Rightarrow> 'os server \<Rightarrow> (bytes \<times> 'os server) option" where
  "WrapClose S argIn argOut sv = do {
     f \<leftarrow> unixCloseConvertCharToArgIn argIn;
     (f, sv) \<leftarrow> lookup_file f sv;
     (rc, f, st) \<leftarrow> xClose S (server_mem sv) f (sv_unix sv);
     argOut \<leftarrow> unixCloseConvertReturnToChar rc argOut;
     Some (argOut, sv\<lparr>sv_unix := st\<rparr>)
   }"

section \<open>The handlers of the locks\<close>

definition call_lock ::
  "'os syscalls \<Rightarrow> unixFile \<Rightarrow> cint \<Rightarrow> 'os server \<Rightarrow> (unixFile \<times> cint \<times> 'os server) option" where
  "call_lock S f level sv = do {
     (rc, f, st) \<leftarrow> unixLock S f (sint level) (sv_unix sv);
     Some (f, rc, sv\<lparr>sv_unix := st\<rparr>)
   }"

definition WrapLock ::
  "'os syscalls \<Rightarrow> bytes \<Rightarrow> bytes \<Rightarrow> 'os server \<Rightarrow> (bytes \<times> 'os server) option" where
  "WrapLock S = handle unixLockConvertCharToArgIn (call_lock S) unixLockConvertReturnToChar"

definition call_unlock ::
  "'os syscalls \<Rightarrow> unixFile \<Rightarrow> cint \<Rightarrow> 'os server \<Rightarrow> (unixFile \<times> cint \<times> 'os server) option" where
  "call_unlock S f level sv = do {
     (rc, f, st) \<leftarrow> unixUnlock S f (sint level) (sv_unix sv);
     Some (f, rc, sv\<lparr>sv_unix := st\<rparr>)
   }"

definition WrapUnlock ::
  "'os syscalls \<Rightarrow> bytes \<Rightarrow> bytes \<Rightarrow> 'os server \<Rightarrow> (bytes \<times> 'os server) option" where
  "WrapUnlock S = handle unixUnlockConvertCharToArgIn (call_unlock S) unixUnlockConvertReturnToChar"

definition call_check_reserved ::
  "'os syscalls \<Rightarrow> unixFile \<Rightarrow> cint \<Rightarrow> 'os server \<Rightarrow>
     (unixFile \<times> (cint \<times> cint) \<times> 'os server) option" where
  "call_check_reserved S f res sv = do {
     (rc, res, f, st) \<leftarrow> unixCheckReservedLock S f (sv_unix sv);
     Some (f, (res, rc), sv\<lparr>sv_unix := st\<rparr>)
   }"

definition WrapCheckReservedLock ::
  "'os syscalls \<Rightarrow> bytes \<Rightarrow> bytes \<Rightarrow> 'os server \<Rightarrow> (bytes \<times> 'os server) option" where
  "WrapCheckReservedLock S =
     handle unixCheckReservedLockConvertCharToArgIn (call_check_reserved S)
       (\<lambda>f (res, rc). unixCheckReservedLockConvertReturnToChar f res rc)"

section \<open>The handlers of mapped pages\<close>

text \<open>The page is copied into the reply from the server's mapping.\<close>

definition call_fetch ::
  "'os syscalls \<Rightarrow> unixFile \<Rightarrow> i64 \<times> cint \<Rightarrow> 'os server \<Rightarrow>
     (unixFile \<times> (bytes option \<times> cint \<times> cint) \<times> 'os server) option" where
  "call_fetch S f x sv =
     (case x of (iOff, nAmt) \<Rightarrow>
        (case unixFetch S f iOff nAmt (sv_os sv) of (rc, pData, f, os) \<Rightarrow>
           Some (f, (if pData = NULL then None else osMemory S os pData (csize nAmt), nAmt, rc),
                 put_os os sv)))"

definition WrapFetch ::
  "'os syscalls \<Rightarrow> bytes \<Rightarrow> bytes \<Rightarrow> 'os server \<Rightarrow> (bytes \<times> 'os server) option" where
  "WrapFetch S =
     handle unixFetchConvertCharToArgIn (call_fetch S)
       (\<lambda>f (pp, nAmt, rc). unixFetchsConvertReturnToChar f pp nAmt rc)"

definition call_unfetch ::
  "'os syscalls \<Rightarrow> unixFile \<Rightarrow> i64 \<times> cint \<Rightarrow> 'os server \<Rightarrow>
     (unixFile \<times> cint \<times> 'os server) option" where
  "call_unfetch S f x sv =
     (case x of (iOff, p_flag) \<Rightarrow>
        (case unixUnfetch S f (p_flag \<noteq> 0) (sv_os sv) of (rc, f, os) \<Rightarrow>
           Some (f, rc, put_os os sv)))"

definition WrapUnfetch ::
  "'os syscalls \<Rightarrow> bytes \<Rightarrow> bytes \<Rightarrow> 'os server \<Rightarrow> (bytes \<times> 'os server) option" where
  "WrapUnfetch S = handle unixUnfetchConvertCharToArgIn (call_unfetch S) unixUnfetchConvertReturnToChar"

end
