(* ===== verification/Client_Remote.thy ===== *)
theory Client_Remote
  imports Server_Wrap
begin

text \<open>
  The client side of the remote VFS: the transport functions of \<open>os_client_wrap.cc\<close> with
  the service methods of \<open>os_remote_server.cc\<close> behind them, the methods of
  \<open>os_remote_client.c\<close> and the stubs and the initialisation of \<open>os_remote_init.c\<close>. The
  client's file object is the \<open>unixFile\<close> the server sent last. \<open>None\<close> is a fault of one
  of the two processes.
\<close>

section \<open>The transport\<close>

text \<open>
  gRPC may deliver the call, lose the request, or run the handler and lose the reply; in the
  last two cases the status is not OK.
\<close>

datatype fate = Delivered | RequestLost | ReplyLost

text \<open>
  All service methods have one shape: the handler gets the request and an uninitialised
  array of the length the client asks for. On a status that is not OK the client's array keeps
  what it had and nobody is told.
\<close>

definition rpc ::
  "fate \<Rightarrow> junk \<Rightarrow> (bytes \<Rightarrow> bytes \<Rightarrow> 'os server \<Rightarrow> (bytes \<times> 'os server) option) \<Rightarrow>
     bytes \<Rightarrow> bytes \<Rightarrow> 'os server \<Rightarrow> (bytes \<times> 'os server) option" where
  "rpc fate junk wrap argin outarg sv =
     (case fate of
        RequestLost \<Rightarrow> Some (outarg, sv)
      | ReplyLost \<Rightarrow> do {
          (_, sv) \<leftarrow> wrap argin (uninit junk 0 (length outarg)) sv;
          Some (outarg, sv)
        }
      | Delivered \<Rightarrow> do {
          (reply, sv) \<leftarrow> wrap argin (uninit junk 0 (length outarg)) sv;
          b \<leftarrow> read_at reply 0 (length outarg);
          outarg \<leftarrow> memcpy outarg 0 b;
          Some (outarg, sv)
        })"

text \<open>The frame of the client's methods: pack into a zeroed array, call, unpack.\<close>

definition invoke ::
  "fate \<Rightarrow> junk \<Rightarrow> (bytes \<Rightarrow> bytes option) \<Rightarrow> nat \<Rightarrow>
     (bytes \<Rightarrow> bytes \<Rightarrow> 'os server \<Rightarrow> (bytes \<times> 'os server) option) \<Rightarrow> bytes \<Rightarrow>
     (bytes \<Rightarrow> 'z option) \<Rightarrow> 'os server \<Rightarrow> ('z \<times> 'os server) option" where
  "invoke fate junk pack inlen wrap outarg unpack sv = do {
     argin \<leftarrow> pack (zeroed inlen);
     (outarg, sv) \<leftarrow> rpc fate junk wrap argin outarg sv;
     z \<leftarrow> unpack outarg;
     Some (z, sv)
   }"

section \<open>The VFS methods\<close>

definition remote_sqlite3_os_init :: "fate \<Rightarrow> junk \<Rightarrow> 'os server \<Rightarrow> (cint \<times> 'os server) option" where
  "remote_sqlite3_os_init fate junk =
     invoke fate junk Some SIZE_ArgInInit WrapInit (zeroed SIZE_ReturnInit)
       sqlite3_os_initConvertCharToReturn"

text \<open>
  A null \<open>zName\<close>, a temporary file, is copied like a string and faults; the old contents of
  the file object are sent along.
\<close>

definition remoteOpen ::
  "'os syscalls \<Rightarrow> fate \<Rightarrow> junk \<Rightarrow> bytes option \<Rightarrow> unixFile \<Rightarrow> cint \<Rightarrow> cint option \<Rightarrow> 'os server \<Rightarrow>
     ((unixFile \<times> cint option \<times> cint) \<times> 'os server) option" where
  "remoteOpen S fate junk zName pFile flags pOutFlags sv = do {
     z \<leftarrow> zName;
     invoke fate junk (unixOpenConvertArgInToChar z pFile flags pOutFlags) SIZE_ArgInOpen
       (WrapOpen S junk) (zeroed SIZE_ReturnOpen)
       (\<lambda>arg. unixOpenConvertCharToReturn arg pOutFlags) sv
   }"

definition remoteDelete ::
  "'os syscalls \<Rightarrow> fate \<Rightarrow> junk \<Rightarrow> bytes \<Rightarrow> cint \<Rightarrow> 'os server \<Rightarrow> (cint \<times> 'os server) option" where
  "remoteDelete S fate junk zName dirSync =
     invoke fate junk (unixDeleteConvertArgInToChar zName dirSync) SIZE_ArgInDelete
       (WrapDelete S junk) (zeroed SIZE_ReturnDelete) unixDeleteConvertCharToReturn"

definition remoteAccess ::
  "'os syscalls \<Rightarrow> fate \<Rightarrow> junk \<Rightarrow> bytes \<Rightarrow> cint \<Rightarrow> cint \<Rightarrow> 'os server \<Rightarrow>
     ((cint \<times> cint) \<times> 'os server) option" where
  "remoteAccess S fate junk zName flags resOut =
     invoke fate junk (unixAccessConvertArgInToChar zName flags resOut) SIZE_ArgInAccess
       (WrapAccess S junk) (zeroed SIZE_ReturnAccess) unixAccessConvertCharToReturn"

text \<open>Here the array for the reply is not initialised.\<close>

definition remoteFullPathname ::
  "'os syscalls \<Rightarrow> fate \<Rightarrow> junk \<Rightarrow> bytes \<Rightarrow> cint \<Rightarrow> bytes \<Rightarrow> 'os server \<Rightarrow>
     ((bytes \<times> cint) \<times> 'os server) option" where
  "remoteFullPathname S fate junk zName nOut zOut =
     invoke fate junk (unixFullPathnameConvertArgInToChar zName nOut)
       (csize (getFullPathname_ARG_LEN nOut)) (WrapFullPathname S junk)
       (uninit junk 3 (csize (getFullPathname_RETURN_LEN nOut)))
       (\<lambda>arg. unixFullPathnameConvertCharToReturn arg nOut zOut)"

definition remoteGetLastError ::
  "'os syscalls \<Rightarrow> fate \<Rightarrow> junk \<Rightarrow> 'os server \<Rightarrow> (cint \<times> 'os server) option" where
  "remoteGetLastError S fate junk =
     invoke fate junk unixGetLastErrorConvertArgInToChar SIZE_ArgInGetLastError
       (WrapGetLastError S) (zeroed SIZE_ReturnGetLastError) unixGetLastErrorConvertCharToReturn"

section \<open>The file methods\<close>

definition remoteWrite ::
  "'os syscalls \<Rightarrow> fate \<Rightarrow> junk \<Rightarrow> unixFile \<Rightarrow> bytes \<Rightarrow> cint \<Rightarrow> i64 \<Rightarrow> 'os server \<Rightarrow>
     ((unixFile \<times> cint) \<times> 'os server) option" where
  "remoteWrite S fate junk f pBuf amt offset =
     invoke fate junk (unixWriteConvertArgInToChar f pBuf amt offset) SIZE_ArgInWrite
       (WrapWrite S junk) (zeroed SIZE_ReturnWrite) unixWriteConvertCharToReturn"

definition remoteRead ::
  "'os syscalls \<Rightarrow> fate \<Rightarrow> junk \<Rightarrow> unixFile \<Rightarrow> bytes \<Rightarrow> cint \<Rightarrow> i64 \<Rightarrow> 'os server \<Rightarrow>
     ((unixFile \<times> bytes \<times> cint) \<times> 'os server) option" where
  "remoteRead S fate junk f pBuf amt offset =
     invoke fate junk (unixReadConvertArgInToChar f pBuf amt offset) SIZE_ArgInRead
       (WrapRead S junk) (zeroed SIZE_ReturnRead)
       (\<lambda>arg. unixReadConvertCharToReturn arg pBuf amt)"

definition remoteTruncate ::
  "'os syscalls \<Rightarrow> fate \<Rightarrow> junk \<Rightarrow> unixFile \<Rightarrow> i64 \<Rightarrow> 'os server \<Rightarrow>
     ((unixFile \<times> cint) \<times> 'os server) option" where
  "remoteTruncate S fate junk f nByte =
     invoke fate junk (unixTruncateConvertArgInToChar f nByte) SIZE_ArgInTruncate
       (WrapTruncate S) (zeroed SIZE_ReturnTruncate) unixTruncateConvertCharToReturn"

definition remoteSync ::
  "'os syscalls \<Rightarrow> fate \<Rightarrow> junk \<Rightarrow> unixFile \<Rightarrow> cint \<Rightarrow> 'os server \<Rightarrow>
     ((unixFile \<times> cint) \<times> 'os server) option" where
  "remoteSync S fate junk f flags =
     invoke fate junk (unixSyncConvertArgInToChar f flags) SIZE_ArgInSync
       (WrapSync S) (zeroed SIZE_ReturnSync) unixSyncConvertCharToReturn"

definition remoteFileSize ::
  "'os syscalls \<Rightarrow> fate \<Rightarrow> junk \<Rightarrow> unixFile \<Rightarrow> i64 \<Rightarrow> 'os server \<Rightarrow>
     ((unixFile \<times> i64 \<times> cint) \<times> 'os server) option" where
  "remoteFileSize S fate junk f pSize =
     invoke fate junk (unixFileSizeConvertArgInToChar f pSize) SIZE_ArgInFileSize
       (WrapFileSize S) (zeroed SIZE_ReturnFileSize) unixFileSizeConvertCharToReturn"

text \<open>\<open>deref\<close> gives the characters at an address of the client.\<close>

definition remoteFileControl ::
  "'os syscalls \<Rightarrow> fate \<Rightarrow> junk \<Rightarrow> (ptr \<Rightarrow> bytes option) \<Rightarrow> unixFile \<Rightarrow> cint \<Rightarrow> bytes option \<Rightarrow>
     'os server \<Rightarrow> ((unixFile \<times> bytes option \<times> cint) \<times> 'os server) option" where
  "remoteFileControl S fate junk deref f op pArg sv = do {
     sz \<leftarrow> LenFileControlPArg deref (sint op) pArg;
     invoke fate junk (\<lambda>arg. unixFileControlConvertArgInToChar f op pArg arg sz)
       SIZE_ArgInFileControl (WrapFileControl S junk) (zeroed SIZE_ReturnFileControl)
       (\<lambda>arg. unixFileControlConvertCharToReturn arg pArg) sv
   }"

definition remoteSectorSize ::
  "fate \<Rightarrow> junk \<Rightarrow> unixFile \<Rightarrow> 'os server \<Rightarrow> ((unixFile \<times> cint) \<times> 'os server) option" where
  "remoteSectorSize fate junk f =
     invoke fate junk (unixSectorSizeConvertArgInToChar f) SIZE_ArgInSectorSize
       WrapSectorSize (zeroed SIZE_ReturnSectorSize) unixSectorSizeConvertCharToReturn"

definition remoteDeviceCharacteristics ::
  "fate \<Rightarrow> junk \<Rightarrow> unixFile \<Rightarrow> 'os server \<Rightarrow> ((unixFile \<times> cint) \<times> 'os server) option" where
  "remoteDeviceCharacteristics fate junk f =
     invoke fate junk (unixDeviceCharacteristicsConvertArgInToChar f)
       SIZE_ArgInDeviceCharacteristics WrapDeviceCharacteristics
       (zeroed SIZE_ReturnDeviceCharacteristics) unixDeviceCharacteristicsConvertCharToReturn"

definition remoteClose ::
  "'os syscalls \<Rightarrow> fate \<Rightarrow> junk \<Rightarrow> unixFile \<Rightarrow> 'os server \<Rightarrow>
     ((unixFile \<times> cint) \<times> 'os server) option" where
  "remoteClose S fate junk f =
     invoke fate junk (unixCloseConvertArgInToChar f) SIZE_ArgInClose
       (WrapClose S) (zeroed SIZE_ReturnClose) (\<lambda>arg. unixCloseConvertCharToReturn arg f)"

section \<open>Locks\<close>

definition remoteLock ::
  "'os syscalls \<Rightarrow> fate \<Rightarrow> junk \<Rightarrow> unixFile \<Rightarrow> cint \<Rightarrow> 'os server \<Rightarrow>
     ((unixFile \<times> cint) \<times> 'os server) option" where
  "remoteLock S fate junk f level =
     invoke fate junk (unixLockConvertArgInToChar f level) SIZE_ArgInLock
       (WrapLock S) (zeroed SIZE_ReturnLock) unixLockConvertCharToReturn"

definition remoteUnlock ::
  "'os syscalls \<Rightarrow> fate \<Rightarrow> junk \<Rightarrow> unixFile \<Rightarrow> cint \<Rightarrow> 'os server \<Rightarrow>
     ((unixFile \<times> cint) \<times> 'os server) option" where
  "remoteUnlock S fate junk f level =
     invoke fate junk (unixUnlockConvertArgInToChar f level) SIZE_ArgInUnlock
       (WrapUnlock S) (zeroed SIZE_ReturnUnlock) unixUnlockConvertCharToReturn"

definition remoteCheckReservedLock ::
  "'os syscalls \<Rightarrow> fate \<Rightarrow> junk \<Rightarrow> unixFile \<Rightarrow> cint \<Rightarrow> 'os server \<Rightarrow>
     ((unixFile \<times> cint \<times> cint) \<times> 'os server) option" where
  "remoteCheckReservedLock S fate junk f res =
     invoke fate junk (unixCheckReservedLockConvertArgInToChar f res) SIZE_ArgInCheckReservedLock
       (WrapCheckReservedLock S) (zeroed SIZE_ReturnCheckReservedLock)
       unixCheckReservedLockConvertCharToReturn"

section \<open>Mapped pages\<close>

text \<open>
  The page is copied into an array on the stack of \<open>remoteFetch\<close>, whose address the caller
  gets; the result here is what the array holds at the return.
\<close>

definition remoteFetch ::
  "'os syscalls \<Rightarrow> fate \<Rightarrow> junk \<Rightarrow> unixFile \<Rightarrow> i64 \<Rightarrow> cint \<Rightarrow> 'os server \<Rightarrow>
     ((unixFile \<times> bytes \<times> cint) \<times> 'os server) option" where
  "remoteFetch S fate junk f iOff nAmt =
     invoke fate junk (unixFetchConvertArgInToChar f iOff nAmt) SIZE_ArgInFetch
       (WrapFetch S) (zeroed SIZE_ReturnFetch)
       (\<lambda>arg. unixFetchConvertCharToReturn arg (uninit junk 3 (csize nAmt)) nAmt)"

text \<open>\<open>p\<close> says whether the page to release is not null.\<close>

definition remoteUnfetch ::
  "'os syscalls \<Rightarrow> fate \<Rightarrow> junk \<Rightarrow> unixFile \<Rightarrow> i64 \<Rightarrow> bool \<Rightarrow> 'os server \<Rightarrow>
     ((unixFile \<times> cint) \<times> 'os server) option" where
  "remoteUnfetch S fate junk f iOff p =
     invoke fate junk (unixUnfetchConvertArgInToChar f iOff (if p then 1 else 0)) SIZE_ArgInUnfetch
       (WrapUnfetch S) (zeroed SIZE_ReturnUnfetch) (\<lambda>arg. unixUnfetchConvertCharToReturn arg f)"

section \<open>Stubs and initialisation\<close>

text \<open>Shared memory and system-call overriding are not implemented and report success.\<close>

definition remoteShmMap :: cint where "remoteShmMap = 0"
definition remoteShmLock :: cint where "remoteShmLock = 0"
definition remoteShmUnmap :: cint where "remoteShmUnmap = 0"
definition remoteSetSystemCall :: cint where "remoteSetSystemCall = 0"
definition remoteGetSystemCall :: ptr where "remoteGetSystemCall = NULL"
definition remoteNextSystemCall :: ptr where "remoteNextSystemCall = NULL"

text \<open>The names of the VFSes registered so far, the default one first.\<close>

definition vfs_remote_unix :: string where
  "vfs_remote_unix = ''remote_unix''"

definition sqlite3_os_init ::
  "fate \<Rightarrow> junk \<Rightarrow> string list \<Rightarrow> 'os server \<Rightarrow> (cint \<times> string list \<times> 'os server) option" where
  "sqlite3_os_init fate junk vfss sv = do {
     let vfss = vfs_remote_unix # removeAll vfs_remote_unix vfss;
     (_, sv) \<leftarrow> remote_sqlite3_os_init fate junk sv;
     Some (SQLITE_OK, vfss, sv)
   }"

definition sqlite3_os_end :: cint where
  "sqlite3_os_end = SQLITE_OK"

end
