(* ===== verification/Marshal.thy ===== *)
theory Marshal
  imports Arg_Convert
begin

text \<open>
  What a pair of conversion functions promises: packing valid arguments into the array of
  their wire structure, whatever the array held, and unpacking it on the other side gives
  back the arguments. The locale states the promise once; each pair of
  \<open>os_arg_convert.c\<close> is an interpretation, and a call is a request and a reply.
\<close>

section \<open>Marshalled values and calls\<close>

text \<open>
  \<open>'e\<close> is what the unpacking side brings: its local buffers and old values. \<open>view\<close>
  is what it must get of the packed value.
\<close>

locale marshalled =
  fixes pack :: "'a \<Rightarrow> bytes \<Rightarrow> bytes option" and unpack :: "'e \<Rightarrow> bytes \<Rightarrow> 'b option"
    and ok :: "'e \<Rightarrow> 'a \<Rightarrow> bool" and view :: "'e \<Rightarrow> 'a \<Rightarrow> 'b" and width :: nat
  assumes round_trip: "ok e x \<Longrightarrow> length arg = width \<Longrightarrow>
      \<exists>m. pack x arg = Some m \<and> length m = width \<and> unpack e m = Some (view e x)"
begin

lemma transfer:
  "ok e x \<Longrightarrow> length arg = width \<Longrightarrow> Option.bind (pack x arg) (unpack e) = Some (view e x)"
  using round_trip [of e x arg] by auto

lemma packed: "ok e x \<Longrightarrow> length arg = width \<Longrightarrow> \<exists>m. pack x arg = Some m \<and> length m = width"
  using round_trip [of e x arg] by auto

text \<open>The old contents of the array never reach the other side.\<close>

lemma no_leak:
  assumes "ok e x" and "length arg = width" and "length arg' = width"
  shows "Option.bind (pack x arg) (unpack e) = Option.bind (pack x arg') (unpack e)"
  using assms by (simp add: transfer)

end

text \<open>
  A remote call: a marshalled request, a body that runs on the server, a marshalled reply.
  Over a transport that delivers both messages it is the body applied to the arguments.
\<close>

locale remote_call =
  req: marshalled pack_in unpack_in ok_in view_in width_in +
  rep: marshalled pack_out unpack_out ok_out view_out width_out
  for pack_in :: "'a \<Rightarrow> bytes \<Rightarrow> bytes option" and unpack_in :: "'e \<Rightarrow> bytes \<Rightarrow> 'b option"
    and ok_in :: "'e \<Rightarrow> 'a \<Rightarrow> bool" and view_in :: "'e \<Rightarrow> 'a \<Rightarrow> 'b" and width_in :: nat
    and pack_out :: "'c \<Rightarrow> bytes \<Rightarrow> bytes option" and unpack_out :: "'g \<Rightarrow> bytes \<Rightarrow> 'd option"
    and ok_out :: "'g \<Rightarrow> 'c \<Rightarrow> bool" and view_out :: "'g \<Rightarrow> 'c \<Rightarrow> 'd" and width_out :: nat
begin

lemma transparent:
  assumes "ok_in e x" and "length argIn = width_in" and "length argOut = width_out"
    and "body (view_in e x) s = Some (y, s')" and "ok_out g y"
  shows "do { m \<leftarrow> pack_in x argIn; a \<leftarrow> unpack_in e m; (y, s') \<leftarrow> body a s;
              r \<leftarrow> pack_out y argOut; z \<leftarrow> unpack_out g r; Some (z, s') } =
         Some (view_out g y, s')"
proof -
  obtain m where m: "pack_in x argIn = Some m" "unpack_in e m = Some (view_in e x)"
    using req.round_trip [OF assms(1,2)] by blast
  obtain r where r: "pack_out y argOut = Some r" "unpack_out g r = Some (view_out g y)"
    using rep.round_trip [OF assms(5,3)] by blast
  show ?thesis by (simp add: m r assms(4))
qed

end

section \<open>The conversions of the file calls\<close>

text \<open>
  Simplification carries every instance: a store of the right length succeeds, a load finds
  the last store at its offset.
\<close>

lemmas marshal_simps =
  conv_defs size_simps mem_simps get32_def get64_def get_unixFile_def load_ptr_def store_ptr_def

definition no_env :: "unit \<Rightarrow> 'a \<Rightarrow> bool" where
  [simp]: "no_env _ _ = True"

interpretation lock: remote_call
  "\<lambda>(f, level). unixLockConvertArgInToChar f level" "\<lambda>_. unixLockConvertCharToArgIn"
  no_env "\<lambda>_ x. x" SIZE_ArgInLock
  "\<lambda>(f, rc). unixLockConvertReturnToChar f rc" "\<lambda>_. unixLockConvertCharToReturn"
  no_env "\<lambda>_ (f, rc). (setClientRemotePMethods f, rc)" SIZE_ReturnLock
  by unfold_locales (auto simp: marshal_simps)

interpretation unlock: remote_call
  "\<lambda>(f, level). unixUnlockConvertArgInToChar f level" "\<lambda>_. unixUnlockConvertCharToArgIn"
  no_env "\<lambda>_ x. x" SIZE_ArgInUnlock
  "\<lambda>(f, rc). unixUnlockConvertReturnToChar f rc" "\<lambda>_. unixUnlockConvertCharToReturn"
  no_env "\<lambda>_ (f, rc). (setClientRemotePMethods f, rc)" SIZE_ReturnUnlock
  by unfold_locales (auto simp: marshal_simps)

interpretation check_reserved: remote_call
  "\<lambda>(f, res). unixCheckReservedLockConvertArgInToChar f res"
  "\<lambda>_. unixCheckReservedLockConvertCharToArgIn"
  no_env "\<lambda>_ x. x" SIZE_ArgInCheckReservedLock
  "\<lambda>(f, res, rc). unixCheckReservedLockConvertReturnToChar f res rc"
  "\<lambda>_. unixCheckReservedLockConvertCharToReturn"
  no_env "\<lambda>_ (f, res, rc). (setClientRemotePMethods f, res, rc)" SIZE_ReturnCheckReservedLock
  by unfold_locales (auto simp: marshal_simps)

text \<open>Data of at most \<open>MAX_SIZE\<close> bytes, and no more than its buffer has.\<close>

definition fits :: "bytes \<Rightarrow> cint \<Rightarrow> bool" where
  "fits buf amt \<longleftrightarrow> csize amt \<le> MAX_SIZE \<and> csize amt \<le> length buf"

definition buffer :: "bytes \<Rightarrow> bytes \<Rightarrow> cint \<Rightarrow> bytes" where
  "buffer old new amt = overwrite old 0 (take (csize amt) new)"

interpretation read: remote_call
  "\<lambda>(f, pBuf, amt, offset). unixReadConvertArgInToChar f pBuf amt offset"
  "\<lambda>buf arg. unixReadConvertCharToArgIn arg buf"
  "\<lambda>buf (f, pBuf, amt, offset). fits pBuf amt \<and> fits buf amt"
  "\<lambda>buf (f, pBuf, amt, offset). (f, buffer buf pBuf amt, amt, offset)" SIZE_ArgInRead
  "\<lambda>(f, pBuf, amt, rc). unixReadConvertReturnToChar f pBuf amt rc"
  "\<lambda>(buf, amt) arg. unixReadConvertCharToReturn arg buf amt"
  "\<lambda>(buf, amt') (f, pBuf, amt, rc). amt' = amt \<and> fits pBuf amt \<and> fits buf amt"
  "\<lambda>(buf, _) (f, pBuf, amt, rc). (setClientRemotePMethods f, buffer buf pBuf amt, rc)"
  SIZE_ReturnRead
  by unfold_locales (auto simp: marshal_simps fits_def buffer_def)

interpretation write_msg: remote_call
  "\<lambda>(f, pBuf, amt, offset). unixWriteConvertArgInToChar f pBuf amt offset"
  "\<lambda>buf arg. unixWriteConvertCharToArgIn arg buf"
  "\<lambda>buf (f, pBuf, amt, offset). fits pBuf amt \<and> fits buf amt"
  "\<lambda>buf (f, pBuf, amt, offset). (f, buffer buf pBuf amt, amt, offset)" SIZE_ArgInWrite
  "\<lambda>(f, rc). unixWriteConvertReturnToChar f rc" "\<lambda>_. unixWriteConvertCharToReturn"
  no_env "\<lambda>_ (f, rc). (setClientRemotePMethods f, rc)" SIZE_ReturnWrite
  by unfold_locales (auto simp: marshal_simps fits_def buffer_def)

interpretation truncate_msg: remote_call
  "\<lambda>(f, nByte). unixTruncateConvertArgInToChar f nByte" "\<lambda>_. unixTruncateConvertCharToArgIn"
  no_env "\<lambda>_ x. x" SIZE_ArgInTruncate
  "\<lambda>(f, rc). unixTruncateConvertReturnToChar f rc" "\<lambda>_. unixTruncateConvertCharToReturn"
  no_env "\<lambda>_ (f, rc). (setClientRemotePMethods f, rc)" SIZE_ReturnTruncate
  by unfold_locales (auto simp: marshal_simps)

interpretation sync: remote_call
  "\<lambda>(f, flags). unixSyncConvertArgInToChar f flags" "\<lambda>_. unixSyncConvertCharToArgIn"
  no_env "\<lambda>_ x. x" SIZE_ArgInSync
  "\<lambda>(f, rc). unixSyncConvertReturnToChar f rc" "\<lambda>_. unixSyncConvertCharToReturn"
  no_env "\<lambda>_ (f, rc). (setClientRemotePMethods f, rc)" SIZE_ReturnSync
  by unfold_locales (auto simp: marshal_simps)

interpretation file_size: remote_call
  "\<lambda>(f, pSize). unixFileSizeConvertArgInToChar f pSize" "\<lambda>_. unixFileSizeConvertCharToArgIn"
  no_env "\<lambda>_ x. x" SIZE_ArgInFileSize
  "\<lambda>(f, pSize, rc). unixFileSizeConvertReturnToChar f pSize rc"
  "\<lambda>_. unixFileSizeConvertCharToReturn"
  no_env "\<lambda>_ (f, pSize, rc). (setClientRemotePMethods f, pSize, rc)" SIZE_ReturnFileSize
  by unfold_locales (auto simp: marshal_simps)

text \<open>The argument of a file control crosses the wire when its size is positive.\<close>

definition control_fits :: "bytes \<Rightarrow> cint \<Rightarrow> bool" where
  "control_fits b sz \<longleftrightarrow> csize sz \<le> 512 \<and> csize sz \<le> length b"

interpretation file_control: remote_call
  "\<lambda>(f, op, pArg, sz) arg. unixFileControlConvertArgInToChar f op pArg arg sz"
  "\<lambda>buf arg. unixFileControlConvertCharToArgIn arg buf"
  "\<lambda>buf (f, op, pArg, sz). 0 < sint sz \<longrightarrow> control_fits buf sz \<and>
     (case pArg of None \<Rightarrow> False | Some b \<Rightarrow> control_fits b sz)"
  "\<lambda>buf (f, op, pArg, sz).
     (f, op, if 0 < sint sz then buffer buf (the pArg) sz else buf, sz)" SIZE_ArgInFileControl
  "\<lambda>(f, pArg, rc, sz) arg. unixFileControlConvertReturnToChar f pArg rc arg sz"
  "\<lambda>pArg' arg. unixFileControlConvertCharToReturn arg pArg'"
  "\<lambda>pArg' (f, pArg, rc, sz). 0 < sint sz \<longrightarrow> control_fits pArg sz \<and>
     (case pArg' of None \<Rightarrow> False | Some b \<Rightarrow> control_fits b sz)"
  "\<lambda>pArg' (f, pArg, rc, sz). (setClientRemotePMethods f,
     if 0 < sint sz then Some (buffer (the pArg') pArg sz) else pArg', rc)"
  SIZE_ReturnFileControl
  by unfold_locales (auto simp: marshal_simps control_fits_def buffer_def split: option.splits)

interpretation sector_size: remote_call
  unixSectorSizeConvertArgInToChar "\<lambda>_. unixSectorSizeConvertCharToArgIn"
  no_env "\<lambda>_ x. x" SIZE_ArgInSectorSize
  "\<lambda>(f, sz). unixSectorSizeConvertReturnToChar f sz" "\<lambda>_. unixSectorSizeConvertCharToReturn"
  no_env "\<lambda>_ (f, sz). (setClientRemotePMethods f, sz)" SIZE_ReturnSectorSize
  by unfold_locales (auto simp: marshal_simps)

interpretation characteristics: remote_call
  unixDeviceCharacteristicsConvertArgInToChar
  "\<lambda>_. unixDeviceCharacteristicsConvertCharToArgIn"
  no_env "\<lambda>_ x. x" SIZE_ArgInDeviceCharacteristics
  "\<lambda>(f, dc). unixDeviceCharacteristicsConvertReturnToChar f dc"
  "\<lambda>_. unixDeviceCharacteristicsConvertCharToReturn"
  no_env "\<lambda>_ (f, dc). (setClientRemotePMethods f, dc)" SIZE_ReturnDeviceCharacteristics
  by unfold_locales (auto simp: marshal_simps)

interpretation close: remote_call
  unixCloseConvertArgInToChar "\<lambda>_. unixCloseConvertCharToArgIn"
  no_env "\<lambda>_ x. x" SIZE_ArgInClose
  unixCloseConvertReturnToChar "\<lambda>f arg. unixCloseConvertCharToReturn arg f"
  "\<lambda>_ _. True" "\<lambda>f rc. (setClientRemotePMethods f, rc)" SIZE_ReturnClose
  by unfold_locales (auto simp: marshal_simps)

text \<open>A page can be sent back only where the file is mapped.\<close>

interpretation fetch: remote_call
  "\<lambda>(f, iOff, nAmt). unixFetchConvertArgInToChar f iOff nAmt" "\<lambda>_. unixFetchConvertCharToArgIn"
  no_env "\<lambda>_ x. x" SIZE_ArgInFetch
  "\<lambda>(f, pp, nAmt, rc). unixFetchsConvertReturnToChar f pp nAmt rc"
  "\<lambda>(buf, nAmt) arg. unixFetchConvertCharToReturn arg buf nAmt"
  "\<lambda>(buf, nAmt') (f, pp, nAmt, rc). nAmt' = nAmt \<and> fits buf nAmt \<and>
     (case pp of None \<Rightarrow> False | Some b \<Rightarrow> fits b nAmt)"
  "\<lambda>(buf, _) (f, pp, nAmt, rc). (setClientRemotePMethods f, buffer buf (the pp) nAmt, rc)"
  SIZE_ReturnFetch
  by unfold_locales (auto simp: marshal_simps fits_def buffer_def split: option.splits)

text \<open>Of the handle in the reply of an unfetch only the method table reaches the client.\<close>

interpretation unfetch: remote_call
  "\<lambda>(f, iOff, p_flag). unixUnfetchConvertArgInToChar f iOff p_flag"
  "\<lambda>_. unixUnfetchConvertCharToArgIn"
  no_env "\<lambda>_ x. x" SIZE_ArgInUnfetch
  "\<lambda>(f, rc). unixUnfetchConvertReturnToChar f rc"
  "\<lambda>f arg. unixUnfetchConvertCharToReturn arg f"
  "\<lambda>_ _. True" "\<lambda>f (f', rc). (setClientRemotePMethods (f\<lparr>pMethod := pMethod f'\<rparr>), rc)"
  SIZE_ReturnUnfetch
proof unfold_locales
  fix f :: unixFile and x and arg :: bytes
  assume "length arg = SIZE_ReturnUnfetch"
  moreover have "read_at (overwrite arg 0 (enc_unixFile g)) 0 8 = Some (take 8 (enc_unixFile g))" for g
    by (simp add: read_at_def overwrite_def)
  ultimately show "\<exists>m. (case x of (f, rc) \<Rightarrow> unixUnfetchConvertReturnToChar f rc) arg = Some m \<and>
      length m = SIZE_ReturnUnfetch \<and> unixUnfetchConvertCharToReturn m f =
      Some (case x of (f', rc) \<Rightarrow> (setClientRemotePMethods (f\<lparr>pMethod := pMethod f'\<rparr>), rc))"
    by (cases x) (simp add: marshal_simps overwrite_method)
qed (auto simp: marshal_simps)

section \<open>The conversions of the VFS calls\<close>

text \<open>A name crosses in 512 bytes, terminator included.\<close>

definition name_fits :: "bytes \<Rightarrow> bytes \<Rightarrow> bool" where
  "name_fits buf s \<longleftrightarrow> length buf = 512 \<and> (case c_string s of None \<Rightarrow> False | Some z \<Rightarrow> length z \<le> 512)"

definition name_copy :: "bytes \<Rightarrow> bytes \<Rightarrow> bytes" where
  "name_copy buf s = overwrite buf 0 (the (c_string s))"

interpretation open_msg: remote_call
  "\<lambda>(zName, f, flags, out). unixOpenConvertArgInToChar zName f flags out"
  "\<lambda>buf arg. unixOpenConvertCharToArgIn arg buf"
  "\<lambda>buf (zName, f, flags, out). name_fits buf zName"
  "\<lambda>buf (zName, f, flags, out).
     (name_copy buf zName, f, flags, case out of None \<Rightarrow> - 1 | Some v \<Rightarrow> v)" SIZE_ArgInOpen
  "\<lambda>(f, out, rc). unixOpenConvertReturnToChar f out rc"
  "\<lambda>old arg. unixOpenConvertCharToReturn arg old"
  "\<lambda>old (f, out, rc). old = None \<longrightarrow> out = - 1"
  "\<lambda>old (f, out, rc). (setClientRemotePMethods f, if out = - 1 then old else Some out, rc)"
  SIZE_ReturnOpen
  by unfold_locales
    (auto simp: marshal_simps name_fits_def name_copy_def split: option.splits)

interpretation delete_msg: remote_call
  "\<lambda>(zName, dirSync). unixDeleteConvertArgInToChar zName dirSync"
  "\<lambda>buf arg. unixDeleteConvertCharToArgIn arg buf"
  "\<lambda>buf (zName, dirSync). name_fits buf zName"
  "\<lambda>buf (zName, dirSync). (name_copy buf zName, dirSync)" SIZE_ArgInDelete
  unixDeleteConvertReturnToChar "\<lambda>_. unixDeleteConvertCharToReturn"
  no_env "\<lambda>_ rc. rc" SIZE_ReturnDelete
  by unfold_locales
    (auto simp: marshal_simps name_fits_def name_copy_def split: option.splits)

interpretation access_msg: remote_call
  "\<lambda>(zName, flags, res). unixAccessConvertArgInToChar zName flags res"
  "\<lambda>buf arg. unixAccessConvertCharToArgIn arg buf"
  "\<lambda>buf (zName, flags, res). name_fits buf zName"
  "\<lambda>buf (zName, flags, res). (name_copy buf zName, flags, res)" SIZE_ArgInAccess
  "\<lambda>(res, rc). unixAccessConvertReturnToChar res rc" "\<lambda>_. unixAccessConvertCharToReturn"
  no_env "\<lambda>_ (res, rc). (res, rc)" SIZE_ReturnAccess
  by unfold_locales
    (auto simp: marshal_simps name_fits_def name_copy_def split: option.splits)

end
