(* ===== verification/Lock_Inv.thy ===== *)
theory Lock_Inv
  imports Unix_Lock "HOL-Library.Multiset"
begin

text \<open>
  The invariant that ties the lock counts and the level of an inode to the levels of the
  handles open on it, and its preservation by every step of \<open>unixLock\<close> and
  \<open>unixUnlock\<close>, whatever the kernel answers. It gives mutual exclusion inside the
  server: one writer at most, and no reader beside an exclusive holder.
\<close>

section \<open>The invariant of one inode\<close>

definition holders :: "int multiset \<Rightarrow> nat" where
  "holders M = size (filter_mset (\<lambda>l. SHARED_LOCK \<le> l) M)"

definition writers :: "int multiset \<Rightarrow> nat" where
  "writers M = size (filter_mset (\<lambda>l. SHARED_LOCK < l) M)"

text \<open>
  \<open>M\<close> are the levels of the open handles. A handle whose unlock failed may have been
  closed with its lock still counted, so the counts bound the holders.
\<close>

definition lock_inv :: "unixInodeInfo \<Rightarrow> int multiset \<Rightarrow> bool" where
  "lock_inv i M \<longleftrightarrow>
     nLock i = nShared i + (if bProcessLock i then 1 else 0) \<and>
     (nShared i = 0 \<longleftrightarrow> inode_level i = NO_LOCK) \<and>
     inode_level i \<le> EXCLUSIVE_LOCK \<and>
     (inode_level i = EXCLUSIVE_LOCK \<longrightarrow> nShared i \<le> 1) \<and>
     int (holders M) \<le> nShared i \<and>
     (\<forall>l \<in># M. NO_LOCK \<le> l \<and> l \<le> inode_level i) \<and>
     writers M \<le> 1"

text \<open>
  What SQLite's pager asks for: SHARED first, RESERVED only over SHARED, never PENDING. The C
  code states this contract in its assertions.
\<close>

definition lock_request_ok :: "unixFile \<Rightarrow> int \<Rightarrow> bool" where
  "lock_request_ok f e \<longleftrightarrow>
     e \<in> {SHARED_LOCK, RESERVED_LOCK, EXCLUSIVE_LOCK} \<and>
     (lock_level f = NO_LOCK \<longrightarrow> e = SHARED_LOCK) \<and>
     (e = RESERVED_LOCK \<longrightarrow> lock_level f \<ge> SHARED_LOCK)"

lemma holders_add [simp]:
  "holders (add_mset l M) = (if SHARED_LOCK \<le> l then Suc (holders M) else holders M)"
  by (simp add: holders_def)

lemma writers_add [simp]:
  "writers (add_mset l M) = (if SHARED_LOCK < l then Suc (writers M) else writers M)"
  by (simp add: writers_def)

lemma holders_empty [simp]: "holders {#} = 0" and writers_empty [simp]: "writers {#} = 0"
  by (simp_all add: holders_def writers_def)

lemma writers_none: "(\<forall>l \<in># M. l \<le> SHARED_LOCK) \<longleftrightarrow> writers M = 0"
  by (induction M) auto

lemma holders_none: "(\<forall>l \<in># M. l \<le> NO_LOCK) \<longleftrightarrow> holders M = 0"
  by (induction M) auto

lemma writers_le_holders: "writers M \<le> holders M"
  by (induction M) auto

lemma lock_inv_new: "lock_inv (new_inode sb) {#}"
  by (simp add: lock_inv_def new_inode_def inode_level_def)

lemma lock_inv_nRef [simp]: "lock_inv (i\<lparr>nRef := n\<rparr>) M = lock_inv i M"
  by (simp add: lock_inv_def inode_level_def)

lemma lock_inv_pUnused [simp]: "lock_inv (i\<lparr>pUnused := ps\<rparr>) M = lock_inv i M"
  by (simp add: lock_inv_def inode_level_def)

text \<open>Handles that go away, and handles that hold nothing, never break it.\<close>

lemma lock_inv_forget: "lock_inv i (add_mset l M) \<Longrightarrow> lock_inv i M"
  by (auto simp: lock_inv_def split: if_splits)

lemma lock_inv_enter: "lock_inv i M \<Longrightarrow> lock_inv i (add_mset NO_LOCK M)"
  by (auto simp: lock_inv_def inode_level_def)

text \<open>Mutual exclusion among the handles of the process.\<close>

lemma lock_inv_exclusion:
  assumes "lock_inv i (add_mset l M)"
  shows "SHARED_LOCK < l \<Longrightarrow> l' \<in># M \<Longrightarrow> l' \<le> SHARED_LOCK"
    and "l = EXCLUSIVE_LOCK \<Longrightarrow> l' \<in># M \<Longrightarrow> l' = NO_LOCK"
proof -
  show "l' \<le> SHARED_LOCK" if "SHARED_LOCK < l" "l' \<in># M"
    using assms that writers_none [of M] by (auto simp: lock_inv_def)
  show "l' = NO_LOCK" if "l = EXCLUSIVE_LOCK" "l' \<in># M"
  proof -
    have "inode_level i = EXCLUSIVE_LOCK"
      using assms that(1) by (auto simp: lock_inv_def)
    then have "holders M = 0"
      using assms that(1) by (auto simp: lock_inv_def)
    then show ?thesis
      using assms that(2) holders_none [of M] by (force simp: lock_inv_def)
  qed
qed

section \<open>Steps that raise a lock\<close>

lemma lock_level_set [simp]: "0 \<le> e \<Longrightarrow> e < 256 \<Longrightarrow> lock_level (set_level e f) = e"
  by (simp add: lock_level_def set_level_def uint_word_of_int)

lemma inode_level_set [simp]: "0 \<le> e \<Longrightarrow> e < 256 \<Longrightarrow> inode_level (set_inode_level e i) = e"
  by (simp add: inode_level_def set_inode_level_def uint_word_of_int)

lemma lock_level_stored [simp]: "lock_level (storeLastErrno f e) = lock_level f"
  by (simp add: lock_level_def)

lemma set_inode_level_fields [simp]:
  "nLock (set_inode_level e i) = nLock i" "nShared (set_inode_level e i) = nShared i"
  "bProcessLock (set_inode_level e i) = bProcessLock i" "pUnused (set_inode_level e i) = pUnused i"
  "nRef (set_inode_level e i) = nRef i" "ii_dev (set_inode_level e i) = ii_dev i"
  "ii_ino (set_inode_level e i) = ii_ino i"
  by (simp_all add: set_inode_level_def)

lemma inode_level_upd [simp]:
  "inode_level (i\<lparr>nShared := n\<rparr>) = inode_level i" "inode_level (i\<lparr>nLock := n\<rparr>) = inode_level i"
  "inode_level (i\<lparr>pUnused := ps\<rparr>) = inode_level i"
  "inode_level (i\<lparr>nLock := n, nShared := m\<rparr>) = inode_level i"
  by (simp_all add: inode_level_def)

lemma lock_levels_eq: "(eFileLock f = ii_eFileLock i) = (lock_level f = inode_level i)"
  by (simp add: lock_level_def inode_level_def word_uint_eq_iff)

text \<open>
  A kernel lock changes nothing of the inode but the process lock and its count; the rest of
  the object stays.
\<close>

definition same_lock_state :: "unixInodeInfo \<Rightarrow> unixInodeInfo \<Rightarrow> bool" where
  "same_lock_state i j \<longleftrightarrow>
     nShared j = nShared i \<and> ii_eFileLock j = ii_eFileLock i \<and> pUnused j = pUnused i \<and>
     nRef j = nRef i \<and> ii_dev j = ii_dev i \<and> ii_ino j = ii_ino i \<and>
     nLock j - (if bProcessLock j then 1 else 0) = nLock i - (if bProcessLock i then 1 else 0)"

lemma same_lock_state_refl [simp]: "same_lock_state i i"
  by (simp add: same_lock_state_def)

lemma same_lock_state_trans: "same_lock_state i j \<Longrightarrow> same_lock_state j k \<Longrightarrow> same_lock_state i k"
  by (simp add: same_lock_state_def)

lemma same_lock_state_inv: "same_lock_state i j \<Longrightarrow> lock_inv j M = lock_inv i M"
  by (auto simp: same_lock_state_def lock_inv_def inode_level_def)

lemma unixFileLock_state:
  "unixFileLock S f i lk os = (r, j, os') \<Longrightarrow> same_lock_state i j"
  by (auto simp: unixFileLock_def same_lock_state_def split: if_splits prod.splits)

text \<open>A step leaves a handle as it is, up to the recorded error and its level.\<close>

definition same_file :: "unixFile \<Rightarrow> unixFile \<Rightarrow> bool" where
  "same_file f g \<longleftrightarrow> g\<lparr>eFileLock := eFileLock f, lastErrno := lastErrno f\<rparr> = f"

lemma same_file_simps [simp]:
  "same_file f f" "same_file f (storeLastErrno g p) = same_file f g"
  "same_file f (set_level e g) = same_file f g"
  by (simp_all add: same_file_def storeLastErrno_def set_level_def)

lemma same_file_trans: "same_file f g \<Longrightarrow> same_file g h \<Longrightarrow> same_file f h"
  by (cases f; cases g; cases h) (simp add: same_file_def)

lemma same_fileD:
  "same_file f g \<Longrightarrow> pInode g = pInode f \<and> h_fd g = h_fd f \<and> ctrlFlags g = ctrlFlags f \<and>
     pMethod g = pMethod f \<and> zPath g = zPath f \<and> pPreallocatedUnused g = pPreallocatedUnused f"
  by (cases f; cases g) (simp add: same_file_def)

lemma lock_failed_facts:
  "lock_failed e f = (rc, g) \<Longrightarrow> rc \<noteq> SQLITE_OK \<and> same_file f g \<and> lock_level g = lock_level f"
  by (auto simp: lock_failed_def Let_def sqliteErrorFromPosixError_not_OK split: if_splits)

lemma unixLock_pending_facts:
  assumes "unixLock_pending S f e i os = (rc, g, j, os')"
  shows "same_lock_state i j \<and> same_file f g \<and> lock_level g = lock_level f"
  using assms
  by (auto simp: unixLock_pending_def split: if_splits prod.splits
      dest!: unixFileLock_state lock_failed_facts)

lemma unixLock_write_facts:
  assumes "unixLock_write S f e i os = (rc, g, j, os')"
  shows "same_lock_state i j \<and> same_file f g \<and> lock_level g = lock_level f"
    and "rc = SQLITE_OK \<Longrightarrow> e = EXCLUSIVE_LOCK \<Longrightarrow> nShared i \<le> 1"
  using assms
  by (auto simp: unixLock_write_def split: if_splits prod.splits
      dest!: unixFileLock_state lock_failed_facts)

lemma unixLock_shared_facts:
  assumes "unixLock_shared S f i os = (rc, g, j, os')"
  shows "\<exists>k. same_lock_state i k \<and> same_file f g \<and>
           (if rc = SQLITE_OK
            then lock_level g = SHARED_LOCK \<and> j = k\<lparr>nLock := nLock k + 1, nShared := 1\<rparr>
            else lock_level g = lock_level f \<and> j = k)"
proof -
  obtain r1 i1 os1 where 1:
    "unixFileLock S f i (file_lock F_RDLCK SHARED_FIRST SHARED_SIZE) os = (r1, i1, os1)"
    by (rule prod_cases3) (rule that)
  obtain r2 i2 os2 where 2: "unixFileLock S f i1 (file_lock F_UNLCK PENDING_BYTE 1) os1 = (r2, i2, os2)"
    by (rule prod_cases3) (rule that)
  have "same_lock_state i i2"
    using 1 2 by (auto intro: same_lock_state_trans dest!: unixFileLock_state)
  then show ?thesis
    using assms 1 2 by (auto simp: unixLock_shared_def Let_def split: if_splits)
qed

lemma unixLock_finish_facts:
  assumes "unixLock_finish e (rc, f, i, os) = (rc', g, j, os')" and "0 \<le> e" "e < 256"
  shows "rc' = rc \<and> same_file f g \<and>
     (if rc = SQLITE_OK then lock_level g = e \<and> j = set_inode_level e i
      else if e = EXCLUSIVE_LOCK then lock_level g = PENDING_LOCK \<and> j = set_inode_level PENDING_LOCK i
      else g = f \<and> j = i)"
  using assms by (auto simp: unixLock_finish_def split: if_splits)

text \<open>
  The outcome of a request on a locked inode: granted, busy or failed with the levels as they
  were, or an exclusive request stopped at PENDING. The three ways an inode changes come first.
\<close>

lemma lock_inv_share:
  assumes "lock_inv i (add_mset NO_LOCK M)" and "SHARED_LOCK \<le> inode_level i"
    and "inode_level i \<noteq> EXCLUSIVE_LOCK"
  shows "lock_inv (i\<lparr>nShared := nShared i + 1, nLock := nLock i + 1\<rparr>) (add_mset SHARED_LOCK M)"
  using assms by (auto simp: lock_inv_def inode_level_def)

lemma lock_inv_first:
  assumes "lock_inv i (add_mset NO_LOCK M)" and "inode_level i = NO_LOCK"
  shows "lock_inv (set_inode_level SHARED_LOCK (i\<lparr>nLock := nLock i + 1, nShared := 1\<rparr>))
           (add_mset SHARED_LOCK M)"
proof -
  have "holders M = 0" and z: "\<forall>l \<in># M. l = NO_LOCK"
    using assms holders_none [of M] by (force simp: lock_inv_def)+
  moreover have "writers M = 0"
    using writers_le_holders [of M] \<open>holders M = 0\<close> by simp
  ultimately show ?thesis
    using assms by (auto simp: lock_inv_def)
qed

lemma lock_inv_raise:
  assumes inv: "lock_inv i (add_mset (inode_level i) M)" and "SHARED_LOCK \<le> inode_level i"
    and "inode_level i \<le> e" "e \<le> EXCLUSIVE_LOCK" and "e = EXCLUSIVE_LOCK \<longrightarrow> nShared i \<le> 1"
  shows "lock_inv (set_inode_level e i) (add_mset e M)"
proof -
  have "writers M = 0"
  proof (cases "SHARED_LOCK < inode_level i")
    case True
    then show ?thesis using inv by (auto simp: lock_inv_def)
  next
    case False
    then have "\<forall>l \<in># M. l \<le> SHARED_LOCK" using inv by (force simp: lock_inv_def)
    then show ?thesis by (simp only: writers_none)
  qed
  then show ?thesis
    using assms by (auto simp: lock_inv_def)
qed

lemma unixLock_locked_facts:
  assumes inv: "lock_inv i (add_mset (lock_level f) M)" and ok: "lock_request_ok f e"
    and up: "lock_level f < e" and run: "unixLock_locked S f e i os = (rc, g, j, os')"
  shows "lock_inv j (add_mset (lock_level g) M) \<and> same_file f g \<and>
    (if rc = SQLITE_OK then lock_level g = e
     else lock_level g = lock_level f \<or> e = EXCLUSIVE_LOCK \<and> lock_level g = PENDING_LOCK) \<and>
    ii_dev j = ii_dev i \<and> ii_ino j = ii_ino i \<and> pUnused j = pUnused i \<and> nRef j = nRef i"
proof -
  have e: "e = SHARED_LOCK \<or> e = RESERVED_LOCK \<or> e = EXCLUSIVE_LOCK"
    using ok by (auto simp: lock_request_ok_def)
  have nn: "NO_LOCK \<le> lock_level f" by (simp add: lock_level_def)
  let ?busy = "eFileLock f \<noteq> ii_eFileLock i \<and> (PENDING_LOCK \<le> inode_level i \<or> SHARED_LOCK < e)"
  let ?count = "e = SHARED_LOCK \<and> (inode_level i = SHARED_LOCK \<or> inode_level i = RESERVED_LOCK)"
  consider (busy) ?busy | (count) "\<not> ?busy" ?count | (go) "\<not> ?busy" "\<not> ?count" by blast
  then show ?thesis
  proof cases
    case busy
    then show ?thesis using run inv by (auto simp: unixLock_locked_def)
  next
    case count
    then have "lock_level f = NO_LOCK" using up nn by simp
    then show ?thesis
      using run count inv lock_inv_share [of i M] by (auto simp: unixLock_locked_def)
  next
    case go
    obtain rc1 f1 i1 os1 where P: "unixLock_pending S f e i os = (rc1, f1, i1, os1)"
      by (rule prod_cases4) (rule that)
    note P' = unixLock_pending_facts [OF P]
    have inv1: "lock_inv i1 (add_mset (lock_level f1) M)"
      using P' inv same_lock_state_inv [of i i1] by simp
    have lv1: "inode_level i1 = inode_level i" using P' by (simp add: same_lock_state_def inode_level_def)
    have run1: "(if rc1 \<noteq> SQLITE_OK then (rc1, f1, i1, os1)
       else if e = SHARED_LOCK then
         (case unixLock_shared S f1 i1 os1 of (rc, f, i, os) \<Rightarrow>
            if rc \<noteq> SQLITE_OK then (rc, f, i, os) else unixLock_finish e (rc, f, i, os))
       else unixLock_finish e (unixLock_write S f1 e i1 os1)) = (rc, g, j, os')"
      using run go P by (simp add: unixLock_locked_def split: if_splits)
    consider (fail) "rc1 \<noteq> SQLITE_OK" | (shared) "rc1 = SQLITE_OK" "e = SHARED_LOCK"
      | (writing) "rc1 = SQLITE_OK" "e \<noteq> SHARED_LOCK" by blast
    then show ?thesis
    proof cases
      case fail
      then show ?thesis using run1 inv1 P' by (auto simp: same_lock_state_def)
    next
      case shared
      then have lf: "lock_level f = NO_LOCK" using up nn by simp
      have li: "inode_level i = NO_LOCK"
        using go shared lf inv by (auto simp: lock_levels_eq lock_inv_def)
      obtain rc2 f2 i2 os2 where Q: "unixLock_shared S f1 i1 os1 = (rc2, f2, i2, os2)"
        by (rule prod_cases4) (rule that)
      obtain k where k: "same_lock_state i1 k" and f2: "same_file f1 f2"
        and out: "if rc2 = SQLITE_OK
            then lock_level f2 = SHARED_LOCK \<and> i2 = k\<lparr>nLock := nLock k + 1, nShared := 1\<rparr>
            else lock_level f2 = lock_level f1 \<and> i2 = k"
        using unixLock_shared_facts [OF Q] by blast
      have k': "lock_inv k (add_mset NO_LOCK M)" "inode_level k = NO_LOCK"
        using k inv1 lf P' lv1 li same_lock_state_inv [of i1 k]
        by (auto simp: same_lock_state_def inode_level_def)
      have fr: "same_file f f2"
        using P' f2 same_file_trans [of f f1 f2] by simp
      show ?thesis
      proof (cases "rc2 = SQLITE_OK")
        case True
        then have "rc = SQLITE_OK" "g = set_level e f2" "j = set_inode_level e i2"
          using run1 shared Q by (simp_all add: unixLock_finish_def)
        then show ?thesis
          using True out lock_inv_first [OF k'] k P' fr shared by (simp add: same_lock_state_def)
      next
        case False
        then have "rc = rc2" "g = f2" "j = i2" using run1 shared Q by simp_all
        then show ?thesis
          using False out k k'(1) P' fr lf by (simp add: same_lock_state_def)
      qed
    next
      case writing
      have eq: "lock_level f = inode_level i"
        using go writing e by (auto simp: lock_levels_eq)
      have pos: "SHARED_LOCK \<le> inode_level i"
        using ok writing nn eq by (auto simp: lock_request_ok_def)
      obtain rc2 f2 i2 os2 where Q: "unixLock_write S f1 e i1 os1 = (rc2, f2, i2, os2)"
        by (rule prod_cases4) (rule that)
      note Q' = unixLock_write_facts [OF Q]
      have inv2: "lock_inv i2 (add_mset (inode_level i2) M)" and lv2: "inode_level i2 = inode_level i"
        and sh: "nShared i2 = nShared i1"
        using inv1 Q' P' eq lv1 same_lock_state_inv [of i1 i2]
        by (auto simp: same_lock_state_def inode_level_def)
      have up2: "inode_level i2 < e" using up eq lv2 by simp
      have F: "unixLock_finish e (rc2, f2, i2, os2) = (rc, g, j, os')"
        using run1 writing Q by simp
      have "0 \<le> e" "e < 256" using e by auto
      note F' = unixLock_finish_facts [OF F this]
      have fr: "same_file f f2" "ii_dev i2 = ii_dev i" "ii_ino i2 = ii_ino i"
          "pUnused i2 = pUnused i" "nRef i2 = nRef i"
        using P' Q'(1) same_file_trans [of f f1 f2] by (simp_all add: same_lock_state_def)
      have fg: "same_file f g" using same_file_trans [OF fr(1)] F' by blast
      have lf2: "lock_level f2 = lock_level f" using P' Q'(1) by simp
      consider (got) "rc2 = SQLITE_OK" | (pending) "rc2 \<noteq> SQLITE_OK" "e = EXCLUSIVE_LOCK"
        | (kept) "rc2 \<noteq> SQLITE_OK" "e \<noteq> EXCLUSIVE_LOCK" by blast
      then show ?thesis
      proof cases
        case got
        have "lock_inv (set_inode_level e i2) (add_mset e M)"
          using lock_inv_raise [OF inv2, of e] pos lv2 up2 e Q'(2) got sh by auto
        then show ?thesis using F' got fr fg by simp
      next
        case pending
        have "lock_inv (set_inode_level PENDING_LOCK i2) (add_mset PENDING_LOCK M)"
          using lock_inv_raise [OF inv2, of PENDING_LOCK] pos lv2 up2 pending by auto
        then show ?thesis using F' pending fr fg by simp
      next
        case kept
        then show ?thesis using F' fr fg inv2 lv2 eq lf2 by simp
      qed
    qed
  qed
qed

section \<open>Steps that lower a lock\<close>

lemma lock_inv_downgrade:
  assumes inv: "lock_inv i (add_mset l M)" and l: "SHARED_LOCK < l"
  shows "lock_inv (set_inode_level SHARED_LOCK i) (add_mset SHARED_LOCK M)"
proof -
  have "writers M = 0" using inv l by (simp add: lock_inv_def)
  then have "\<forall>l \<in># M. l \<le> SHARED_LOCK" by (simp only: writers_none)
  then show ?thesis using inv l \<open>writers M = 0\<close> by (auto simp: lock_inv_def)
qed

lemma lock_inv_release:
  assumes inv: "lock_inv i (add_mset SHARED_LOCK M)"
    and k: "same_lock_state (i\<lparr>nShared := nShared i - 1\<rparr>) k"
  shows "lock_inv ((if nShared i = 1 then set_inode_level NO_LOCK k else k)
           \<lparr>nLock := nLock k - 1, pUnused := ps\<rparr>) (add_mset NO_LOCK M)"
proof -
  have lv: "inode_level (j\<lparr>nLock := n, pUnused := ps\<rparr>) = inode_level j" for j n
    by (simp add: inode_level_def)
  have kk: "nShared k = nShared i - 1" "inode_level k = inode_level i"
      "nLock k - (if bProcessLock k then 1 else 0) = nLock i - (if bProcessLock i then 1 else 0)"
    using k by (simp_all add: same_lock_state_def inode_level_def)
  show ?thesis
  proof (cases "nShared i = 1")
    case True
    then have "holders M = 0" using inv by (simp add: lock_inv_def)
    then have "\<forall>l \<in># M. l \<le> NO_LOCK" by (simp only: holders_none)
    then show ?thesis
      using True inv kk \<open>holders M = 0\<close> by (auto simp: lock_inv_def lv)
  next
    case False
    then show ?thesis using inv kk by (auto simp: lock_inv_def lv)
  qed
qed

lemma posixUnlock_downgrade_facts:
  assumes "posixUnlock_downgrade S f e i os = (rc, g, j, os')"
  shows "same_file f g \<and> lock_level g = lock_level f \<and>
     (\<exists>k. same_lock_state i k \<and> j = (if rc = SQLITE_OK then set_inode_level SHARED_LOCK k else k))"
proof -
  obtain r1 i1 os1 where 1: "(if e = SHARED_LOCK
      then unixFileLock S f i (file_lock F_RDLCK SHARED_FIRST SHARED_SIZE) os else (0, i, os)) =
      (r1, i1, os1)" by (rule prod_cases3) (rule that)
  obtain r2 i2 os2 where 2: "unixFileLock S f i1 (file_lock F_UNLCK PENDING_BYTE 2) os1 = (r2, i2, os2)"
    by (rule prod_cases3) (rule that)
  have "same_lock_state i i1" using 1 by (auto split: if_splits dest: unixFileLock_state)
  moreover have "same_lock_state i1 i2" using 2 by (rule unixFileLock_state)
  ultimately show ?thesis
    using assms same_lock_state_trans [of i i1 i2]
    by (auto simp: posixUnlock_downgrade_def 1 2 split: if_splits)
qed

text \<open>Closing the deferred descriptors frees their objects and no other; valid ones never fault.\<close>

lemma close_fds_freed: "close_fds S ps U os = Some (U', os') \<Longrightarrow> U' = U |` (- set ps)"
proof (induction ps arbitrary: U os)
  case Nil
  then show ?case by (simp add: restrict_map_def fun_eq_iff)
next
  case (Cons p ps)
  from Cons.prems obtain u :: UnixUnusedFd where
    "close_fds S ps (U(p := None)) (robust_close S (uu_fd u) os) = Some (U', os')"
    by (cases "U p") auto
  from Cons.IH [OF this] show ?case
    by (auto simp: restrict_map_def fun_eq_iff)
qed

lemma close_fds_defined:
  "set ps \<subseteq> dom U \<Longrightarrow> distinct ps \<Longrightarrow> \<exists>U' os'. close_fds S ps U os = Some (U', os')"
proof (induction ps arbitrary: U os)
  case Nil
  then show ?case by simp
next
  case (Cons p ps)
  then obtain u where u: "U p = Some u" by auto
  have "set ps \<subseteq> dom (U(p := None))" "distinct ps" using Cons.prems by auto
  then obtain U' os' where c: "close_fds S ps (U(p := None)) (robust_close S (uu_fd u) os) = Some (U', os')"
    using Cons.IH by blast
  show ?case by (simp add: u c)
qed

lemma closePendingFds_inode:
  "closePendingFds S i U os = Some (j, U', os') \<Longrightarrow>
     j = i\<lparr>pUnused := []\<rparr> \<and> U' = U |` (- set (pUnused i))"
  by (auto simp: closePendingFds_def bind_eq_Some_iff dest: close_fds_freed)

lemma closePendingFds_defined:
  assumes "set (pUnused i) \<subseteq> dom U" and "distinct (pUnused i)"
  shows "\<exists>j U' os'. closePendingFds S i U os = Some (j, U', os')"
proof -
  obtain U' os' where "close_fds S (pUnused i) U os = Some (U', os')"
    using close_fds_defined [OF assms, of S os] by blast
  then show ?thesis by (simp add: closePendingFds_def)
qed

lemma posixUnlock_release_facts:
  assumes "posixUnlock_release S f i U os = Some (rc, g, j, U', os')"
  shows "\<exists>k ps. same_lock_state (i\<lparr>nShared := nShared i - 1\<rparr>) k \<and> same_file f g \<and>
     j = (if nShared i = 1 then set_inode_level NO_LOCK k else k)\<lparr>nLock := nLock k - 1, pUnused := ps\<rparr> \<and>
     (if nLock k = 1 then ps = [] \<and> U' = U |` (- set (pUnused i)) else ps = pUnused i \<and> U' = U) \<and>
     (if rc = SQLITE_OK then g = f else lock_level g = NO_LOCK)"
proof -
  let ?i = "i\<lparr>nShared := nShared i - 1\<rparr>"
  obtain rc1 g1 k1 os1 where 1: "(if nShared ?i = 0 then
      (case unixFileLock S f ?i (file_lock F_UNLCK 0 0) os of (r, i, os) \<Rightarrow>
         if r = 0 then (SQLITE_OK, f, set_inode_level NO_LOCK i, os)
         else (SQLITE_IOERR_UNLOCK, set_level NO_LOCK (storeLastErrno f (osErrno S os)),
               set_inode_level NO_LOCK i, os))
      else (SQLITE_OK, f, ?i, os)) = (rc1, g1, k1, os1)"
    by (rule prod_cases4) (rule that)
  have "\<exists>k. same_lock_state ?i k \<and> k1 = (if nShared i = 1 then set_inode_level NO_LOCK k else k) \<and>
      same_file f g1 \<and> (if rc1 = SQLITE_OK then g1 = f else lock_level g1 = NO_LOCK)"
  proof (cases "nShared i = 1")
    case True
    obtain r k os2 where F: "unixFileLock S f ?i (file_lock F_UNLCK 0 0) os = (r, k, os2)"
      by (rule prod_cases3) (rule that)
    from unixFileLock_state [OF F] have "same_lock_state ?i k" .
    then show ?thesis
      using 1 True F by (intro exI [of _ k]) (cases "r = 0"; auto)
  next
    case False
    then show ?thesis using 1 by (intro exI [of _ ?i]) auto
  qed
  then obtain k where k: "same_lock_state ?i k" "k1 = (if nShared i = 1 then set_inode_level NO_LOCK k else k)"
      "same_file f g1" "if rc1 = SQLITE_OK then g1 = f else lock_level g1 = NO_LOCK"
    by blast
  have pu: "pUnused k = pUnused i" "nLock k1 = nLock k" "pUnused k1 = pUnused k"
    using k by (simp_all add: same_lock_state_def)
  have run: "(let i = k1\<lparr>nLock := nLock k1 - 1\<rparr> in
        if nLock i = 0 then do {
          (i, U, os) \<leftarrow> closePendingFds S i U os1;
          Some (rc1, g1, i, U, os)
        }
        else Some (rc1, g1, i, U, os1)) = Some (rc, g, j, U', os')"
    using assms unfolding posixUnlock_release_def Let_def 1 by simp
  have "j = k1\<lparr>nLock := nLock k - 1, pUnused := (if nLock k = 1 then [] else pUnused i)\<rparr>"
    and "rc = rc1" "g = g1"
      "U' = (if nLock k = 1 then U |` (- set (pUnused i)) else U)"
    using run pu by (auto simp: Let_def bind_eq_Some_iff split: if_splits dest!: closePendingFds_inode)
  then show ?thesis
    using k by (intro exI [of _ k] exI [of _ "if nLock k = 1 then [] else pUnused i"]) auto
qed

lemma posixUnlock_locked_facts:
  assumes inv: "lock_inv i (add_mset (lock_level f) M)" and e: "e = NO_LOCK \<or> e = SHARED_LOCK"
    and down: "e < lock_level f" and run: "posixUnlock_locked S f e i U os = Some (rc, g, j, U', os')"
  shows "lock_inv j (add_mset (lock_level g) M) \<and> same_file f g \<and>
    (if rc = SQLITE_OK then lock_level g = e
     else lock_level g = lock_level f \<or> e = NO_LOCK \<and> lock_level g = NO_LOCK) \<and>
    ii_dev j = ii_dev i \<and> ii_ino j = ii_ino i \<and> nRef j = nRef i \<and>
    (pUnused j = pUnused i \<and> U' = U \<or> pUnused j = [] \<and> U' = U |` (- set (pUnused i)))"
proof -
  obtain rc1 f1 i1 os1 where 1: "(if SHARED_LOCK < lock_level f then posixUnlock_downgrade S f e i os
      else (SQLITE_OK, f, i, os)) = (rc1, f1, i1, os1)"
    by (rule prod_cases4) (rule that)
  have f1: "same_file f f1" "lock_level f1 = lock_level f"
    and st1: "ii_dev i1 = ii_dev i \<and> ii_ino i1 = ii_ino i \<and> nRef i1 = nRef i \<and> pUnused i1 = pUnused i"
    using 1 by (auto simp: same_lock_state_def split: if_splits dest!: posixUnlock_downgrade_facts)
  have inv1: "if rc1 = SQLITE_OK then lock_inv i1 (add_mset SHARED_LOCK M)
      else lock_inv i1 (add_mset (lock_level f) M)"
  proof (cases "SHARED_LOCK < lock_level f")
    case True
    then obtain k where k: "same_lock_state i k"
        "i1 = (if rc1 = SQLITE_OK then set_inode_level SHARED_LOCK k else k)"
      using 1 posixUnlock_downgrade_facts [of S f e i os rc1 f1 i1 os1] by auto
    then have "lock_inv k (add_mset (lock_level f) M)"
      using inv same_lock_state_inv by simp
    from lock_inv_downgrade [OF this True] this k show ?thesis by simp
  next
    case False
    then have "lock_level f = SHARED_LOCK" using e down by auto
    then show ?thesis using False 1 inv by auto
  qed
  show ?thesis
  proof (cases "rc1 = SQLITE_OK")
    case False
    then show ?thesis using run 1 inv1 f1 st1 by (simp add: posixUnlock_locked_def)
  next
    case ok: True
    show ?thesis
    proof (cases "e = NO_LOCK")
      case False
      then have "rc = SQLITE_OK" "g = set_level e f1" "j = i1" "U' = U"
        using run 1 ok by (simp_all add: posixUnlock_locked_def)
      then show ?thesis using False e ok inv1 f1 st1 by simp
    next
      case True
      then obtain g1 where R: "posixUnlock_release S f1 i1 U os1 = Some (rc, g1, j, U', os')"
        and g: "g = (if rc = SQLITE_OK then set_level e g1 else g1)"
        using run 1 ok by (auto simp: posixUnlock_locked_def bind_eq_Some_iff)
      obtain k ps where k: "same_lock_state (i1\<lparr>nShared := nShared i1 - 1\<rparr>) k" "same_file f1 g1"
        and j: "j = (if nShared i1 = 1 then set_inode_level NO_LOCK k else k)\<lparr>nLock := nLock k - 1, pUnused := ps\<rparr>"
        and ps: "if nLock k = 1 then ps = [] \<and> U' = U |` (- set (pUnused i1)) else ps = pUnused i1 \<and> U' = U"
        and g1: "if rc = SQLITE_OK then g1 = f1 else lock_level g1 = NO_LOCK"
        using posixUnlock_release_facts [OF R] by blast
      have "lock_level g = NO_LOCK" using g g1 True by (simp split: if_splits)
      moreover have "lock_inv j (add_mset NO_LOCK M)"
        unfolding j using inv1 ok k(1) by (intro lock_inv_release) simp_all
      moreover have "same_file f g"
        using g k(2) same_file_trans [OF f1(1) k(2)] by simp
      moreover have "ii_dev j = ii_dev i \<and> ii_ino j = ii_ino i \<and> nRef j = nRef i"
        using k(1) st1 by (simp add: j same_lock_state_def)
      ultimately show ?thesis
        using True ps st1 by (auto simp: j split: if_splits)
    qed
  qed
qed

text \<open>Lowering a lock never faults where the deferred descriptors are valid.\<close>

lemma posixUnlock_locked_defined:
  assumes "set (pUnused i) \<subseteq> dom U" and "distinct (pUnused i)"
  shows "\<exists>r. posixUnlock_locked S f e i U os = Some r"
proof -
  obtain rc1 f1 i1 os1 where 1: "(if SHARED_LOCK < lock_level f then posixUnlock_downgrade S f e i os
      else (SQLITE_OK, f, i, os)) = (rc1, f1, i1, os1)"
    by (rule prod_cases4) (rule that)
  have i1: "pUnused i1 = pUnused i"
    using 1 by (auto simp: same_lock_state_def split: if_splits dest!: posixUnlock_downgrade_facts)
  have "\<exists>r. posixUnlock_release S f1 i1 U os1 = Some r"
  proof -
    let ?i = "i1\<lparr>nShared := nShared i1 - 1\<rparr>"
    obtain rc2 f2 i2 os2 where 2: "(if nShared ?i = 0 then
        (case unixFileLock S f1 ?i (file_lock F_UNLCK 0 0) os1 of (r, i, os) \<Rightarrow>
           if r = 0 then (SQLITE_OK, f1, set_inode_level NO_LOCK i, os)
           else (SQLITE_IOERR_UNLOCK, set_level NO_LOCK (storeLastErrno f1 (osErrno S os)),
                 set_inode_level NO_LOCK i, os))
        else (SQLITE_OK, f1, ?i, os1)) = (rc2, f2, i2, os2)"
      by (rule prod_cases4) (rule that)
    have "pUnused i2 = pUnused i1"
      using 2 by (auto simp: same_lock_state_def split: if_splits prod.splits dest!: unixFileLock_state)
    then obtain r where "closePendingFds S (i2\<lparr>nLock := nLock i2 - 1\<rparr>) U os2 = Some r"
      using closePendingFds_defined [of "i2\<lparr>nLock := nLock i2 - 1\<rparr>" U S os2] assms i1 by fastforce
    then show ?thesis
      unfolding posixUnlock_release_def Let_def 2
      by (cases r; cases "nLock i2 = 1") simp_all
  qed
  then show ?thesis
    using 1 by (auto simp: posixUnlock_locked_def)
qed

end
