(* ===== verification/Server_Files.thy ===== *)
theory Server_Files
  imports Lock_Inv Unix_Open
begin

text \<open>
  The server's open database files as a whole: the multiset of handles its clients hold and
  the process state of \<open>os_unix.c\<close>. The invariant joins the lock invariants of the inodes,
  the reference counts and the ownership of the deferred descriptors; opening, locking,
  unlocking and closing keep it and never go through a dangling pointer.
\<close>

section \<open>The invariant\<close>

definition on_inode :: "ptr \<Rightarrow> unixFile multiset \<Rightarrow> unixFile multiset" where
  "on_inode p F = filter_mset (\<lambda>f. pInode f = p) F"

definition levels :: "ptr \<Rightarrow> unixFile multiset \<Rightarrow> int multiset" where
  "levels p F = image_mset lock_level (on_inode p F)"

text \<open>The deferred descriptors of all inodes.\<close>

definition deferred :: "(ptr \<times> unixInodeInfo) list \<Rightarrow> ptr multiset" where
  "deferred xs = mset (concat (map (\<lambda>(p, i). pUnused i) xs))"

definition owned :: "unixFile multiset \<Rightarrow> 'os unix_state \<Rightarrow> ptr multiset" where
  "owned F st = image_mset pPreallocatedUnused F + deferred (inodeList st)"

text \<open>Each object for a deferred descriptor is owned by one handle or one inode.\<close>

definition unused_inv :: "unixFile multiset \<Rightarrow> 'os unix_state \<Rightarrow> bool" where
  "unused_inv F st \<longleftrightarrow>
     (\<forall>p. count (owned F st) p \<le> 1) \<and>
     set_mset (owned F st) \<subseteq> dom (unusedFds st) \<and>
     (\<forall>p \<in> dom (unusedFds st). p \<noteq> NULL \<and> uint p < uint (us_brk st))"

definition inode_inv :: "unixFile multiset \<Rightarrow> ptr \<Rightarrow> unixInodeInfo \<Rightarrow> bool" where
  "inode_inv F p i \<longleftrightarrow>
     lock_inv i (levels p F) \<and> nRef i = int (size (on_inode p F)) \<and> 0 < nRef i"

definition files_inv :: "unixFile multiset \<Rightarrow> 'os unix_state \<Rightarrow> bool" where
  "files_inv F st \<longleftrightarrow>
     table_ok st \<and>
     (\<forall>p i. inode_at p st = Some i \<longrightarrow> inode_inv F p i) \<and>
     (\<forall>f \<in># F. inode_at (pInode f) st \<noteq> None) \<and>
     unused_inv F st"

lemma on_inode_add [simp]:
  "on_inode p (add_mset f F) = (if pInode f = p then add_mset f (on_inode p F) else on_inode p F)"
  by (simp add: on_inode_def)

lemma levels_add [simp]:
  "levels p (add_mset f F) =
     (if pInode f = p then add_mset (lock_level f) (levels p F) else levels p F)"
  by (simp add: levels_def)

lemma files_inv_init: "files_inv {#} (us_init os)"
  using table_ok_init [of os]
  by (simp add: files_inv_def us_init_def inode_at_def unused_inv_def owned_def deferred_def)

lemma files_inv_inode:
  assumes "files_inv F st" and "f \<in># F"
  obtains i where "inode_at (pInode f) st = Some i" "inode_inv F (pInode f) i"
  using assms by (fastforce simp: files_inv_def)

lemma table_ok_os [simp]:
  "table_ok (st\<lparr>us_os := os\<rparr>) = table_ok st" "table_ok (st\<lparr>unusedFds := U\<rparr>) = table_ok st"
  by (simp_all add: table_ok_def)

lemma files_inv_os [simp]: "files_inv F (st\<lparr>us_os := os\<rparr>) = files_inv F st"
  by (simp add: files_inv_def unused_inv_def owned_def)

text \<open>
  The invariant reads three fields of a handle. The handle the server works on and the copy
  its client keeps agree on them.
\<close>

definition file_key :: "unixFile \<Rightarrow> ptr \<times> int \<times> ptr" where
  "file_key f = (pInode f, lock_level f, pPreallocatedUnused f)"

lemma files_inv_key:
  assumes "image_mset file_key F = image_mset file_key G"
  shows "files_inv F st = files_inv G st"
proof -
  have oi: "image_mset file_key (on_inode p F) = filter_mset (\<lambda>k. fst k = p) (image_mset file_key F)" for p F
    by (simp add: on_inode_def file_key_def filter_mset_image_mset)
  have lv: "levels p F = image_mset (\<lambda>k. fst (snd k)) (image_mset file_key (on_inode p F))" for p F
    by (simp add: levels_def file_key_def multiset.map_comp comp_def)
  have ow: "image_mset pPreallocatedUnused F = image_mset (\<lambda>k. snd (snd k)) (image_mset file_key F)" for F
    by (simp add: file_key_def multiset.map_comp comp_def)
  have "levels p F = levels p G" for p by (simp only: lv oi assms)
  moreover have "size (on_inode p F) = size (on_inode p G)" for p
    by (metis oi assms size_image_mset)
  moreover have "owned F st = owned G st" unfolding owned_def by (simp only: ow assms)
  moreover have "pInode ` set_mset F = pInode ` set_mset G"
  proof -
    have "pInode ` set_mset F = fst ` set_mset (image_mset file_key F)" for F
      by (simp add: file_key_def image_image)
    then show ?thesis by (simp only: assms)
  qed
  then have "(\<forall>f \<in># F. inode_at (pInode f) st \<noteq> None) = (\<forall>f \<in># G. inode_at (pInode f) st \<noteq> None)"
    by (metis (mono_tags, lifting) imageE imageI)
  ultimately show ?thesis by (simp add: files_inv_def inode_inv_def unused_inv_def)
qed

lemma files_inv_same:
  "file_key g = file_key f \<Longrightarrow> files_inv (add_mset g F) st = files_inv (add_mset f F) st"
  by (rule files_inv_key) simp

text \<open>Replacing an inode replaces its deferred descriptors.\<close>

lemma deferred_replace:
  assumes "distinct (map fst xs)" and "map_of xs p = Some i"
  shows "deferred (map (\<lambda>(q, k). if q = p then (q, j) else (q, k)) xs) + mset (pUnused i) =
         deferred xs + mset (pUnused j)"
  using assms
proof (induction xs)
  case Nil
  then show ?case by simp
next
  case (Cons x xs)
  obtain q k where x: "x = (q, k)" by fastforce
  show ?case
  proof (cases "q = p")
    case True
    then have "map (\<lambda>(q, k). if q = p then (q, j) else (q, k)) xs = xs"
      using Cons.prems(1) x by (intro map_idI) (auto simp: image_iff)
    then show ?thesis using True Cons.prems(2) x by (simp add: deferred_def)
  next
    case False
    then have "deferred (map (\<lambda>(q, k). if q = p then (q, j) else (q, k)) xs) + mset (pUnused i) =
        deferred xs + mset (pUnused j)"
      using Cons x by simp
    then show ?thesis using False x by (simp add: deferred_def)
  qed
qed

lemma deferred_put_inode:
  assumes "table_ok st" and "inode_at p st = Some i"
  shows "deferred (inodeList (put_inode p j st)) + mset (pUnused i) =
         deferred (inodeList st) + mset (pUnused j)"
  using deferred_replace [of "inodeList st" p i j] assms
  by (simp add: table_ok_def inode_at_def put_inode_def split: if_splits)

text \<open>The deferred descriptors of one inode are valid and distinct.\<close>

lemma unused_inv_inode:
  assumes "table_ok st" and "unused_inv F st" and "inode_at p st = Some i"
  shows "set (pUnused i) \<subseteq> dom (unusedFds st)" and "distinct (pUnused i)"
proof -
  have "deferred (inodeList st) = deferred (inodeList (put_inode p (i\<lparr>pUnused := []\<rparr>) st)) + mset (pUnused i)"
    using deferred_put_inode [OF assms(1,3), of "i\<lparr>pUnused := []\<rparr>"] by simp
  then have sub: "mset (pUnused i) \<subseteq># owned F st" by (simp add: owned_def)
  then show "set (pUnused i) \<subseteq> dom (unusedFds st)"
    using assms(2) set_mset_mono [OF sub] by (auto simp: unused_inv_def)
  have "count (mset (pUnused i)) q \<le> 1" for q
    using mset_subset_eq_count [OF sub, of q] assms(2) by (auto simp: unused_inv_def intro: order_trans)
  then show "distinct (pUnused i)"
    by (metis One_nat_def count_greater_eq_one_iff distinct_count_atmost_1 le_antisym not_in_iff set_mset_mset)
qed

section \<open>Locking and unlocking\<close>

text \<open>
  What a step on one handle must show: its inode keeps its identity and its references, fits
  the new level of the handle, and its deferred descriptors stay or have been closed.
\<close>

lemma files_inv_step:
  assumes inv: "files_inv (add_mset f R) st" and i: "inode_at (pInode f) st = Some i"
    and id: "ii_dev j = ii_dev i" "ii_ino j = ii_ino i" "nRef j = nRef i"
    and lk: "lock_inv j (add_mset (lock_level g) (levels (pInode f) R))"
    and g: "pInode g = pInode f" "pPreallocatedUnused g = pPreallocatedUnused f"
    and un: "pUnused j = pUnused i \<and> U = unusedFds st \<or>
             pUnused j = [] \<and> U = unusedFds st |` (- set (pUnused i))"
  shows "files_inv (add_mset g R) (put_inode (pInode f) j (st\<lparr>us_os := os, unusedFds := U\<rparr>))"
proof -
  let ?st = "st\<lparr>us_os := os, unusedFds := U\<rparr>" and ?p = "pInode f"
  have tab: "table_ok st" and un0: "unused_inv (add_mset f R) st"
    and ino: "\<And>p i. inode_at p st = Some i \<Longrightarrow> inode_inv (add_mset f R) p i"
    and live: "\<And>f'. f' \<in># add_mset f R \<Longrightarrow> inode_at (pInode f') st \<noteq> None"
    using inv by (auto simp: files_inv_def)
  have at: "inode_at p ?st = inode_at p st" for p by (simp add: inode_at_def)
  have tab': "table_ok ?st" using tab by (simp add: table_ok_def)
  have "table_ok (put_inode ?p j ?st)"
    by (rule table_ok_put_inode [OF tab', of _ i]) (simp_all add: at i id)
  moreover have "inode_inv (add_mset g R) p k" if k: "inode_at p (put_inode ?p j ?st) = Some k" for p k
  proof (cases "p = ?p")
    case True
    then have "k = j" using k i by (simp add: at)
    moreover have "nRef i = int (size (on_inode ?p (add_mset f R)))" "0 < nRef i"
      using ino [OF i] by (auto simp: inode_inv_def)
    ultimately show ?thesis using True lk g id by (simp add: inode_inv_def)
  next
    case False
    then have "inode_at p st = Some k" using k by (simp add: at)
    from ino [OF this] False g show ?thesis by (simp add: inode_inv_def)
  qed
  moreover have "inode_at (pInode f') (put_inode ?p j ?st) \<noteq> None" if "f' \<in># add_mset g R" for f'
    using that live [of f'] i g by (auto simp: at)
  moreover have "unused_inv (add_mset g R) (put_inode ?p j ?st)"
  proof -
    have d: "deferred (inodeList (put_inode ?p j ?st)) + mset (pUnused i) =
        deferred (inodeList st) + mset (pUnused j)"
      using deferred_put_inode [OF tab', of ?p i j] by (simp add: at i)
    have own: "owned (add_mset g R) (put_inode ?p j ?st) + mset (pUnused i) =
        owned (add_mset f R) st + mset (pUnused j)"
      using d g by (simp add: owned_def ac_simps)
    from un show ?thesis
    proof
      assume a: "pUnused j = pUnused i \<and> U = unusedFds st"
      then have "owned (add_mset g R) (put_inode ?p j ?st) = owned (add_mset f R) st" using own by simp
      then show ?thesis using un0 a by (simp add: unused_inv_def)
    next
      assume a: "pUnused j = [] \<and> U = unusedFds st |` (- set (pUnused i))"
      then have o: "owned (add_mset f R) st = owned (add_mset g R) (put_inode ?p j ?st) + mset (pUnused i)"
        using own by simp
      have c: "count (owned (add_mset g R) (put_inode ?p j ?st)) q + count (mset (pUnused i)) q \<le> 1" for q
        using un0 unfolding unused_inv_def o by simp
      have "q \<notin> set (pUnused i)" if "q \<in># owned (add_mset g R) (put_inode ?p j ?st)" for q
      proof
        assume "q \<in> set (pUnused i)"
        then have "1 \<le> count (mset (pUnused i)) q" by (simp only: count_greater_eq_one_iff set_mset_mset)
        moreover have "1 \<le> count (owned (add_mset g R) (put_inode ?p j ?st)) q"
          using that by (simp only: count_greater_eq_one_iff)
        ultimately show False using c [of q] by linarith
      qed
      moreover have "set_mset (owned (add_mset g R) (put_inode ?p j ?st)) \<subseteq> dom (unusedFds st)"
        using un0 unfolding unused_inv_def o by simp
      moreover have "dom U = dom (unusedFds st) - set (pUnused i)" using a by auto
      moreover have "count (owned (add_mset g R) (put_inode ?p j ?st)) q \<le> 1" for q
        using c [of q] by linarith
      ultimately show ?thesis
        using un0 unfolding unused_inv_def by (simp add: subset_iff)
    qed
  qed
  ultimately show ?thesis by (simp add: files_inv_def)
qed

lemma unixLock_files:
  assumes inv: "files_inv (add_mset f R) st" and ok: "lock_request_ok f e"
  obtains rc g st' where "unixLock S f e st = Some (rc, g, st')" "files_inv (add_mset g R) st'"
    "same_file f g"
    "if rc = SQLITE_OK then lock_level g = max e (lock_level f)
     else lock_level g = lock_level f \<or> e = EXCLUSIVE_LOCK \<and> lock_level g = PENDING_LOCK"
proof (cases "e \<le> lock_level f")
  case True
  then show ?thesis using that [of SQLITE_OK f st] inv by (simp add: unixLock_def)
next
  case False
  obtain i where i: "inode_at (pInode f) st = Some i" "inode_inv (add_mset f R) (pInode f) i"
    by (rule files_inv_inode [OF inv, of f]) simp_all
  obtain rc g j os where r: "unixLock_locked S f e i (us_os st) = (rc, g, j, os)"
    by (rule prod_cases4) (rule that)
  have li: "lock_inv i (add_mset (lock_level f) (levels (pInode f) R))"
    using i(2) by (simp add: inode_inv_def)
  have up: "lock_level f < e" using False by simp
  note F = unixLock_locked_facts [OF li ok up r]
  note sf = same_fileD [of f g]
  have "files_inv (add_mset g R)
      (put_inode (pInode f) j (st\<lparr>us_os := os, unusedFds := unusedFds st\<rparr>))"
    by (rule files_inv_step [OF inv i(1)]) (use F sf in auto)
  then have "files_inv (add_mset g R) (put_inode (pInode f) j (st\<lparr>us_os := os\<rparr>))" by simp
  moreover have "unixLock S f e st = Some (rc, g, put_inode (pInode f) j (st\<lparr>us_os := os\<rparr>))"
    using False by (simp add: unixLock_def i r)
  ultimately show ?thesis using that F up by auto
qed

lemma unixUnlock_files:
  assumes inv: "files_inv (add_mset f R) st" and e: "e = NO_LOCK \<or> e = SHARED_LOCK"
  obtains rc g st' where "unixUnlock S f e st = Some (rc, g, st')" "files_inv (add_mset g R) st'"
    "same_file f g"
    "if rc = SQLITE_OK then lock_level g = min e (lock_level f)
     else lock_level g = lock_level f \<or> e = NO_LOCK \<and> lock_level g = NO_LOCK"
proof (cases "lock_level f \<le> e")
  case True
  then show ?thesis using that [of SQLITE_OK f st] inv by (simp add: unixUnlock_def posixUnlock_def)
next
  case False
  obtain i where i: "inode_at (pInode f) st = Some i" "inode_inv (add_mset f R) (pInode f) i"
    by (rule files_inv_inode [OF inv, of f]) simp_all
  have tab: "table_ok st" and un: "unused_inv (add_mset f R) st" using inv by (auto simp: files_inv_def)
  note ui = unused_inv_inode [OF tab un i(1)]
  obtain r where "posixUnlock_locked S f e i (unusedFds st) (us_os st) = Some r"
    using posixUnlock_locked_defined [OF ui, of S f e "us_os st"] by blast
  then obtain rc g j U os where
    r: "posixUnlock_locked S f e i (unusedFds st) (us_os st) = Some (rc, g, j, U, os)"
    by (cases r) blast
  have li: "lock_inv i (add_mset (lock_level f) (levels (pInode f) R))"
    using i(2) by (simp add: inode_inv_def)
  have down: "e < lock_level f" using False by simp
  note F = posixUnlock_locked_facts [OF li e down r]
  note sf = same_fileD [of f g]
  have "files_inv (add_mset g R) (put_inode (pInode f) j (st\<lparr>us_os := os, unusedFds := U\<rparr>))"
    by (rule files_inv_step [OF inv i(1)]) (use F sf in auto)
  moreover have "unixUnlock S f e st =
      Some (rc, g, put_inode (pInode f) j (st\<lparr>us_os := os, unusedFds := U\<rparr>))"
    using False by (simp add: unixUnlock_def posixUnlock_def i r)
  ultimately show ?thesis using that F down by auto
qed

section \<open>Closing\<close>

text \<open>
  Between the unlock and the release of its inode a handle is no longer one of the open
  files, but the inode still counts it.
\<close>

definition releasing_inv :: "unixFile multiset \<Rightarrow> ptr \<Rightarrow> unixInodeInfo \<Rightarrow> 'os unix_state \<Rightarrow> bool" where
  "releasing_inv R p i st \<longleftrightarrow>
     table_ok st \<and> inode_at p st = Some i \<and>
     lock_inv i (levels p R) \<and> nRef i = int (size (on_inode p R)) + 1 \<and>
     (\<forall>q k. q \<noteq> p \<longrightarrow> inode_at q st = Some k \<longrightarrow> inode_inv R q k) \<and>
     (\<forall>f \<in># R. inode_at (pInode f) st \<noteq> None) \<and>
     unused_inv R st"

lemma deferred_filter:
  assumes "distinct (map fst xs)" and "map_of xs p = Some i"
  shows "deferred xs = deferred (filter (\<lambda>(q, _). q \<noteq> p) xs) + mset (pUnused i)"
  using assms
proof (induction xs)
  case Nil
  then show ?case by simp
next
  case (Cons x xs)
  obtain q k where x: "x = (q, k)" by fastforce
  show ?case
  proof (cases "q = p")
    case True
    then have "filter (\<lambda>(q, _). q \<noteq> p) xs = xs"
      using Cons.prems(1) x by (intro filter_True) (auto simp: image_iff)
    then show ?thesis using True Cons.prems(2) x by (simp add: deferred_def)
  next
    case False
    then show ?thesis using Cons x by (simp add: deferred_def)
  qed
qed

lemma unused_inv_shrink:
  assumes un: "unused_inv R st" and own: "owned R st = owned R st' + mset ps"
    and st': "unusedFds st' = unusedFds st |` (- set ps)" "us_brk st' = us_brk st"
  shows "unused_inv R st'"
proof -
  have c: "count (owned R st') q + count (mset ps) q \<le> 1" for q
    using un unfolding unused_inv_def own by simp
  have "q \<notin> set ps" if "q \<in># owned R st'" for q
  proof
    assume "q \<in> set ps"
    then have "1 \<le> count (mset ps) q" by (simp only: count_greater_eq_one_iff set_mset_mset)
    moreover have "1 \<le> count (owned R st') q" using that by (simp only: count_greater_eq_one_iff)
    ultimately show False using c [of q] by linarith
  qed
  moreover have "set_mset (owned R st') \<subseteq> dom (unusedFds st)"
    using un unfolding unused_inv_def own by simp
  moreover have "count (owned R st') q \<le> 1" for q using c [of q] by linarith
  ultimately show ?thesis
    using un by (auto simp: unused_inv_def st' subset_iff)
qed

lemma releaseInodeInfo_files:
  assumes inv: "releasing_inv R (pInode f) i st"
  obtains st' where "releaseInodeInfo S f st = Some st'" "files_inv R st'"
    "set_mset (owned R st') \<subseteq> set_mset (owned R st)" "us_brk st' = us_brk st"
    "dom (unusedFds st') \<subseteq> dom (unusedFds st)"
proof -
  let ?p = "pInode f"
  have tab: "table_ok st" and i: "inode_at ?p st = Some i" and lk: "lock_inv i (levels ?p R)"
    and rf: "nRef i = int (size (on_inode ?p R)) + 1" and un: "unused_inv R st"
    and oth: "\<And>q k. q \<noteq> ?p \<Longrightarrow> inode_at q st = Some k \<Longrightarrow> inode_inv R q k"
    and live: "\<And>g. g \<in># R \<Longrightarrow> inode_at (pInode g) st \<noteq> None"
    using inv by (auto simp: releasing_inv_def)
  have nn: "?p \<noteq> NULL" using i by auto
  show ?thesis
  proof (cases "on_inode ?p R = {#}")
    case False
    let ?j = "i\<lparr>nRef := nRef i - 1\<rparr>" and ?st = "put_inode ?p (i\<lparr>nRef := nRef i - 1\<rparr>) st"
    have "nRef i - 1 \<noteq> 0" using rf False by simp
    then have "releaseInodeInfo S f st = Some ?st"
      using nn by (simp add: releaseInodeInfo_def i Let_def)
    moreover have own: "owned R ?st = owned R st"
      using deferred_put_inode [OF tab i, of ?j] by (simp add: owned_def)
    moreover have "files_inv R ?st"
      unfolding files_inv_def
    proof (intro conjI allI impI ballI)
      show "table_ok ?st" using tab i by (rule table_ok_put_inode) simp_all
      show "inode_inv R q k" if "inode_at q ?st = Some k" for q k
        using that oth [of q k] i lk rf False
        by (auto simp: inode_inv_def nonempty_has_size split: if_splits)
      show "inode_at (pInode g) ?st \<noteq> None" if "g \<in># R" for g using live [OF that] by auto
      show "unused_inv R ?st" using un own by (simp add: unused_inv_def)
    qed
    ultimately show ?thesis using that [of ?st] by simp
  next
    case True
    let ?j = "i\<lparr>nRef := nRef i - 1\<rparr>"
    note ui = unused_inv_inode [OF tab un i]
    obtain j U os where c: "closePendingFds S ?j (unusedFds st) (us_os st) = Some (j, U, os)"
      using closePendingFds_defined [of ?j "unusedFds st" S "us_os st"] ui by auto
    have U: "U = unusedFds st |` (- set (pUnused i))" using closePendingFds_inode [OF c] by simp
    let ?st = "st\<lparr>us_os := os, unusedFds := U, inodeList := filter (\<lambda>(q, _). q \<noteq> ?p) (inodeList st)\<rparr>"
    have r: "releaseInodeInfo S f st = Some ?st"
      using nn rf True c by (simp add: releaseInodeInfo_def i Let_def)
    have at: "inode_at q ?st = (if q = ?p then None else inode_at q st)" for q
    proof -
      have "map_of (filter (\<lambda>(q, _). q \<noteq> ?p) xs) q = (if q = ?p then None else map_of xs q)"
        for xs :: "(ptr \<times> unixInodeInfo) list" and q
        by (induction xs) auto
      then show ?thesis by (simp add: inode_at_def)
    qed
    have mo: "map_of (inodeList st) ?p = Some i" using i nn by (simp add: inode_at_def)
    have own: "owned R st = owned R ?st + mset (pUnused i)"
      using deferred_filter [of "inodeList st" ?p i] tab mo by (simp add: owned_def table_ok_def)
    have "files_inv R ?st"
      unfolding files_inv_def
    proof (intro conjI allI impI ballI)
      show "table_ok ?st"
        using tab by (auto simp: table_ok_def distinct_map inj_on_def)
      show "inode_inv R q k" if "inode_at q ?st = Some k" for q k
        using that oth [of q k] by (simp add: at split: if_splits)
      show "inode_at (pInode g) ?st \<noteq> None" if "g \<in># R" for g
        using live [OF that] that True by (auto simp: at on_inode_def)
      show "unused_inv R ?st"
        by (rule unused_inv_shrink [OF un own]) (simp_all add: U)
    qed
    moreover have "set_mset (owned R ?st) \<subseteq> set_mset (owned R st)" unfolding own by simp
    ultimately show ?thesis using that [of ?st] r U by auto
  qed
qed

lemma same_but_os: "\<exists>os. st = st\<lparr>us_os := os\<rparr>"
  by (rule exI [of _ "us_os st"]) simp

lemma fileHasMoved_os:
  assumes "fileHasMoved S mem f st = Some (b, st')"
  shows "\<exists>os. st' = st\<lparr>us_os := os\<rparr>"
proof (cases "pInode f = NULL")
  case True
  then show ?thesis using assms by (simp add: fileHasMoved_def same_but_os)
next
  case False
  then obtain z where z: "mem (zPath f) = Some z"
    using assms by (auto simp: fileHasMoved_def bind_eq_Some_iff)
  obtain rc sb os where "osStat S z (us_os st) = (rc, sb, os)" by (rule prod_cases3) (rule that)
  then show ?thesis
    using assms False z by (auto simp: fileHasMoved_def bind_eq_Some_iff split: if_splits)
qed

lemma verifyDbFile_os: "verifyDbFile S mem f st = Some st' \<Longrightarrow> \<exists>os. st' = st\<lparr>us_os := os\<rparr>"
  by (auto simp: verifyDbFile_def Let_def same_but_os split: if_splits prod.splits
      dest!: fileHasMoved_os)

lemma verifyDbFile_defined:
  assumes "inode_at (pInode f) st = Some i \<or> pInode f = NULL" and "mem (zPath f) = Some z"
  shows "\<exists>os. verifyDbFile S mem f st = Some (st\<lparr>us_os := os\<rparr>)"
proof -
  have "\<exists>st'. verifyDbFile S mem f st = Some st'"
    using assms by (auto simp: verifyDbFile_def fileHasMoved_def Let_def split: prod.splits)
  then show ?thesis using verifyDbFile_os by blast
qed

lemma releasing_start:
  assumes inv: "files_inv (add_mset g R) st" and i: "inode_at (pInode g) st = Some i"
    and st': "inodeList st' = inodeList (put_inode (pInode g) (i\<lparr>pUnused := ps\<rparr>) st)"
      "us_brk st' = us_brk st"
    and un: "unused_inv R st'"
  shows "releasing_inv R (pInode g) (i\<lparr>pUnused := ps\<rparr>) st'"
proof -
  let ?p = "pInode g" and ?j = "i\<lparr>pUnused := ps\<rparr>"
  have at: "inode_at q st' = (if q = ?p then Some ?j else inode_at q st)" for q
  proof -
    have "inode_at q st' = inode_at q (put_inode ?p ?j st)" using st' by (simp add: inode_at_def)
    then show ?thesis using i by simp
  qed
  have tab: "table_ok st" and ino: "\<And>p i. inode_at p st = Some i \<Longrightarrow> inode_inv (add_mset g R) p i"
    and live: "\<And>f'. f' \<in># R \<Longrightarrow> inode_at (pInode f') st \<noteq> None"
    using inv by (auto simp: files_inv_def)
  have "table_ok (put_inode ?p ?j st)" using tab i by (rule table_ok_put_inode) simp_all
  then have "table_ok st'" using st' by (simp add: table_ok_def)
  moreover have "lock_inv ?j (levels ?p R)" "nRef ?j = int (size (on_inode ?p R)) + 1"
    using ino [OF i] lock_inv_forget by (auto simp: inode_inv_def)
  moreover have "inode_inv R q k" if "q \<noteq> ?p" "inode_at q st' = Some k" for q k
    using that ino [of q k] by (simp add: at inode_inv_def)
  moreover have "inode_at (pInode f') st' \<noteq> None" if "f' \<in># R" for f'
    using live [OF that] by (simp add: at)
  ultimately show ?thesis using un by (simp add: releasing_inv_def at)
qed

text \<open>An object for a deferred descriptor that no handle and no inode owns may be freed.\<close>

lemma files_inv_free:
  assumes inv: "files_inv R st" and free: "p \<notin># owned R st"
    and st': "inodeList st' = inodeList st" "us_brk st' = us_brk st"
      "unusedFds st' = (unusedFds st)(p := None)"
  shows "files_inv R st'"
proof -
  have at: "inode_at q st' = inode_at q st" for q by (simp add: inode_at_def st')
  have own: "owned R st' = owned R st" by (simp add: owned_def st')
  have dm: "dom (unusedFds st') = dom (unusedFds st) - {p}" by (simp add: st')
  have tab: "table_ok st" and un: "unused_inv R st" using inv by (auto simp: files_inv_def)
  have "table_ok st'" using tab by (simp add: table_ok_def st')
  moreover have "unused_inv R st'"
    using un free unfolding unused_inv_def own dm st'(2) by blast
  ultimately show ?thesis using inv by (simp add: files_inv_def at)
qed

lemma unixClose_files:
  assumes inv: "files_inv (add_mset f R) st" and z: "mem (zPath f) = Some z"
  obtains st' where "unixClose S mem f st = Some (SQLITE_OK, zero_unixFile, st')" "files_inv R st'"
proof -
  obtain i0 where i0: "inode_at (pInode f) st = Some i0"
    by (rule files_inv_inode [OF inv, of f]) simp_all
  obtain os where v: "verifyDbFile S mem f st = Some (st\<lparr>us_os := os\<rparr>)"
    using verifyDbFile_defined [of f st i0 mem z S] i0 z by blast
  have inv1: "files_inv (add_mset f R) (st\<lparr>us_os := os\<rparr>)" using inv by simp
  obtain rc g st2 where u: "unixUnlock S f NO_LOCK (st\<lparr>us_os := os\<rparr>) = Some (rc, g, st2)"
    and inv2: "files_inv (add_mset g R) st2" and sf: "same_file f g"
    by (rule unixUnlock_files [OF inv1, of NO_LOCK S]) auto
  obtain i where i: "inode_at (pInode g) st2 = Some i"
    by (rule files_inv_inode [OF inv2, of g]) simp_all
  have tab: "table_ok st2" and un: "unused_inv (add_mset g R) st2" using inv2 by (auto simp: files_inv_def)
  have own: "owned (add_mset g R) st2 = add_mset (pPreallocatedUnused g) (owned R st2)"
    by (simp add: owned_def)
  then have pre: "pPreallocatedUnused g \<in> dom (unusedFds st2)" using un by (simp add: unused_inv_def)
  have c1: "count (add_mset (pPreallocatedUnused g) (owned R st2)) q \<le> 1" for q
    using un unfolding unused_inv_def own by blast
  have cnt: "count (owned R st2) q \<le> 1" for q
    using c1 [of q] by (simp split: if_splits)
  obtain f3 st3 j where s3: "(if nLock i \<noteq> 0
      then do { (f', i) \<leftarrow> setPendingFd g i (unusedFds st2); Some (f', put_inode (pInode g) i st2) }
      else Some (g, st2)) = Some (f3, st3)"
    and rel: "releasing_inv R (pInode f3) j st3"
    and free: "pPreallocatedUnused f3 \<notin># owned R st3"
  proof (cases "nLock i = 0")
    case True
    have un3: "unused_inv R st2" using un cnt by (simp add: unused_inv_def own)
    have "put_inode (pInode g) (i\<lparr>pUnused := pUnused i\<rparr>) st2 = put_inode (pInode g) i st2" by simp
    moreover have "inodeList (put_inode (pInode g) i st2) = inodeList st2"
      using i tab by (auto simp: put_inode_def inode_at_def table_ok_def intro!: map_idI
          intro: eq_key_imp_eq_value split: if_splits)
    ultimately have "releasing_inv R (pInode g) (i\<lparr>pUnused := pUnused i\<rparr>) st2"
      using releasing_start [OF inv2 i, of st2 "pUnused i"] un3 by simp
    moreover have "pPreallocatedUnused g \<notin># owned R st2"
      using c1 [of "pPreallocatedUnused g"] by (simp add: not_in_iff)
    ultimately show ?thesis using that [of g st2 "i\<lparr>pUnused := pUnused i\<rparr>"] True by simp
  next
    case False
    let ?i = "i\<lparr>pUnused := pPreallocatedUnused g # pUnused i\<rparr>"
    let ?f = "g\<lparr>h_fd := - 1, pPreallocatedUnused := NULL\<rparr>" and ?st = "put_inode (pInode g) ?i st2"
    have o3: "owned R ?st = owned (add_mset g R) st2"
      using deferred_put_inode [OF tab i, of ?i] by (simp add: owned_def)
    then have "unused_inv R ?st" using un by (simp add: unused_inv_def)
    from releasing_start [OF inv2 i _ _ this, of "pPreallocatedUnused g # pUnused i"]
    have "releasing_inv R (pInode g) ?i ?st" by simp
    moreover have "NULL \<notin># owned R ?st" using un unfolding o3 by (auto simp: unused_inv_def)
    ultimately show ?thesis
      using that [of ?f ?st ?i] False pre by (auto simp: setPendingFd_def)
  qed
  obtain st4 where r4: "releaseInodeInfo S f3 st3 = Some st4" and inv4: "files_inv R st4"
    and o4: "set_mset (owned R st4) \<subseteq> set_mset (owned R st3)"
    by (rule releaseInodeInfo_files [OF rel, of S])
  obtain f5 os5 where um: "unixUnmapfile S f3 (us_os st4) = (f5, os5)" by fastforce
  have f5: "pPreallocatedUnused f5 = pPreallocatedUnused f3"
    using um by (auto simp: unixUnmapfile_def split: if_splits)
  define st5 where "st5 = snd (snd (closeUnixFile S f3 st4))"
  have c5: "closeUnixFile S f3 st4 = (SQLITE_OK, zero_unixFile, st5)"
    by (simp add: st5_def closeUnixFile_def um Let_def)
  have st5: "inodeList st5 = inodeList st4" "us_brk st5 = us_brk st4"
      "unusedFds st5 = (unusedFds st4)(pPreallocatedUnused f3 := None)"
    by (simp_all add: st5_def closeUnixFile_def um Let_def f5)
  have free4: "pPreallocatedUnused f3 \<notin># owned R st4" using free o4 by blast
  have "files_inv R st5" by (rule files_inv_free [OF inv4 free4 st5])
  moreover have "unixClose S mem f st = Some (SQLITE_OK, zero_unixFile, st5)"
    using v u i s3 r4 c5 by (simp add: unixClose_def)
  ultimately show ?thesis using that by blast
qed

text \<open>
  While another handle on the inode holds a lock, giving up one's own closes nothing: the count
  of locks stays positive, so the deferred descriptors stay where they are, and the outcome is
  the same whatever a close would do.
\<close>

lemma unixFileLock_osClose: "unixFileLock (S\<lparr>osClose := c\<rparr>) f i lk os = unixFileLock S f i lk os"
  by (simp add: unixFileLock_def)

lemma posixUnlock_downgrade_osClose:
  "posixUnlock_downgrade (S\<lparr>osClose := c\<rparr>) f e i os = posixUnlock_downgrade S f e i os"
  by (simp add: posixUnlock_downgrade_def unixFileLock_osClose split: prod.splits)

lemma posixUnlock_release_others:
  assumes "1 < nShared i" and "nLock i \<noteq> 1"
  shows "posixUnlock_release S f i U os =
     Some (SQLITE_OK, f, i\<lparr>nShared := nShared i - 1, nLock := nLock i - 1\<rparr>, U, os)"
  using assms by (simp add: posixUnlock_release_def Let_def)

lemma lock_inv_others:
  assumes "lock_inv i M" and "l \<in># M" "SHARED_LOCK \<le> l" shows "0 < nLock i"
proof -
  obtain N where "M = add_mset l N" using assms(2) by (metis insert_DiffM)
  with assms show ?thesis by (auto simp: lock_inv_def split: if_splits)
qed

lemma posixUnlock_locked_others:
  assumes inv: "lock_inv i (add_mset (lock_level f) M)" and g: "l \<in># M" "SHARED_LOCK \<le> l"
    and f: "SHARED_LOCK \<le> lock_level f"
  obtains rc h j os' where
    "\<And>c. posixUnlock_locked (S\<lparr>osClose := c\<rparr>) f NO_LOCK i U os = Some (rc, h, j, U, os')"
proof -
  obtain N where M: "M = add_mset l N" using g(1) by (metis insert_DiffM)
  have two: "1 < nShared i" and cnt: "nLock i = nShared i + (if bProcessLock i then 1 else 0)"
  proof -
    have "int (holders (add_mset (lock_level f) M)) \<le> nShared i" using inv by (simp only: lock_inv_def)
    then show "1 < nShared i" using g(2) f by (simp add: M)
    show "nLock i = nShared i + (if bProcessLock i then 1 else 0)" using inv by (simp only: lock_inv_def)
  qed
  show ?thesis
  proof (cases "SHARED_LOCK < lock_level f")
    case False
    then show ?thesis
      by (intro that [of SQLITE_OK "set_level NO_LOCK f" "i\<lparr>nShared := nShared i - 1, nLock := nLock i - 1\<rparr>" os])
        (use two cnt in \<open>simp add: posixUnlock_locked_def posixUnlock_release_others\<close>)
  next
    case True
    obtain rc h k os1 where D: "posixUnlock_downgrade S f NO_LOCK i os = (rc, h, k, os1)"
      by (rule prod_cases4) (rule that)
    obtain k0 where k0: "same_lock_state i k0" "k = (if rc = SQLITE_OK then set_inode_level SHARED_LOCK k0 else k0)"
      using posixUnlock_downgrade_facts [OF D] by blast
    then have "nShared k = nShared i" "nLock k = nLock k0" by (simp_all add: same_lock_state_def)
    moreover have "nLock k0 = nShared i + (if bProcessLock k0 then 1 else 0)"
      using k0(1) cnt by (simp add: same_lock_state_def)
    ultimately have k: "nShared k = nShared i" "nLock k \<noteq> 1" using two by (simp_all split: if_splits)
    show ?thesis
    proof (cases "rc = SQLITE_OK")
      case True
      show ?thesis
        by (rule that [of SQLITE_OK "set_level NO_LOCK h" "k\<lparr>nShared := nShared k - 1, nLock := nLock k - 1\<rparr>" os1])
          (use k two D True \<open>SHARED_LOCK < lock_level f\<close> in
            \<open>simp add: posixUnlock_locked_def posixUnlock_release_others posixUnlock_downgrade_osClose\<close>)
    next
      case False
      then show ?thesis
        using that [of rc h k os1] D \<open>SHARED_LOCK < lock_level f\<close>
        by (simp add: posixUnlock_locked_def posixUnlock_downgrade_osClose)
    qed
  qed
qed

lemma osClose_same: "S\<lparr>osClose := osClose S\<rparr> = S"
  by simp

lemma unixUnlock_others:
  assumes inv: "files_inv (add_mset f R) st"
    and g: "g \<in># R" "pInode g = pInode f" "SHARED_LOCK \<le> lock_level g"
  obtains rc h st' where "\<And>c. unixUnlock (S\<lparr>osClose := c\<rparr>) f NO_LOCK st = Some (rc, h, st')"
    "files_inv (add_mset h R) st'" "same_file f h" "unusedFds st' = unusedFds st"
proof -
  obtain rc0 h0 st0 where F: "unixUnlock S f NO_LOCK st = Some (rc0, h0, st0)"
    "files_inv (add_mset h0 R) st0" "same_file f h0"
    by (rule unixUnlock_files [OF inv, of NO_LOCK S]) auto
  show ?thesis
  proof (cases "lock_level f \<le> NO_LOCK")
    case True
    then show ?thesis using that [of SQLITE_OK f st] inv by (simp add: unixUnlock_def posixUnlock_def)
  next
    case False
    then have lf: "SHARED_LOCK \<le> lock_level f" by simp
    obtain i where i: "inode_at (pInode f) st = Some i" "inode_inv (add_mset f R) (pInode f) i"
      by (rule files_inv_inode [OF inv, of f]) simp_all
    have li: "lock_inv i (add_mset (lock_level f) (levels (pInode f) R))"
      using i(2) by (simp add: inode_inv_def)
    have m: "lock_level g \<in># levels (pInode f) R" using g by (auto simp: levels_def on_inode_def)
    obtain rc h j os where L: "\<And>c. posixUnlock_locked (S\<lparr>osClose := c\<rparr>) f NO_LOCK i (unusedFds st) (us_os st) =
        Some (rc, h, j, unusedFds st, os)"
      by (rule posixUnlock_locked_others [OF li m g(3) lf, of S "unusedFds st" "us_os st"]) blast
    let ?st = "put_inode (pInode f) j (st\<lparr>us_os := os, unusedFds := unusedFds st\<rparr>)"
    have U: "unixUnlock (S\<lparr>osClose := c\<rparr>) f NO_LOCK st = Some (rc, h, ?st)" for c
      using False by (simp add: unixUnlock_def posixUnlock_def i L)
    then have "(rc, h, ?st) = (rc0, h0, st0)" using F(1) U [of "osClose S"] by simp
    then have "files_inv (add_mset h R) ?st" "same_file f h" using F by simp_all
    then show ?thesis using that [OF U] by simp
  qed
qed

lemma fileHasMoved_osClose: "fileHasMoved (S\<lparr>osClose := c\<rparr>) mem f st = fileHasMoved S mem f st"
  by (simp add: fileHasMoved_def)

lemma verifyDbFile_osClose: "verifyDbFile (S\<lparr>osClose := c\<rparr>) mem f st = verifyDbFile S mem f st"
  by (simp add: verifyDbFile_def fileHasMoved_osClose Let_def split: prod.splits)

lemma unixUnmapfile_osClose: "unixUnmapfile (S\<lparr>osClose := c\<rparr>) f os = unixUnmapfile S f os"
  by (simp add: unixUnmapfile_def cong: if_cong)

text \<open>A handle closed while another holds a lock leaves its descriptor with the inode.\<close>

lemma unixClose_defers:
  assumes inv: "files_inv (add_mset f R) st" and z: "mem (zPath f) = Some z"
    and g: "g \<in># R" "pInode g = pInode f" "SHARED_LOCK \<le> lock_level g"
  obtains st' j where "\<And>c. unixClose (S\<lparr>osClose := c\<rparr>) mem f st = Some (SQLITE_OK, zero_unixFile, st')"
    "inode_at (pInode f) st' = Some j" "pPreallocatedUnused f \<in> set (pUnused j)"
    "unusedFds st' (pPreallocatedUnused f) = unusedFds st (pPreallocatedUnused f)"
proof -
  obtain i0 where i0: "inode_at (pInode f) st = Some i0"
    by (rule files_inv_inode [OF inv, of f]) simp_all
  obtain os where v: "verifyDbFile S mem f st = Some (st\<lparr>us_os := os\<rparr>)"
    using verifyDbFile_defined [of f st i0 mem z S] i0 z by blast
  have inv1: "files_inv (add_mset f R) (st\<lparr>us_os := os\<rparr>)" using inv by simp
  obtain rc h st2 where u: "\<And>c. unixUnlock (S\<lparr>osClose := c\<rparr>) f NO_LOCK (st\<lparr>us_os := os\<rparr>) = Some (rc, h, st2)"
    and inv2: "files_inv (add_mset h R) st2" and sf: "same_file f h" and U: "unusedFds st2 = unusedFds st"
    by (rule unixUnlock_others [OF inv1 g, of S]) auto
  note sfD = same_fileD [OF sf]
  obtain i where i: "inode_at (pInode f) st2 = Some i" and ii: "inode_inv (add_mset h R) (pInode f) i"
    using sfD by (auto intro: files_inv_inode [OF inv2, of h])
  obtain N where R: "R = add_mset g N" using g(1) by (metis insert_DiffM)
  have m: "lock_level g \<in># levels (pInode f) (add_mset h R)" using g by (auto simp: levels_def on_inode_def)
  have nl: "nLock i \<noteq> 0" using ii lock_inv_others [OF _ m g(3), of i] by (auto simp: inode_inv_def)
  have nr: "nRef i \<noteq> 1" using ii sfD g(2) by (auto simp: inode_inv_def R)
  have un: "unused_inv (add_mset h R) st2" using inv2 by (simp add: files_inv_def)
  then have pre: "pPreallocatedUnused f \<in> dom (unusedFds st2)" "pPreallocatedUnused f \<noteq> NULL"
    using sfD by (auto simp: unused_inv_def owned_def)
  obtain w where w: "unusedFds st2 (pPreallocatedUnused f) = Some w" using pre(1) by blast
  let ?h = "h\<lparr>h_fd := - 1, pPreallocatedUnused := NULL\<rparr>"
  let ?i = "i\<lparr>pUnused := pPreallocatedUnused f # pUnused i\<rparr>"
  let ?j = "?i\<lparr>nRef := nRef i - 1\<rparr>"
  let ?st3 = "put_inode (pInode f) ?i st2"
  let ?st4 = "put_inode (pInode f) ?j ?st3"
  have tab: "table_ok st2" using inv2 by (simp add: files_inv_def)
  have at: "inode_at (pInode f) ?st3 = Some ?i" "inode_at (pInode f) ?st4 = Some ?j" using i by simp_all
  have nz: "pInode f \<noteq> NULL" using i by (auto simp: inode_at_def)
  obtain k os5 where um: "unixUnmapfile S ?h (us_os st2) = (k, os5)" by fastforce
  have k: "h_fd k = - 1" "pPreallocatedUnused k = NULL"
    using um by (auto simp: unixUnmapfile_def split: if_splits)
  have um': "unixUnmapfile (S\<lparr>osClose := c\<rparr>) ?h (us_os st2) = (k, os5)" for c
    by (simp only: unixUnmapfile_osClose um)
  let ?st5 = "?st4\<lparr>us_os := os5, unusedFds := (unusedFds st2)(NULL := None)\<rparr>"
  have rel: "releaseInodeInfo (S\<lparr>osClose := c\<rparr>) ?h ?st3 = Some ?st4" for c
    using at(1) nr nz sfD by (simp add: releaseInodeInfo_def Let_def del: inode_at_put)
  have cl: "closeUnixFile (S\<lparr>osClose := c\<rparr>) ?h ?st4 = (SQLITE_OK, zero_unixFile, ?st5)" for c
    by (simp add: closeUnixFile_def um' k)
  have "unixClose (S\<lparr>osClose := c\<rparr>) mem f st = Some (SQLITE_OK, zero_unixFile, ?st5)" for c
    using v u i nl w rel cl sfD by (simp add: unixClose_def verifyDbFile_osClose setPendingFd_def)
  moreover have "inode_at (pInode f) ?st5 = Some ?j" using at(2) nz by (simp add: inode_at_def del: inode_at_put)
  moreover have "unusedFds ?st5 (pPreallocatedUnused f) = unusedFds st (pPreallocatedUnused f)"
    using pre(2) U by simp
  ultimately show ?thesis using that by simp
qed

text \<open>Where the process holds no lock on the inode, the descriptor is closed at once.\<close>

lemma unixClose_closes:
  assumes inv: "files_inv (add_mset f R) st" and i: "inode_at (pInode f) st = Some i" "nLock i = 0"
    and h: "0 \<le> sint (h_fd f)" and run: "unixClose S mem f st = Some (rc, g, st')"
  shows "\<exists>os. us_os st' = robust_close S (h_fd f) os" and "unusedFds st' (pPreallocatedUnused f) = None"
proof -
  have "inode_inv (add_mset f R) (pInode f) i" using inv i(1) by (simp add: files_inv_def)
  then have "lock_inv i (add_mset (lock_level f) (levels (pInode f) R))" by (simp add: inode_inv_def)
  then have lf: "lock_level f \<le> NO_LOCK" using i(2) by (auto simp: lock_inv_def split: if_splits)
  obtain st1 where v: "verifyDbFile S mem f st = Some st1"
    using run by (auto simp: unixClose_def bind_eq_Some_iff)
  obtain os where st1: "st1 = st\<lparr>us_os := os\<rparr>" using verifyDbFile_os [OF v] by blast
  have i1: "inode_at (pInode f) st1 = Some i" using i(1) by (simp add: st1 inode_at_def split: if_splits)
  obtain st2 where "releaseInodeInfo S f st1 = Some st2" and c: "(rc, g, st') = closeUnixFile S f st2"
    using run v lf i1 i(2) by (auto simp: unixClose_def unixUnlock_def posixUnlock_def bind_eq_Some_iff)
  obtain k os3 where um: "unixUnmapfile S f (us_os st2) = (k, os3)" by fastforce
  have k: "h_fd k = h_fd f" "pPreallocatedUnused k = pPreallocatedUnused f"
    using um by (auto simp: unixUnmapfile_def split: if_splits)
  have "st' = st2\<lparr>us_os := robust_close S (h_fd f) os3,
      unusedFds := (unusedFds st2)(pPreallocatedUnused f := None)\<rparr>"
    using c h by (simp add: closeUnixFile_def um k)
  then show "\<exists>os. us_os st' = robust_close S (h_fd f) os" "unusedFds st' (pPreallocatedUnused f) = None"
    by auto
qed

text \<open>With its last handle the inode object goes.\<close>

lemma files_inv_gone:
  assumes inv: "files_inv R st" and no: "\<forall>g \<in># R. pInode g \<noteq> p" shows "inode_at p st = None"
proof (rule ccontr)
  assume "inode_at p st \<noteq> None"
  then obtain i where "inode_at p st = Some i" by blast
  with inv have "inode_inv R p i" by (simp add: files_inv_def)
  moreover have "on_inode p R = {#}" using no by (simp add: on_inode_def)
  ultimately show False by (auto simp: inode_inv_def)
qed

end
