(* ===== verification/Server_Open.thy ===== *)
theory Server_Open
  imports Server_Files
begin

text \<open>
  Opening a database on the server: a successful \<open>unixOpen\<close> adds an unlocked handle to
  the open files, a failed one leaves them as they were, whatever the kernel answers at each
  of its calls.
\<close>

section \<open>An object set aside\<close>

text \<open>
  Between its set-up and the end of \<open>unixOpen\<close> the object for the deferred descriptor
  belongs to nobody else.
\<close>

definition set_aside :: "ptr \<Rightarrow> unixFile multiset \<Rightarrow> 'os unix_state \<Rightarrow> bool" where
  "set_aside p F st \<longleftrightarrow> files_inv F st \<and> p \<in> dom (unusedFds st) \<and> p \<notin># owned F st"

lemma set_aside_os [simp]: "set_aside p F (st\<lparr>us_os := os\<rparr>) = set_aside p F st"
  by (simp add: set_aside_def owned_def)

lemma take_unused_cases:
  "take_unused U flags ps = Some (r, qs) \<Longrightarrow>
     (case r of None \<Rightarrow> qs = ps | Some p \<Rightarrow> mset ps = add_mset p (mset qs) \<and> p \<in> dom U)"
proof (induction ps arbitrary: r qs)
  case Nil
  then show ?case by auto
next
  case (Cons p ps)
  then show ?case
    by (fastforce simp: bind_eq_Some_iff split: if_splits option.splits)
qed

lemma files_inv_put_unused:
  assumes inv: "files_inv F st" and i: "inode_at p st = Some i"
    and own: "mset (pUnused i) = M + mset ps"
  shows "files_inv F (put_inode p (i\<lparr>pUnused := ps\<rparr>) st)"
    and "owned F st = owned F (put_inode p (i\<lparr>pUnused := ps\<rparr>) st) + M"
proof -
  let ?j = "i\<lparr>pUnused := ps\<rparr>" and ?st = "put_inode p (i\<lparr>pUnused := ps\<rparr>) st"
  have tab: "table_ok st" and un: "unused_inv F st"
    and ino: "\<And>p i. inode_at p st = Some i \<Longrightarrow> inode_inv F p i"
    and live: "\<And>f. f \<in># F \<Longrightarrow> inode_at (pInode f) st \<noteq> None"
    using inv by (auto simp: files_inv_def)
  have "deferred (inodeList ?st) + (M + mset ps) = deferred (inodeList st) + mset ps"
    using deferred_put_inode [OF tab i, of ?j] own by simp
  then show o: "owned F st = owned F ?st + M" by (simp add: owned_def ac_simps)
  have "table_ok ?st" using tab i by (rule table_ok_put_inode) simp_all
  moreover have "inode_inv F q k" if "inode_at q ?st = Some k" for q k
  proof (cases "q = p")
    case True
    then have "k = ?j" using that i by simp
    then show ?thesis using True ino [OF i] by (simp add: inode_inv_def lock_inv_def inode_level_def)
  next
    case False
    then show ?thesis using that ino by simp
  qed
  moreover have "inode_at (pInode f) ?st \<noteq> None" if "f \<in># F" for f using live [OF that] by auto
  moreover have "unused_inv F ?st"
  proof -
    have "count (owned F ?st) q \<le> 1" for q
    proof -
      have "count (owned F ?st + M) q \<le> 1" using un unfolding unused_inv_def o by blast
      then show ?thesis by simp
    qed
    moreover have "set_mset (owned F ?st) \<subseteq> dom (unusedFds st)"
      using un unfolding unused_inv_def o by simp
    ultimately show ?thesis using un by (simp add: unused_inv_def)
  qed
  ultimately show "files_inv F ?st" by (simp add: files_inv_def)
qed

lemma find_inode:
  assumes "table_ok st" and "find (\<lambda>(p, i). same_inode sb i) (inodeList st) = Some (p, i)"
  shows "inode_at p st = Some i"
proof -
  have "(p, i) \<in> set (inodeList st)" using assms(2) by (metis find_Some_iff nth_mem)
  then show ?thesis using assms(1) by (force simp: table_ok_def inode_at_def)
qed

lemma findReusableFd_files:
  assumes inv: "files_inv F st" and r: "findReusableFd S z flags st = Some (r, st')"
  shows "case r of None \<Rightarrow> files_inv F st' | Some p \<Rightarrow> set_aside p F st'"
proof (cases "inodeList st = []")
  case True
  then show ?thesis using assms by (auto simp: findReusableFd_def)
next
  case False
  obtain rc sb os where s: "osStat S z (us_os st) = (rc, sb, os)" by (rule prod_cases3) (rule that)
  show ?thesis
  proof (cases "rc \<noteq> 0 \<or> find (\<lambda>(p, i). same_inode sb i) (inodeList st) = None")
    case True
    then show ?thesis using assms s False by (auto simp: findReusableFd_def Let_def split: if_splits)
  next
    case found: False
    then obtain p i where f: "find (\<lambda>(p, i). same_inode sb i) (inodeList st) = Some (p, i)" by auto
    let ?st = "st\<lparr>us_os := os\<rparr>"
    have i: "inode_at p ?st = Some i" using find_inode [OF _ f] inv by (simp add: files_inv_def)
    obtain ps where t: "take_unused (unusedFds st) flags (pUnused i) = Some (r, ps)"
      and st': "st' = put_inode p (i\<lparr>pUnused := ps\<rparr>) ?st"
      using r s False found f by (auto simp: findReusableFd_def Let_def bind_eq_Some_iff)
    have inv1: "files_inv F ?st" using inv by simp
    show ?thesis
    proof (cases r)
      case None
      then have "mset (pUnused i) = {#} + mset ps" using take_unused_cases [OF t] by simp
      from files_inv_put_unused(1) [OF inv1 i this] None show ?thesis by (simp add: st')
    next
      case (Some q)
      then have m: "mset (pUnused i) = {#q#} + mset ps" and q: "q \<in> dom (unusedFds st)"
        using take_unused_cases [OF t] by simp_all
      note P = files_inv_put_unused [OF inv1 i m]
      have "count (owned F ?st) q \<le> 1" using inv1 by (simp add: files_inv_def unused_inv_def)
      then have "q \<notin># owned F st'" unfolding P(2) st' [symmetric] by (simp add: not_in_iff)
      then show ?thesis using P(1) q Some by (simp add: set_aside_def st')
    qed
  qed
qed

lemma files_inv_brk:
  assumes "files_inv F st" and "uint (us_brk st) \<le> uint b" and "uint b \<le> US_TOP"
  shows "files_inv F (st\<lparr>us_brk := b\<rparr>)"
proof -
  have tab: "table_ok st" and un: "unused_inv F st" using assms(1) by (auto simp: files_inv_def)
  have own: "owned F (st\<lparr>us_brk := b\<rparr>) = owned F st" by (simp add: owned_def)
  have le: "uint p < uint (us_brk st) \<Longrightarrow> uint p < uint b" for p using assms(2) by linarith
  have "table_ok (st\<lparr>us_brk := b\<rparr>)"
    using tab assms(2,3) le unfolding table_ok_def by (simp, blast)
  moreover have "unused_inv F (st\<lparr>us_brk := b\<rparr>)"
    using un le unfolding unused_inv_def own by (simp, blast)
  ultimately show ?thesis using assms(1) by (simp add: files_inv_def)
qed

lemma files_inv_entry:
  assumes inv: "files_inv F st" and p: "p \<noteq> NULL" "uint p < uint (us_brk st)"
  shows "files_inv F (st\<lparr>unusedFds := (unusedFds st)(p \<mapsto> u)\<rparr>)"
  using inv p by (auto simp: files_inv_def unused_inv_def owned_def)

lemma us_malloc_files:
  assumes "files_inv F st" and "us_malloc n st = (p, st')" and "0 < n"
  shows "files_inv F st'"
proof (cases "p = NULL")
  case True
  have "us_brk st \<noteq> 0" using assms(1) by (auto simp: files_inv_def table_ok_def)
  then show ?thesis using True assms by (auto simp: us_malloc_def split: if_splits)
next
  case False
  have tab: "table_ok st" using assms(1) by (simp add: files_inv_def)
  note M = us_mallocE [OF assms(2) False tab assms(3)]
  have "files_inv F (st\<lparr>us_brk := us_brk st'\<rparr>)"
    using files_inv_brk [OF assms(1), of "us_brk st'"] M(2,4) assms(3) by simp
  then show ?thesis using M(3) by simp
qed

lemma open_unused_files:
  assumes inv: "files_inv F st" and r: "open_unused S z flags st = Some (p, fd, st')"
  shows "if p = NULL then files_inv F st' else set_aside p F st'"
proof -
  obtain r1 st1 where f: "findReusableFd S z flags st = Some (r1, st1)"
    using r by (auto simp: open_unused_def bind_eq_Some_iff)
  note R = findReusableFd_files [OF inv f]
  show ?thesis
  proof (cases r1)
    case (Some q)
    then have "set_aside q F st1" using R by simp
    moreover from this have "q \<noteq> NULL" by (auto simp: set_aside_def files_inv_def unused_inv_def)
    ultimately show ?thesis using r f Some by (auto simp: open_unused_def bind_eq_Some_iff)
  next
    case None
    obtain q st2 where m: "us_malloc SIZE_UnixUnusedFd st1 = (q, st2)" by fastforce
    have inv1: "files_inv F st1" using R None by simp
    have tab: "table_ok st1" and un: "unused_inv F st1" using inv1 by (auto simp: files_inv_def)
    have inv2: "files_inv F st2" using us_malloc_files [OF inv1 m] by (simp add: SIZE_UnixUnusedFd_def)
    have pq: "p = q" and st': "st' = (if q = NULL then st2
        else st2\<lparr>unusedFds := (unusedFds st2)(q \<mapsto> \<lparr>uu_fd = 0, uu_flags = 0\<rparr>)\<rparr>)"
      using r f None m by (auto simp: open_unused_def)
    show ?thesis
    proof (cases "q = NULL")
      case True
      then show ?thesis using inv2 pq st' by simp
    next
      case False
      note M = us_mallocE [OF m False tab, unfolded SIZE_UnixUnusedFd_def, simplified]
      have "files_inv F st'" using files_inv_entry [OF inv2 False] M(1,2) False by (simp add: st')
      moreover have "owned F st' = owned F st1" using False M(3) by (simp add: st' owned_def)
          (metis unix_state.select_convs(2) unix_state.surjective unix_state.update_convs(4))
      moreover have "q \<notin># owned F st1" using un M(1) by (fastforce simp: unused_inv_def)
      ultimately show ?thesis using False pq by (simp add: set_aside_def st')
    qed
  qed
qed

section \<open>Setting up the handle\<close>

lemma set_aside_files_inv: "set_aside p F st \<Longrightarrow> files_inv F st"
  by (simp add: set_aside_def)

text \<open>The handle joins the open files with the object that was set aside for it.\<close>

lemma files_inv_join:
  assumes sa: "set_aside (pPreallocatedUnused f) F st" and lv: "lock_level f = NO_LOCK"
    and st': "unusedFds st' = unusedFds st" "deferred (inodeList st') = deferred (inodeList st)"
      "us_brk st \<le> us_brk st'"
    and tab: "table_ok st'"
    and at: "\<And>q. inode_at q st' = (if q = pInode f then Some j else inode_at q st)"
    and j: "lock_inv j (levels (pInode f) F)" "nRef j = int (size (on_inode (pInode f) F)) + 1"
  shows "files_inv (add_mset f F) st'"
proof -
  have ino: "\<And>p i. inode_at p st = Some i \<Longrightarrow> inode_inv F p i"
    and live: "\<And>g. g \<in># F \<Longrightarrow> inode_at (pInode g) st \<noteq> None" and un: "unused_inv F st"
    using sa by (auto simp: set_aside_def files_inv_def)
  have "inode_inv (add_mset f F) q k" if "inode_at q st' = Some k" for q k
    using that ino [of q k] j lv lock_inv_enter by (auto simp: at inode_inv_def split: if_splits)
  moreover have "inode_at (pInode g) st' \<noteq> None" if "g \<in># add_mset f F" for g
    using that live [of g] by (auto simp: at)
  moreover have "unused_inv (add_mset f F) st'"
  proof -
    have own: "owned (add_mset f F) st' = add_mset (pPreallocatedUnused f) (owned F st)"
      by (simp add: owned_def st')
    have le: "uint p < uint (us_brk st) \<Longrightarrow> uint p < uint (us_brk st')" for p
      using st'(3) by (simp add: word_le_def)
    have "count (owned F st) (pPreallocatedUnused f) = 0"
      using sa by (simp add: set_aside_def not_in_iff)
    then have "count (owned (add_mset f F) st') q \<le> 1" for q
      using un unfolding own unused_inv_def by auto
    moreover have "set_mset (owned (add_mset f F) st') \<subseteq> dom (unusedFds st')"
      using un sa unfolding own unused_inv_def st'(1) set_aside_def by simp
    ultimately show ?thesis using un le unfolding unused_inv_def st'(1) by blast
  qed
  ultimately show ?thesis using tab by (simp add: files_inv_def)
qed

lemma findInodeInfo_files:
  assumes sa: "set_aside (pPreallocatedUnused f) F st" and lv: "lock_level f = NO_LOCK"
    and r: "findInodeInfo S f st = (rc, f', st')"
  shows "if rc = SQLITE_OK then files_inv (add_mset f' F) st'
           \<and> (\<exists>p. f' = f\<lparr>pInode := p\<rparr>)
         else set_aside (pPreallocatedUnused f) F st' \<and> pPreallocatedUnused f' = pPreallocatedUnused f"
proof -
  obtain rc1 sb os where s: "osFstat S (h_fd f) (us_os st) = (rc1, sb, os)"
    by (rule prod_cases3) (rule that)
  let ?st = "st\<lparr>us_os := os\<rparr>"
  have sa1: "set_aside (pPreallocatedUnused f) F ?st" using sa by simp
  have tab: "table_ok ?st" and ino: "\<And>p i. inode_at p ?st = Some i \<Longrightarrow> inode_inv F p i"
    and live: "\<And>g. g \<in># F \<Longrightarrow> inode_at (pInode g) ?st \<noteq> None"
    using sa1 by (auto simp: set_aside_def files_inv_def)
  consider "rc1 \<noteq> 0"
    | p i where "rc1 = 0" "find (\<lambda>(p, i). same_inode sb i) (inodeList st) = Some (p, i)"
    | "rc1 = 0" "find (\<lambda>(p, i). same_inode sb i) (inodeList st) = None" by fastforce
  then show ?thesis
  proof cases
    case 1
    then show ?thesis using r s sa by (auto simp: findInodeInfo_def storeLastErrno_def)
  next
    case (2 p i)
    let ?j = "i\<lparr>nRef := nRef i + 1\<rparr>"
    have i: "inode_at p ?st = Some i" using find_inode [OF tab] 2 by simp
    have res: "rc = SQLITE_OK" "f' = f\<lparr>pInode := p\<rparr>" "st' = put_inode p ?j ?st"
      using r s 2 by (simp_all add: findInodeInfo_def Let_def)
    have "table_ok st'" unfolding res using tab i by (rule table_ok_put_inode) simp_all
    moreover have "deferred (inodeList st') = deferred (inodeList ?st)"
      using deferred_put_inode [OF tab i, of ?j] by (simp add: res)
    ultimately have "files_inv (add_mset f' F) st'"
      using ino [OF i] sa1 lv i
      by (intro files_inv_join [where st = ?st and j = ?j])
        (auto simp: res lock_level_def inode_inv_def lock_inv_def inode_level_def)
    then show ?thesis using res by auto
  next
    case 3
    obtain p st1 where m1: "us_malloc SIZE_unixInodeInfo ?st = (p, st1)" by fastforce
    obtain m st2 where m2: "us_malloc SIZE_mutex st1 = (m, st2)" by fastforce
    have i0: "files_inv F ?st" using sa1 by (rule set_aside_files_inv)
    have i1: "files_inv F st1" using us_malloc_files [OF i0 m1] by (simp add: SIZE_unixInodeInfo_def)
    have i2: "files_inv F st2" using us_malloc_files [OF i1 m2] by (simp add: SIZE_mutex_def)
    have same: "unusedFds st1 = unusedFds st" "inodeList st1 = inodeList st"
      "unusedFds st2 = unusedFds st" "inodeList st2 = inodeList st"
      using m1 m2 by (auto simp: us_malloc_def split: if_splits)
    have o: "owned F st1 = owned F st" "owned F st2 = owned F st" by (simp_all add: owned_def same)
    show ?thesis
    proof (cases "p = NULL \<or> m = NULL")
      case True
      then have "rc = SQLITE_NOMEM" "f' = f" "st' = (if p = NULL then st1 else st2)"
        using r s 3 m1 m2 by (auto simp: findInodeInfo_def Let_def split: if_splits)
      then show ?thesis using sa i1 i2 by (simp add: set_aside_def same o)
    next
      case False
      then have res: "rc = SQLITE_OK" "f' = f\<lparr>pInode := p\<rparr>"
        "st' = st2\<lparr>inodeList := (p, new_inode sb) # inodeList st\<rparr>"
        using r s 3 m1 m2 by (auto simp: findInodeInfo_def Let_def same)
      have tab1: "table_ok st1" using i1 by (simp add: files_inv_def)
      note M1 = us_mallocE [OF m1 _ tab, unfolded SIZE_unixInodeInfo_def, simplified]
      note M2 = us_mallocE [OF m2 _ tab1, unfolded SIZE_mutex_def, simplified]
      have brk: "uint p < uint (us_brk st2)" "uint (us_brk st) < uint (us_brk st2)"
        using M1(1,2) M2(2) False by simp_all
      have new: "inode_at p ?st = None"
      proof (rule ccontr)
        assume "inode_at p ?st \<noteq> None"
        then have "p \<in> fst ` set (inodeList st)"
          by (auto simp: inode_at_def split: if_splits dest!: map_of_SomeD intro: rev_image_eqI)
        then show False using tab M1(1) False by (auto simp: table_ok_def)
      qed
      have none: "on_inode p F = {#}" using live new by (fastforce simp: on_inode_def)
      have "table_ok st2" using i2 by (simp add: files_inv_def)
      then have "table_ok st'"
        using 3 False new brk(1)
        by (auto simp: res table_ok_def same inode_at_def new_inode_def find_None_iff same_inode_def
            map_of_eq_None_iff split: if_splits) blast
      then have "files_inv (add_mset f' F) st'"
        using sa1 lv False none brk
        by (intro files_inv_join [where st = ?st and j = "new_inode sb"])
          (auto simp: res lock_level_def levels_def same deferred_def new_inode_def inode_at_def
            lock_inv_def inode_level_def holders_def writers_def word_le_def)
      then show ?thesis using res by auto
    qed
  qed
qed

text \<open>A database is opened with locking.\<close>

lemma control_flags_database:
  "open_type flags0 = SQLITE_OPEN_MAIN_DB \<Longrightarrow> control_flags flags0 flags ro AND UNIXFILE_NOLOCK = 0"
  by (simp add: control_flags_def is_new_journal_def)

lemma fillInUnixFile_files:
  assumes sa: "set_aside (pPreallocatedUnused f) F st" and lv: "lock_level f = NO_LOCK"
    and ctrl: "ctrl AND UNIXFILE_NOLOCK = 0"
    and r: "fillInUnixFile S mem h f zp ctrl st = Some (rc, f', st')"
  shows "if rc = SQLITE_OK
         then files_inv (add_mset f' F) st' \<and> lock_level f' = NO_LOCK \<and>
              pMethod f' = posixIoMethods \<and> h_fd f' = h \<and> zPath f' = zp
         else set_aside (pPreallocatedUnused f) F st' \<and> pPreallocatedUnused f' = pPreallocatedUnused f"
proof -
  let ?f = "f\<lparr>h_fd := h, pVfs := aVfs_unix, zPath := zp, ctrlFlags := ctrl AND 0xFF,
               mmapSizeMax := SQLITE_DEFAULT_MMAP_SIZE\<rparr>"
  obtain zn psow where "(if ctrl AND UNIXFILE_URI \<noteq> 0 \<and> zp \<noteq> NULL then map_option Some (mem zp) else Some None) = Some zn"
    and "sqlite3_uri_boolean zn psow_param True = Some psow"
    using r unfolding fillInUnixFile_def Let_def by (auto simp: bind_eq_Some_iff)
  note zn = this
  define g where "g = (if psow then ?f\<lparr>ctrlFlags := ctrlFlags ?f OR UNIXFILE_PSOW\<rparr> else ?f)"
  have g: "pPreallocatedUnused g = pPreallocatedUnused f" "lock_level g = NO_LOCK" "h_fd g = h" "zPath g = zp"
    using lv by (simp_all add: g_def lock_level_def)
  obtain rc1 f1 st1 where fi: "findInodeInfo S g st = (rc1, f1, st1)" by (rule prod_cases3) (rule that)
  have sa': "set_aside (pPreallocatedUnused g) F st" using sa by (simp add: g)
  note R = findInodeInfo_files [OF sa' g(2) fi]
  have body: "(if rc1 \<noteq> SQLITE_OK
       then Some (rc1, storeLastErrno f1 0, st1\<lparr>us_os := robust_close S h (us_os st1)\<rparr>)
       else do {
         st \<leftarrow> verifyDbFile S mem ((storeLastErrno f1 0)\<lparr>pMethod := posixIoMethods\<rparr>) st1;
         Some (SQLITE_OK, (storeLastErrno f1 0)\<lparr>pMethod := posixIoMethods\<rparr>, st)
       }) = Some (rc, f', st')"
    using r zn ctrl fi unfolding g_def fillInUnixFile_def Let_def by simp
  show ?thesis
  proof (cases "rc1 = SQLITE_OK")
    case True
    let ?g = "(storeLastErrno f1 0)\<lparr>pMethod := posixIoMethods\<rparr>"
    obtain p where f1: "files_inv (add_mset f1 F) st1" "f1 = g\<lparr>pInode := p\<rparr>" using R True by auto
    obtain st2 where v: "verifyDbFile S mem ?g st1 = Some st2" and res: "rc = SQLITE_OK" "f' = ?g" "st' = st2"
      using body True by (cases "verifyDbFile S mem ?g st1") simp_all
    obtain os where "st2 = st1\<lparr>us_os := os\<rparr>" using verifyDbFile_os [OF v] by blast
    moreover have "files_inv (add_mset ?g F) st1"
      using files_inv_same [of ?g f1 F st1] f1(1) by (simp add: file_key_def storeLastErrno_def lock_level_def)
    moreover have "lock_level ?g = NO_LOCK" "h_fd ?g = h" "zPath ?g = zp"
      using f1(2) g by (simp_all add: storeLastErrno_def lock_level_def)
    ultimately show ?thesis by (simp add: res)
  next
    case False
    then show ?thesis using R body by (auto simp: g storeLastErrno_def)
  qed
qed

text \<open>What an open of a database ends with.\<close>

definition open_result ::
  "unixFile multiset \<Rightarrow> ptr \<Rightarrow> cint \<Rightarrow> unixFile \<Rightarrow> 'os unix_state \<Rightarrow> bool" where
  "open_result F zp rc f st \<longleftrightarrow>
     (if rc = SQLITE_OK
      then files_inv (add_mset f F) st \<and> lock_level f = NO_LOCK \<and> pMethod f = posixIoMethods \<and> zPath f = zp
      else files_inv F st)"

lemma set_aside_entry:
  assumes "set_aside p F st"
  shows "set_aside p F (st\<lparr>unusedFds := (unusedFds st)(p \<mapsto> u)\<rparr>)"
proof -
  have "p \<noteq> NULL" "uint p < uint (us_brk st)"
    using assms by (auto simp: set_aside_def files_inv_def unused_inv_def)
  then show ?thesis
    using assms files_inv_entry [of F st p u] by (simp add: set_aside_def owned_def)
qed

lemma set_aside_freed:
  assumes "set_aside p F st"
  shows "files_inv F (st\<lparr>unusedFds := (unusedFds st)(p := None)\<rparr>)"
  using assms files_inv_free [of F st p "st\<lparr>unusedFds := (unusedFds st)(p := None)\<rparr>"]
  by (simp add: set_aside_def)

lemma open_with_fd_files:
  assumes sa: "set_aside (pPreallocatedUnused f) F st" and lv: "lock_level f = NO_LOCK"
    and db: "open_type flags0 = SQLITE_OPEN_MAIN_DB"
    and r: "open_with_fd S mem zp z flags0 flags ro fd f st = Some (rc, f', st')"
  shows "open_result F zp rc f' st'"
proof -
  let ?p = "pPreallocatedUnused f"
  have nn: "?p \<noteq> NULL" using sa by (auto simp: set_aside_def files_inv_def unused_inv_def)
  define st1 where "st1 = st\<lparr>unusedFds := (unusedFds st)(?p \<mapsto> \<lparr>uu_fd = fd, uu_flags = flags\<rparr>)\<rparr>"
  define st2 where "st2 = (if flags0 AND SQLITE_OPEN_DELETEONCLOSE \<noteq> 0
      then st1\<lparr>us_os := snd (osUnlink S z (us_os st1))\<rparr> else st1)"
  have sa2: "set_aside ?p F st2" using set_aside_entry [OF sa] by (simp add: st1_def st2_def)
  obtain rc1 f1 st3 where fl: "fillInUnixFile S mem fd f zp (control_flags flags0 flags ro) st2 = Some (rc1, f1, st3)"
    and fin: "(rc, f', st') = open_finished (rc1, f1, st3)"
    using r nn by (auto simp: open_with_fd_def Let_def bind_eq_Some_iff st1_def [symmetric]
        st2_def [symmetric])
  note R = fillInUnixFile_files [OF sa2 lv control_flags_database [OF db] fl]
  show ?thesis
  proof (cases "rc1 = SQLITE_OK")
    case True
    then show ?thesis using R fin by (simp add: open_finished_def open_result_def)
  next
    case False
    then show ?thesis using R fin set_aside_freed [of ?p F st3]
      by (simp add: open_finished_def open_result_def)
  qed
qed

lemma open_new_failed:
  assumes "open_new S z flags mode os = Some (rc, fd, flags', ro, os')" and "sint fd < 0"
  shows "rc \<noteq> SQLITE_OK"
  using assms by (auto simp: open_new_def Let_def bind_eq_Some_iff split: if_splits prod.splits)

lemma open_fileE:
  assumes "open_file S mem zp z flags fd f st = Some (rc, f', out, st')"
  obtains (no_mode) os where "rc \<noteq> SQLITE_OK" "f' = f" "st' = st\<lparr>us_os := os\<rparr>"
  | (not_opened) os where "rc \<noteq> SQLITE_OK" "f' = f"
      "st' = st\<lparr>us_os := os, unusedFds := (unusedFds st)(pPreallocatedUnused f := None)\<rparr>"
  | (opened) fl ro fd' os where
      "open_with_fd S mem zp z flags fl ro fd' f (st\<lparr>us_os := os\<rparr>) = Some (rc, f', st')"
proof (cases "0 \<le> sint fd")
  case True
  then obtain ro where "open_with_fd S mem zp z flags flags ro fd f (st\<lparr>us_os := us_os st\<rparr>) = Some (rc, f', st')"
    using assms by (auto simp: open_file_def bind_eq_Some_iff)
  then show ?thesis by (rule opened)
next
  case F: False
  obtain rc1 mode uid gid os where m: "findCreateFileMode S z flags (us_os st) = Some (rc1, mode, uid, gid, os)"
    using assms F by (auto simp: open_file_def bind_eq_Some_iff)
  show ?thesis
  proof (cases "rc1 = SQLITE_OK")
    case False
    then show ?thesis using assms F m by (auto simp: open_file_def intro: no_mode)
  next
    case True
    obtain rc2 fd2 fl2 ro os2 where n: "open_new S z flags mode os = Some (rc2, fd2, fl2, ro, os2)"
      using assms F m True by (auto simp: open_file_def bind_eq_Some_iff)
    show ?thesis
    proof (cases "sint fd2 < 0")
      case neg: True
      show ?thesis using assms F m True n neg open_new_failed [OF n neg]
        by (auto simp: open_file_def open_finished_def intro: not_opened)
    next
      case False
      show ?thesis using assms F m True n False
        by (auto simp: open_file_def Let_def bind_eq_Some_iff intro: opened)
    qed
  qed
qed

lemma unixOpenE:
  assumes "unixOpen S mem zp flags st = Some (rc, f, out, st')"
  obtains pre fd z early st1 where "open_name S mem zp flags st = Some (pre, fd, z, early, st1)"
    "if early \<noteq> SQLITE_OK
     then (rc, f, out, st') = (early, zero_unixFile\<lparr>pPreallocatedUnused := pre\<rparr>, None, st1)
     else open_file S mem zp z flags fd (zero_unixFile\<lparr>pPreallocatedUnused := pre\<rparr>) st1 =
            Some (rc, f, out, st')"
proof -
  obtain pre fd z early st1 where n: "open_name S mem zp flags st = Some (pre, fd, z, early, st1)"
    using assms by (auto simp: unixOpen_def bind_eq_Some_iff)
  show ?thesis by (rule that [OF n]) (use assms n in \<open>auto simp: unixOpen_def Let_def split: if_splits\<close>)
qed

lemma open_name_files:
  assumes inv: "files_inv F st" and db: "open_type flags = SQLITE_OPEN_MAIN_DB"
    and r: "open_name S mem zp flags st = Some (pre, fd, z, early, st')"
  shows "if early = SQLITE_OK then set_aside pre F st' else files_inv F st'"
proof -
  obtain p where "open_unused S z flags st = Some (pre, fd, st')"
    and "early = (if pre = NULL then SQLITE_NOMEM else SQLITE_OK)"
    using r db by (auto simp: open_name_def bind_eq_Some_iff)
  then show ?thesis using open_unused_files [OF inv] by (auto split: if_splits)
qed

lemma unixOpen_files:
  assumes inv: "files_inv F st" and db: "open_type flags = SQLITE_OPEN_MAIN_DB"
    and r: "unixOpen S mem zp flags st = Some (rc, f, out, st')"
  shows "open_result F zp rc f st'"
proof -
  obtain pre fd z early st1 where n: "open_name S mem zp flags st = Some (pre, fd, z, early, st1)"
    and o: "if early \<noteq> SQLITE_OK
     then (rc, f, out, st') = (early, zero_unixFile\<lparr>pPreallocatedUnused := pre\<rparr>, None, st1)
     else open_file S mem zp z flags fd (zero_unixFile\<lparr>pPreallocatedUnused := pre\<rparr>) st1 =
            Some (rc, f, out, st')"
    by (rule unixOpenE [OF r]) (rule that)
  note N = open_name_files [OF inv db n]
  show ?thesis
  proof (cases "early = SQLITE_OK")
    case False
    then show ?thesis using o N by (simp add: open_result_def)
  next
    case True
    then have sa: "set_aside pre F st1" using N by simp
    let ?f = "zero_unixFile\<lparr>pPreallocatedUnused := pre\<rparr>"
    have "open_file S mem zp z flags fd ?f st1 = Some (rc, f, out, st')" using o True by simp
    then show ?thesis
    proof (cases rule: open_fileE)
      case (no_mode os)
      then show ?thesis using set_aside_files_inv [OF sa] by (simp add: open_result_def)
    next
      case (not_opened os)
      then show ?thesis
        using set_aside_freed [of pre F "st1\<lparr>us_os := os\<rparr>"] sa by (simp add: open_result_def)
    next
      case (opened fl ro fd' os)
      show ?thesis by (rule open_with_fd_files [OF _ _ db opened])
        (use sa in \<open>simp_all add: lock_level_def zero_unixFile_def\<close>)
    qed
  qed
qed

text \<open>An open that fails leaves the handle without a method table.\<close>

lemma findInodeInfo_method: "findInodeInfo S f st = (rc, f', st') \<Longrightarrow> pMethod f' = pMethod f"
  by (auto simp: findInodeInfo_def Let_def split: if_splits prod.splits option.splits)

lemma fillInUnixFile_failed:
  assumes "fillInUnixFile S mem h f zp ctrl st = Some (rc, f', st')" and "rc \<noteq> SQLITE_OK"
  shows "pMethod f' = pMethod f"
  using assms
  by (auto simp: fillInUnixFile_def Let_def bind_eq_Some_iff split: if_splits prod.splits
      dest!: findInodeInfo_method)

lemma open_with_fd_failed:
  assumes "open_with_fd S mem zp z flags0 flags ro fd f st = Some (rc, f', st')" and "rc \<noteq> SQLITE_OK"
  shows "pMethod f' = pMethod f"
proof -
  obtain st1 rc1 f1 st2 where fl: "fillInUnixFile S mem fd f zp (control_flags flags0 flags ro) st1 = Some (rc1, f1, st2)"
    and o: "(rc, f', st') = open_finished (rc1, f1, st2)"
    using assms(1) by (auto simp: open_with_fd_def Let_def bind_eq_Some_iff)
  then have "rc1 \<noteq> SQLITE_OK" "pMethod f' = pMethod f1"
    using assms(2) by (auto simp: open_finished_def split: if_splits)
  then show ?thesis using fillInUnixFile_failed [OF fl] by simp
qed

lemma unixOpen_failed:
  assumes r: "unixOpen S mem zp flags st = Some (rc, f, out, st')" and nz: "rc \<noteq> SQLITE_OK"
  shows "pMethod f = NULL"
proof -
  obtain pre fd z early st1 where o: "if early \<noteq> SQLITE_OK
     then (rc, f, out, st') = (early, zero_unixFile\<lparr>pPreallocatedUnused := pre\<rparr>, None, st1)
     else open_file S mem zp z flags fd (zero_unixFile\<lparr>pPreallocatedUnused := pre\<rparr>) st1 =
            Some (rc, f, out, st')"
    by (rule unixOpenE [OF r]) (rule that)
  have z: "pMethod (zero_unixFile\<lparr>pPreallocatedUnused := pre\<rparr>) = NULL" by (simp add: zero_unixFile_def)
  show ?thesis
  proof (cases "early = SQLITE_OK")
    case False
    then show ?thesis using o z by simp
  next
    case True
    then have "open_file S mem zp z flags fd (zero_unixFile\<lparr>pPreallocatedUnused := pre\<rparr>) st1 =
            Some (rc, f, out, st')" using o by simp
    then show ?thesis
    proof (cases rule: open_fileE)
      case (opened fl ro fd' os)
      show ?thesis using open_with_fd_failed [OF opened nz] z by simp
    qed (use z in simp_all)
  qed
qed

section \<open>Opening a file without locking\<close>

text \<open>A journal or temporary file has no inode object and no descriptor to defer.\<close>

lemma NULL_not_owned: "files_inv F st \<Longrightarrow> NULL \<notin># owned F st"
  by (auto simp: files_inv_def unused_inv_def)

lemma files_inv_free_NULL:
  "files_inv F st \<Longrightarrow> files_inv F (st\<lparr>unusedFds := (unusedFds st)(NULL := None)\<rparr>)"
  by (rule files_inv_free [where st = st and p = NULL]) (simp_all add: NULL_not_owned)

lemma control_flags_other:
  "open_type flags0 \<noteq> SQLITE_OPEN_MAIN_DB \<Longrightarrow> control_flags flags0 flags ro AND UNIXFILE_NOLOCK \<noteq> 0"
  by (simp add: control_flags_def)

definition other_result :: "unixFile multiset \<Rightarrow> cint \<Rightarrow> unixFile \<Rightarrow> 'os unix_state \<Rightarrow> bool" where
  "other_result F rc f st \<longleftrightarrow> files_inv F st \<and>
     (rc = SQLITE_OK \<longrightarrow> pInode f = NULL \<and> pPreallocatedUnused f = NULL \<and> pMethod f = nolockIoMethods)"

lemma open_with_fd_other:
  assumes inv: "files_inv F st" and db: "open_type flags0 \<noteq> SQLITE_OPEN_MAIN_DB"
    and f: "pPreallocatedUnused f = NULL" "pInode f = NULL"
    and r: "open_with_fd S mem zp z flags0 flags ro fd f st = Some (rc, f', st')"
  shows "other_result F rc f' st'"
proof -
  define st2 where "st2 = (if flags0 AND SQLITE_OPEN_DELETEONCLOSE \<noteq> 0
      then st\<lparr>us_os := snd (osUnlink S z (us_os st))\<rparr> else st)"
  have inv2: "files_inv F st2" using inv by (simp add: st2_def)
  obtain rc1 f1 st3 where fl: "fillInUnixFile S mem fd f zp (control_flags flags0 flags ro) st2 = Some (rc1, f1, st3)"
    and fin: "(rc, f', st') = open_finished (rc1, f1, st3)"
    using r f by (auto simp: open_with_fd_def Let_def bind_eq_Some_iff st2_def [symmetric])
  have v: "rc1 = SQLITE_OK \<and> pInode f1 = NULL \<and> pPreallocatedUnused f1 = NULL \<and>
      pMethod f1 = nolockIoMethods \<and> (\<exists>os. st3 = st2\<lparr>us_os := os\<rparr>)"
    using fl control_flags_other [OF db, of flags ro] f
    by (auto simp: fillInUnixFile_def Let_def bind_eq_Some_iff storeLastErrno_def
        dest: verifyDbFile_os split: if_splits)
  then show ?thesis using fin inv2 by (auto simp: open_finished_def other_result_def)
qed

lemma unixOpen_other:
  assumes inv: "files_inv F st" and db: "open_type flags \<noteq> SQLITE_OPEN_MAIN_DB"
    and r: "unixOpen S mem zp flags st = Some (rc, f, out, st')"
  shows "other_result F rc f st'"
proof -
  obtain pre fd z early st1 where n: "open_name S mem zp flags st = Some (pre, fd, z, early, st1)"
    and o: "if early \<noteq> SQLITE_OK
     then (rc, f, out, st') = (early, zero_unixFile\<lparr>pPreallocatedUnused := pre\<rparr>, None, st1)
     else open_file S mem zp z flags fd (zero_unixFile\<lparr>pPreallocatedUnused := pre\<rparr>) st1 =
            Some (rc, f, out, st')"
    by (rule unixOpenE [OF r]) (rule that)
  have N: "files_inv F st1" "pre = NULL"
    using n db inv by (auto simp: open_name_def bind_eq_Some_iff split: option.split_asm prod.split_asm)
  show ?thesis
  proof (cases "early = SQLITE_OK")
    case False
    then show ?thesis using o N by (simp add: other_result_def)
  next
    case True
    let ?f = "zero_unixFile\<lparr>pPreallocatedUnused := pre\<rparr>"
    have "open_file S mem zp z flags fd ?f st1 = Some (rc, f, out, st')" using o True by simp
    then show ?thesis
    proof (cases rule: open_fileE)
      case (no_mode os)
      then show ?thesis using N by (simp add: other_result_def)
    next
      case (not_opened os)
      then show ?thesis
        using files_inv_free_NULL [of F "st1\<lparr>us_os := os\<rparr>"] N by (simp add: other_result_def)
    next
      case (opened fl ro fd' os)
      show ?thesis by (rule open_with_fd_other [OF _ db _ _ opened])
        (use N in \<open>simp_all add: zero_unixFile_def\<close>)
    qed
  qed
qed

end
