(* ===== verification/Server_Call.thy ===== *)
theory Server_Call
  imports Server_Wrap Server_Open
begin

text \<open>
  What the handlers rely on: the functions of \<open>os_unix.c\<close> they call keep the descriptor,
  the method table and the name of a handle, and all but locking, opening and closing keep the
  open files. Stated as two interfaces and shown for every call.
\<close>

section \<open>What a call changes of a handle\<close>

definition same_handle :: "unixFile \<Rightarrow> unixFile \<Rightarrow> bool" where
  "same_handle f g \<longleftrightarrow> h_fd g = h_fd f \<and> pMethod g = pMethod f \<and> zPath g = zPath f"

definition only_errno :: "unixFile \<Rightarrow> unixFile \<Rightarrow> bool" where
  "only_errno f g \<longleftrightarrow> g\<lparr>lastErrno := lastErrno f\<rparr> = f"

lemma only_errno_simps [simp]:
  "only_errno f f" "only_errno f (storeLastErrno g e) = only_errno f g"
  "only_errno f (g\<lparr>lastErrno := e\<rparr>) = only_errno f g"
  by (simp_all add: only_errno_def storeLastErrno_def)

lemma only_errno_trans: "only_errno f g \<Longrightarrow> only_errno g h \<Longrightarrow> only_errno f h"
  by (cases f; cases g; cases h) (simp add: only_errno_def)

lemma only_errnoD:
  "only_errno f g \<Longrightarrow> same_handle f g \<and> file_key g = file_key f"
  by (cases f; cases g) (simp add: only_errno_def same_handle_def file_key_def lock_level_def)

lemma same_file_handle: "same_file f g \<Longrightarrow> same_handle f g"
  by (drule same_fileD) (simp add: same_handle_def)

lemma same_handle_refl [simp]: "same_handle f f"
  by (simp add: same_handle_def)

section \<open>Reading and writing\<close>

lemma seekAndRead_handle:
  assumes "seekAndRead S f offset buf pos cnt prior os = Some r"
  shows "only_errno f (fst (snd r))"
proof (rule seekAndRead.raw_induct [where P = "\<lambda>S f offset buf pos cnt prior os r.
    only_errno f (fst (snd r))", OF _ assms])
qed (auto split: prod.splits if_splits simp: bind_eq_Some_iff)

lemma read_file_handle:
  "read_file S f buf pos amt offset os = Some (rc, g, buf', os') \<Longrightarrow> only_errno f g"
  by (auto simp: read_file_def bind_eq_Some_iff split: if_splits dest: seekAndRead_handle)

lemma unixRead_handle: "unixRead S f buf amt offset os = Some (rc, g, buf', os') \<Longrightarrow> only_errno f g"
  by (auto simp: unixRead_def bind_eq_Some_iff Let_def split: if_splits dest: read_file_handle)

lemma seekAndWrite_handle: "seekAndWrite S f offset buf pos cnt os = Some (n, g, os') \<Longrightarrow> only_errno f g"
  by (auto simp: seekAndWrite_def bind_eq_Some_iff)

lemma unixWrite_loop_handle:
  assumes "unixWrite_loop S f buf pos amt offset os = Some r"
  shows "only_errno f (fst (snd (snd r)))"
proof (rule unixWrite_loop.raw_induct [where P = "\<lambda>S f buf pos amt offset os r.
    only_errno f (fst (snd (snd r)))", OF _ assms])
qed (auto simp: bind_eq_Some_iff split: if_splits dest!: seekAndWrite_handle intro: only_errno_trans)

lemma unixWrite_handle: "unixWrite S f buf amt offset os = Some (rc, g, os') \<Longrightarrow> only_errno f g"
  by (auto simp: unixWrite_def bind_eq_Some_iff split: if_splits dest!: unixWrite_loop_handle)

section \<open>The other file calls\<close>

lemma unixUnmapfile_handle: "unixUnmapfile S f os = (g, os') \<Longrightarrow> same_handle f g \<and> file_key g = file_key f"
  by (auto simp: unixUnmapfile_def same_handle_def file_key_def lock_level_def split: if_splits)

lemma unixRemapfile_handle: "unixRemapfile S f n os = (g, os') \<Longrightarrow> same_handle f g \<and> file_key g = file_key f"
  by (auto simp: unixRemapfile_def same_handle_def file_key_def lock_level_def
      split: if_splits prod.splits)

lemma unixMapfile_handle: "unixMapfile S f n os = (rc, g, os') \<Longrightarrow> same_handle f g \<and> file_key g = file_key f"
  by (auto simp: unixMapfile_def Let_def split: if_splits prod.splits dest: unixRemapfile_handle)

lemma unixTruncate_handle:
  "unixTruncate S f n os = Some (rc, g, os') \<Longrightarrow> same_handle f g \<and> file_key g = file_key f"
  by (auto simp: unixTruncate_def Let_def bind_eq_Some_iff same_handle_def file_key_def lock_level_def
      storeLastErrno_def split: if_splits)

lemma unixSync_handle:
  "unixSync S mem f flags os = Some (rc, g, os') \<Longrightarrow> same_handle f g \<and> file_key g = file_key f"
  by (auto simp: unixSync_def Let_def bind_eq_Some_iff same_handle_def file_key_def lock_level_def
      storeLastErrno_def split: if_splits prod.splits)

lemma unixFileSize_handle:
  "unixFileSize S f n os = (rc, n', g, os') \<Longrightarrow> same_handle f g \<and> file_key g = file_key f"
  by (auto simp: unixFileSize_def same_handle_def file_key_def lock_level_def storeLastErrno_def
      split: if_splits prod.splits)

lemma setDeviceCharacteristics_handle:
  "same_handle f (setDeviceCharacteristics f)" "file_key (setDeviceCharacteristics f) = file_key f"
  by (simp_all add: setDeviceCharacteristics_def same_handle_def file_key_def lock_level_def)

lemma unixFetch_handle:
  "unixFetch S f iOff n os = (rc, p, g, os') \<Longrightarrow> same_handle f g \<and> file_key g = file_key f"
  by (auto simp: unixFetch_def split: if_splits prod.splits dest!: unixMapfile_handle
      simp: same_handle_def file_key_def lock_level_def)

lemma unixUnfetch_handle:
  "unixUnfetch S f p os = (rc, g, os') \<Longrightarrow> same_handle f g \<and> file_key g = file_key f"
  by (auto simp: unixUnfetch_def split: if_splits prod.splits dest!: unixUnmapfile_handle
      simp: same_handle_def file_key_def lock_level_def)

lemma size_hint_loop_handle:
  assumes "size_hint_loop S f iWrite nSize nBlk os = Some r"
  shows "only_errno f (fst (snd r))"
proof (rule size_hint_loop.raw_induct [where P = "\<lambda>S f iWrite nSize nBlk os r.
    only_errno f (fst (snd r))", OF _ assms])
qed (auto simp: bind_eq_Some_iff split: if_splits dest!: seekAndWrite_handle intro: only_errno_trans)

lemma fcntlSizeHint_handle:
  assumes "fcntlSizeHint S f n os = Some (rc, g, os')"
  shows "same_handle f g \<and> file_key g = file_key f"
proof -
  obtain rc1 f1 os1 where r1: "(if 0 < sint (szChunk f) then size_hint_grow S f n os else Some (SQLITE_OK, f, os)) =
      Some (rc1, f1, os1)"
    and r2: "(if rc1 \<noteq> SQLITE_OK then Some (rc1, f1, os1) else size_hint_map S f1 n os1) = Some (rc, g, os')"
    using assms by (auto simp: fcntlSizeHint_def bind_eq_Some_iff)
  have "only_errno f f1"
    using r1 by (auto simp: size_hint_grow_def Let_def split: if_splits prod.splits dest: size_hint_loop_handle)
  then have "same_handle f f1 \<and> file_key f1 = file_key f" by (rule only_errnoD)
  moreover have "same_handle f1 g \<and> file_key g = file_key f1"
    using r2 by (auto simp: size_hint_map_def bind_eq_Some_iff only_errnoD split: if_splits
        dest: unixMapfile_handle)
  ultimately show ?thesis by (simp add: same_handle_def)
qed

lemma control_mmap_size_handle:
  "control_mmap_size S f v os = (rc, old, g, os') \<Longrightarrow> same_handle f g \<and> file_key g = file_key f"
  by (auto simp: control_mmap_size_def Let_def split: if_splits prod.splits
      dest!: unixMapfile_handle unixUnmapfile_handle
      simp: same_handle_def file_key_def lock_level_def)

lemma new_string_files:
  "snd (new_string z st strs) = (st', strs') \<Longrightarrow> files_inv F st \<Longrightarrow> files_inv F st'"
  by (auto simp: new_string_def split: prod.splits dest: us_malloc_files)

lemma unixModeBit_handle:
  "same_handle f (fst (unixModeBit f bits v))" "file_key (fst (unixModeBit f bits v)) = file_key f"
  by (simp_all add: unixModeBit_def same_handle_def file_key_def lock_level_def)

lemma control_mmap_size_view:
  "same_handle f (fst (snd (snd (control_mmap_size S f v os))))"
  "file_key (fst (snd (snd (control_mmap_size S f v os)))) = file_key f"
  using control_mmap_size_handle [of S f v os] by (cases "control_mmap_size S f v os"; simp)+

lemma szChunk_handle: "same_handle f (f\<lparr>szChunk := v\<rparr>)" "file_key (f\<lparr>szChunk := v\<rparr>) = file_key f"
  by (simp_all add: same_handle_def file_key_def lock_level_def)

lemmas control_views = unixModeBit_handle control_mmap_size_view szChunk_handle

lemma unixFileControl_handle:
  assumes "unixFileControl S mem f op pArg st strs = Some (rc, g, pArg', st', strs')"
  shows "same_handle f g" and "file_key g = file_key f" and "files_inv F st \<Longrightarrow> files_inv F st'"
proof -
  have "same_handle f g \<and> file_key g = file_key f"
    using assms
    by (auto simp: unixFileControl_def bind_eq_Some_iff Let_def split_beta control_views split: if_splits
        dest!: fcntlSizeHint_handle)
  then show "same_handle f g" "file_key g = file_key f" by simp_all
  show "files_inv F st'" if "files_inv F st"
    using assms that
    by (auto simp: unixFileControl_def bind_eq_Some_iff Let_def split_beta split: if_splits
        dest!: fileHasMoved_os dest: new_string_files)
qed

section \<open>Locking\<close>

lemma unixLock_finish_file: "same_file f g \<Longrightarrow> same_file f (fst (snd (unixLock_finish e (rc, g, i, os))))"
  by (simp add: unixLock_finish_def)

lemma unixLock_locked_file: "same_file f (fst (snd (unixLock_locked S f e i os)))"
proof -
  obtain rc1 f1 i1 os1 where p: "unixLock_pending S f e i os = (rc1, f1, i1, os1)"
    by (rule prod_cases4) (rule that)
  obtain rc2 f2 i2 os2 where s: "unixLock_shared S f1 i1 os1 = (rc2, f2, i2, os2)"
    by (rule prod_cases4) (rule that)
  obtain rc3 f3 i3 os3 where w: "unixLock_write S f1 e i1 os1 = (rc3, f3, i3, os3)"
    by (rule prod_cases4) (rule that)
  have "same_file f f1" using unixLock_pending_facts [OF p] by simp
  moreover have "same_file f1 f2" using unixLock_shared_facts [OF s] by blast
  moreover have "same_file f1 f3" using unixLock_write_facts(1) [OF w] by simp
  ultimately have "same_file f f1" "same_file f f2" "same_file f f3"
    using same_file_trans by blast+
  then show ?thesis by (simp add: unixLock_locked_def p s w unixLock_finish_file)
qed

lemma unixLock_handle: "unixLock S f e st = Some (rc, g, st') \<Longrightarrow> same_handle f g"
  using unixLock_locked_file [of f S e _ "us_os st"]
  by (auto simp: unixLock_def bind_eq_Some_iff split_beta same_file_handle split: if_splits)

lemma unixUnlock_handle:
  assumes "unixUnlock S f e st = Some (rc, g, st')"
  shows "same_handle f g"
proof (cases "lock_level f \<le> e")
  case True
  then show ?thesis using assms by (simp add: unixUnlock_def posixUnlock_def)
next
  case False
  then obtain i j U os where "posixUnlock_locked S f e i (unusedFds st) (us_os st) = Some (rc, g, j, U, os)"
    using assms by (auto simp: unixUnlock_def posixUnlock_def bind_eq_Some_iff)
  note r = this
  obtain rc1 f1 i1 os1 where 1: "(if SHARED_LOCK < lock_level f then posixUnlock_downgrade S f e i (us_os st)
      else (SQLITE_OK, f, i, us_os st)) = (rc1, f1, i1, os1)"
    by (rule prod_cases4) (rule that)
  have f1: "same_file f f1" using 1 by (auto split: if_splits dest: posixUnlock_downgrade_facts)
  show ?thesis
  proof (cases "rc1 = SQLITE_OK")
    case False
    then have "g = f1" using r by (simp add: posixUnlock_locked_def 1)
    then show ?thesis using f1 by (simp add: same_file_handle)
  next
    case True
    then obtain rc2 f2 i2 U2 os2 where 2: "(if e = NO_LOCK then posixUnlock_release S f1 i1 (unusedFds st) os1
        else Some (SQLITE_OK, f1, i1, unusedFds st, os1)) = Some (rc2, f2, i2, U2, os2)"
      and g: "g = (if rc2 = SQLITE_OK then set_level e f2 else f2)"
      using r by (force simp: posixUnlock_locked_def 1 bind_eq_Some_iff)
    have "same_file f1 f2"
    proof (cases "e = NO_LOCK")
      case True
      then have "posixUnlock_release S f1 i1 (unusedFds st) os1 = Some (rc2, f2, i2, U2, os2)"
        using 2 by simp
      from posixUnlock_release_facts [OF this] show ?thesis by blast
    qed (use 2 in simp)
    then have "same_file f f2" by (rule same_file_trans [OF f1])
    then show ?thesis by (simp add: g same_file_handle)
  qed
qed

lemma unixCheckReservedLock_handle:
  assumes "unixCheckReservedLock S f st = Some (rc, res, g, st')"
  shows "only_errno f g" and "\<exists>os. st' = st\<lparr>us_os := os\<rparr>"
proof -
  obtain i where i: "inode_at (pInode f) st = Some i"
    using assms by (auto simp: unixCheckReservedLock_def bind_eq_Some_iff)
  obtain rc1 lk os where k: "osGetlk S (h_fd f) (file_lock F_WRLCK RESERVED_BYTE 1) (us_os st) = (rc1, lk, os)"
    by (rule prod_cases3) (rule that)
  show "only_errno f g" "\<exists>os. st' = st\<lparr>us_os := os\<rparr>"
    using assms by (auto simp: unixCheckReservedLock_def i k Let_def same_but_os split: if_splits)
qed

section \<open>A handler on a known descriptor\<close>

text \<open>The handle a handler works on: the client's with the server's method table and name.\<close>

definition server_view :: "'os server \<Rightarrow> unixFile \<Rightarrow> unixFile" where
  "server_view sv f = (case lookup_file f sv of None \<Rightarrow> f | Some (g, _) \<Rightarrow> g)"

text \<open>The server after the method table has been recorded.\<close>

definition settle :: "unixFile \<Rightarrow> 'os server \<Rightarrow> 'os server" where
  "settle f sv = (case AddNode (h_fd f) (pMethod f) (sv_list sv) of
                    None \<Rightarrow> sv | Some ml \<Rightarrow> sv\<lparr>sv_list := ml\<rparr>)"

lemma settle_unix [simp]: "sv_unix (settle f sv) = sv_unix sv" "sv_strs (settle f sv) = sv_strs sv"
  by (simp_all add: settle_def split: option.splits)

lemma served_file:
  fixes sv :: "'os server"
  assumes inv: "ml_inv (sv_list sv)" and sd: "served (sv_list sv) (h_fd f)"
  obtains m p a where "ml_lookup (sv_list sv) (h_fd f) = Some (m, p)"
    "server_view sv f = f\<lparr>pMethod := served_method m, zPath := a\<rparr>"
    "lookup_file f sv = Some (server_view sv f, sv)" "server_mem sv a = Some p"
    "\<And>g (sv' :: 'os server). same_handle (server_view sv f) g \<Longrightarrow> sv_list sv' = sv_list sv \<Longrightarrow>
       record_file g sv' = Some (settle g sv') \<and> ml_inv (sv_list (settle g sv')) \<and>
       ml_lookup (sv_list (settle g sv')) = (ml_lookup (sv_list sv))(h_fd f \<mapsto> (served_method m, p)) \<and>
       (m \<noteq> NULL \<longrightarrow> settle g sv' = sv')"
proof -
  obtain m p z where lk: "ml_lookup (sv_list sv) (h_fd f) = Some (m, p)"
    and z: "c_string p = Some z" "length z \<le> PATH_LEN"
    using sd by (auto simp: served_def split: option.splits)
  obtain a ml' where K: "path_at (sv_list sv) (a + OFFSET_path) = Some p"
    "\<And>g. getServerUnixPMethods (h_fd f) g (sv_list sv) = Some (g\<lparr>pMethod := served_method m\<rparr>, sv_list sv)"
    "\<And>g. getServicePath (h_fd f) g (sv_list sv) = Some (g\<lparr>zPath := a + OFFSET_path\<rparr>, sv_list sv)"
    "AddNode (h_fd f) (served_method m) (sv_list sv) = Some ml'" "path_at ml' (a + OFFSET_path) = Some p"
    "setServicePath (h_fd f) p ml' = Some ml'" "ml_inv ml'"
    "ml_lookup ml' = (ml_lookup (sv_list sv))(h_fd f \<mapsto> (served_method m, p))"
    "m \<noteq> NULL \<Longrightarrow> ml' = sv_list sv"
    by (rule known_descriptor [OF inv lk z]) (rule that)
  have l: "lookup_file f sv = Some (f\<lparr>pMethod := served_method m, zPath := a + OFFSET_path\<rparr>, sv)"
    by (simp add: lookup_file_def K)
  have v: "server_view sv f = f\<lparr>pMethod := served_method m, zPath := a + OFFSET_path\<rparr>"
    by (simp add: server_view_def l)
  show ?thesis
  proof (rule that [OF lk v])
    show "lookup_file f sv = Some (server_view sv f, sv)" by (simp add: l v)
    show "server_mem sv (a + OFFSET_path) = Some p" by (simp add: server_mem_def K)
  next
    fix g and sv' :: "'os server"
    assume g: "same_handle (server_view sv f) g" and s: "sv_list sv' = sv_list sv"
    have "h_fd g = h_fd f" "pMethod g = served_method m" "zPath g = a + OFFSET_path"
      using g by (simp_all add: v same_handle_def)
    then show "record_file g sv' = Some (settle g sv') \<and> ml_inv (sv_list (settle g sv')) \<and>
       ml_lookup (sv_list (settle g sv')) = (ml_lookup (sv_list sv))(h_fd f \<mapsto> (served_method m, p)) \<and>
       (m \<noteq> NULL \<longrightarrow> settle g sv' = sv')"
      using K s by (simp add: record_file_def setServerUnixPMethods_def settle_def)
  qed
qed

lemma server_view_key [simp]:
  assumes "ml_inv (sv_list sv)" and "served (sv_list sv) (h_fd f)"
  shows "file_key (server_view sv f) = file_key f" "h_fd (server_view sv f) = h_fd f"
proof -
  obtain m a where "server_view sv f = f\<lparr>pMethod := served_method m, zPath := a\<rparr>"
    by (rule served_file [OF assms]) (rule that)
  then show "file_key (server_view sv f) = file_key f" "h_fd (server_view sv f) = h_fd f"
    by (simp_all add: file_key_def lock_level_def)
qed

text \<open>
  The interface between the handlers and the functions they call: a call keeps the descriptor,
  the method table and the name, and does not touch the list.
\<close>

locale file_call =
  fixes call :: "unixFile \<Rightarrow> 'x \<Rightarrow> 'os server \<Rightarrow> (unixFile \<times> 'y \<times> 'os server) option"
  assumes keeps_handle: "call f x sv = Some (g, y, sv') \<Longrightarrow> same_handle f g"
    and keeps_list: "call f x sv = Some (g, y, sv') \<Longrightarrow> sv_list sv' = sv_list sv"
begin

text \<open>A handler is the call on the server's view of the handle, between unpacking and packing.\<close>

lemma handled:
  assumes "ml_inv (sv_list sv)" and "unpack argIn = Some (f, x)" and "served (sv_list sv) (h_fd f)"
  shows "handle unpack call pack argIn argOut sv =
    do { (g, y, sv') \<leftarrow> call (server_view sv f) x sv;
         r \<leftarrow> pack g y argOut; Some (r, settle g sv') }"
proof -
  have S: "lookup_file f sv = Some (server_view sv f, sv)"
    "\<And>g sv' :: 'os server. same_handle (server_view sv f) g \<Longrightarrow> sv_list sv' = sv_list sv \<Longrightarrow>
       record_file g sv' = Some (settle g sv')"
    by (rule served_file [OF assms(1,3)], assumption) (rule served_file [OF assms(1,3)], blast)
  show ?thesis
  proof (cases "call (server_view sv f) x sv")
    case None
    then show ?thesis by (simp add: handle_def assms(2) S(1))
  next
    case (Some r)
    obtain g y sv' where r: "r = (g, y, sv')" by (rule prod_cases3) (rule that)
    note c = Some [unfolded r]
    have "record_file g sv' = Some (settle g sv')"
      by (rule S(2) [OF keeps_handle [OF c] keeps_list [OF c]])
    then show ?thesis by (simp add: handle_def assms(2) S(1) c)
  qed
qed

end

text \<open>A call that also keeps the open files and the fields of a handle that name its place there.\<close>

locale quiet_call = file_call call
  for call :: "unixFile \<Rightarrow> 'x \<Rightarrow> 'os server \<Rightarrow> (unixFile \<times> 'y \<times> 'os server) option" +
  assumes keeps_key: "call f x sv = Some (g, y, sv') \<Longrightarrow> file_key g = file_key f"
    and keeps_files: "call f x sv = Some (g, y, sv') \<Longrightarrow> files_inv F (sv_unix sv) \<Longrightarrow>
      files_inv F (sv_unix sv')"

section \<open>The calls of the handlers\<close>

lemma put_os_simps [simp]:
  "sv_list (put_os os sv) = sv_list sv" "sv_unix (put_os os sv) = (sv_unix sv)\<lparr>us_os := os\<rparr>"
  by (simp_all add: put_os_def)

interpretation lock_call: file_call "call_lock S" for S :: "'os syscalls"
  by unfold_locales (auto simp: call_lock_def bind_eq_Some_iff dest!: unixLock_handle)

interpretation unlock_call: file_call "call_unlock S" for S :: "'os syscalls"
  by unfold_locales (auto simp: call_unlock_def bind_eq_Some_iff dest!: unixUnlock_handle)

interpretation check_call: quiet_call "call_check_reserved S" for S :: "'os syscalls"
  by unfold_locales
    (auto simp: call_check_reserved_def bind_eq_Some_iff
      dest: unixCheckReservedLock_handle(1) [THEN only_errnoD] unixCheckReservedLock_handle(2))

interpretation write_call: quiet_call "call_write S" for S :: "'os syscalls"
  by unfold_locales
    (auto simp: call_write_def bind_eq_Some_iff split: prod.split_asm dest!: unixWrite_handle only_errnoD)

interpretation read_call: quiet_call "call_read S" for S :: "'os syscalls"
  by unfold_locales
    (auto simp: call_read_def bind_eq_Some_iff split: prod.split_asm dest!: unixRead_handle only_errnoD)

interpretation truncate_call: quiet_call "call_truncate S" for S :: "'os syscalls"
  by unfold_locales (auto simp: call_truncate_def bind_eq_Some_iff dest!: unixTruncate_handle)

interpretation sync_call: quiet_call "call_sync S" for S :: "'os syscalls"
  by unfold_locales (auto simp: call_sync_def bind_eq_Some_iff dest!: unixSync_handle)

interpretation size_call: quiet_call "call_file_size S" for S :: "'os syscalls"
  by unfold_locales (auto simp: call_file_size_def split: prod.split_asm dest!: unixFileSize_handle)

interpretation control_call: quiet_call "call_file_control S" for S :: "'os syscalls"
  by unfold_locales
    (auto simp: call_file_control_def bind_eq_Some_iff Let_def split: prod.split_asm
      dest: unixFileControl_handle)

interpretation sector_call: quiet_call "call_device unixSectorSize"
  by unfold_locales
    (auto simp: call_device_def unixSectorSize_def Let_def setDeviceCharacteristics_handle)

interpretation characteristics_call: quiet_call "call_device unixDeviceCharacteristics"
  by unfold_locales
    (auto simp: call_device_def unixDeviceCharacteristics_def Let_def setDeviceCharacteristics_handle)

interpretation fetch_call: quiet_call "call_fetch S" for S :: "'os syscalls"
  by unfold_locales (auto simp: call_fetch_def split: prod.split_asm dest!: unixFetch_handle)

interpretation unfetch_call: quiet_call "call_unfetch S" for S :: "'os syscalls"
  by unfold_locales (auto simp: call_unfetch_def split: prod.split_asm dest!: unixUnfetch_handle)

end
