(* ===== verification/Remote_Calls.thy ===== *)
theory Remote_Calls
  imports Client_Remote Marshal Server_Call
begin

text \<open>
  Remote calls from the client's method to the function of \<open>os_unix.c\<close> and back. On a
  descriptor the server knows, a delivered call is the local call on the server's copy of the
  handle; a lost message leaves the client with a reply of zeroes. Both are shown once for a
  marshalled request, a marshalled reply and a call that keeps the handle.
\<close>

section \<open>One call\<close>

lemma rpc_delivered:
  "wrap argin (uninit junk 0 (length outarg)) sv = Some (reply, sv') \<Longrightarrow> length reply = length outarg \<Longrightarrow>
     rpc Delivered junk wrap argin outarg sv = Some (reply, sv')"
  by (simp add: rpc_def read_at_def memcpy_def overwrite_def)

locale remote_file_call =
  remote_call pack_in unpack_in ok_in view_in width_in pack_out unpack_out ok_out view_out width_out +
  file_call call
  for pack_in :: "'a \<Rightarrow> bytes \<Rightarrow> bytes option" and unpack_in :: "'e \<Rightarrow> bytes \<Rightarrow> (unixFile \<times> 'x) option"
    and ok_in :: "'e \<Rightarrow> 'a \<Rightarrow> bool" and view_in :: "'e \<Rightarrow> 'a \<Rightarrow> unixFile \<times> 'x" and width_in :: nat
    and pack_out :: "unixFile \<times> 'y \<Rightarrow> bytes \<Rightarrow> bytes option" and unpack_out :: "'g \<Rightarrow> bytes \<Rightarrow> 'd option"
    and ok_out :: "'g \<Rightarrow> unixFile \<times> 'y \<Rightarrow> bool" and view_out :: "'g \<Rightarrow> unixFile \<times> 'y \<Rightarrow> 'd"
    and width_out :: nat
    and call :: "unixFile \<Rightarrow> 'x \<Rightarrow> 'os server \<Rightarrow> (unixFile \<times> 'y \<times> 'os server) option"
begin

lemma handled_request:
  assumes a: "ok_in e a" "view_in e a = (f, x)"
    and srv: "ml_inv (sv_list sv)" "served (sv_list sv) (h_fd f)"
    and run: "call (server_view sv f) x sv = Some (g, y, sv')" and ok: "ok_out c (g, y)"
  obtains m r where "pack_in a (zeroed width_in) = Some m"
    "handle (unpack_in e) call (\<lambda>f y. pack_out (f, y)) m (uninit junk 0 width_out) sv =
       Some (r, settle g sv')"
    "length r = width_out" "unpack_out c r = Some (view_out c (g, y))"
proof -
  obtain m where m: "pack_in a (zeroed width_in) = Some m" "unpack_in e m = Some (f, x)"
    using req.round_trip [OF a(1), of "zeroed width_in"] a(2) by auto
  obtain r where r: "pack_out (g, y) (uninit junk 0 width_out) = Some r" "length r = width_out"
      "unpack_out c r = Some (view_out c (g, y))"
    using rep.round_trip [OF ok, of "uninit junk 0 width_out"] by auto
  have "handle (unpack_in e) call (\<lambda>f y. pack_out (f, y)) m (uninit junk 0 width_out) sv =
      Some (r, settle g sv')"
    by (simp add: handled [where unpack = "unpack_in e", OF srv(1) m(2) srv(2)] run r(1))
  then show ?thesis using that m r by blast
qed

lemma delivered:
  assumes a: "ok_in e a" "view_in e a = (f, x)"
    and srv: "ml_inv (sv_list sv)" "served (sv_list sv) (h_fd f)"
    and run: "call (server_view sv f) x sv = Some (g, y, sv')" and ok: "ok_out c (g, y)"
  shows "invoke Delivered junk (pack_in a) width_in (handle (unpack_in e) call (\<lambda>f y. pack_out (f, y)))
           (zeroed width_out) (unpack_out c) sv = Some (view_out c (g, y), settle g sv')"
proof -
  obtain m r where "pack_in a (zeroed width_in) = Some m"
    "handle (unpack_in e) call (\<lambda>f y. pack_out (f, y)) m (uninit junk 0 width_out) sv =
       Some (r, settle g sv')"
    "length r = width_out" "unpack_out c r = Some (view_out c (g, y))"
    by (rule handled_request [OF assms, of junk]) (rule that)
  then show ?thesis by (simp add: invoke_def rpc_delivered)
qed

text \<open>A lost reply: the server has done the work, the client reads its zeroed array.\<close>

lemma reply_lost:
  assumes a: "ok_in e a" "view_in e a = (f, x)"
    and srv: "ml_inv (sv_list sv)" "served (sv_list sv) (h_fd f)"
    and run: "call (server_view sv f) x sv = Some (g, y, sv')" and ok: "ok_out c (g, y)"
  shows "invoke ReplyLost junk (pack_in a) width_in (handle (unpack_in e) call (\<lambda>f y. pack_out (f, y)))
           (zeroed width_out) (unpack_out c) sv =
         map_option (\<lambda>z. (z, settle g sv')) (unpack_out c (zeroed width_out))"
proof -
  obtain m r where "pack_in a (zeroed width_in) = Some m"
    "handle (unpack_in e) call (\<lambda>f y. pack_out (f, y)) m (uninit junk 0 width_out) sv =
       Some (r, settle g sv')"
    by (rule handled_request [OF assms, of junk]) (rule that)
  then show ?thesis by (cases "unpack_out c (zeroed width_out)") (simp_all add: invoke_def rpc_def)
qed

lemma request_lost:
  assumes "ok_in e a"
  shows "invoke RequestLost junk (pack_in a) width_in wrap (zeroed width_out) (unpack_out c) sv =
         map_option (\<lambda>z. (z, sv)) (unpack_out c (zeroed width_out))"
  using req.packed [OF assms, of "zeroed width_in"]
  by (cases "unpack_out c (zeroed width_out)") (auto simp: invoke_def rpc_def)

text \<open>Whatever a delivered call on a known descriptor returns, the local call has returned it.\<close>

lemma delivered_inv:
  assumes a: "ok_in e a" "view_in e a = (f, x)"
    and srv: "ml_inv (sv_list sv)" "served (sv_list sv) (h_fd f)"
    and run: "invoke Delivered junk (pack_in a) width_in (handle (unpack_in e) call (\<lambda>f y. pack_out (f, y)))
           (zeroed width_out) (unpack_out c) sv = Some (z, sv1)"
    and ok: "\<And>g y sv'. call (server_view sv f) x sv = Some (g, y, sv') \<Longrightarrow> ok_out c (g, y)"
  obtains g y sv' where "call (server_view sv f) x sv = Some (g, y, sv')"
    "z = view_out c (g, y)" "sv1 = settle g sv'"
proof (cases "call (server_view sv f) x sv")
  case None
  obtain m where m: "pack_in a (zeroed width_in) = Some m" "unpack_in e m = Some (f, x)"
    using req.round_trip [OF a(1), of "zeroed width_in"] a(2) by auto
  have "handle (unpack_in e) call (\<lambda>f y. pack_out (f, y)) m (uninit junk 0 width_out) sv = None"
    by (simp add: handled [where unpack = "unpack_in e", OF srv(1) m(2) srv(2)] None)
  then show ?thesis using run m by (simp add: invoke_def rpc_def)
next
  case (Some r)
  obtain g y sv' where r: "r = (g, y, sv')" by (rule prod_cases3) (rule that)
  note c = Some [unfolded r]
  show ?thesis using delivered [OF a srv c ok [OF c]] run that [OF c] by simp
qed

end

section \<open>The calls of the protocol\<close>

interpretation remote_lock: remote_file_call
  "\<lambda>(f, level). unixLockConvertArgInToChar f level" "\<lambda>_. unixLockConvertCharToArgIn"
  no_env "\<lambda>_ x. x" SIZE_ArgInLock
  "\<lambda>(f, rc). unixLockConvertReturnToChar f rc" "\<lambda>_. unixLockConvertCharToReturn"
  no_env "\<lambda>_ (f, rc). (setClientRemotePMethods f, rc)" SIZE_ReturnLock
  "call_lock S" for S :: "'os syscalls"
  by unfold_locales

interpretation remote_unlock: remote_file_call
  "\<lambda>(f, level). unixUnlockConvertArgInToChar f level" "\<lambda>_. unixUnlockConvertCharToArgIn"
  no_env "\<lambda>_ x. x" SIZE_ArgInUnlock
  "\<lambda>(f, rc). unixUnlockConvertReturnToChar f rc" "\<lambda>_. unixUnlockConvertCharToReturn"
  no_env "\<lambda>_ (f, rc). (setClientRemotePMethods f, rc)" SIZE_ReturnUnlock
  "call_unlock S" for S :: "'os syscalls"
  by unfold_locales

interpretation remote_check: remote_file_call
  "\<lambda>(f, res). unixCheckReservedLockConvertArgInToChar f res" "\<lambda>_. unixCheckReservedLockConvertCharToArgIn"
  no_env "\<lambda>_ x. x" SIZE_ArgInCheckReservedLock
  "\<lambda>(f, res, rc). unixCheckReservedLockConvertReturnToChar f res rc" "\<lambda>_. unixCheckReservedLockConvertCharToReturn"
  no_env "\<lambda>_ (f, res, rc). (setClientRemotePMethods f, res, rc)" SIZE_ReturnCheckReservedLock
  "call_check_reserved S" for S :: "'os syscalls"
  by unfold_locales

interpretation remote_truncate: remote_file_call
  "\<lambda>(f, nByte). unixTruncateConvertArgInToChar f nByte" "\<lambda>_. unixTruncateConvertCharToArgIn"
  no_env "\<lambda>_ x. x" SIZE_ArgInTruncate
  "\<lambda>(f, rc). unixTruncateConvertReturnToChar f rc" "\<lambda>_. unixTruncateConvertCharToReturn"
  no_env "\<lambda>_ (f, rc). (setClientRemotePMethods f, rc)" SIZE_ReturnTruncate
  "call_truncate S" for S :: "'os syscalls"
  by unfold_locales

interpretation remote_sync: remote_file_call
  "\<lambda>(f, flags). unixSyncConvertArgInToChar f flags" "\<lambda>_. unixSyncConvertCharToArgIn"
  no_env "\<lambda>_ x. x" SIZE_ArgInSync
  "\<lambda>(f, rc). unixSyncConvertReturnToChar f rc" "\<lambda>_. unixSyncConvertCharToReturn"
  no_env "\<lambda>_ (f, rc). (setClientRemotePMethods f, rc)" SIZE_ReturnSync
  "call_sync S" for S :: "'os syscalls"
  by unfold_locales

interpretation remote_size: remote_file_call
  "\<lambda>(f, pSize). unixFileSizeConvertArgInToChar f pSize" "\<lambda>_. unixFileSizeConvertCharToArgIn"
  no_env "\<lambda>_ x. x" SIZE_ArgInFileSize
  "\<lambda>(f, pSize, rc). unixFileSizeConvertReturnToChar f pSize rc" "\<lambda>_. unixFileSizeConvertCharToReturn"
  no_env "\<lambda>_ (f, pSize, rc). (setClientRemotePMethods f, pSize, rc)" SIZE_ReturnFileSize
  "call_file_size S" for S :: "'os syscalls"
  by unfold_locales

interpretation remote_read: remote_file_call
  "\<lambda>(f, pBuf, amt, offset). unixReadConvertArgInToChar f pBuf amt offset"
  "\<lambda>buf arg. unixReadConvertCharToArgIn arg buf"
  "\<lambda>buf (f, pBuf, amt, offset). fits pBuf amt \<and> fits buf amt"
  "\<lambda>buf (f, pBuf, amt, offset). (f, buffer buf pBuf amt, amt, offset)" SIZE_ArgInRead
  "\<lambda>(f, pBuf, amt, rc). unixReadConvertReturnToChar f pBuf amt rc"
  "\<lambda>(buf, amt) arg. unixReadConvertCharToReturn arg buf amt"
  "\<lambda>(buf, amt') (f, pBuf, amt, rc). amt' = amt \<and> fits pBuf amt \<and> fits buf amt"
  "\<lambda>(buf, _) (f, pBuf, amt, rc). (setClientRemotePMethods f, buffer buf pBuf amt, rc)"
  SIZE_ReturnRead "call_read S" for S :: "'os syscalls"
  by unfold_locales

interpretation remote_write: remote_file_call
  "\<lambda>(f, pBuf, amt, offset). unixWriteConvertArgInToChar f pBuf amt offset"
  "\<lambda>buf arg. unixWriteConvertCharToArgIn arg buf"
  "\<lambda>buf (f, pBuf, amt, offset). fits pBuf amt \<and> fits buf amt"
  "\<lambda>buf (f, pBuf, amt, offset). (f, buffer buf pBuf amt, amt, offset)" SIZE_ArgInWrite
  "\<lambda>(f, rc). unixWriteConvertReturnToChar f rc" "\<lambda>_. unixWriteConvertCharToReturn"
  no_env "\<lambda>_ (f, rc). (setClientRemotePMethods f, rc)" SIZE_ReturnWrite
  "call_write S" for S :: "'os syscalls"
  by unfold_locales

interpretation remote_sector: remote_file_call
  unixSectorSizeConvertArgInToChar
  "\<lambda>_ arg. map_option (\<lambda>f. (f, ())) (unixSectorSizeConvertCharToArgIn arg)"
  no_env "\<lambda>_ f. (f, ())" SIZE_ArgInSectorSize
  "\<lambda>(f, n). unixSectorSizeConvertReturnToChar f n" "\<lambda>_. unixSectorSizeConvertCharToReturn"
  no_env "\<lambda>_ (f, n). (setClientRemotePMethods f, n)" SIZE_ReturnSectorSize
  "call_device unixSectorSize"
  by unfold_locales (auto simp: marshal_simps)

interpretation remote_characteristics: remote_file_call
  unixDeviceCharacteristicsConvertArgInToChar
  "\<lambda>_ arg. map_option (\<lambda>f. (f, ())) (unixDeviceCharacteristicsConvertCharToArgIn arg)"
  no_env "\<lambda>_ f. (f, ())" SIZE_ArgInDeviceCharacteristics
  "\<lambda>(f, n). unixDeviceCharacteristicsConvertReturnToChar f n" "\<lambda>_. unixDeviceCharacteristicsConvertCharToReturn"
  no_env "\<lambda>_ (f, n). (setClientRemotePMethods f, n)" SIZE_ReturnDeviceCharacteristics
  "call_device unixDeviceCharacteristics"
  by unfold_locales (auto simp: marshal_simps)

interpretation remote_fetch: remote_file_call
  "\<lambda>(f, iOff, nAmt). unixFetchConvertArgInToChar f iOff nAmt" "\<lambda>_. unixFetchConvertCharToArgIn"
  no_env "\<lambda>_ x. x" SIZE_ArgInFetch
  "\<lambda>(f, pp, nAmt, rc). unixFetchsConvertReturnToChar f pp nAmt rc"
  "\<lambda>(buf, nAmt) arg. unixFetchConvertCharToReturn arg buf nAmt"
  "\<lambda>(buf, nAmt') (f, pp, nAmt, rc). nAmt' = nAmt \<and> fits buf nAmt \<and>
     (case pp of None \<Rightarrow> False | Some b \<Rightarrow> fits b nAmt)"
  "\<lambda>(buf, _) (f, pp, nAmt, rc). (setClientRemotePMethods f, buffer buf (the pp) nAmt, rc)"
  SIZE_ReturnFetch "call_fetch S" for S :: "'os syscalls"
  by unfold_locales

interpretation remote_unfetch: remote_file_call
  "\<lambda>(f, iOff, p_flag). unixUnfetchConvertArgInToChar f iOff p_flag"
  "\<lambda>_. unixUnfetchConvertCharToArgIn"
  no_env "\<lambda>_ x. x" SIZE_ArgInUnfetch
  "\<lambda>(f, rc). unixUnfetchConvertReturnToChar f rc"
  "\<lambda>f arg. unixUnfetchConvertCharToReturn arg f"
  "\<lambda>_ _. True" "\<lambda>f (f', rc). (setClientRemotePMethods (f\<lparr>pMethod := pMethod f'\<rparr>), rc)"
  SIZE_ReturnUnfetch "call_unfetch S" for S :: "'os syscalls"
  by unfold_locales

text \<open>
  A file control whose argument is a number. The reply's argument is measured by the server
  with its own memory, so a string would be measured through an address of the other side.
\<close>

definition control_reply_ok ::
  "bytes option \<Rightarrow> unixFile \<times> bytes \<times> cint \<times> cint \<times> (ptr \<rightharpoonup> bytes) \<Rightarrow> bool" where
  "control_reply_ok pArg' r =
     (case r of (f, pArg, rc, op, deref) \<Rightarrow>
        case LenFileControlPArg deref (sint op) (Some pArg) of
          None \<Rightarrow> False
        | Some sz \<Rightarrow> 0 < sint sz \<longrightarrow> control_fits pArg sz \<and>
            (case pArg' of None \<Rightarrow> False | Some b \<Rightarrow> control_fits b sz))"

definition control_reply ::
  "bytes option \<Rightarrow> unixFile \<times> bytes \<times> cint \<times> cint \<times> (ptr \<rightharpoonup> bytes) \<Rightarrow>
     unixFile \<times> bytes option \<times> cint" where
  "control_reply pArg' r =
     (case r of (f, pArg, rc, op, deref) \<Rightarrow>
        let sz = the (LenFileControlPArg deref (sint op) (Some pArg)) in
        (setClientRemotePMethods f,
         if 0 < sint sz then Some (buffer (the pArg') pArg sz) else pArg', rc))"

interpretation remote_control: remote_file_call
  "\<lambda>(f, op, pArg, sz) arg. unixFileControlConvertArgInToChar f op pArg arg sz"
  "\<lambda>buf arg. unixFileControlConvertCharToArgIn arg buf"
  "\<lambda>buf (f, op, pArg, sz). 0 < sint sz \<longrightarrow> control_fits buf sz \<and>
     (case pArg of None \<Rightarrow> False | Some b \<Rightarrow> control_fits b sz)"
  "\<lambda>buf (f, op, pArg, sz).
     (f, op, if 0 < sint sz then buffer buf (the pArg) sz else buf, sz)" SIZE_ArgInFileControl
  "\<lambda>(f, y). pack_file_control f y" "\<lambda>pArg' arg. unixFileControlConvertCharToReturn arg pArg'"
  control_reply_ok control_reply SIZE_ReturnFileControl
  "call_file_control S" for S :: "'os syscalls"
proof unfold_locales
  fix pArg' :: "bytes option" and x and arg :: bytes
  assume ok: "control_reply_ok pArg' x" and len: "length arg = SIZE_ReturnFileControl"
  obtain f pArg rc op deref where x: "x = (f, pArg, rc, op, deref)" by (rule prod_cases5) (rule that)
  then obtain sz where sz: "LenFileControlPArg deref (sint op) (Some pArg) = Some sz"
    using ok by (auto simp: control_reply_ok_def split: option.splits)
  show "\<exists>m. (case x of (f, y) \<Rightarrow> pack_file_control f y) arg = Some m \<and> length m = SIZE_ReturnFileControl \<and>
      unixFileControlConvertCharToReturn m pArg' = Some (control_reply pArg' x)"
    using file_control.rep.round_trip [of pArg' "(f, pArg, rc, sz)" arg] ok len
    by (auto simp: x sz control_reply_ok_def control_reply_def pack_file_control_def)
qed

end
