(* ===== verification/Quiet_Methods.thy ===== *)
theory Quiet_Methods
  imports Remote_Calls
begin

text \<open>
  The client's methods that do not lock, open or close, whatever their arguments: when such a
  call returns at all, the server has run the function on its view of the handle the client
  sent, and the client holds the handle the function left. No bound on sizes is needed,
  because a request that leaves a buffer does not return.
\<close>

section \<open>A method that returns\<close>

locale file_method = file_call call
  for call :: "unixFile \<Rightarrow> 'x \<Rightarrow> 'os server \<Rightarrow> (unixFile \<times> 'y \<times> 'os server) option" +
  fixes sends :: "'a \<Rightarrow> unixFile" and packs :: "'a \<Rightarrow> bytes \<Rightarrow> bytes option" and inlen :: nat
    and unpacks :: "bytes \<Rightarrow> (unixFile \<times> 'x) option"
    and replies :: "unixFile \<Rightarrow> 'y \<Rightarrow> bytes \<Rightarrow> bytes option" and outlen :: nat
    and reads :: "'a \<Rightarrow> bytes \<Rightarrow> 'z option" and gets :: "'z \<Rightarrow> unixFile"
  assumes request_file: "packs a (zeroed inlen) = Some m \<Longrightarrow> unpacks m = Some (f, x) \<Longrightarrow> f = sends a"
    and reply_file: "replies g y arg = Some r \<Longrightarrow> length arg = outlen \<Longrightarrow>
      length r = outlen \<and> get_unixFile r 0 = Some g"
    and client_file: "length r = outlen \<Longrightarrow> get_unixFile r 0 = Some g \<Longrightarrow> reads a r = Some z \<Longrightarrow>
      gets z = setClientRemotePMethods g"
begin

lemma performed:
  assumes inv: "ml_inv (sv_list sv)" "served (sv_list sv) (h_fd (sends a))"
    and run: "invoke Delivered junk (packs a) inlen (handle unpacks call replies) (zeroed outlen)
      (reads a) sv = Some (z, svn)"
  obtains x g y sv' where "call (server_view sv (sends a)) x sv = Some (g, y, sv')"
    "svn = settle g sv'" "gets z = setClientRemotePMethods g"
proof -
  obtain m where m: "packs a (zeroed inlen) = Some m" using run by (auto simp: invoke_def bind_eq_Some_iff)
  obtain r sv2 b out where h: "handle unpacks call replies m (uninit junk 0 outlen) sv = Some (r, sv2)"
    and b: "read_at r 0 outlen = Some b" and out: "memcpy (zeroed outlen) 0 b = Some out"
    and z: "reads a out = Some z" and svn: "svn = sv2"
    using run m by (auto simp: invoke_def rpc_def bind_eq_Some_iff)
  obtain f x where u: "unpacks m = Some (f, x)" using h by (auto simp: handle_def bind_eq_Some_iff)
  have f: "f = sends a" by (rule request_file [OF m u])
  obtain g y sv' where c: "call (server_view sv f) x sv = Some (g, y, sv')"
    and p: "replies g y (uninit junk 0 outlen) = Some r" and sv2: "sv2 = settle g sv'"
    using h handled [where unpack = unpacks, OF inv(1) u] inv(2) f by (auto simp: bind_eq_Some_iff)
  have r: "length r = outlen" "get_unixFile r 0 = Some g" using reply_file [OF p] by simp_all
  have "out = r" using b out r(1) by (auto simp: read_at_def memcpy_Some_iff overwrite_def)
  then have "gets z = setClientRemotePMethods g" using client_file [OF r] z by simp
  then show ?thesis using that c svn sv2 f by simp
qed

end

locale quiet_method =
  file_method call sends packs inlen unpacks replies outlen reads gets + quiet_call call
  for call :: "unixFile \<Rightarrow> 'x \<Rightarrow> 'os server \<Rightarrow> (unixFile \<times> 'y \<times> 'os server) option"
    and sends :: "'a \<Rightarrow> unixFile" and packs :: "'a \<Rightarrow> bytes \<Rightarrow> bytes option" and inlen :: nat
    and unpacks :: "bytes \<Rightarrow> (unixFile \<times> 'x) option"
    and replies :: "unixFile \<Rightarrow> 'y \<Rightarrow> bytes \<Rightarrow> bytes option" and outlen :: nat
    and reads :: "'a \<Rightarrow> bytes \<Rightarrow> 'z option" and gets :: "'z \<Rightarrow> unixFile"

section \<open>What a quiet call does to the server\<close>

text \<open>The list keeps every name, and method tables but for a missing one.\<close>

definition list_grows :: "mlist \<Rightarrow> mlist \<Rightarrow> bool" where
  "list_grows ml ml' \<longleftrightarrow> ml_inv ml' \<and>
     (\<forall>fd. ml_lookup ml' fd = ml_lookup ml fd \<or>
        (\<exists>m p. ml_lookup ml fd = Some (m, p) \<and> ml_lookup ml' fd = Some (served_method m, p)))"

definition quiet_step :: "unixFile \<Rightarrow> 'os server \<Rightarrow> unixFile \<Rightarrow> 'os server \<Rightarrow> bool" where
  "quiet_step f sv g sv' \<longleftrightarrow>
     h_fd g = h_fd f \<and> file_key g = file_key f \<and> list_grows (sv_list sv) (sv_list sv') \<and>
     (\<forall>F. files_inv F (sv_unix sv) \<longrightarrow> files_inv F (sv_unix sv'))"

lemma settle_grows:
  fixes sv sv' :: "'os server"
  assumes "ml_inv (sv_list sv)" and "served (sv_list sv) (h_fd f)"
    and "same_handle (server_view sv f) g" and "sv_list sv' = sv_list sv"
  shows "list_grows (sv_list sv) (sv_list (settle g sv'))"
proof -
  obtain m p where "ml_lookup (sv_list sv) (h_fd f) = Some (m, p)"
    "ml_inv (sv_list (settle g sv')) \<and>
     ml_lookup (sv_list (settle g sv')) = (ml_lookup (sv_list sv))(h_fd f \<mapsto> (served_method m, p))"
    by (rule served_file [OF assms(1,2)]) (use assms(3,4) in blast)
  then show ?thesis by (auto simp: list_grows_def)
qed

lemma client_key [simp]:
  "file_key (setClientRemotePMethods g) = file_key g" "h_fd (setClientRemotePMethods g) = h_fd g"
  by (simp_all add: setClientRemotePMethods_def file_key_def lock_level_def)

context quiet_method
begin

lemma quiet:
  assumes inv: "ml_inv (sv_list sv)" "served (sv_list sv) (h_fd (sends a))"
    and run: "invoke Delivered junk (packs a) inlen (handle unpacks call replies) (zeroed outlen)
      (reads a) sv = Some (z, svn)"
  shows "quiet_step (sends a) sv (gets z) svn"
proof -
  obtain x g y sv' where c: "call (server_view sv (sends a)) x sv = Some (g, y, sv')"
    and svn: "svn = settle g sv'" and z: "gets z = setClientRemotePMethods g"
    by (rule performed [OF assms]) (rule that)
  have sh: "same_handle (server_view sv (sends a)) g" by (rule keeps_handle [OF c])
  have "list_grows (sv_list sv) (sv_list svn)"
    unfolding svn by (rule settle_grows [OF inv sh keeps_list [OF c]])
  moreover have "h_fd g = h_fd (sends a)" "file_key g = file_key (sends a)"
    using sh keeps_key [OF c] inv by (simp_all add: same_handle_def)
  ultimately show ?thesis
    using keeps_files [OF c] by (simp add: quiet_step_def z svn)
qed

end

section \<open>The quiet methods of the client\<close>

lemmas method_simps =
  conv_defs size_simps bind_eq_Some_iff memcpy_Some_iff get_unixFile_def
  read_overwrite_same read_overwrite_before read_overwrite_after

interpretation read_method: quiet_method "call_read S"
  "\<lambda>(f, pBuf, amt, offset). f"
  "\<lambda>(f, pBuf, amt, offset). unixReadConvertArgInToChar f pBuf amt offset" SIZE_ArgInRead
  "\<lambda>argIn. unixReadConvertCharToArgIn argIn (uninit junk 1 8192)"
  "\<lambda>f (pBuf, amt, rc). unixReadConvertReturnToChar f pBuf amt rc" SIZE_ReturnRead
  "\<lambda>(f, pBuf, amt, offset) arg. unixReadConvertCharToReturn arg pBuf amt" "\<lambda>(f, pBuf, rc). f"
  for S :: "'os syscalls" and junk
  by unfold_locales (auto simp: method_simps split: prod.splits)

interpretation write_method: quiet_method "call_write S"
  "\<lambda>(f, pBuf, amt, offset). f" "\<lambda>(f, pBuf, amt, offset). unixWriteConvertArgInToChar f pBuf amt offset" SIZE_ArgInWrite
  "\<lambda>argIn. unixWriteConvertCharToArgIn argIn (uninit junk 1 8192)"
  unixWriteConvertReturnToChar SIZE_ReturnWrite
  "\<lambda>(f, pBuf, amt, offset). unixWriteConvertCharToReturn" "\<lambda>(f, rc). f"
  for S :: "'os syscalls" and junk
  by unfold_locales (auto simp: method_simps split: prod.splits)

interpretation truncate_method: quiet_method "call_truncate S"
  "\<lambda>(f, nByte). f" "\<lambda>(f, nByte). unixTruncateConvertArgInToChar f nByte" SIZE_ArgInTruncate
  unixTruncateConvertCharToArgIn
  unixTruncateConvertReturnToChar SIZE_ReturnTruncate
  "\<lambda>(f, nByte). unixTruncateConvertCharToReturn" "\<lambda>(f, rc). f"
  for S :: "'os syscalls"
  by unfold_locales (auto simp: method_simps split: prod.splits)

interpretation sync_method: quiet_method "call_sync S"
  "\<lambda>(f, flags). f" "\<lambda>(f, flags). unixSyncConvertArgInToChar f flags" SIZE_ArgInSync
  unixSyncConvertCharToArgIn
  unixSyncConvertReturnToChar SIZE_ReturnSync
  "\<lambda>(f, flags). unixSyncConvertCharToReturn" "\<lambda>(f, rc). f"
  for S :: "'os syscalls"
  by unfold_locales (auto simp: method_simps split: prod.splits)

interpretation size_method: quiet_method "call_file_size S"
  "\<lambda>(f, pSize). f" "\<lambda>(f, pSize). unixFileSizeConvertArgInToChar f pSize" SIZE_ArgInFileSize
  unixFileSizeConvertCharToArgIn
  "\<lambda>f (pSize, rc). unixFileSizeConvertReturnToChar f pSize rc" SIZE_ReturnFileSize
  "\<lambda>(f, pSize). unixFileSizeConvertCharToReturn" "\<lambda>(f, pSize, rc). f"
  for S :: "'os syscalls"
  by unfold_locales (auto simp: method_simps split: prod.splits)

interpretation check_method: quiet_method "call_check_reserved S"
  "\<lambda>(f, res). f" "\<lambda>(f, res). unixCheckReservedLockConvertArgInToChar f res" SIZE_ArgInCheckReservedLock
  unixCheckReservedLockConvertCharToArgIn
  "\<lambda>f (res, rc). unixCheckReservedLockConvertReturnToChar f res rc" SIZE_ReturnCheckReservedLock
  "\<lambda>(f, res). unixCheckReservedLockConvertCharToReturn" "\<lambda>(f, res, rc). f"
  for S :: "'os syscalls"
  by unfold_locales (auto simp: method_simps split: prod.splits)

interpretation sector_method: quiet_method "call_device unixSectorSize"
  "\<lambda>f. f" unixSectorSizeConvertArgInToChar SIZE_ArgInSectorSize
  "\<lambda>argIn. map_option (\<lambda>f. (f, ())) (unixSectorSizeConvertCharToArgIn argIn)"
  unixSectorSizeConvertReturnToChar SIZE_ReturnSectorSize
  "\<lambda>f. unixSectorSizeConvertCharToReturn" "\<lambda>(f, n). f"
  by unfold_locales (auto simp: method_simps)

interpretation characteristics_method: quiet_method "call_device unixDeviceCharacteristics"
  "\<lambda>f. f" unixDeviceCharacteristicsConvertArgInToChar SIZE_ArgInDeviceCharacteristics
  "\<lambda>argIn. map_option (\<lambda>f. (f, ())) (unixDeviceCharacteristicsConvertCharToArgIn argIn)"
  unixDeviceCharacteristicsConvertReturnToChar SIZE_ReturnDeviceCharacteristics
  "\<lambda>f. unixDeviceCharacteristicsConvertCharToReturn" "\<lambda>(f, n). f"
  by unfold_locales (auto simp: method_simps)

interpretation control_method: quiet_method "call_file_control S"
  "\<lambda>(f, op, pArg, sz). f"
  "\<lambda>(f, op, pArg, sz) arg. unixFileControlConvertArgInToChar f op pArg arg sz" SIZE_ArgInFileControl
  "\<lambda>argIn. unixFileControlConvertCharToArgIn argIn (uninit junk 1 512)"
  pack_file_control SIZE_ReturnFileControl
  "\<lambda>(f, op, pArg, sz) arg. unixFileControlConvertCharToReturn arg pArg" "\<lambda>(f, pArg, rc). f"
  for S :: "'os syscalls" and junk
  by unfold_locales (auto simp: method_simps pack_file_control_def split: prod.splits if_splits)

interpretation fetch_method: quiet_method "call_fetch S"
  "\<lambda>(f, iOff, nAmt). f" "\<lambda>(f, iOff, nAmt). unixFetchConvertArgInToChar f iOff nAmt" SIZE_ArgInFetch
  unixFetchConvertCharToArgIn
  "\<lambda>f (pp, nAmt, rc). unixFetchsConvertReturnToChar f pp nAmt rc" SIZE_ReturnFetch
  "\<lambda>(f, iOff, nAmt) arg. unixFetchConvertCharToReturn arg (uninit junk 3 (csize nAmt)) nAmt"
  "\<lambda>(f, pp, rc). f" for S :: "'os syscalls" and junk
  by unfold_locales (auto simp: method_simps split: prod.splits)

end
