(* ===== verification/Remote_Open.thy ===== *)
theory Remote_Open
  imports Quiet_Methods
begin

text \<open>
  The remote open. What a delivered open has done on the server, from the client's result sent
  to the call of \<open>unixOpen\<close>; and forward: on a server with memory for its list, the
  client's open is the local open of the name it gave.
\<close>

section \<open>What an open has done\<close>

text \<open>The flags a handler passes on.\<close>

definition passed_flags :: "cint \<Rightarrow> cint" where
  "passed_flags flags = flags AND 0x87f7f"

lemma lookup_file_keeps:
  assumes "lookup_file f sv = Some (g, sv')" and "ml_inv (sv_list sv)"
  shows "ml_inv (sv_list sv')" and "ml_lookup (sv_list sv') = ml_lookup (sv_list sv)"
    and "sv_unix sv' = sv_unix sv" and "sv_strs sv' = sv_strs sv"
proof -
  obtain f1 ml1 ml2 where m: "getServerUnixPMethods (h_fd f) f (sv_list sv) = Some (f1, ml1)"
    and p: "getServicePath (h_fd f1) f1 ml1 = Some (g, ml2)" and sv': "sv' = sv\<lparr>sv_list := ml2\<rparr>"
    using assms(1) by (auto simp: lookup_file_def bind_eq_Some_iff)
  note M = getServerUnixPMethods_spec(1,2) [OF assms(2) m]
  show "ml_inv (sv_list sv')" "ml_lookup (sv_list sv') = ml_lookup (sv_list sv)"
    "sv_unix sv' = sv_unix sv" "sv_strs sv' = sv_strs sv"
    using getServicePath_spec(1,2) [OF M(1) p] M(2) by (simp_all add: sv')
qed

text \<open>What a delivered open has done on the server.\<close>

lemma WrapOpenD:
  assumes "WrapOpen S junk argIn argOut sv = Some (r, sv')"
  obtains path z f0 fl fo g0 sv1 rc g out st ml1 ml2 fo' where
    "unixOpenConvertCharToArgIn argIn (uninit junk 1 512) = Some (path, f0, fl, fo)"
    "c_string path = Some z" "length z \<le> PATH_LEN"
    "lookup_file f0 sv = Some (g0, sv1)"
    "unixOpen S ((server_mem sv1)(STACK_path \<mapsto> path)) STACK_path (passed_flags fl) (sv_unix sv1) =
       Some (rc, g, out, st)"
    "AddNode (h_fd g) (pMethod g) (sv_list sv1) = Some ml1" "setServicePath (h_fd g) path ml1 = Some ml2"
    "unixOpenConvertReturnToChar g fo' rc argOut = Some r"
    "sv' = sv1\<lparr>sv_unix := st, sv_list := ml2\<rparr>"
proof -
  obtain path f0 fl fo where u: "unixOpenConvertCharToArgIn argIn (uninit junk 1 512) = Some (path, f0, fl, fo)"
    using assms by (auto simp: WrapOpen_def bind_eq_Some_iff)
  obtain z where "c_string argIn = Some z" "length z \<le> 512" "path = overwrite (uninit junk 1 512) 0 z"
    using u by (auto simp: unixOpenConvertCharToArgIn_def strcpy_def bind_eq_Some_iff memcpy_Some_iff)
  then have p: "c_string path = Some z" "length z \<le> PATH_LEN"
    using c_string_overwrite by (auto simp: PATH_LEN_def)
  show ?thesis using assms u
    by (auto simp: WrapOpen_def bind_eq_Some_iff Let_def setServerUnixPMethods_def passed_flags_def
        intro!: that [OF u p])
qed

lemma remoteOpenD:
  assumes inv: "ml_inv (sv_list sv)"
    and run: "remoteOpen S Delivered junk zName f0 flags out sv = Some ((f, out', rc), sv')"
  obtains mem g out1 ml ml1 ml2 path z st where
    "unixOpen S mem STACK_path (passed_flags flags) (sv_unix sv) = Some (rc, g, out1, st)"
    "mem STACK_path = Some path" "c_string path = Some z" "length z \<le> PATH_LEN"
    "ml_inv ml" "ml_lookup ml = ml_lookup (sv_list sv)"
    "AddNode (h_fd g) (pMethod g) ml = Some ml1" "setServicePath (h_fd g) path ml1 = Some ml2"
    "f = setClientRemotePMethods g" "sv' = sv\<lparr>sv_unix := st, sv_list := ml2\<rparr>"
proof -
  obtain z0 m r b outarg where m: "unixOpenConvertArgInToChar z0 f0 flags out (zeroed SIZE_ArgInOpen) = Some m"
    and w: "WrapOpen S junk m (uninit junk 0 SIZE_ReturnOpen) sv = Some (r, sv')"
    and b: "read_at r 0 SIZE_ReturnOpen = Some b" "memcpy (zeroed SIZE_ReturnOpen) 0 b = Some outarg"
    and u: "unixOpenConvertCharToReturn outarg out = Some (f, out', rc)"
    using run by (auto simp: remoteOpen_def invoke_def rpc_def bind_eq_Some_iff)
  obtain path z fi fl fo g0 sv1 rc1 g out1 st ml1 ml2 fo' where
    in1: "unixOpenConvertCharToArgIn m (uninit junk 1 512) = Some (path, fi, fl, fo)"
    and z: "c_string path = Some z" "length z \<le> PATH_LEN"
    and lk: "lookup_file fi sv = Some (g0, sv1)"
    and o: "unixOpen S ((server_mem sv1)(STACK_path \<mapsto> path)) STACK_path (passed_flags fl) (sv_unix sv1) =
       Some (rc1, g, out1, st)"
    and a: "AddNode (h_fd g) (pMethod g) (sv_list sv1) = Some ml1" "setServicePath (h_fd g) path ml1 = Some ml2"
    and rep: "unixOpenConvertReturnToChar g fo' rc1 (uninit junk 0 SIZE_ReturnOpen) = Some r"
    and sv': "sv' = sv1\<lparr>sv_unix := st, sv_list := ml2\<rparr>"
    by (rule WrapOpenD [OF w]) (rule that)
  have fl: "fl = flags" using m in1 by (auto simp: method_simps get32_def strcpy_def)
  have len: "length r = SIZE_ReturnOpen" using rep by (auto simp: method_simps)
  then have "outarg = r" using b by (auto simp: read_at_def memcpy_Some_iff overwrite_def)
  then have f: "f = setClientRemotePMethods g" "rc = rc1"
    using u rep by (auto simp: method_simps get32_def)
  note L = lookup_file_keeps [OF lk inv]
  have "sv' = sv\<lparr>sv_unix := st, sv_list := ml2\<rparr>"
    using sv' L(3,4) by (simp add: server.equality)
  then show ?thesis using that o z L a f fl by simp
qed


section \<open>An open that is answered\<close>

lemma setServicePath_defined:
  assumes "ml_inv ml" and "ml_lookup ml fd = Some (m, p)" and "c_string path = Some z" "length z \<le> PATH_LEN"
  shows "\<exists>ml'. setServicePath fd path ml = Some ml' \<and> (\<forall>k. ml_room k ml \<longrightarrow> ml_room k ml')"
proof -
  obtain as where sh: "ml_shape ml as" using assms(1) by (auto simp: ml_inv_def)
  have nn: "listHead ml \<noteq> NULL" using assms(2) by (auto simp: ml_lookup_def)
  show ?thesis
    by (rule FindNode_spec [OF sh nn, of fd "listHead ml"])
      (use assms in \<open>auto simp: setServicePath_def put_node_def ml_room_def\<close>)
qed

lemma getServerUnixPMethods_defined:
  assumes "ml_inv ml" and "ml_room (Suc k) ml"
  obtains m ml' where "getServerUnixPMethods fd f ml = Some (f\<lparr>pMethod := m\<rparr>, ml')" "ml_inv ml'" "ml_room k ml'"
proof -
  obtain a l ml' where F: "FindNode fd (listHead ml) ml = Some (a, l, ml')" and r: "ml_room k ml'"
    by (rule FindNode_defined [OF assms]) (rule that)
  from assms(1) F have "ml_inv ml' \<and> (\<exists>m. getServerUnixPMethods fd f ml = Some (f\<lparr>pMethod := m\<rparr>, ml'))"
    by (rule FindNode_cases) (use F in \<open>auto simp: getServerUnixPMethods_def ml_inv_def\<close>)
  then show ?thesis using r that by blast
qed

lemma getServicePath_defined:
  assumes "ml_inv ml" and "ml_room (Suc k) ml"
  obtains f' ml' where "getServicePath fd f ml = Some (f', ml')" "ml_room k ml'"
proof -
  obtain a l ml' where F: "FindNode fd (listHead ml) ml = Some (a, l, ml')" and r: "ml_room k ml'"
    by (rule FindNode_defined [OF assms]) (rule that)
  then show ?thesis using that by (simp add: getServicePath_def)
qed

lemma lookup_file_defined:
  assumes "ml_inv (sv_list sv)" and "ml_room (Suc (Suc k)) (sv_list sv)"
  obtains g sv' where "lookup_file f sv = Some (g, sv')" "ml_room k (sv_list sv')"
proof -
  obtain m ml1 where M: "getServerUnixPMethods (h_fd f) f (sv_list sv) = Some (f\<lparr>pMethod := m\<rparr>, ml1)"
    and R: "ml_inv ml1" "ml_room (Suc k) ml1"
    by (rule getServerUnixPMethods_defined [OF assms]) (rule that)
  obtain g ml2 where "getServicePath (h_fd f) (f\<lparr>pMethod := m\<rparr>) ml1 = Some (g, ml2)" "ml_room k ml2"
    by (rule getServicePath_defined [OF R]) (rule that)
  then show ?thesis using that M by (simp add: lookup_file_def)
qed

text \<open>The open reads no memory but the name it is given.\<close>

lemma verifyDbFile_cong:
  "mem (zPath f) = mem' (zPath f) \<Longrightarrow> verifyDbFile S mem f st = verifyDbFile S mem' f st"
  by (simp add: verifyDbFile_def Let_def fileHasMoved_def split: prod.split)

lemma findInodeInfo_zPath: "zPath (fst (snd (findInodeInfo S f st))) = zPath f"
  by (auto simp: findInodeInfo_def Let_def split: if_splits prod.splits option.splits)

lemma fillInUnixFile_cong:
  assumes "mem zp = mem' zp"
  shows "fillInUnixFile S mem h f zp ctrl st = fillInUnixFile S mem' h f zp ctrl st"
proof -
  have v: "zPath g = zp \<Longrightarrow> verifyDbFile S mem g st = verifyDbFile S mem' g st" for g st
    using verifyDbFile_cong [of mem g mem' S st] assms by simp
  have z: "findInodeInfo S f st = (rc, g, st') \<Longrightarrow> zPath g = zPath f" for f st rc g st'
    using findInodeInfo_zPath [of S f st] by simp
  show ?thesis
    unfolding fillInUnixFile_def Let_def assms
    by (intro arg_cong2 [where f = Option.bind] refl ext)
      (auto simp: v storeLastErrno_def dest: z split: prod.split)
qed

lemma unixOpen_cong:
  assumes "mem zp = mem' zp"
  shows "unixOpen S mem zp flags st = unixOpen S mem' zp flags st"
proof -
  have fl: "fillInUnixFile S mem h f zp = fillInUnixFile S mem' h f zp" for h f
    by (intro ext) (rule fillInUnixFile_cong [where mem = mem and mem' = mem', OF assms])
  have "open_with_fd S mem zp = open_with_fd S mem' zp"
    unfolding fun_eq_iff open_with_fd_def fl by blast
  then have o: "open_with_fd S mem zp z flags0 flags ro fd f st = open_with_fd S mem' zp z flags0 flags ro fd f st"
    for z flags0 flags ro fd f st by simp
  have "open_file S mem zp = open_file S mem' zp"
    unfolding fun_eq_iff open_file_def o by blast
  moreover have "open_name S mem zp = open_name S mem' zp"
    unfolding fun_eq_iff open_name_def assms by blast
  ultimately show ?thesis unfolding unixOpen_def by metis
qed

lemma name_copied:
  assumes "c_string z = Some z'" "length z' \<le> 512"
  shows "name_fits (uninit junk 1 512) z" and "c_string (name_copy (uninit junk 1 512) z) = Some z'"
  using assms c_string_overwrite [OF assms(1)] by (simp_all add: name_fits_def name_copy_def)

text \<open>
  The value of \<open>*pOutFlags\<close> after an open. On the wire a null pointer is the value -1, which no
  open of masked flags gives.
\<close>

definition flags_after :: "cint option \<Rightarrow> cint option \<Rightarrow> cint option" where
  "flags_after pOutFlags out = map_option (\<lambda>v. case out of None \<Rightarrow> v | Some w \<Rightarrow> w) pOutFlags"

lemma open_new_flags:
  assumes "open_new S z flags m os = Some (rc, fd, flags', ro, os')" "\<not> bit flags 31" shows "\<not> bit flags' 31"
  using assms by (auto simp: open_new_def Let_def bind_eq_Some_iff bit_simps split: if_splits prod.splits)

lemma open_file_flags:
  assumes "open_file S mem zp z flags fd f st = Some (rc, g, Some w, st')" "\<not> bit flags 31"
  shows "\<not> bit w 31"
proof (cases "0 \<le> sint fd")
  case True
  with assms show ?thesis by (auto simp: open_file_def bind_eq_Some_iff)
next
  case False
  with assms(1) obtain m os rc1 fd1 ro os1 where "open_new S z flags m os = Some (rc1, fd1, w, ro, os1)"
    by (auto simp: open_file_def bind_eq_Some_iff split: if_splits prod.splits)
  from open_new_flags [OF this assms(2)] show ?thesis .
qed

lemma unixOpen_flags:
  assumes "unixOpen S mem zp flags st = Some (rc, f, Some w, st')" "\<not> bit flags 31" shows "\<not> bit w 31"
proof -
  obtain z fd g st1 where "open_file S mem zp z flags fd g st1 = Some (rc, f, Some w, st')"
    using assms(1) by (auto simp: unixOpen_def Let_def bind_eq_Some_iff split: if_splits)
  from open_file_flags [OF this assms(2)] show ?thesis .
qed

lemma unixOpen_out:
  assumes "unixOpen S mem zp (passed_flags flags) st = Some (rc, f, out, st')" shows "out \<noteq> Some (- 1)"
proof
  assume "out = Some (- 1)"
  then have "\<not> bit (- 1 :: cint) 31"
    using unixOpen_flags [of S mem zp "passed_flags flags" st rc f "- 1" st'] assms
    by (simp add: passed_flags_def bit_simps)
  then show False by simp
qed

text \<open>
  The remote open is \<open>unixOpen\<close> on the name and the flags the client gave; the server then
  knows the new descriptor and what it knew of the others is unchanged.
\<close>

lemma remoteOpen_delivered:
  assumes inv: "ml_inv (sv_list sv)" and room: "ml_room (k + 4) (sv_list sv)"
    and z: "c_string z = Some z'" "length z' \<le> 512"
    and o: "unixOpen S [STACK_path \<mapsto> name_copy (uninit junk 1 512) z] STACK_path (passed_flags flags) (sv_unix sv) =
      Some (rc, g, out, st)" and pout: "pout \<noteq> Some (- 1)"
  obtains ml where
    "remoteOpen S Delivered junk (Some z) f0 flags pout sv =
       Some ((setClientRemotePMethods g, flags_after pout out, rc), sv\<lparr>sv_list := ml, sv_unix := st\<rparr>)"
    "ml_inv ml" "ml_lookup ml = (ml_lookup (sv_list sv))(h_fd g \<mapsto> the (ml_lookup ml (h_fd g)))"
    "\<exists>p. ml_lookup ml (h_fd g) = Some (pMethod g, p) \<and> c_string p = Some z'" "ml_room k ml"
proof -
  define path where "path = name_copy (uninit junk 1 512) z"
  have p: "c_string path = Some z'" "length z' \<le> PATH_LEN"
    using name_copied(2) [OF z] z(2) by (simp_all add: path_def PATH_LEN_def)
  have r4: "ml_room (Suc (Suc (Suc (Suc k)))) (sv_list sv)" using room by (simp add: eval_nat_numeral)
  obtain g0 sva where l: "lookup_file f0 sv = Some (g0, sva)" and r2: "ml_room (Suc (Suc k)) (sv_list sva)"
    by (rule lookup_file_defined [OF inv r4]) (rule that)
  note L = lookup_file_keeps [OF l inv]
  obtain ml1 where a: "AddNode (h_fd g) (pMethod g) (sv_list sva) = Some ml1" and r1: "ml_room k ml1"
    using AddNode_defined [OF L(1) r2] by blast
  note A = AddNode_spec [OF L(1) a]
  obtain ml where s: "setServicePath (h_fd g) path ml1 = Some ml" and r0: "ml_room k ml"
    using setServicePath_defined [OF A(1) _ p, of "h_fd g" "pMethod g"] A(2) r1 by auto
  note R = methods.registered [OF L(1) a s p(1)]
  have u: "unixOpen S ((server_mem sva)(STACK_path \<mapsto> path)) STACK_path (passed_flags flags) (sv_unix sva) =
      Some (rc, g, out, st)"
    using o unixOpen_cong [of "(server_mem sva)(STACK_path \<mapsto> path)" STACK_path "[STACK_path \<mapsto> path]" S]
    by (simp add: path_def L(3))
  define fo where "fo = (case pout of None \<Rightarrow> - 1 | Some v \<Rightarrow> v)"
  define sent where "sent = (if fo = - 1 then fo else case out of None \<Rightarrow> fo | Some w \<Rightarrow> w)"
  obtain m where m: "unixOpenConvertArgInToChar z f0 flags pout (zeroed SIZE_ArgInOpen) = Some m"
      "unixOpenConvertCharToArgIn m (uninit junk 1 512) = Some (path, f0, flags, fo)"
    using open_msg.req.round_trip [of "uninit junk 1 512" "(z, f0, flags, pout)" "zeroed SIZE_ArgInOpen"]
      name_copied(1) [OF z] by (auto simp: path_def fo_def)
  have sent: "pout = None \<longrightarrow> sent = - 1" "(if sent = - 1 then pout else Some sent) = flags_after pout out"
    using pout unixOpen_out [OF o] by (auto simp: sent_def fo_def flags_after_def split: option.splits)
  obtain r where r: "unixOpenConvertReturnToChar g sent rc (uninit junk 0 SIZE_ReturnOpen) = Some r"
      "length r = SIZE_ReturnOpen" "unixOpenConvertCharToReturn r pout = Some (setClientRemotePMethods g, flags_after pout out, rc)"
    using open_msg.rep.round_trip [of pout "(g, sent, rc)" "uninit junk 0 SIZE_ReturnOpen"] sent by auto
  have e: "sva\<lparr>sv_unix := st, sv_list := ml\<rparr> = sv\<lparr>sv_list := ml, sv_unix := st\<rparr>"
    using L(4) by (simp add: server.equality)
  have "WrapOpen S junk m (uninit junk 0 SIZE_ReturnOpen) sv = Some (r, sv\<lparr>sv_list := ml, sv_unix := st\<rparr>)"
    using u by (simp add: WrapOpen_def m l r(1) [unfolded sent_def] a s e setServerUnixPMethods_def passed_flags_def Let_def
        del: One_nat_def)
  then have "rpc Delivered junk (WrapOpen S junk) m (zeroed SIZE_ReturnOpen) sv =
      Some (r, sv\<lparr>sv_list := ml, sv_unix := st\<rparr>)"
    using r(2) by (intro rpc_delivered) simp_all
  then have "remoteOpen S Delivered junk (Some z) f0 flags pout sv =
       Some ((setClientRemotePMethods g, flags_after pout out, rc), sv\<lparr>sv_list := ml, sv_unix := st\<rparr>)"
    by (simp add: remoteOpen_def invoke_def m r)
  moreover have "ml_lookup ml = (ml_lookup (sv_list sv))(h_fd g \<mapsto> the (ml_lookup ml (h_fd g)))"
    using R(2,3) L(2) by (auto simp: fun_eq_iff)
  ultimately show ?thesis using that R(1,2) r0 by blast
qed

end
