(* ===== verification/Remote_System.thy ===== *)
theory Remote_System
  imports Remote_Open
begin

text \<open>
  Any number of clients and one server over a transport that delivers every call. The state
  has the handles the clients hold and the server process; a step is one call of one client.
  In every reachable state the server's lock bookkeeping agrees with what the clients believe,
  so no two of them hold conflicting locks on one file.
\<close>

section \<open>Steps\<close>

text \<open>A call on a file that neither locks nor closes it: the client's new handle, the new server.\<close>

inductive file_request ::
  "'os syscalls \<Rightarrow> unixFile \<Rightarrow> 'os server \<Rightarrow> unixFile \<Rightarrow> 'os server \<Rightarrow> bool" for S where
  req_read: "remoteRead S Delivered junk f pBuf amt offset sv = Some ((g, buf, rc), sv') \<Longrightarrow>
     file_request S f sv g sv'"
| req_write: "remoteWrite S Delivered junk f pBuf amt offset sv = Some ((g, rc), sv') \<Longrightarrow>
     file_request S f sv g sv'"
| req_truncate: "remoteTruncate S Delivered junk f nByte sv = Some ((g, rc), sv') \<Longrightarrow>
     file_request S f sv g sv'"
| req_sync: "remoteSync S Delivered junk f flags sv = Some ((g, rc), sv') \<Longrightarrow>
     file_request S f sv g sv'"
| req_size: "remoteFileSize S Delivered junk f pSize sv = Some ((g, n, rc), sv') \<Longrightarrow>
     file_request S f sv g sv'"
| req_control: "remoteFileControl S Delivered junk deref f op pArg sv = Some ((g, a, rc), sv') \<Longrightarrow>
     file_request S f sv g sv'"
| req_sector: "remoteSectorSize Delivered junk f sv = Some ((g, n), sv') \<Longrightarrow>
     file_request S f sv g sv'"
| req_device: "remoteDeviceCharacteristics Delivered junk f sv = Some ((g, n), sv') \<Longrightarrow>
     file_request S f sv g sv'"
| req_check: "remoteCheckReservedLock S Delivered junk f res sv = Some ((g, r, rc), sv') \<Longrightarrow>
     file_request S f sv g sv'"
| req_fetch: "remoteFetch S Delivered junk f iOff nAmt sv = Some ((g, page, rc), sv') \<Longrightarrow>
     file_request S f sv g sv'"
| req_unfetch: "remoteUnfetch S Delivered junk f iOff p sv = Some ((g, rc), sv') \<Longrightarrow>
     file_request S f sv g sv'"

text \<open>A call that names no open file.\<close>

inductive vfs_request :: "'os syscalls \<Rightarrow> 'os server \<Rightarrow> 'os server \<Rightarrow> bool" for S where
  req_init: "sqlite3_os_init Delivered junk vfss sv = Some (rc, vfss', sv') \<Longrightarrow> vfs_request S sv sv'"
| req_delete: "remoteDelete S Delivered junk z dirSync sv = Some (rc, sv') \<Longrightarrow> vfs_request S sv sv'"
| req_access: "remoteAccess S Delivered junk z flags res sv = Some (r, sv') \<Longrightarrow> vfs_request S sv sv'"
| req_pathname: "remoteFullPathname S Delivered junk z nOut zOut sv = Some (r, sv') \<Longrightarrow>
     vfs_request S sv sv'"
| req_error: "remoteGetLastError S Delivered junk sv = Some (rc, sv') \<Longrightarrow> vfs_request S sv sv'"

text \<open>
  \<open>dbs\<close> are the clients' handles on databases, \<open>others\<close> those on journals and other
  files, which are opened without locking.
\<close>

record 'os system =
  dbs :: "unixFile multiset"
  others :: "unixFile multiset"
  srv :: "'os server"

definition sys_init :: "'os \<Rightarrow> 'os system" where
  "sys_init os = \<lparr>dbs = {#}, others = {#}, srv = sv_init os\<rparr>"

text \<open>
  A client's lock request obeys the contract of the pager, a released level is NONE or SHARED,
  and a file that is not a database gets a descriptor that no open database has, as
  \<open>open\<close> guarantees.
\<close>

inductive sys_step :: "'os syscalls \<Rightarrow> 'os system \<Rightarrow> 'os system \<Rightarrow> bool" for S where
  open_db: "remoteOpen S Delivered junk z f0 flags out (srv s) = Some ((f, out', SQLITE_OK), sv') \<Longrightarrow>
     open_type (passed_flags flags) = SQLITE_OPEN_MAIN_DB \<Longrightarrow>
     sys_step S s (s\<lparr>dbs := add_mset f (dbs s), srv := sv'\<rparr>)"
| open_other: "remoteOpen S Delivered junk z f0 flags out (srv s) = Some ((f, out', SQLITE_OK), sv') \<Longrightarrow>
     open_type (passed_flags flags) \<noteq> SQLITE_OPEN_MAIN_DB \<Longrightarrow>
     h_fd f \<notin> h_fd ` set_mset (dbs s) \<Longrightarrow>
     sys_step S s (s\<lparr>others := add_mset f (others s), srv := sv'\<rparr>)"
| open_failed: "remoteOpen S Delivered junk z f0 flags out (srv s) = Some ((f, out', rc), sv') \<Longrightarrow>
     rc \<noteq> SQLITE_OK \<Longrightarrow> sys_step S s (s\<lparr>srv := sv'\<rparr>)"
| lock: "dbs s = add_mset f F \<Longrightarrow> lock_request_ok f (sint e) \<Longrightarrow>
     remoteLock S Delivered junk f e (srv s) = Some ((g, rc), sv') \<Longrightarrow>
     sys_step S s (s\<lparr>dbs := add_mset g F, srv := sv'\<rparr>)"
| unlock: "dbs s = add_mset f F \<Longrightarrow> sint e = NO_LOCK \<or> sint e = SHARED_LOCK \<Longrightarrow>
     remoteUnlock S Delivered junk f e (srv s) = Some ((g, rc), sv') \<Longrightarrow>
     sys_step S s (s\<lparr>dbs := add_mset g F, srv := sv'\<rparr>)"
| request_db: "dbs s = add_mset f F \<Longrightarrow> file_request S f (srv s) g sv' \<Longrightarrow>
     sys_step S s (s\<lparr>dbs := add_mset g F, srv := sv'\<rparr>)"
| request_other: "others s = add_mset f F \<Longrightarrow> file_request S f (srv s) g sv' \<Longrightarrow>
     sys_step S s (s\<lparr>others := add_mset g F, srv := sv'\<rparr>)"
| close_db: "dbs s = add_mset f F \<Longrightarrow> remoteClose S Delivered junk f (srv s) = Some ((g, rc), sv') \<Longrightarrow>
     sys_step S s (s\<lparr>dbs := F, srv := sv'\<rparr>)"
| close_other: "others s = add_mset f F \<Longrightarrow> remoteClose S Delivered junk f (srv s) = Some ((g, rc), sv') \<Longrightarrow>
     sys_step S s (s\<lparr>others := F, srv := sv'\<rparr>)"
| vfs: "vfs_request S (srv s) sv' \<Longrightarrow> sys_step S s (s\<lparr>srv := sv'\<rparr>)"

inductive reachable :: "'os syscalls \<Rightarrow> 'os system \<Rightarrow> bool" for S where
  start: "reachable S (sys_init os)"
| step: "reachable S s \<Longrightarrow> sys_step S s t \<Longrightarrow> reachable S t"

section \<open>The invariant\<close>

text \<open>A descriptor whose entry leads to the methods of posix locking.\<close>

definition db_served :: "mlist \<Rightarrow> cint \<Rightarrow> bool" where
  "db_served ml fd \<longleftrightarrow> served ml fd \<and>
     (case ml_lookup ml fd of None \<Rightarrow> False | Some (m, p) \<Rightarrow> served_method m = posixIoMethods)"

text \<open>A handle without a place in the server's table of inodes.\<close>

definition other_key :: "unixFile \<Rightarrow> bool" where
  "other_key f \<longleftrightarrow> pInode f = NULL \<and> pPreallocatedUnused f = NULL"

definition sys_inv :: "'os system \<Rightarrow> bool" where
  "sys_inv s \<longleftrightarrow>
     ml_inv (sv_list (srv s)) \<and>
     (\<forall>f \<in># dbs s. db_served (sv_list (srv s)) (h_fd f)) \<and>
     (\<forall>f \<in># others s. served (sv_list (srv s)) (h_fd f) \<and> other_key f) \<and>
     files_inv (dbs s) (sv_unix (srv s))"

lemma sys_inv_init: "sys_inv (sys_init os)"
  using files_inv_init [of os]
  by (simp add: sys_inv_def sys_init_def sv_init_def ml_inv_empty)

lemma served_method_idem [simp]:
  "served_method (served_method m) = served_method m" "served_method posixIoMethods = posixIoMethods"
  by (simp_all add: served_method_def posixIoMethods_def)

lemma list_grows_served:
  assumes "list_grows ml ml'"
  shows "served ml fd \<Longrightarrow> served ml' fd" and "db_served ml fd \<Longrightarrow> db_served ml' fd"
proof -
  consider "ml_lookup ml' fd = ml_lookup ml fd"
    | m p where "ml_lookup ml fd = Some (m, p)" "ml_lookup ml' fd = Some (served_method m, p)"
    using assms unfolding list_grows_def by blast
  note C = this
  show "served ml fd \<Longrightarrow> served ml' fd"
    by (cases rule: C) (simp_all add: served_def)
  show "db_served ml fd \<Longrightarrow> db_served ml' fd"
    by (cases rule: C) (simp_all add: db_served_def served_def)
qed

section \<open>Requests on files\<close>

lemma remoteUnfetch_quiet:
  assumes inv: "ml_inv (sv_list sv)" "served (sv_list sv) (h_fd f)"
    and run: "remoteUnfetch S Delivered junk f iOff p sv = Some ((g, rc), sv')"
  shows "quiet_step f sv g sv'"
proof -
  obtain g1 y sv1 where c: "call_unfetch S (server_view sv f) (iOff, if p then 1 else 0) sv = Some (g1, y, sv1)"
    and z: "(g, rc) = (setClientRemotePMethods (f\<lparr>pMethod := pMethod g1\<rparr>), y)" and sv': "sv' = settle g1 sv1"
    by (rule remote_unfetch.delivered_inv [where a = "(f, iOff, if p then 1 else 0)" and f = f
          and x = "(iOff, if p then 1 else 0)" and e = "()" and c = f and S = S and junk = junk, OF _ _ inv])
      (use run in \<open>auto simp: remoteUnfetch_def WrapUnfetch_def\<close>)
  have "list_grows (sv_list sv) (sv_list sv')"
    unfolding sv' by (rule settle_grows [OF inv unfetch_call.keeps_handle [OF c] unfetch_call.keeps_list [OF c]])
  then show ?thesis
    using unfetch_call.keeps_files [OF c] z
    by (simp add: quiet_step_def sv' file_key_def lock_level_def setClientRemotePMethods_def)
qed

lemma file_request_quiet:
  assumes "file_request S f sv g sv'" and inv: "ml_inv (sv_list sv)" "served (sv_list sv) (h_fd f)"
  shows "quiet_step f sv g sv'"
  using assms(1)
proof cases
  case (req_read junk pBuf amt offset buf rc)
  then show ?thesis
    using read_method.quiet [where a = "(f, pBuf, amt, offset)" and sv = sv and z = "(g, buf, rc)" and svn = sv' and junk = junk and S = S and junka = junk] inv
    by (simp add: remoteRead_def WrapRead_def)
next
  case (req_write junk pBuf amt offset rc)
  then show ?thesis
    using write_method.quiet [where a = "(f, pBuf, amt, offset)" and sv = sv and z = "(g, rc)" and svn = sv' and junk = junk and S = S and junka = junk] inv
    by (simp add: remoteWrite_def WrapWrite_def)
next
  case (req_truncate junk nByte rc)
  then show ?thesis
    using truncate_method.quiet [where a = "(f, nByte)" and sv = sv and z = "(g, rc)" and svn = sv' and junk = junk and S = S] inv
    by (simp add: remoteTruncate_def WrapTruncate_def)
next
  case (req_sync junk flags rc)
  then show ?thesis
    using sync_method.quiet [where a = "(f, flags)" and sv = sv and z = "(g, rc)" and svn = sv' and junk = junk and S = S] inv
    by (simp add: remoteSync_def WrapSync_def)
next
  case (req_size junk pSize n rc)
  then show ?thesis
    using size_method.quiet [where a = "(f, pSize)" and sv = sv and z = "(g, n, rc)" and svn = sv' and junk = junk and S = S] inv
    by (simp add: remoteFileSize_def WrapFileSize_def)
next
  case (req_control junk deref op pArg a rc)
  then obtain sz where "invoke Delivered junk (\<lambda>arg. unixFileControlConvertArgInToChar f op pArg arg sz)
      SIZE_ArgInFileControl (WrapFileControl S junk) (zeroed SIZE_ReturnFileControl)
      (\<lambda>arg. unixFileControlConvertCharToReturn arg pArg) sv = Some ((g, a, rc), sv')"
    by (auto simp: remoteFileControl_def bind_eq_Some_iff)
  then show ?thesis
    using control_method.quiet [where a = "(f, op, pArg, sz)" and sv = sv and z = "(g, a, rc)"
        and svn = sv' and junk = junk and S = S and junka = junk] inv
    by (simp add: WrapFileControl_def)
next
  case (req_sector junk n)
  then show ?thesis
    using sector_method.quiet [where a = "f" and sv = sv and z = "(g, n)" and svn = sv' and junk = junk] inv
    by (simp add: remoteSectorSize_def WrapSectorSize_def)
next
  case (req_device junk n)
  then show ?thesis
    using characteristics_method.quiet [where a = "f" and sv = sv and z = "(g, n)" and svn = sv' and junk = junk] inv
    by (simp add: remoteDeviceCharacteristics_def WrapDeviceCharacteristics_def)
next
  case (req_check junk res r rc)
  then show ?thesis
    using check_method.quiet [where a = "(f, res)" and sv = sv and z = "(g, r, rc)" and svn = sv' and junk = junk and S = S] inv
    by (simp add: remoteCheckReservedLock_def WrapCheckReservedLock_def)
next
  case (req_fetch junk iOff nAmt page rc)
  then show ?thesis
    using fetch_method.quiet [where a = "(f, iOff, nAmt)" and sv = sv and z = "(g, page, rc)" and svn = sv' and junk = junk and S = S and junka = junk] inv
    by (simp add: remoteFetch_def WrapFetch_def)
next
  case (req_unfetch junk iOff p rc)
  then show ?thesis using remoteUnfetch_quiet [OF inv] by blast
qed

section \<open>Locks\<close>

lemma same_file_server:
  assumes "ml_inv (sv_list sv)" and "served (sv_list sv) (h_fd f)"
  shows "lock_level (server_view sv f) = lock_level f"
  using server_view_key(1) [OF assms] by (simp add: file_key_def)

lemma db_served_served: "db_served ml fd \<Longrightarrow> served ml fd"
  by (simp add: db_served_def)

lemma remoteLock_served:
  assumes inv: "ml_inv (sv_list sv)" "served (sv_list sv) (h_fd f)"
    and files: "files_inv (add_mset f R) (sv_unix sv)" and ok: "lock_request_ok f (sint e)"
  obtains g rc st where
    "unixLock S (server_view sv f) (sint e) (sv_unix sv) = Some (rc, g, st)"
    "remoteLock S Delivered junk f e sv =
       Some ((setClientRemotePMethods g, rc), settle g (sv\<lparr>sv_unix := st\<rparr>))"
    "files_inv (add_mset g R) st" "same_file (server_view sv f) g"
    "if rc = SQLITE_OK then lock_level g = max (sint e) (lock_level f)
     else lock_level g = lock_level f \<or> sint e = EXCLUSIVE_LOCK \<and> lock_level g = PENDING_LOCK"
proof -
  have lv: "lock_level (server_view sv f) = lock_level f" by (rule same_file_server [OF inv])
  have fi: "files_inv (add_mset (server_view sv f) R) (sv_unix sv)"
    using files files_inv_same [OF server_view_key(1) [OF inv]] by blast
  have ok': "lock_request_ok (server_view sv f) (sint e)" using ok lv by (simp add: lock_request_ok_def)
  obtain rc g st where u: "unixLock S (server_view sv f) (sint e) (sv_unix sv) = Some (rc, g, st)"
    and F: "files_inv (add_mset g R) st" "same_file (server_view sv f) g"
      "if rc = SQLITE_OK then lock_level g = max (sint e) (lock_level (server_view sv f))
       else lock_level g = lock_level (server_view sv f) \<or> sint e = EXCLUSIVE_LOCK \<and> lock_level g = PENDING_LOCK"
    by (rule unixLock_files [OF fi ok', of S]) (rule that)
  have c: "call_lock S (server_view sv f) e sv = Some (g, rc, sv\<lparr>sv_unix := st\<rparr>)"
    by (simp add: call_lock_def u)
  have "remoteLock S Delivered junk f e sv =
       Some ((setClientRemotePMethods g, rc), settle g (sv\<lparr>sv_unix := st\<rparr>))"
    using remote_lock.delivered [where a = "(f, e)" and e = "()" and c = "()" and junk = junk, OF _ _ inv c]
    by (simp add: remoteLock_def WrapLock_def)
  from u this F(1,2) F(3) [unfolded lv] show ?thesis by (rule that)
qed

lemma remoteUnlock_served:
  assumes inv: "ml_inv (sv_list sv)" "served (sv_list sv) (h_fd f)"
    and files: "files_inv (add_mset f R) (sv_unix sv)" and e: "sint e = NO_LOCK \<or> sint e = SHARED_LOCK"
  obtains g rc st where
    "unixUnlock S (server_view sv f) (sint e) (sv_unix sv) = Some (rc, g, st)"
    "remoteUnlock S Delivered junk f e sv =
       Some ((setClientRemotePMethods g, rc), settle g (sv\<lparr>sv_unix := st\<rparr>))"
    "files_inv (add_mset g R) st" "same_file (server_view sv f) g"
    "if rc = SQLITE_OK then lock_level g = min (sint e) (lock_level f)
     else lock_level g = lock_level f \<or> sint e = NO_LOCK \<and> lock_level g = NO_LOCK"
proof -
  have lv: "lock_level (server_view sv f) = lock_level f" by (rule same_file_server [OF inv])
  have fi: "files_inv (add_mset (server_view sv f) R) (sv_unix sv)"
    using files files_inv_same [OF server_view_key(1) [OF inv]] by blast
  obtain rc g st where u: "unixUnlock S (server_view sv f) (sint e) (sv_unix sv) = Some (rc, g, st)"
    and F: "files_inv (add_mset g R) st" "same_file (server_view sv f) g"
      "if rc = SQLITE_OK then lock_level g = min (sint e) (lock_level (server_view sv f))
       else lock_level g = lock_level (server_view sv f) \<or> sint e = NO_LOCK \<and> lock_level g = NO_LOCK"
    by (rule unixUnlock_files [OF fi e, of S]) (rule that)
  have c: "call_unlock S (server_view sv f) e sv = Some (g, rc, sv\<lparr>sv_unix := st\<rparr>)"
    by (simp add: call_unlock_def u)
  have "remoteUnlock S Delivered junk f e sv =
       Some ((setClientRemotePMethods g, rc), settle g (sv\<lparr>sv_unix := st\<rparr>))"
    using remote_unlock.delivered [where a = "(f, e)" and e = "()" and c = "()" and junk = junk, OF _ _ inv c]
    by (simp add: remoteUnlock_def WrapUnlock_def)
  from u this F(1,2) F(3) [unfolded lv] show ?thesis by (rule that)
qed

text \<open>How a step on one database handle carries the invariant over.\<close>

lemma sys_inv_db:
  assumes inv: "sys_inv s" and F: "dbs s = add_mset f F" and fd: "h_fd g = h_fd f"
    and gr: "list_grows (sv_list (srv s)) (sv_list sv')" and fi: "files_inv (add_mset g F) (sv_unix sv')"
  shows "sys_inv (s\<lparr>dbs := add_mset g F, srv := sv'\<rparr>)"
  using inv fi fd list_grows_served [OF gr] gr
  by (auto simp: sys_inv_def F list_grows_def)

lemma lock_step_inv:
  assumes inv: "sys_inv s" and F: "dbs s = add_mset f F"
    and sm: "same_file (server_view (srv s) f) g" and fi: "files_inv (add_mset g F) st"
  shows "sys_inv (s\<lparr>dbs := add_mset (setClientRemotePMethods g) F, srv := settle g ((srv s)\<lparr>sv_unix := st\<rparr>)\<rparr>)"
proof (rule sys_inv_db [OF inv F])
  have S: "ml_inv (sv_list (srv s))" "served (sv_list (srv s)) (h_fd f)"
    using inv F by (auto simp: sys_inv_def db_served_def)
  show "h_fd (setClientRemotePMethods g) = h_fd f"
    using same_fileD [OF sm] server_view_key(2) [OF S] by simp
  show "list_grows (sv_list (srv s)) (sv_list (settle g ((srv s)\<lparr>sv_unix := st\<rparr>)))"
    by (rule settle_grows [OF S same_file_handle [OF sm]]) simp
  show "files_inv (add_mset (setClientRemotePMethods g) F) (sv_unix (settle g ((srv s)\<lparr>sv_unix := st\<rparr>)))"
    using fi files_inv_same [of "setClientRemotePMethods g" g F st] by simp
qed

section \<open>Closing\<close>

lemma remoteCloseD:
  assumes inv: "ml_inv (sv_list sv)" "served (sv_list sv) (h_fd f)"
    and run: "remoteClose S Delivered junk f sv = Some ((g, rc), sv')"
  obtains h st where "xClose S (server_mem sv) (server_view sv f) (sv_unix sv) = Some (rc, h, st)"
    "sv' = sv\<lparr>sv_unix := st\<rparr>"
proof -
  have lk: "lookup_file f sv = Some (server_view sv f, sv)"
    by (rule served_file [OF inv])
  show ?thesis
    using run lk that
    by (auto simp: remoteClose_def invoke_def rpc_def WrapClose_def method_simps get32_def
        read_at_def overwrite_def split: if_splits)
qed


text \<open>The close of a database is always answered, with success, and the server forgets the handle.\<close>

lemma remoteClose_db:
  assumes inv: "sys_inv s" and F: "dbs s = add_mset f F"
  obtains st where "remoteClose S Delivered junk f (srv s) =
      Some ((setClientRemotePMethods f, SQLITE_OK), (srv s)\<lparr>sv_unix := st\<rparr>)" "files_inv F st"
proof -
  have S: "ml_inv (sv_list (srv s))" "served (sv_list (srv s)) (h_fd f)" "db_served (sv_list (srv s)) (h_fd f)"
    using inv F by (auto simp: sys_inv_def db_served_def)
  have fi: "files_inv (add_mset (server_view (srv s) f) F) (sv_unix (srv s))"
    using inv by (simp add: sys_inv_def F files_inv_same [OF server_view_key(1) [OF S(1,2)]])
  obtain m p a where lk: "ml_lookup (sv_list (srv s)) (h_fd f) = Some (m, p)"
    and v: "server_view (srv s) f = f\<lparr>pMethod := served_method m, zPath := a\<rparr>"
    and l: "lookup_file f (srv s) = Some (server_view (srv s) f, srv s)"
    and a: "server_mem (srv s) a = Some p"
    by (rule served_file [OF S(1,2)]) (rule that)
  have m: "served_method m = posixIoMethods" using S(3) lk by (simp add: db_served_def)
  have z: "server_mem (srv s) (zPath (server_view (srv s) f)) = Some p" using a by (simp add: v)
  obtain st where u: "unixClose S (server_mem (srv s)) (server_view (srv s) f) (sv_unix (srv s)) =
      Some (SQLITE_OK, zero_unixFile, st)" and R: "files_inv F st"
    by (rule unixClose_files [where S = S and mem = "server_mem (srv s)", OF fi z]) (rule that)
  have x: "xClose S (server_mem (srv s)) (server_view (srv s) f) (sv_unix (srv s)) =
      Some (SQLITE_OK, zero_unixFile, st)"
    using u by (simp add: xClose_def v m)
  have "rpc Delivered junk (WrapClose S) (overwrite (zeroed SIZE_ArgInClose) 0 (enc_unixFile f))
      (zeroed SIZE_ReturnClose) (srv s) =
    Some (overwrite (uninit junk 0 SIZE_ReturnClose) SIZE_UNIXFILE (le32 SQLITE_OK), (srv s)\<lparr>sv_unix := st\<rparr>)"
    by (rule rpc_delivered) (simp_all add: WrapClose_def marshal_simps l x)
  then have "remoteClose S Delivered junk f (srv s) =
      Some ((setClientRemotePMethods f, SQLITE_OK), (srv s)\<lparr>sv_unix := st\<rparr>)"
    by (simp add: remoteClose_def invoke_def marshal_simps)
  then show ?thesis using R by (rule that)
qed

lemma close_db_inv:
  assumes inv: "sys_inv s" and F: "dbs s = add_mset f F"
    and run: "remoteClose S Delivered junk f (srv s) = Some ((g, rc), sv')"
  shows "sys_inv (s\<lparr>dbs := F, srv := sv'\<rparr>)"
  by (rule remoteClose_db [OF inv F, of S junk]) (use inv run in \<open>auto simp: sys_inv_def F\<close>)

lemma unixClose_no_inode: "pInode f = NULL \<Longrightarrow> unixClose S mem f st = None"
proof (rule ccontr)
  assume n: "pInode f = NULL" and "unixClose S mem f st \<noteq> None"
  then obtain st1 rc g st2 i where u: "unixUnlock S f NO_LOCK st1 = Some (rc, g, st2)"
    and i: "inode_at (pInode g) st2 = Some i"
    by (auto simp: unixClose_def bind_eq_Some_iff)
  have "pInode g = NULL" using u n
    by (auto simp: unixUnlock_def posixUnlock_def bind_eq_Some_iff split: if_splits)
  then show False using i by simp
qed

lemma close_other_inv:
  assumes inv: "sys_inv s" and F: "others s = add_mset f F"
    and run: "remoteClose S Delivered junk f (srv s) = Some ((g, rc), sv')"
  shows "sys_inv (s\<lparr>others := F, srv := sv'\<rparr>)"
proof -
  have S: "ml_inv (sv_list (srv s))" "served (sv_list (srv s)) (h_fd f)" "other_key f"
    using inv F by (auto simp: sys_inv_def)
  obtain m a where v: "server_view (srv s) f = f\<lparr>pMethod := served_method m, zPath := a\<rparr>"
    by (rule served_file [OF S(1,2)]) (rule that)
  obtain h st where x: "xClose S (server_mem (srv s)) (server_view (srv s) f) (sv_unix (srv s)) = Some (rc, h, st)"
    and sv': "sv' = (srv s)\<lparr>sv_unix := st\<rparr>"
    by (rule remoteCloseD [OF S(1,2) run]) (rule that)
  have k: "pInode (server_view (srv s) f) = NULL" "pPreallocatedUnused (server_view (srv s) f) = NULL"
    using S(3) by (simp_all add: v other_key_def)
  have "nolockClose S (server_view (srv s) f) (sv_unix (srv s)) = (rc, h, st)"
    using x by (simp add: xClose_def unixClose_no_inode [OF k(1)] split: if_splits)
  then obtain os where "st = (sv_unix (srv s))\<lparr>us_os := os, unusedFds := (unusedFds (sv_unix (srv s)))(NULL := None)\<rparr>"
    using k(2) unixUnmapfile_handle [of S "server_view (srv s) f"]
    by (fastforce simp: nolockClose_def closeUnixFile_def Let_def file_key_def split: prod.splits)
  then have "files_inv (dbs s) st"
    using inv files_inv_free_NULL [of "dbs s" "(sv_unix (srv s))\<lparr>us_os := os\<rparr>"]
    by (simp add: sys_inv_def)
  then show ?thesis using inv by (simp add: sys_inv_def sv' F)
qed

section \<open>Requests\<close>

lemma request_db_inv:
  assumes inv: "sys_inv s" and F: "dbs s = add_mset f F" and run: "file_request S f (srv s) g sv'"
  shows "sys_inv (s\<lparr>dbs := add_mset g F, srv := sv'\<rparr>)"
proof -
  have S: "ml_inv (sv_list (srv s))" "served (sv_list (srv s)) (h_fd f)"
    and fi: "files_inv (add_mset f F) (sv_unix (srv s))"
    using inv F by (auto simp: sys_inv_def db_served_def)
  have q: "quiet_step f (srv s) g sv'" by (rule file_request_quiet [OF run S])
  then have "files_inv (add_mset f F) (sv_unix sv')" using fi unfolding quiet_step_def by blast
  then have "files_inv (add_mset g F) (sv_unix sv')"
    using q by (simp add: quiet_step_def files_inv_same [of g f])
  then show ?thesis using q by (intro sys_inv_db [OF inv F]) (simp_all add: quiet_step_def)
qed

lemma request_other_inv:
  assumes inv: "sys_inv s" and F: "others s = add_mset f F" and run: "file_request S f (srv s) g sv'"
  shows "sys_inv (s\<lparr>others := add_mset g F, srv := sv'\<rparr>)"
proof -
  have q: "quiet_step f (srv s) g sv'"
    using inv F by (intro file_request_quiet [OF run]) (auto simp: sys_inv_def)
  have "other_key g" using q inv F by (auto simp: quiet_step_def sys_inv_def other_key_def file_key_def)
  moreover have gr: "list_grows (sv_list (srv s)) (sv_list sv')" using q by (simp add: quiet_step_def)
  ultimately show ?thesis
    using q inv list_grows_served [OF gr] by (auto simp: sys_inv_def quiet_step_def list_grows_def F)
qed

lemma vfs_inv:
  assumes inv: "sys_inv s" and run: "vfs_request S (srv s) sv'"
  shows "sys_inv (s\<lparr>srv := sv'\<rparr>)"
proof -
  have "\<exists>os. sv' = put_os os (srv s)"
    using run
  proof cases
    case req_init
    then have "sv' = srv s"
      by (auto simp: sqlite3_os_init_def remote_sqlite3_os_init_def invoke_def rpc_def WrapInit_def
          bind_eq_Some_iff)
    then have "sv' = put_os (sv_os (srv s)) (srv s)" by (simp add: put_os_def)
    then show ?thesis ..
  next
    case req_delete
    then show ?thesis by (auto simp: remoteDelete_def invoke_def rpc_def WrapDelete_def bind_eq_Some_iff)
  next
    case req_access
    then show ?thesis
      by (auto simp: remoteAccess_def invoke_def rpc_def WrapAccess_def bind_eq_Some_iff Let_def split_beta)
  next
    case req_pathname
    then show ?thesis by (auto simp: remoteFullPathname_def invoke_def rpc_def WrapFullPathname_def bind_eq_Some_iff)
  next
    case req_error
    then have "sv' = srv s"
      by (auto simp: remoteGetLastError_def invoke_def rpc_def WrapGetLastError_def bind_eq_Some_iff)
    then have "sv' = put_os (sv_os (srv s)) (srv s)" by (simp add: put_os_def)
    then show ?thesis ..
  qed
  then obtain os where "sv' = put_os os (srv s)" ..
  then show ?thesis using inv by (simp add: sys_inv_def)
qed

section \<open>Opening\<close>

lemma registered_served:
  assumes inv: "ml_inv ml" and a: "AddNode fd m ml = Some ml1" and s: "setServicePath fd path ml1 = Some ml2"
    and z: "c_string path = Some z" "length z \<le> PATH_LEN"
  shows "ml_inv ml2" and "served ml2 fd"
    and "served_method m = posixIoMethods \<Longrightarrow> db_served ml2 fd"
    and "fd' \<noteq> fd \<Longrightarrow> ml_lookup ml2 fd' = ml_lookup ml fd'"
proof -
  note R = methods.registered [OF inv a s z(1)]
  show "ml_inv ml2" by (rule R(1))
  show "served ml2 fd" "served_method m = posixIoMethods \<Longrightarrow> db_served ml2 fd"
    using R(2) z(2) by (auto simp: served_def db_served_def)
  show "fd' \<noteq> fd \<Longrightarrow> ml_lookup ml2 fd' = ml_lookup ml fd'" by (rule R(3))
qed


text \<open>A new entry in the list keeps the handles served.\<close>

lemma handles_served:
  assumes inv: "sys_inv s" and "ml_lookup ml = ml_lookup (sv_list (srv s))" "ml_inv ml"
    and a: "AddNode fd m ml = Some ml1" and st: "setServicePath fd path ml1 = Some ml2"
    and z: "c_string path = Some z" "length z \<le> PATH_LEN"
    and safe: "served_method m = posixIoMethods \<or> fd \<notin> h_fd ` set_mset (dbs s)"
  shows "\<forall>f \<in># dbs s. db_served ml2 (h_fd f)"
    and "\<forall>f \<in># others s. served ml2 (h_fd f) \<and> other_key f"
proof -
  note R = registered_served [OF assms(3) a st z]
  have keep: "fd' \<noteq> fd \<Longrightarrow> served (sv_list (srv s)) fd' \<Longrightarrow> served ml2 fd'"
    "fd' \<noteq> fd \<Longrightarrow> db_served (sv_list (srv s)) fd' \<Longrightarrow> db_served ml2 fd'" for fd'
    using R(4) [of fd'] assms(2) by (simp_all add: served_def db_served_def)
  show "\<forall>f \<in># dbs s. db_served ml2 (h_fd f)"
  proof
    fix f assume f: "f \<in># dbs s"
    show "db_served ml2 (h_fd f)"
      using f safe inv R(3) keep(2) by (cases "h_fd f = fd") (auto simp: sys_inv_def)
  qed
  show "\<forall>f \<in># others s. served ml2 (h_fd f) \<and> other_key f"
  proof
    fix f assume f: "f \<in># others s"
    show "served ml2 (h_fd f) \<and> other_key f"
      using f inv R(2) keep(1) by (cases "h_fd f = fd") (auto simp: sys_inv_def)
  qed
qed

lemma open_db_inv:
  assumes inv: "sys_inv s"
    and run: "remoteOpen S Delivered junk zName f0 flags out (srv s) = Some ((f, out', SQLITE_OK), sv')"
    and db: "open_type (passed_flags flags) = SQLITE_OPEN_MAIN_DB"
  shows "sys_inv (s\<lparr>dbs := add_mset f (dbs s), srv := sv'\<rparr>)" and "lock_level f = NO_LOCK"
proof -
  have I: "ml_inv (sv_list (srv s))" "files_inv (dbs s) (sv_unix (srv s))"
    using inv by (simp_all add: sys_inv_def)
  obtain mem g out1 ml ml1 ml2 path z st where
    o: "unixOpen S mem STACK_path (passed_flags flags) (sv_unix (srv s)) = Some (SQLITE_OK, g, out1, st)"
    and z: "c_string path = Some z" "length z \<le> PATH_LEN"
    and ml: "ml_inv ml" "ml_lookup ml = ml_lookup (sv_list (srv s))"
    and a: "AddNode (h_fd g) (pMethod g) ml = Some ml1" "setServicePath (h_fd g) path ml1 = Some ml2"
    and f: "f = setClientRemotePMethods g" and sv': "sv' = (srv s)\<lparr>sv_unix := st, sv_list := ml2\<rparr>"
    by (rule remoteOpenD [OF I(1) run]) (rule that)
  have O: "files_inv (add_mset g (dbs s)) st" "lock_level g = NO_LOCK" "pMethod g = posixIoMethods"
    using unixOpen_files [OF I(2) db o] by (simp_all add: open_result_def)
  note R = registered_served [OF ml(1) a z]
  have m: "served_method (pMethod g) = posixIoMethods" by (simp add: O(3))
  note H = handles_served [OF inv ml(2,1) a z disjI1 [OF m]]
  show "lock_level f = NO_LOCK" using O(2) by (simp add: f setClientRemotePMethods_def lock_level_def)
  show "sys_inv (s\<lparr>dbs := add_mset f (dbs s), srv := sv'\<rparr>)"
    using H O(1) R(1) R(3) [OF m] by (simp add: sys_inv_def sv' f files_inv_same [of "setClientRemotePMethods g" g])
qed

lemma open_other_inv:
  assumes inv: "sys_inv s"
    and run: "remoteOpen S Delivered junk zName f0 flags out (srv s) = Some ((f, out', SQLITE_OK), sv')"
    and db: "open_type (passed_flags flags) \<noteq> SQLITE_OPEN_MAIN_DB"
    and new: "h_fd f \<notin> h_fd ` set_mset (dbs s)"
  shows "sys_inv (s\<lparr>others := add_mset f (others s), srv := sv'\<rparr>)"
proof -
  have I: "ml_inv (sv_list (srv s))" "files_inv (dbs s) (sv_unix (srv s))"
    using inv by (simp_all add: sys_inv_def)
  obtain mem g out1 ml ml1 ml2 path z st where
    o: "unixOpen S mem STACK_path (passed_flags flags) (sv_unix (srv s)) = Some (SQLITE_OK, g, out1, st)"
    and z: "c_string path = Some z" "length z \<le> PATH_LEN"
    and ml: "ml_inv ml" "ml_lookup ml = ml_lookup (sv_list (srv s))"
    and a: "AddNode (h_fd g) (pMethod g) ml = Some ml1" "setServicePath (h_fd g) path ml1 = Some ml2"
    and f: "f = setClientRemotePMethods g" and sv': "sv' = (srv s)\<lparr>sv_unix := st, sv_list := ml2\<rparr>"
    by (rule remoteOpenD [OF I(1) run]) (rule that)
  have O: "files_inv (dbs s) st" "other_key g"
    using unixOpen_other [OF I(2) db o] by (simp_all add: other_result_def other_key_def)
  note R = registered_served [OF ml(1) a z]
  have n: "h_fd g \<notin> h_fd ` set_mset (dbs s)" using new by (simp add: f)
  note H = handles_served [OF inv ml(2,1) a z disjI2 [OF n]]
  show ?thesis
    using H O R(1,2) by (simp add: sys_inv_def sv' f other_key_def setClientRemotePMethods_def)
qed

lemma open_failed_inv:
  assumes inv: "sys_inv s"
    and run: "remoteOpen S Delivered junk zName f0 flags out (srv s) = Some ((f, out', rc), sv')"
    and nz: "rc \<noteq> SQLITE_OK"
  shows "sys_inv (s\<lparr>srv := sv'\<rparr>)"
proof -
  have I: "ml_inv (sv_list (srv s))" "files_inv (dbs s) (sv_unix (srv s))"
    using inv by (simp_all add: sys_inv_def)
  obtain mem g out1 ml ml1 ml2 path z st where
    o: "unixOpen S mem STACK_path (passed_flags flags) (sv_unix (srv s)) = Some (rc, g, out1, st)"
    and z: "c_string path = Some z" "length z \<le> PATH_LEN"
    and ml: "ml_inv ml" "ml_lookup ml = ml_lookup (sv_list (srv s))"
    and a: "AddNode (h_fd g) (pMethod g) ml = Some ml1" "setServicePath (h_fd g) path ml1 = Some ml2"
    and sv': "sv' = (srv s)\<lparr>sv_unix := st, sv_list := ml2\<rparr>"
    by (rule remoteOpenD [OF I(1) run]) (rule that)
  have "files_inv (dbs s) st"
    using unixOpen_files [OF I(2) _ o] unixOpen_other [OF I(2) _ o] nz
    by (auto simp: open_result_def other_result_def)
  moreover have m: "served_method (pMethod g) = posixIoMethods"
    using unixOpen_failed [OF o nz] by (simp add: served_method_def)
  note H = handles_served [OF inv ml(2,1) a z disjI1 [OF m]]
  ultimately show ?thesis
    using H registered_served(1) [OF ml(1) a z] by (simp add: sys_inv_def sv')
qed

section \<open>Reachable states\<close>

lemma sys_step_inv: "sys_step S s t \<Longrightarrow> sys_inv s \<Longrightarrow> sys_inv t"
proof (induction rule: sys_step.induct)
  case (lock s f F e junk g rc sv')
  have S: "ml_inv (sv_list (srv s))" "served (sv_list (srv s)) (h_fd f)"
    "files_inv (add_mset f F) (sv_unix (srv s))"
    using lock by (auto simp: sys_inv_def db_served_def)
  show ?case
    by (rule remoteLock_served [OF S lock.hyps(2), of S junk])
      (use lock.hyps lock_step_inv [OF lock.prems lock.hyps(1)] in auto)
next
  case (unlock s f F e junk g rc sv')
  have S: "ml_inv (sv_list (srv s))" "served (sv_list (srv s)) (h_fd f)"
    "files_inv (add_mset f F) (sv_unix (srv s))"
    using unlock by (auto simp: sys_inv_def db_served_def)
  show ?case
    by (rule remoteUnlock_served [OF S unlock.hyps(2), of S junk])
      (use unlock.hyps lock_step_inv [OF unlock.prems unlock.hyps(1)] in auto)
qed (auto intro: open_db_inv(1) open_other_inv open_failed_inv request_db_inv request_other_inv
    close_db_inv close_other_inv vfs_inv)

lemma reachable_inv: "reachable S s \<Longrightarrow> sys_inv s"
  by (induction rule: reachable.induct) (auto intro: sys_inv_init sys_step_inv)

text \<open>Two handles on one file never hold conflicting locks.\<close>

definition compatible :: "int \<Rightarrow> int \<Rightarrow> bool" where
  "compatible l k \<longleftrightarrow>
     (SHARED_LOCK < l \<longrightarrow> k \<le> SHARED_LOCK) \<and> (l = EXCLUSIVE_LOCK \<longrightarrow> k = NO_LOCK)"

lemma files_inv_compatible:
  assumes inv: "files_inv (add_mset f (add_mset g F)) st" and "pInode f = pInode g"
  shows "compatible (lock_level f) (lock_level g)"
proof -
  obtain i where "inode_inv (add_mset f (add_mset g F)) (pInode f) i"
    by (rule files_inv_inode [OF inv, of f]) simp_all
  then have L: "lock_inv i (add_mset (lock_level f) (add_mset (lock_level g) (levels (pInode f) F)))"
    using assms(2) by (simp add: inode_inv_def)
  then show ?thesis
    using lock_inv_exclusion [OF L, of "lock_level g"] by (auto simp: compatible_def)
qed

lemma reachable_compatible:
  assumes "reachable S s" and "dbs s = add_mset f (add_mset g F)" and "pInode f = pInode g"
  shows "compatible (lock_level f) (lock_level g)"
  using reachable_inv [OF assms(1)] assms(2,3) by (intro files_inv_compatible) (auto simp: sys_inv_def)

end
