(* ===== verification/IO_Spec.thy ===== *)
theory IO_Spec
  imports Unix_IO
begin

text \<open>
  What \<open>unixRead\<close> and \<open>unixWrite\<close> do to the contents of a file. The kernel's part is
  a named hypothesis: \<open>read\<close> gives a prefix of what follows the file position, nothing
  only at the end of the file; \<open>write\<close> stores a prefix of its data there; both may be
  short and both may fail.
\<close>

section \<open>Files of the kernel\<close>

text \<open>The bytes of a file after a write: a gap behind the old end reads as zeros.\<close>

definition write_at :: "bytes \<Rightarrow> nat \<Rightarrow> bytes \<Rightarrow> bytes" where
  "write_at c off b =
     (if b = [] then c else take off (c @ zeroed (off - length c)) @ b @ drop (off + length b) c)"

definition kernel_seeks ::
  "'os syscalls \<Rightarrow> ('os \<Rightarrow> cint \<Rightarrow> bytes) \<Rightarrow> ('os \<Rightarrow> cint \<Rightarrow> nat) \<Rightarrow> bool" where
  "kernel_seeks S content offs \<longleftrightarrow>
     (\<forall>fd off os r os'. osLseek S fd off os = (r, os') \<longrightarrow> 0 \<le> off \<longrightarrow>
        content os' fd = content os fd \<and> (0 \<le> r \<longrightarrow> offs os' fd = nat off))"

definition kernel_reads ::
  "'os syscalls \<Rightarrow> ('os \<Rightarrow> cint \<Rightarrow> bytes) \<Rightarrow> ('os \<Rightarrow> cint \<Rightarrow> nat) \<Rightarrow> bool" where
  "kernel_reads S content offs \<longleftrightarrow>
     (\<forall>fd n os r d os'. osRead S fd n os = (r, d, os') \<longrightarrow>
        content os' fd = content os fd \<and>
        (0 \<le> r \<longrightarrow> r = int (length d) \<and> length d \<le> n \<and>
           d = take (length d) (drop (offs os fd) (content os fd)) \<and>
           (d = [] \<longrightarrow> n = 0 \<or> length (content os fd) \<le> offs os fd)))"

definition kernel_writes ::
  "'os syscalls \<Rightarrow> ('os \<Rightarrow> cint \<Rightarrow> bytes) \<Rightarrow> ('os \<Rightarrow> cint \<Rightarrow> nat) \<Rightarrow> bool" where
  "kernel_writes S content offs \<longleftrightarrow>
     (\<forall>fd b os r os'. osWrite S fd b os = (r, os') \<longrightarrow>
        (if r < 0 then content os' fd = content os fd
         else r \<le> int (length b) \<and>
              content os' fd = write_at (content os fd) (offs os fd) (take (nat r) b)))"

text \<open>A kernel whose calls on a descriptor do not fail.\<close>

definition io_succeeds :: "'os syscalls \<Rightarrow> cint \<Rightarrow> bool" where
  "io_succeeds S fd \<longleftrightarrow>
     (\<forall>off os. 0 \<le> off \<longrightarrow> 0 \<le> fst (osLseek S fd off os)) \<and>
     (\<forall>n os. 0 \<le> fst (osRead S fd n os)) \<and>
     (\<forall>b os. b \<noteq> [] \<longrightarrow> 0 < fst (osWrite S fd b os))"

lemma kernel_seeksD:
  "kernel_seeks S content offs \<Longrightarrow> osLseek S fd off os = (r, os') \<Longrightarrow> 0 \<le> off \<Longrightarrow>
     content os' fd = content os fd \<and> (0 \<le> r \<longrightarrow> offs os' fd = nat off)"
  by (simp add: kernel_seeks_def)

lemma kernel_readsD:
  "kernel_reads S content offs \<Longrightarrow> osRead S fd n os = (r, d, os') \<Longrightarrow>
     content os' fd = content os fd \<and>
     (0 \<le> r \<longrightarrow> r = int (length d) \<and> length d \<le> n \<and>
        d = take (length d) (drop (offs os fd) (content os fd)) \<and>
        (d = [] \<longrightarrow> n = 0 \<or> length (content os fd) \<le> offs os fd))"
  unfolding kernel_reads_def by blast

lemma kernel_writesD:
  "kernel_writes S content offs \<Longrightarrow> osWrite S fd b os = (r, os') \<Longrightarrow>
     (if r < 0 then content os' fd = content os fd
      else r \<le> int (length b) \<and>
           content os' fd = write_at (content os fd) (offs os fd) (take (nat r) b))"
  unfolding kernel_writes_def by blast

lemma overwrite_nil [simp]: "overwrite d off [] = d"
  by (simp add: overwrite_def)

lemma overwrite_append:
  assumes "off + length a + length b \<le> length d"
  shows "overwrite (overwrite d off a) (off + length a) b = overwrite d off (a @ b)"
proof (cases "length d \<le> off")
  case True
  then have "length a = 0" "length b = 0" using assms by linarith+
  then show ?thesis by simp
next
  case False
  then show ?thesis using assms by (auto simp: overwrite_def min_def ac_simps)
qed

lemma size_t_nonneg: "0 \<le> n \<Longrightarrow> n < 2 ^ 64 \<Longrightarrow> size_t n = nat n"
  by (simp add: size_t_def)

section \<open>Reading\<close>

text \<open>The bytes of the file a read of \<open>n\<close> bytes at \<open>off\<close> can get.\<close>

definition available :: "bytes \<Rightarrow> int \<Rightarrow> int \<Rightarrow> bytes" where
  "available c off n = take (nat n) (drop (nat off) c)"

lemma available_step:
  assumes "d = take (length d) (drop (nat off) c)" and "int (length d) \<le> n" "0 \<le> off"
  shows "available c off n = d @ available c (off + int (length d)) (n - int (length d))"
proof -
  have "take (nat n) (drop (nat off) c) =
      take (length d) (drop (nat off) c) @ take (nat n - length d) (drop (length d) (drop (nat off) c))"
    using assms(2) by (metis le_nat_iff nat_int of_nat_0_le_iff order_trans take_add
        le_add_diff_inverse nat_le_iff nat_mono)
  then show ?thesis
    using assms by (simp add: available_def nat_add_distrib nat_diff_distrib add.commute)
qed

lemma seekAndRead_spec:
  assumes run: "seekAndRead S f offset buf pos cnt prior os = Some r"
    and K: "kernel_seeks S content offs" "kernel_reads S content offs"
    and bd: "0 \<le> offset" "0 < cnt" "cnt < 2 ^ 64" "pos + nat cnt \<le> length buf"
  shows "case r of (got, f', buf', os') \<Rightarrow>
     content os' (h_fd f) = content os (h_fd f) \<and> h_fd f' = h_fd f \<and> length buf' = length buf \<and>
     (got < 0 \<or>
      got = prior + int (length (available (content os (h_fd f)) offset cnt)) \<and>
      buf' = overwrite buf pos (available (content os (h_fd f)) offset cnt) \<and> f' = f)"
proof -
  define P where "P = (\<lambda>(S :: 'a syscalls) (f :: unixFile) offset buf pos cnt (prior :: int) os r.
     kernel_seeks S content offs \<longrightarrow> kernel_reads S content offs \<longrightarrow>
     0 \<le> offset \<longrightarrow> 0 < cnt \<longrightarrow> cnt < 2 ^ 64 \<longrightarrow> pos + nat cnt \<le> length buf \<longrightarrow>
     (case r of (got, f', buf', os') \<Rightarrow>
     content os' (h_fd f) = content os (h_fd f) \<and> h_fd f' = h_fd f \<and> length buf' = length buf \<and>
     (got < 0 \<or>
      got = prior + int (length (available (content os (h_fd f)) offset cnt)) \<and>
      buf' = overwrite buf pos (available (content os (h_fd f)) offset cnt) \<and> f' = f)))"
  have "P S f offset buf pos cnt prior os r"
    using run
  proof (rule seekAndRead.raw_induct [where P = P, rotated])
    fix rec and S :: "'a syscalls" and f :: unixFile and offset buf pos cnt prior os r
    assume IH: "\<And>S f offset buf pos cnt prior os r.
        rec S f offset buf pos cnt prior os = Some r \<Longrightarrow> P S f offset buf pos cnt prior os r"
      and eq: "(case osLseek S (h_fd f) offset os of (newOffset, os) \<Rightarrow>
        if newOffset < 0 then Some (- 1, storeLastErrno f (osErrno S os), buf, os)
        else
          (case osRead S (h_fd f) (size_t cnt) os of (got, data, os) \<Rightarrow>
             if got < 0 then
               (if osErrno S os = EINTR then rec S f offset buf pos cnt prior os
                else Some (got, storeLastErrno f (osErrno S os), buf, os))
             else Option.bind (memcpy buf pos data) (\<lambda>buf.
               if got = cnt then Some (got + prior, f, buf, os)
               else if 0 < got
               then rec S f (offset + got) buf (pos + nat got) (cnt - got) (prior + got) os
               else Some (got + prior, f, buf, os)))) = Some r"
    show "P S f offset buf pos cnt prior os r"
      unfolding P_def
    proof (intro impI)
      assume K: "kernel_seeks S content offs" "kernel_reads S content offs"
        and bd: "0 \<le> offset" "0 < cnt" "cnt < 2 ^ 64" "pos + nat cnt \<le> length buf"
      let ?fd = "h_fd f"
      obtain no os1 where s: "osLseek S ?fd offset os = (no, os1)" by fastforce
      obtain got d os2 where rd: "osRead S ?fd (size_t cnt) os1 = (got, d, os2)"
        by (rule prod_cases3) (rule that)
      note s' = kernel_seeksD [OF K(1) s bd(1)] and r' = kernel_readsD [OF K(2) rd]
      have c2: "content os2 ?fd = content os ?fd" using s' r' by simp
      show "case r of (got, f', buf', os') \<Rightarrow>
        content os' ?fd = content os ?fd \<and> h_fd f' = ?fd \<and> length buf' = length buf \<and>
        (got < 0 \<or>
         got = prior + int (length (available (content os ?fd) offset cnt)) \<and>
         buf' = overwrite buf pos (available (content os ?fd) offset cnt) \<and> f' = f)"
      proof -
        have avail0: "available (content os ?fd) offset cnt = []" if "d = []" "0 \<le> got" "0 \<le> no"
          using r' s' that bd by (simp add: size_t_nonneg available_def)
        have step: "available (content os ?fd) offset cnt =
            d @ available (content os ?fd) (offset + got) (cnt - got)"
          if "0 \<le> got" "0 \<le> no"
          using r' s' that bd available_step [of d offset "content os ?fd" cnt]
          by (simp add: size_t_nonneg le_nat_iff)
        have a0: "available c off 0 = []" for c off by (simp add: available_def)
        have cpy: "memcpy buf pos d = Some (overwrite buf pos d)" if "0 \<le> got" "0 \<le> no"
          using r' s' that bd by (intro memcpy_ok) (auto simp: size_t_nonneg)
        have fits: "pos + length d \<le> length buf" if "0 \<le> got" "0 \<le> no"
          using r' s' that bd by (auto simp: size_t_nonneg)
        consider (seek) "no < 0" | (retry) "0 \<le> no" "got < 0" "osErrno S os2 = EINTR"
          | (fail) "0 \<le> no" "got < 0" "osErrno S os2 \<noteq> EINTR"
          | (all) "0 \<le> no" "got = cnt" | (eof) "0 \<le> no" "got = 0"
          | (part) "0 \<le> no" "0 < got" "got \<noteq> cnt" by linarith
        then show ?thesis
        proof cases
          case seek
          then show ?thesis using eq s s' by auto
        next
          case retry
          then have "rec S f offset buf pos cnt prior os2 = Some r" using eq s rd by simp
          from IH [OF this] K bd show ?thesis unfolding P_def by (simp add: c2)
        next
          case fail
          then show ?thesis using eq s rd c2 by auto
        next
          case all
          then have g: "0 \<le> got" using bd by simp
          have "r = (got + prior, f, overwrite buf pos d, os2)"
            using eq s rd all g cpy by simp
          moreover have "available (content os ?fd) offset cnt = d"
            using step g all a0 by simp
          ultimately show ?thesis using c2 r' all fits g by simp
        next
          case eof
          have d: "d = []" using r' eof by simp
          then have "r = (prior, f, buf, os2)" using eq s rd eof cpy bd by simp
          then show ?thesis using c2 avail0 [OF d] eof by simp
        next
          case part
          let ?buf = "overwrite buf pos d"
          have g: "0 \<le> got" and len: "got = int (length d)" using part r' by auto
          have le: "got < cnt" using r' g part bd by (simp add: size_t_nonneg le_nat_iff)
          have "rec S f (offset + got) ?buf (pos + nat got) (cnt - got) (prior + got) os2 = Some r"
            using eq s rd part g cpy by simp
          from IH [OF this]
          have R: "case r of (got', f', buf', os') \<Rightarrow>
            content os' ?fd = content os2 ?fd \<and> h_fd f' = ?fd \<and> length buf' = length ?buf \<and>
            (got' < 0 \<or> got' = (prior + got) +
               int (length (available (content os2 ?fd) (offset + got) (cnt - got))) \<and>
             buf' = overwrite ?buf (pos + nat got) (available (content os2 ?fd) (offset + got) (cnt - got))
             \<and> f' = f)"
            unfolding P_def using K bd part fits [OF g part(1)] le by auto
          have "length (available (content os ?fd) (offset + got) (cnt - got)) \<le> nat (cnt - got)"
            by (simp add: available_def)
          then have "pos + length d + length (available (content os ?fd) (offset + got) (cnt - got)) \<le> length buf"
            using bd le len by linarith
          then have "overwrite ?buf (pos + nat got) (available (content os ?fd) (offset + got) (cnt - got)) =
              overwrite buf pos (available (content os ?fd) offset cnt)"
            unfolding step [OF g part(1)] by (simp add: overwrite_append len)
          moreover obtain got' f' buf' os' where r: "r = (got', f', buf', os')"
            by (rule prod_cases4) (rule that)
          moreover have "length ?buf = length buf" using fits [OF g part(1)] by simp
          moreover have "int (length (available (content os ?fd) offset cnt)) =
              got + int (length (available (content os ?fd) (offset + got) (cnt - got)))"
            unfolding step [OF g part(1)] using len by simp
          ultimately show ?thesis using R c2 by (simp add: add.assoc)
        qed
      qed
    qed
  qed
  then show ?thesis using K bd by (simp add: P_def)
qed

text \<open>Where no call fails the loop returns: each round reads at least one byte or ends.\<close>

lemma seekAndRead_returns:
  assumes "kernel_seeks S content offs" "kernel_reads S content offs" "io_succeeds S (h_fd f)"
    and "0 \<le> offset" "0 < cnt" "cnt < 2 ^ 64" "pos + nat cnt \<le> length buf" "0 \<le> prior"
  shows "\<exists>got buf' os'. seekAndRead S f offset buf pos cnt prior os = Some (got, f, buf', os') \<and> 0 \<le> got"
  using assms(4-)
proof (induction "nat cnt" arbitrary: offset buf pos cnt prior os rule: less_induct)
  case less
  let ?fd = "h_fd f"
  obtain no os1 where s: "osLseek S ?fd offset os = (no, os1)" by fastforce
  obtain got d os2 where rd: "osRead S ?fd (size_t cnt) os1 = (got, d, os2)"
    by (rule prod_cases3) (rule that)
  have no: "0 \<le> no" using assms(3) less.prems(1) s unfolding io_succeeds_def by (metis fst_conv)
  have got: "0 \<le> got" using assms(3) rd unfolding io_succeeds_def by (metis fst_conv)
  have len: "got = int (length d)" "length d \<le> nat cnt"
    using kernel_readsD [OF assms(2) rd] got less.prems by (simp_all add: size_t_nonneg)
  then have cpy: "memcpy buf pos d = Some (overwrite buf pos d)"
    using less.prems by (intro memcpy_ok) simp
  show ?case
  proof (cases "got = cnt \<or> got = 0")
    case True
    then show ?thesis
      using s rd no got cpy less.prems by (subst seekAndRead.simps) auto
  next
    case False
    then have g: "0 < got" "got < cnt" using got len less.prems by linarith+
    have "\<exists>got' buf' os'. seekAndRead S f (offset + got) (overwrite buf pos d) (pos + nat got)
        (cnt - got) (prior + got) os2 = Some (got', f, buf', os') \<and> 0 \<le> got'"
      using less.prems g len by (intro less.hyps) auto
    then show ?thesis
      using s rd no g cpy by (subst seekAndRead.simps) auto
  qed
qed

lemma pad_buffer:
  "n \<le> length buf \<Longrightarrow> length a \<le> n \<Longrightarrow>
     take n (overwrite (overwrite buf 0 a) (length a) (zeroed (n - length a))) = a @ zeroed (n - length a)"
  by (simp add: overwrite_def)

text \<open>
  The contract of \<open>unixRead\<close> on a file that is not mapped: a successful read returns the
  file's bytes, a short read the bytes there are and zeros behind them.
\<close>

lemma unixRead_spec:
  assumes run: "unixRead S f buf amt offset os = Some (rc, f', buf', os')"
    and K: "kernel_seeks S content offs" "kernel_reads S content offs"
    and bd: "0 \<le> offset" "0 < amt" "amt < 2 ^ 64" "nat amt \<le> length buf" and um: "mmapSize f = 0"
  shows "content os' (h_fd f) = content os (h_fd f)"
    and "rc = SQLITE_OK \<Longrightarrow> offset + amt \<le> int (length (content os (h_fd f))) \<and>
           take (nat amt) buf' = available (content os (h_fd f)) offset amt"
    and "rc = SQLITE_IOERR_SHORT_READ \<Longrightarrow> int (length (content os (h_fd f))) < offset + amt \<and>
           take (nat amt) buf' = available (content os (h_fd f)) offset amt @
             zeroed (nat amt - length (available (content os (h_fd f)) offset amt))"
    and "rc \<in> {SQLITE_OK, SQLITE_IOERR_SHORT_READ, SQLITE_IOERR_READ}" and "length buf' = length buf"
proof -
  let ?a = "available (content os (h_fd f)) offset amt"
  have "\<not> offset < sint (mmapSize f)" using um bd by simp
  then obtain got f1 buf1 os1 where r: "seekAndRead S f offset buf 0 amt 0 os = Some (got, f1, buf1, os1)"
    and out: "(if got = amt then Some (SQLITE_OK, f1, buf1, os1)
     else if got < 0 then Some (SQLITE_IOERR_READ, f1, buf1, os1)
     else do {
       buf \<leftarrow> memcpy buf1 (0 + nat got) (zeroed (size_t (amt - got)));
       Some (SQLITE_IOERR_SHORT_READ, storeLastErrno f1 0, buf, os1)
     }) = Some (rc, f', buf', os')"
    using run by (auto simp: unixRead_def read_file_def bind_eq_Some_iff)
  have sp: "content os1 (h_fd f) = content os (h_fd f)" "length buf1 = length buf"
    "got < 0 \<or> got = int (length ?a) \<and> buf1 = overwrite buf 0 ?a"
    using seekAndRead_spec [OF r K bd(1-3)] bd(4) by auto
  have la: "length ?a = min (nat amt) (length (content os (h_fd f)) - nat offset)"
    by (simp add: available_def)
  consider (all) "got = amt" | (fail) "got < 0" | (short) "0 \<le> got" "got \<noteq> amt" by linarith
  then have "os' = os1 \<and>
     (rc = SQLITE_OK \<and> got = amt \<and> buf' = buf1 \<or> rc = SQLITE_IOERR_READ \<and> buf' = buf1 \<or>
      rc = SQLITE_IOERR_SHORT_READ \<and> 0 \<le> got \<and> got \<noteq> amt \<and>
        memcpy buf1 (nat got) (zeroed (size_t (amt - got))) = Some buf')"
    using out bd by cases (auto simp: bind_eq_Some_iff)
  note cases = this
  show "content os' (h_fd f) = content os (h_fd f)" using cases sp by simp
  show "rc \<in> {SQLITE_OK, SQLITE_IOERR_SHORT_READ, SQLITE_IOERR_READ}" using cases by auto
  show "length buf' = length buf" using cases sp(2) by (auto simp: memcpy_Some_iff)
  show "offset + amt \<le> int (length (content os (h_fd f))) \<and> take (nat amt) buf' = ?a" if "rc = SQLITE_OK"
  proof -
    have g: "got = amt" "buf' = buf1" using cases that by auto
    then have "length ?a = nat amt" "buf1 = overwrite buf 0 ?a" using sp(3) bd by auto
    then show ?thesis using g la bd by (auto simp: overwrite_def)
  qed
  show "int (length (content os (h_fd f))) < offset + amt \<and>
      take (nat amt) buf' = ?a @ zeroed (nat amt - length ?a)"
    if "rc = SQLITE_IOERR_SHORT_READ"
  proof -
    have g: "0 \<le> got" "got \<noteq> amt" "memcpy buf1 (nat got) (zeroed (size_t (amt - got))) = Some buf'"
      using cases that by auto
    then have a: "got = int (length ?a)" "buf1 = overwrite buf 0 ?a" using sp(3) by auto
    have lt: "length ?a < nat amt" using a(1) g(2) la bd by linarith
    have sz: "size_t (amt - got) = nat amt - length ?a"
      unfolding a(1) using lt bd by (subst size_t_nonneg) auto
    have "buf' = overwrite (overwrite buf 0 ?a) (length ?a) (zeroed (nat amt - length ?a))"
      using g(3) unfolding memcpy_Some_iff sz unfolding a by simp
    then have "take (nat amt) buf' = ?a @ zeroed (nat amt - length ?a)"
      using pad_buffer [OF bd(4), of ?a] lt by simp
    then show ?thesis using lt la bd by linarith
  qed
qed

lemma unixRead_returns:
  assumes "kernel_seeks S content offs" "kernel_reads S content offs" "io_succeeds S (h_fd f)"
    and "0 \<le> offset" "0 < amt" "amt < 2 ^ 64" "nat amt \<le> length buf" "mmapSize f = 0"
  shows "\<exists>rc f' buf' os'. unixRead S f buf amt offset os = Some (rc, f', buf', os') \<and>
           rc \<in> {SQLITE_OK, SQLITE_IOERR_SHORT_READ}"
proof -
  obtain got buf1 os1 where r: "seekAndRead S f offset buf 0 amt 0 os = Some (got, f, buf1, os1)" "0 \<le> got"
    using seekAndRead_returns [OF assms(1-6), of 0 buf 0 os] assms(7) by auto
  have sp: "length buf1 = length buf" "got = int (length (available (content os (h_fd f)) offset amt))"
    using seekAndRead_spec [OF r(1) assms(1,2,4-6)] assms(7) r(2) by (auto simp del: length_overwrite)
  have le: "got \<le> amt" using sp(2) assms(5) by (simp add: available_def)
  have "\<not> offset < sint (mmapSize f)" using assms(4,8) by simp
  moreover have "memcpy buf1 (nat got) (zeroed (size_t (amt - got))) =
      Some (overwrite buf1 (nat got) (zeroed (size_t (amt - got))))"
    using le r(2) sp(1) assms(6,7) by (intro memcpy_ok) (simp add: size_t_nonneg)
  ultimately show ?thesis
    using r by (simp add: unixRead_def read_file_def)
qed

section \<open>Writing\<close>

lemma write_at_nil [simp]: "write_at c off [] = c"
  by (simp add: write_at_def)

lemma write_at_append: "write_at (write_at c off a) (off + length a) b = write_at c off (a @ b)"
proof (cases "a = [] \<or> b = []")
  case True
  then show ?thesis by (auto simp: write_at_def)
next
  case False
  have "length (take off (c @ zeroed (off - length c))) = off" by simp
  then show ?thesis
    using False by (simp add: write_at_def ac_simps)
qed

lemma available_write_at:
  assumes "b \<noteq> []" and "0 \<le> off"
  shows "available (write_at c (nat off) b) off (int (length b)) = b"
    and "off + int (length b) \<le> int (length (write_at c (nat off) b))"
  using assms by (simp_all add: available_def write_at_def)

lemma mask_17: "0 \<le> n \<Longrightarrow> n \<le> 0x1ffff \<Longrightarrow> n AND 0x1ffff = (n :: int)"
proof -
  assume "0 \<le> n" "n \<le> 0x1ffff"
  then have "take_bit 17 n = n" by (intro take_bit_int_eq_self) simp_all
  moreover have "(0x1ffff :: int) = mask 17" by (simp add: mask_eq_exp_minus_1)
  ultimately show ?thesis by (simp add: take_bit_eq_mask)
qed

lemma write_loop_spec:
  assumes run: "write_loop S fd iOff data os = Some r"
    and K: "kernel_seeks S content offs" "kernel_writes S content offs" "0 \<le> iOff"
  shows "case r of (rc, os') \<Rightarrow>
     if rc < 0 then content os' fd = content os fd
     else rc \<le> int (length data) \<and>
          content os' fd = write_at (content os fd) (nat iOff) (take (nat rc) data)"
proof -
  define P where "P = (\<lambda>(S :: 'a syscalls) fd iOff data os r.
     kernel_seeks S content offs \<longrightarrow> kernel_writes S content offs \<longrightarrow> 0 \<le> iOff \<longrightarrow>
     (case r of (rc, os') \<Rightarrow>
      if rc < 0 then content os' fd = content os fd
      else rc \<le> int (length data) \<and>
           content os' fd = write_at (content os fd) (nat iOff) (take (nat rc) data)))"
  have "P S fd iOff data os r"
    using run
  proof (rule write_loop.raw_induct [where P = P, rotated])
    fix rec and S :: "'a syscalls" and fd iOff data os r
    assume IH: "\<And>S fd iOff data os r. rec S fd iOff data os = Some r \<Longrightarrow> P S fd iOff data os r"
      and eq: "(case osLseek S fd iOff os of (iSeek, os) \<Rightarrow>
        if iSeek < 0 then Some (- 1, os)
        else (case osWrite S fd data os of (rc, os) \<Rightarrow>
          if rc < 0 \<and> osErrno S os = EINTR then rec S fd iOff data os else Some (rc, os))) = Some r"
    show "P S fd iOff data os r"
      unfolding P_def
    proof (intro impI)
      assume K: "kernel_seeks S content offs" "kernel_writes S content offs" and o: "0 \<le> iOff"
      obtain no os1 where s: "osLseek S fd iOff os = (no, os1)" by fastforce
      obtain rc os2 where w: "osWrite S fd data os1 = (rc, os2)" by fastforce
      note s' = kernel_seeksD [OF K(1) s o] and w' = kernel_writesD [OF K(2) w]
      show "case r of (rc, os') \<Rightarrow>
          if rc < 0 then content os' fd = content os fd
          else rc \<le> int (length data) \<and>
            content os' fd = write_at (content os fd) (nat iOff) (take (nat rc) data)"
      proof (cases "0 \<le> no \<and> rc < 0 \<and> osErrno S os2 = EINTR")
        case True
        then have "rec S fd iOff data os2 = Some r" using eq s w by simp
        from IH [OF this] K o show ?thesis
          unfolding P_def using s' w' True by (auto split: prod.splits if_splits)
      next
        case False
        then show ?thesis using eq s w s' w' by (auto split: if_splits)
      qed
    qed
  qed
  then show ?thesis using K by (simp add: P_def)
qed

text \<open>One write call: nothing, or a prefix of the data.\<close>

lemma seekAndWrite_spec:
  assumes run: "seekAndWrite S f offset buf pos cnt os = Some (wrote, f', os')"
    and K: "kernel_seeks S content offs" "kernel_writes S content offs" "0 \<le> offset"
    and bd: "0 \<le> cnt" "cnt \<le> 0x1ffff"
  shows "h_fd f' = h_fd f" and "f' = f\<lparr>lastErrno := lastErrno f'\<rparr>" and "wrote \<le> cnt"
    and "pos + nat cnt \<le> length buf"
    and "content os' (h_fd f) =
           write_at (content os (h_fd f)) (nat offset) (take (nat wrote) (drop pos buf))"
proof -
  obtain data err where d: "read_at buf pos (nat cnt) = Some data"
    and w: "write_loop S (h_fd f) offset data os = Some (wrote, os')" and f': "f' = f\<lparr>lastErrno := err\<rparr>"
    using run by (auto simp: seekAndWrite_def seekAndWriteFd_def bind_eq_Some_iff mask_17 [OF bd])
  show "h_fd f' = h_fd f" "f' = f\<lparr>lastErrno := lastErrno f'\<rparr>" by (simp_all add: f')
  have data: "data = take (nat cnt) (drop pos buf)" "length data = nat cnt"
    using d by (auto simp: read_at_def split: if_splits)
  show "pos + nat cnt \<le> length buf" using d by (auto simp: read_at_def split: if_splits)
  note sp = write_loop_spec [OF w K, simplified]
  show "wrote \<le> cnt" using sp data bd by (auto split: if_splits)
  then show "content os' (h_fd f) =
      write_at (content os (h_fd f)) (nat offset) (take (nat wrote) (drop pos buf))"
    using sp data bd by (auto simp: min_def split: if_splits)
qed

lemma unixWrite_loop_spec:
  assumes run: "unixWrite_loop S f buf pos amt offset os = Some r"
    and K: "kernel_seeks S content offs" "kernel_writes S content offs"
    and bd: "0 \<le> offset" "0 < amt" "amt \<le> 0x1ffff"
  shows "case r of (wrote, rem, f', os') \<Rightarrow>
     h_fd f' = h_fd f \<and> mmapSize f' = mmapSize f \<and> wrote \<le> rem \<and>
     (wrote = rem \<longrightarrow> content os' (h_fd f) =
        write_at (content os (h_fd f)) (nat offset) (take (nat amt) (drop pos buf)))"
proof -
  define P where "P = (\<lambda>(S :: 'a syscalls) (f :: unixFile) buf pos amt offset os (r :: int \<times> int \<times> unixFile \<times> 'a).
     kernel_seeks S content offs \<longrightarrow> kernel_writes S content offs \<longrightarrow>
     0 \<le> offset \<longrightarrow> 0 < amt \<longrightarrow> amt \<le> 0x1ffff \<longrightarrow>
     (case r of (wrote, rem, f', os') \<Rightarrow>
     h_fd f' = h_fd f \<and> mmapSize f' = mmapSize f \<and> wrote \<le> rem \<and>
     (wrote = rem \<longrightarrow> content os' (h_fd f) =
        write_at (content os (h_fd f)) (nat offset) (take (nat amt) (drop pos buf)))))"
  have "P S f buf pos amt offset os r"
    using run
  proof (rule unixWrite_loop.raw_induct [where P = P, rotated])
    fix rec and S :: "'a syscalls" and f :: unixFile and buf pos amt offset os r
    assume IH: "\<And>S f buf pos amt offset os r. rec S f buf pos amt offset os = Some r \<Longrightarrow>
        P S f buf pos amt offset os r"
      and eq: "Option.bind (seekAndWrite S f offset buf pos amt os) (\<lambda>(wrote, f, os).
       if wrote < amt \<and> 0 < wrote
       then rec S f buf (pos + nat wrote) (amt - wrote) (offset + wrote) os
       else Some (wrote, amt, f, os)) = Some r"
    show "P S f buf pos amt offset os r"
      unfolding P_def
    proof (intro impI)
      assume K: "kernel_seeks S content offs" "kernel_writes S content offs"
        and bd: "0 \<le> offset" "0 < amt" "amt \<le> 0x1ffff"
      obtain w f1 os1 where s: "seekAndWrite S f offset buf pos amt os = Some (w, f1, os1)"
        using eq by (auto simp: bind_eq_Some_iff)
      have bd0: "0 \<le> amt" using bd by simp
      note sp = seekAndWrite_spec [OF s K bd(1) bd0 bd(3)]
      have f1: "h_fd f1 = h_fd f" "mmapSize f1 = mmapSize f"
        using arg_cong [OF sp(2), of h_fd] arg_cong [OF sp(2), of mmapSize] by simp_all
      show "case r of (wrote, rem, f', os') \<Rightarrow>
        h_fd f' = h_fd f \<and> mmapSize f' = mmapSize f \<and> wrote \<le> rem \<and>
        (wrote = rem \<longrightarrow> content os' (h_fd f) =
           write_at (content os (h_fd f)) (nat offset) (take (nat amt) (drop pos buf)))"
      proof (cases "w < amt \<and> 0 < w")
        case True
        then have "rec S f1 buf (pos + nat w) (amt - w) (offset + w) os1 = Some r" using eq s by simp
        from IH [OF this]
        have R: "case r of (wrote, rem, f', os') \<Rightarrow>
            h_fd f' = h_fd f \<and> mmapSize f' = mmapSize f \<and> wrote \<le> rem \<and>
            (wrote = rem \<longrightarrow> content os' (h_fd f) =
              write_at (content os1 (h_fd f)) (nat (offset + w))
                (take (nat (amt - w)) (drop (pos + nat w) buf)))"
          unfolding P_def f1 using K bd True by simp
        have "write_at (content os1 (h_fd f)) (nat (offset + w))
              (take (nat (amt - w)) (drop (pos + nat w) buf)) =
            write_at (content os (h_fd f)) (nat offset) (take (nat amt) (drop pos buf))"
        proof -
          let ?a = "take (nat w) (drop pos buf)"
          have le: "nat w \<le> nat amt" using True by (simp add: nat_mono)
          then have la: "length ?a = nat w" using sp(4) by simp
          have "take (nat amt) (drop pos buf) = ?a @ take (nat (amt - w)) (drop (pos + nat w) buf)"
            using True take_add [of "nat w" "nat (amt - w)" "drop pos buf"]
            by (simp add: nat_diff_distrib add.commute [of _ pos] le_add_diff_inverse [OF le])
          moreover have "nat (offset + w) = nat offset + length ?a"
            using la True bd by (simp add: nat_add_distrib)
          ultimately show ?thesis
            by (simp only: sp(5) write_at_append)
        qed
        then show ?thesis using R by (auto split: prod.splits)
      next
        case False
        then show ?thesis using eq s sp f1 by auto
      qed
    qed
  qed
  then show ?thesis using K bd by (simp add: P_def)
qed

text \<open>
  \<open>unixWrite\<close> reports success only when the file holds all the data at its offset, with
  everything else as it was.
\<close>

lemma unixWrite_spec:
  assumes run: "unixWrite S f buf amt offset os = Some (SQLITE_OK, f', os')"
    and K: "kernel_seeks S content offs" "kernel_writes S content offs"
    and bd: "0 \<le> offset" "0 < amt" "amt \<le> 0x1ffff"
  shows "content os' (h_fd f) = write_at (content os (h_fd f)) (nat offset) (take (nat amt) buf)"
    and "h_fd f' = h_fd f" and "mmapSize f' = mmapSize f"
proof -
  obtain wrote rem where r: "unixWrite_loop S f buf 0 amt offset os = Some (wrote, rem, f', os')"
      "\<not> wrote < rem"
    using run by (auto simp: unixWrite_def bind_eq_Some_iff split: if_splits)
  from unixWrite_loop_spec [OF r(1) K bd] r(2)
  show "content os' (h_fd f) = write_at (content os (h_fd f)) (nat offset) (take (nat amt) buf)"
    "h_fd f' = h_fd f" "mmapSize f' = mmapSize f" by simp_all
qed

lemma unixWrite_loop_returns:
  assumes "kernel_seeks S content offs" "kernel_writes S content offs" "io_succeeds S (h_fd f)"
    and "0 \<le> offset" "0 < amt" "amt \<le> 0x1ffff" "pos + nat amt \<le> length buf"
  shows "\<exists>wrote f' os'. unixWrite_loop S f buf pos amt offset os = Some (wrote, wrote, f', os')"
  using assms(3-)
proof (induction "nat amt" arbitrary: f offset pos amt os rule: less_induct)
  case less
  let ?fd = "h_fd f"
  obtain data where d: "read_at buf pos (nat amt) = Some data" "length data = nat amt"
    using less.prems by (simp add: read_at_def)
  then have ne: "data \<noteq> []" using less.prems by auto
  obtain no os1 where s: "osLseek S ?fd offset os = (no, os1)" by fastforce
  obtain w os2 where wr: "osWrite S ?fd data os1 = (w, os2)" by fastforce
  have no: "0 \<le> no" using less.prems(1,2) s unfolding io_succeeds_def by (metis fst_conv)
  have w: "0 < w" using less.prems(1) wr ne unfolding io_succeeds_def by (metis fst_conv)
  have le: "w \<le> amt" using kernel_writesD [OF assms(2) wr] w d less.prems by auto
  have "write_loop S ?fd offset data os = Some (w, os2)"
    using s wr no w by (subst write_loop.simps) simp
  then have sw: "seekAndWrite S f offset buf pos amt os = Some (w, f, os2)"
    using d w less.prems by (simp add: seekAndWrite_def seekAndWriteFd_def mask_17)
  show ?case
  proof (cases "w = amt")
    case True
    then show ?thesis using sw by (subst unixWrite_loop.simps) simp
  next
    case False
    have "\<exists>wrote f' os'. unixWrite_loop S f buf (pos + nat w) (amt - w) (offset + w) os2 =
        Some (wrote, wrote, f', os')"
      using less.prems w le False by (intro less.hyps) auto
    then show ?thesis using sw w le False by (subst unixWrite_loop.simps) simp
  qed
qed

lemma unixWrite_returns:
  assumes "kernel_seeks S content offs" "kernel_writes S content offs" "io_succeeds S (h_fd f)"
    and "0 \<le> offset" "0 < amt" "amt \<le> 0x1ffff" "nat amt \<le> length buf"
  shows "\<exists>f' os'. unixWrite S f buf amt offset os = Some (SQLITE_OK, f', os')"
  using unixWrite_loop_returns [OF assms(1-6), of 0 buf os] assms(7)
  by (auto simp: unixWrite_def)

end
