(* ===== verification/Sim_Kernel.thy ===== *)
theory Sim_Kernel
  imports Remote_System IO_Spec
begin

text \<open>
  A small kernel that meets the hypotheses the development makes on system calls, and a run of
  the system on it: two clients open one database and the first takes a RESERVED lock. The
  concrete instances of the theorems are about this kernel and this run.
\<close>

section \<open>The kernel\<close>

text \<open>
  Descriptors count up from 3 and name a file; a file has its contents under its name. Lock
  requests of the one process always succeed; mapping a database file always fails, mapping a
  region of shared memory never does.
\<close>

record sim =
  k_name :: "cint \<Rightarrow> bytes"
  k_data :: "bytes \<Rightarrow> bytes"
  k_pos :: "cint \<Rightarrow> nat"
  k_next :: cint

definition sim_start :: sim where
  "sim_start = \<lparr>k_name = \<lambda>_. [], k_data = \<lambda>_. [], k_pos = \<lambda>_. 0, k_next = 3\<rparr>"

definition sim_content :: "sim \<Rightarrow> cint \<Rightarrow> bytes" where
  "sim_content os fd = k_data os (k_name os fd)"

definition sim_stat :: "bytes \<Rightarrow> sim \<Rightarrow> stat" where
  "sim_stat z os = \<lparr>st_dev = 1, st_ino = of_le (take 8 z), st_mode = 0x81A4, st_nlink = 1,
     st_uid = 0, st_gid = 0, st_size = min (int (length (k_data os z))) (2 ^ 63 - 1), st_blksize = 4096\<rparr>"

definition sim_resize :: "nat \<Rightarrow> bytes \<Rightarrow> bytes" where
  "sim_resize n c = take n (c @ zeroed (n - length c))"

definition sim_kernel :: "sim syscalls" where
  "sim_kernel = \<lparr>
     osErrno = \<lambda>os. 0,
     osOpen = \<lambda>z flags mode os.
       (k_next os, os\<lparr>k_name := (k_name os)(k_next os := the (c_string z)), k_next := k_next os + 1\<rparr>),
     osClose = \<lambda>fd os. (0, os),
     osAccess = \<lambda>z flags os. (0, os),
     osGetcwd = \<lambda>n os. (Some [47, 0], os),
     osStat = \<lambda>z os. (0, sim_stat (the (c_string z)) os, os),
     osFstat = \<lambda>fd os. (0, sim_stat (k_name os fd) os, os),
     osFtruncate = \<lambda>fd n os.
       (0, os\<lparr>k_data := (k_data os)(k_name os fd := sim_resize (nat n) (sim_content os fd))\<rparr>),
     osSetlk = \<lambda>fd l os. (0, os),
     osGetlk = \<lambda>fd l os. (0, l\<lparr>l_type := F_UNLCK\<rparr>, os),
     osLseek = \<lambda>fd off os. (off, os\<lparr>k_pos := (k_pos os)(fd := nat off)\<rparr>),
     osRead = \<lambda>fd n os.
       (let d = take n (drop (k_pos os fd) (sim_content os fd)) in (int (length d), d, os)),
     osWrite = \<lambda>fd b os.
       (int (length b), os\<lparr>k_data := (k_data os)
          (k_name os fd := write_at (sim_content os fd) (k_pos os fd) b)\<rparr>),
     osFsync = \<lambda>fd os. (0, os),
     osFchmod = \<lambda>fd m os. (0, os),
     osUnlink = \<lambda>z os. (0, os),
     osMmap = \<lambda>n fd os. (MAP_FAILED, os),
     osMunmap = \<lambda>p n os. (0, os),
     osMmapShared = \<lambda>n ro fd off os. (0x70000000 + word_of_int off, os),
     osMremap = \<lambda>p n m os. (MAP_FAILED, os),
     osMemory = \<lambda>os p n. None,
     osTempname = \<lambda>os. (0, [116, 0, 0], os),
     osGetpagesize = 4096\<rparr>"

lemma sim_io:
  "kernel_seeks sim_kernel sim_content k_pos" "kernel_reads sim_kernel sim_content k_pos"
  "kernel_writes sim_kernel sim_content k_pos" "io_succeeds sim_kernel fd" "mmap_nonnull sim_kernel"
  by (auto simp: kernel_seeks_def kernel_reads_def kernel_writes_def io_succeeds_def mmap_nonnull_def
      sim_kernel_def sim_content_def Let_def min_def)

section \<open>Two opens\<close>

definition no_junk :: junk where
  "no_junk = (\<lambda>_ _. 0)"

text \<open>The name \<open>"ab"\<close> and the flags of a database opened for reading and writing.\<close>

definition sim_name :: bytes where
  "sim_name = [97, 98, 0]"

definition sim_flags :: cint where
  "sim_flags = 0x106"

definition sim_open :: "sim unix_state \<Rightarrow> (cint \<times> unixFile \<times> cint option \<times> sim unix_state) option" where
  "sim_open = unixOpen sim_kernel [STACK_path \<mapsto> name_copy (uninit no_junk 1 512) sim_name] STACK_path
     (passed_flags sim_flags)"

lemma sim_opens:
  "case sim_open (us_init sim_start) of None \<Rightarrow> False | Some (rc, f, out, st) \<Rightarrow>
     rc = SQLITE_OK \<and> h_fd f = 3 \<and> pInode f = 0x100010 \<and>
     (case sim_open st of None \<Rightarrow> False | Some (rc, g, out, st) \<Rightarrow>
        rc = SQLITE_OK \<and> h_fd g = 4 \<and> pInode g = 0x100010 \<and>
        map_option inode_level (inode_at 0x100010 st) = Some NO_LOCK)"
  by code_simp

section \<open>A run\<close>

lemma sim_lock_level:
  assumes i: "inode_at (pInode f) st = Some i" and l: "inode_level i = lock_level f"
    and e: "lock_level f = NO_LOCK \<and> e = SHARED_LOCK \<or> lock_level f = SHARED_LOCK \<and> e = RESERVED_LOCK"
  obtains g st' j where "unixLock sim_kernel f e st = Some (SQLITE_OK, g, st')"
    "inode_at (pInode f) st' = Some j" "inode_level j = e" "lock_level g = e"
proof -
  have lk: "\<exists>j. unixFileLock sim_kernel f k lk os = (0, j, os) \<and> inode_level j = inode_level k" for k lk os
    by (auto simp: unixFileLock_def sim_kernel_def inode_level_def)
  have eq: "eFileLock f = ii_eFileLock i" using l lock_levels_eq [of f i] by simp
  have "\<exists>g j os'. unixLock_locked sim_kernel f e i (us_os st) = (SQLITE_OK, g, j, os') \<and> inode_level j = e \<and> lock_level g = e"
    using e
  proof
    assume e: "lock_level f = NO_LOCK \<and> e = SHARED_LOCK"
    obtain i1 where 1: "unixFileLock sim_kernel f i (file_lock F_RDLCK PENDING_BYTE 1) (us_os st) = (0, i1, us_os st)"
      using lk by blast
    obtain i2 where 2: "unixFileLock sim_kernel f i1 (file_lock F_RDLCK SHARED_FIRST SHARED_SIZE) (us_os st) = (0, i2, us_os st)"
      using lk by blast
    obtain i3 where 3: "unixFileLock sim_kernel f i2 (file_lock F_UNLCK PENDING_BYTE 1) (us_os st) = (0, i3, us_os st)"
      using lk by blast
    show ?thesis using e l
      by (simp add: unixLock_locked_def eq unixLock_pending_def 1 unixLock_shared_def 2 3 unixLock_finish_def)
  next
    assume e: "lock_level f = SHARED_LOCK \<and> e = RESERVED_LOCK"
    obtain i1 where 1: "unixFileLock sim_kernel f i (file_lock F_WRLCK RESERVED_BYTE 1) (us_os st) = (0, i1, us_os st)"
      using lk by blast
    show ?thesis using e l
      by (simp add: unixLock_locked_def eq unixLock_pending_def unixLock_write_def 1 unixLock_finish_def)
  qed
  then obtain g j os' where "unixLock_locked sim_kernel f e i (us_os st) = (SQLITE_OK, g, j, os')"
    "inode_level j = e" "lock_level g = e" by blast
  then show ?thesis
    using that [of g "put_inode (pInode f) j (st\<lparr>us_os := os'\<rparr>)" j] e i by (auto simp: unixLock_def)
qed


lemma sim_two_opens:
  obtains f out st g out' st' i where
    "sim_open (us_init sim_start) = Some (SQLITE_OK, f, out, st)"
    "sim_open st = Some (SQLITE_OK, g, out', st')"
    "pInode f = 0x100010" "pInode g = 0x100010"
    "inode_at 0x100010 st' = Some i" "inode_level i = NO_LOCK"
proof (cases "sim_open (us_init sim_start)")
  case None
  then show ?thesis using sim_opens by simp
next
  case (Some r)
  obtain rc f out st where r: "r = (rc, f, out, st)" by (rule prod_cases4)
  note A = sim_opens [unfolded Some r, simplified]
  show ?thesis
  proof (cases "sim_open st")
    case None
    then show ?thesis using A by simp
  next
    case S2: (Some r')
    obtain rc' g out' st' where r': "r' = (rc', g, out', st')" by (rule prod_cases4)
    note B = A [unfolded S2 r', simplified]
    from B obtain i where "inode_at 0x100010 st' = Some i" "inode_level i = NO_LOCK" by blast
    then show ?thesis using that [of f out st g out' st' i] Some S2 r r' B by simp
  qed
qed

text \<open>A step that opens the database again.\<close>

lemma sim_open_step:
  assumes r: "reachable sim_kernel s" and room: "ml_room (k + 4) (sv_list (srv s))"
    and o: "sim_open (sv_unix (srv s)) = Some (SQLITE_OK, g, out, st)"
  obtains ml where "reachable sim_kernel (s\<lparr>dbs := add_mset (setClientRemotePMethods g) (dbs s),
      srv := (srv s)\<lparr>sv_list := ml, sv_unix := st\<rparr>\<rparr>)" "lock_level g = NO_LOCK" "ml_room k ml"
proof -
  have inv: "sys_inv s" by (rule reachable_inv [OF r])
  have z: "c_string sim_name = Some sim_name" "length sim_name \<le> 512" by code_simp+
  have ml: "ml_inv (sv_list (srv s))" using inv by (simp add: sys_inv_def)
  obtain ml where run: "remoteOpen sim_kernel Delivered no_junk (Some sim_name) zero_unixFile sim_flags None (srv s) =
      Some ((setClientRemotePMethods g, None, SQLITE_OK), (srv s)\<lparr>sv_list := ml, sv_unix := st\<rparr>)" and k: "ml_room k ml"
    by (rule remoteOpen_delivered [OF ml room z o [unfolded sim_open_def], where pout = None])
      (auto simp: flags_after_def intro: that)
  have db: "open_type (passed_flags sim_flags) = SQLITE_OPEN_MAIN_DB" by code_simp
  have "lock_level g = NO_LOCK" using open_db_inv(2) [OF inv run db]
    by (simp add: setClientRemotePMethods_def lock_level_def split: if_splits)
  from reachable.step [OF r sys_step.open_db [OF run db]] this k show ?thesis by (rule that)
qed


text \<open>A step that raises the lock of a handle.\<close>

lemma sim_lock_step:
  fixes e :: cint
  assumes r: "reachable sim_kernel s" and F: "dbs s = add_mset f F"
    and i: "inode_at (pInode f) (sv_unix (srv s)) = Some i" "inode_level i = lock_level f"
    and e: "lock_level f = NO_LOCK \<and> sint e = SHARED_LOCK \<or> lock_level f = SHARED_LOCK \<and> sint e = RESERVED_LOCK"
  obtains g t j where "reachable sim_kernel t" "dbs t = add_mset g F" "pInode g = pInode f"
    "lock_level g = sint e" "inode_at (pInode g) (sv_unix (srv t)) = Some j" "inode_level j = sint e"
proof -
  have inv: "sys_inv s" by (rule reachable_inv [OF r])
  have S: "ml_inv (sv_list (srv s))" "served (sv_list (srv s)) (h_fd f)"
    "files_inv (add_mset f F) (sv_unix (srv s))"
    using inv F by (auto simp: sys_inv_def db_served_def)
  have ok: "lock_request_ok f (sint e)" using e by (auto simp: lock_request_ok_def)
  let ?v = "server_view (srv s) f"
  have v: "pInode ?v = pInode f" "lock_level ?v = lock_level f"
    using server_view_key(1) [OF S(1,2)] by (simp_all add: file_key_def)
  obtain g st j where u: "unixLock sim_kernel ?v (sint e) (sv_unix (srv s)) = Some (SQLITE_OK, g, st)"
    and j: "inode_at (pInode f) st = Some j" "inode_level j = sint e" "lock_level g = sint e"
    by (rule sim_lock_level [of ?v "sv_unix (srv s)" i "sint e"]) (use i e v in auto)
  obtain g' rc st' where u': "unixLock sim_kernel ?v (sint e) (sv_unix (srv s)) = Some (rc, g', st')"
    and run: "remoteLock sim_kernel Delivered no_junk f e (srv s) =
       Some ((setClientRemotePMethods g', rc), settle g' ((srv s)\<lparr>sv_unix := st'\<rparr>))"
    and sm: "same_file ?v g'"
    by (rule remoteLock_served [OF S ok, of sim_kernel no_junk]) (rule that)
  have g: "g' = g" "st' = st" using u u' by simp_all
  have "reachable sim_kernel (s\<lparr>dbs := add_mset (setClientRemotePMethods g) F,
      srv := settle g ((srv s)\<lparr>sv_unix := st\<rparr>)\<rparr>)"
    using reachable.step [OF r sys_step.lock [OF F ok run]] by (simp add: g)
  moreover have "pInode (setClientRemotePMethods g) = pInode f" "lock_level (setClientRemotePMethods g) = sint e"
    using j(3) same_fileD [OF sm] v g by (simp_all add: setClientRemotePMethods_def lock_level_def)
  ultimately show ?thesis
    using that [of "s\<lparr>dbs := add_mset (setClientRemotePMethods g) F,
      srv := settle g ((srv s)\<lparr>sv_unix := st\<rparr>)\<rparr>" "setClientRemotePMethods g" j] j by simp
qed

text \<open>The run: both clients have the database open, the first has a RESERVED lock.\<close>

lemma sim_run:
  obtains s f g where "reachable sim_kernel s" "dbs s = {#f, g#}" "pInode f = pInode g"
    "lock_level f = RESERVED_LOCK"
proof -
  let ?s = "sys_init sim_start"
  obtain f1 out1 st1 f2 out2 st2 i where
    o: "sim_open (us_init sim_start) = Some (SQLITE_OK, f1, out1, st1)"
    and o2: "sim_open st1 = Some (SQLITE_OK, f2, out2, st2)"
    and p: "pInode f1 = 0x100010" "pInode f2 = 0x100010"
    and i: "inode_at 0x100010 st2 = Some i" "inode_level i = NO_LOCK"
    by (rule sim_two_opens) (rule that)
  have o1: "sim_open (sv_unix (srv ?s)) = Some (SQLITE_OK, f1, out1, st1)"
    using o by (simp add: sys_init_def sv_init_def)
  have room: "ml_room ((0 + 4) + 4) (sv_list (srv ?s))" by code_simp
  obtain ml1 where r1: "reachable sim_kernel (?s\<lparr>dbs := add_mset (setClientRemotePMethods f1) (dbs ?s),
      srv := (srv ?s)\<lparr>sv_list := ml1, sv_unix := st1\<rparr>\<rparr>)" (is "reachable _ ?t")
    and l1: "lock_level f1 = NO_LOCK" and m1: "ml_room (0 + 4) ml1"
    by (rule sim_open_step [OF reachable.start room o1]) (rule that)
  have o2': "sim_open (sv_unix (srv ?t)) = Some (SQLITE_OK, f2, out2, st2)" using o2 by simp
  have m1': "ml_room (0 + 4) (sv_list (srv ?t))" using m1 by simp
  obtain ml2 where r2: "reachable sim_kernel (?t\<lparr>dbs := add_mset (setClientRemotePMethods f2) (dbs ?t),
      srv := (srv ?t)\<lparr>sv_list := ml2, sv_unix := st2\<rparr>\<rparr>)" (is "reachable _ ?u")
    by (rule sim_open_step [OF r1 m1' o2']) (rule that)
  let ?f = "setClientRemotePMethods f1" and ?g = "setClientRemotePMethods f2"
  have keep: "pInode ?f = 0x100010" "pInode ?g = 0x100010" "lock_level ?f = NO_LOCK"
    using p l1 by (simp_all add: setClientRemotePMethods_def lock_level_def)
  have F: "dbs ?u = add_mset ?f {#?g#}" by (simp add: sys_init_def add_mset_commute)
  have iu: "inode_at (pInode ?f) (sv_unix (srv ?u)) = Some i" "inode_level i = lock_level ?f"
    using i keep by simp_all
  have e1: "lock_level ?f = NO_LOCK \<and> sint (1 :: cint) = SHARED_LOCK \<or>
      lock_level ?f = SHARED_LOCK \<and> sint (1 :: cint) = RESERVED_LOCK" using keep by simp
  obtain h v j where r3: "reachable sim_kernel v" and Fv: "dbs v = add_mset h {#?g#}" and ph: "pInode h = pInode ?f"
    and lh: "lock_level h = sint (1 :: cint)" and jv: "inode_at (pInode h) (sv_unix (srv v)) = Some j"
      "inode_level j = sint (1 :: cint)"
    by (rule sim_lock_step [OF r2 F iu e1]) (rule that)
  have jl: "inode_level j = lock_level h" using jv lh by simp
  have e2: "lock_level h = NO_LOCK \<and> sint (2 :: cint) = SHARED_LOCK \<or>
      lock_level h = SHARED_LOCK \<and> sint (2 :: cint) = RESERVED_LOCK" using lh by simp
  obtain k w where "reachable sim_kernel w" "dbs w = add_mset k {#?g#}" "pInode k = pInode h"
    "lock_level k = sint (2 :: cint)"
    by (rule sim_lock_step [OF r3 Fv jv(1) jl e2]) (rule that)
  then show ?thesis using that [of w k ?g] ph keep by simp
qed

end
