(* ===== verification/Sim_Shm.thy ===== *)
theory Sim_Shm
  imports Shm_System Sim_Kernel
begin

text \<open>
  Runs of the shared-memory operations for the concrete instances: two handles map a region, the
  first takes lock 0 exclusively. One kernel is that of \<open>Sim_Kernel\<close>, the other keeps a
  record of the locks it has granted.
\<close>

section \<open>Two handles on one database\<close>

definition shm_mem :: "ptr \<Rightarrow> bytes option" where
  "shm_mem p = (if p = 0x500 then Some [97, 98, 0, 0] else None)"

definition shm_inode :: unixInodeInfo where
  "shm_inode = \<lparr>ii_dev = 1, ii_ino = 25185, nShared = 2, nLock = 2, ii_eFileLock = 1,
     bProcessLock = False, pUnused = [], nRef = 2, ii_shm = NULL\<rparr>"

definition shm_state0 :: "'os \<Rightarrow> 'os shm_state" where
  "shm_state0 os = \<lparr>sh_unix = \<lparr>us_os = os, inodeList = [(0x100010, shm_inode)],
     unusedFds = Map.empty, us_brk = 0x200000\<rparr>, shmNodes = Map.empty, shmConns = Map.empty\<rparr>"

definition shm_file :: "cint \<Rightarrow> unixFile" where
  "shm_file fd = zero_unixFile\<lparr>pInode := 0x100010, h_fd := fd, eFileLock := 1, zPath := 0x500\<rparr>"

definition shm_sys0 :: "'os \<Rightarrow> 'os shm_sys" where
  "shm_sys0 os = \<lparr>sfiles = {#shm_file 3, shm_file 4#}, smem = shm_state0 os\<rparr>"

lemma shm_sys0_start: "shm_start (shm_sys0 os)"
  by (simp add: shm_start_def shm_sys0_def shm_state0_def table_ok_def inode_at_def shm_file_def
      zero_unixFile_def shm_inode_def US_TOP_def)

definition map_first :: "'os syscalls \<Rightarrow> unixFile \<Rightarrow> 'os shm_state \<Rightarrow> (cint \<times> ptr \<times> unixFile \<times> 'os shm_state) option" where
  "map_first S f = unixShmMap S shm_mem f 0 1 True NULL"

definition lock_first :: "'os syscalls \<Rightarrow> unixFile \<Rightarrow> 'os shm_state \<Rightarrow> (cint \<times> 'os shm_state) option" where
  "lock_first S f = unixShmLock S f 0 1 (SQLITE_SHM_LOCK OR SQLITE_SHM_EXCLUSIVE)"

section \<open>A kernel that records locks\<close>

definition lock_kernel :: "(cint \<Rightarrow> int \<Rightarrow> lock_type) syscalls" where
  "lock_kernel = \<lparr>
     osErrno = \<lambda>os. 0,
     osOpen = \<lambda>z flags mode os. (5, os),
     osClose = \<lambda>fd os. (0, os),
     osAccess = \<lambda>z flags os. (0, os),
     osGetcwd = \<lambda>n os. (None, os),
     osStat = \<lambda>z os. (- 1, sim_stat [] sim_start, os),
     osFstat = \<lambda>fd os. (0, (sim_stat [] sim_start)\<lparr>st_size := 65536\<rparr>, os),
     osFtruncate = \<lambda>fd n os. (0, os),
     osSetlk = \<lambda>fd l os. (0, os(fd := \<lambda>b. if l_start l \<le> b \<and> b < l_start l + l_len l then l_type l else os fd b)),
     osGetlk = \<lambda>fd l os. (0, l\<lparr>l_type := F_UNLCK\<rparr>, os),
     osLseek = \<lambda>fd off os. (- 1, os),
     osRead = \<lambda>fd n os. (- 1, [], os),
     osWrite = \<lambda>fd b os. (- 1, os),
     osFsync = \<lambda>fd os. (0, os),
     osFchmod = \<lambda>fd m os. (0, os),
     osUnlink = \<lambda>z os. (0, os),
     osMmap = \<lambda>n fd os. (MAP_FAILED, os),
     osMunmap = \<lambda>p n os. (0, os),
     osMmapShared = \<lambda>n ro fd off os. (0x70000000 + word_of_int off, os),
     osMremap = \<lambda>p n m os. (MAP_FAILED, os),
     osMemory = \<lambda>os p n. None,
     osTempname = \<lambda>os. (0, [116, 0, 0], os),
     osGetpagesize = 4096\<rparr>"

lemma lock_kernel_records: "kernel_records_locks lock_kernel (\<lambda>os. os)"
  by (simp add: kernel_records_locks_def lock_kernel_def)

section \<open>The runs\<close>

definition both_mapped :: "unixFile \<Rightarrow> unixFile \<Rightarrow> (cint \<Rightarrow> int \<Rightarrow> lock_type) shm_state \<Rightarrow> bool" where
  "both_mapped f g st \<longleftrightarrow>
     pInode f = 0x100010 \<and> pInode g = 0x100010 \<and> pShm f \<noteq> NULL \<and> pShm g \<noteq> NULL \<and>
     (case (shmConns st (pShm f), shmConns st (pShm g)) of
        (Some c, Some d) \<Rightarrow> sharedMask c = 0 \<and> exclMask c = 0 \<and> sharedMask d = 0 \<and> exclMask d = 0 \<and>
          (case shmNodes st (sh_node c) of None \<Rightarrow> False
           | Some n \<Rightarrow> pFirst n = [pShm g, pShm f] \<and> hShm n = 5 \<and> (\<forall>k \<in> {0..<8}. sh_os st 5 (120 + k) = F_UNLCK))
      | _ \<Rightarrow> False)"

definition first_locks :: "unixFile \<Rightarrow> unixFile \<Rightarrow> (cint \<Rightarrow> int \<Rightarrow> lock_type) shm_state \<Rightarrow> bool" where
  "first_locks f g st \<longleftrightarrow>
     (case lock_first lock_kernel f st of None \<Rightarrow> False | Some (rc, st) \<Rightarrow> rc = SQLITE_OK \<and>
        map_option exclMask (shmConns st (pShm f)) = Some 1 \<and>
        map_option exclMask (shmConns st (pShm g)) = Some 0)"

lemma lock_kernel_runs:
  "case map_first lock_kernel (shm_file 3) (shm_state0 (\<lambda>_ _. F_UNLCK)) of None \<Rightarrow> False | Some (rc, p, f, st) \<Rightarrow>
     rc = SQLITE_OK \<and>
     (case map_first lock_kernel (shm_file 4) st of None \<Rightarrow> False | Some (rc, q, g, st) \<Rightarrow>
        rc = SQLITE_OK \<and> q = p \<and> p \<noteq> NULL \<and> both_mapped f g st \<and> first_locks f g st)"
  by code_simp

definition other_maps :: "unixFile \<Rightarrow> (cint \<Rightarrow> int \<Rightarrow> lock_type) shm_state \<Rightarrow> bool" where
  "other_maps g st \<longleftrightarrow>
     (case unixShmMap lock_kernel shm_mem (shm_file 4) 3 1 True NULL st of None \<Rightarrow> False
      | Some (rc, q, h, st) \<Rightarrow>
        (case unixShmMap lock_kernel shm_mem g 0 1 True NULL st of None \<Rightarrow> False
         | Some (rc, q, g, st) \<Rightarrow> rc = SQLITE_OK))"

lemma lock_kernel_maps:
  "case unixShmMap lock_kernel shm_mem (shm_file 3) 0 1 True NULL (shm_state0 (\<lambda>_ _. F_UNLCK)) of None \<Rightarrow> False
   | Some (rc, p, g, st) \<Rightarrow> rc = SQLITE_OK \<and> pShm g \<noteq> NULL \<and> other_maps g st"
  by code_simp

text \<open>Both have mapped the region and hold no lock; the record of the kernel says the same.\<close>

lemma lock_kernel_mapped:
  obtains s f g c d n where "shm_reachable lock_kernel shm_mem s" "sfiles s = {#f, g#}" "pInode f = pInode g"
    "pShm f \<noteq> NULL" "pShm g \<noteq> NULL"
    "shmConns (smem s) (pShm f) = Some c" "shmConns (smem s) (pShm g) = Some d"
    "shmNodes (smem s) (sh_node c) = Some n" "shm_agrees (\<lambda>os. os) (smem s) (sh_node c)"
    "\<exists>st c d. lock_first lock_kernel f (smem s) = Some (SQLITE_OK, st) \<and> shmConns st (pShm f) = Some c \<and>
        shmConns st (pShm g) = Some d \<and> exclMask c = 1 \<and> exclMask d = 0"
proof -
  let ?os = "\<lambda>_ _. F_UNLCK"
  obtain p f st1 q g st2 where m1: "map_first lock_kernel (shm_file 3) (shm_state0 ?os) = Some (SQLITE_OK, p, f, st1)"
    and m2: "map_first lock_kernel (shm_file 4) st1 = Some (SQLITE_OK, q, g, st2)"
    and C: "both_mapped f g st2" and L: "first_locks f g st2"
    using lock_kernel_runs by (auto split: option.splits prod.splits)
  have F: "pInode f = pInode g" "pShm f \<noteq> NULL" "pShm g \<noteq> NULL" using C by (simp_all add: both_mapped_def)
  obtain c d n where c: "shmConns st2 (pShm f) = Some c" "sharedMask c = 0" "exclMask c = 0"
    and d: "shmConns st2 (pShm g) = Some d" "sharedMask d = 0" "exclMask d = 0"
    and n: "shmNodes st2 (sh_node c) = Some n" "pFirst n = [pShm g, pShm f]" "hShm n = 5"
    and free: "\<forall>k \<in> {0..<8}. sh_os st2 5 (120 + k) = F_UNLCK"
    using C by (auto simp: both_mapped_def split: option.splits)
  define s1 where "s1 = \<lparr>sfiles = {#f, shm_file 4#}, smem = st1\<rparr>"
  define s2 where "s2 = \<lparr>sfiles = {#g, f#}, smem = st2\<rparr>"
  have "shm_step lock_kernel shm_mem (shm_sys0 ?os) \<lparr>sfiles = add_mset f {#shm_file 4#}, smem = st1\<rparr>"
    by (rule shm_step.map [where iRegion = 0 and sz = 1 and e = True and pp = NULL])
      (use m1 in \<open>simp_all add: shm_sys0_def map_first_def\<close>)
  then have r1: "shm_reachable lock_kernel shm_mem s1"
    unfolding s1_def by (rule shm_reachable.step [OF shm_reachable.start [OF shm_sys0_start]])
  have "shm_step lock_kernel shm_mem s1 \<lparr>sfiles = add_mset g {#f#}, smem = st2\<rparr>"
    by (rule shm_step.map [where iRegion = 0 and sz = 1 and e = True and pp = NULL])
      (use m2 in \<open>simp_all add: s1_def map_first_def add_mset_commute\<close>)
  then have r2: "shm_reachable lock_kernel shm_mem s2"
    unfolding s2_def by (rule shm_reachable.step [OF r1])
  have inv: "shm_inv st2" using shm_reachable_inv [OF r2] by (simp add: shm_sys_inv_def s2_def)
  have idle: "sharedMask x = 0 \<and> exclMask x = 0" if x: "(q, x) \<in> node_conns st2 (sh_node c)" for q x
  proof -
    have "q \<in> set (pFirst n)"
      using shm_invD(3) [OF inv n(1), unfolded node_ok_def] x by (auto simp: node_conns_def)
    then have "x = c \<or> x = d" using x n(2) c(1) d(1) by (auto simp: node_conns_def)
    then show ?thesis using c d by auto
  qed
  have "shm_level st2 (sh_node c) k = F_UNLCK" for k
    using idle by (fastforce simp: shm_level_def)
  then have "shm_agrees (\<lambda>os. os) st2 (sh_node c)"
    using n free by (simp add: shm_agrees_def SQLITE_SHM_NLOCK_def UNIX_SHM_BASE_def)
  moreover obtain st c' d' where "lock_first lock_kernel f st2 = Some (SQLITE_OK, st)" "shmConns st (pShm f) = Some c'"
    "shmConns st (pShm g) = Some d'" "exclMask c' = 1" "exclMask d' = 0"
    using L by (auto simp: first_locks_def split: option.splits prod.splits)
  ultimately show ?thesis
    using that [of s2 f g c d n] r2 F c(1) d(1) n(1) by (auto simp: s2_def add_mset_commute)
qed

text \<open>The first handle holds lock 0 exclusively.\<close>

lemma lock_kernel_locked:
  obtains s f g c d where "shm_reachable lock_kernel shm_mem s" "sfiles s = {#f, g#}" "pInode f = pInode g"
    "shmConns (smem s) (pShm f) = Some c" "shmConns (smem s) (pShm g) = Some d" "exclMask c = 1"
proof -
  obtain s f g where r: "shm_reachable lock_kernel shm_mem s" "sfiles s = {#f, g#}" "pInode f = pInode g" "pShm f \<noteq> NULL"
    and l: "\<exists>st c d. lock_first lock_kernel f (smem s) = Some (SQLITE_OK, st) \<and> shmConns st (pShm f) = Some c \<and>
        shmConns st (pShm g) = Some d \<and> exclMask c = 1 \<and> exclMask d = 0"
    by (rule lock_kernel_mapped) (rule that)
  obtain st c d where st: "lock_first lock_kernel f (smem s) = Some (SQLITE_OK, st)" "shmConns st (pShm f) = Some c"
    "shmConns st (pShm g) = Some d" "exclMask c = 1" using l by blast
  have "shm_step lock_kernel shm_mem s (s\<lparr>smem := st\<rparr>)"
    by (rule shm_step.lock [of f _ _ 0 1]) (use r st(1) in \<open>simp_all add: lock_first_def\<close>)
  then have "shm_reachable lock_kernel shm_mem (s\<lparr>smem := st\<rparr>)" by (rule shm_reachable.step [OF r(1)])
  then show ?thesis using that [of "s\<lparr>smem := st\<rparr>" f g c d] r st by simp
qed

end
