(* ===== verification/Pager_Defs.thy ===== *)
theory Pager_Defs
  imports Sqlite_Defs
begin

text \<open>
  The pager of SQLite (\<open>pager.c\<close>), as far as its rollback journal goes: the \<open>Pager\<close>
  structure, the methods of the files it works on, big-endian integers, and reading and writing
  them in a file. The pager is the caller of the VFS; its files are of any type here, so that
  the remote VFS can be one of them.
\<close>

type_synonym u32 = "32 word"
type_synonym Pgno = "32 word"

section \<open>Constants\<close>

abbreviation (input) SQLITE_DONE :: cint where "SQLITE_DONE \<equiv> 101"

abbreviation (input) PAGER_OPEN :: int where "PAGER_OPEN \<equiv> 0"
abbreviation (input) PAGER_READER :: int where "PAGER_READER \<equiv> 1"
abbreviation (input) PAGER_WRITER_LOCKED :: int where "PAGER_WRITER_LOCKED \<equiv> 2"
abbreviation (input) PAGER_WRITER_CACHEMOD :: int where "PAGER_WRITER_CACHEMOD \<equiv> 3"
abbreviation (input) PAGER_WRITER_DBMOD :: int where "PAGER_WRITER_DBMOD \<equiv> 4"
abbreviation (input) PAGER_WRITER_FINISHED :: int where "PAGER_WRITER_FINISHED \<equiv> 5"
abbreviation (input) PAGER_ERROR :: int where "PAGER_ERROR \<equiv> 6"

abbreviation (input) PAGER_JOURNALMODE_PERSIST :: int where "PAGER_JOURNALMODE_PERSIST \<equiv> 1"
abbreviation (input) PAGER_JOURNALMODE_TRUNCATE :: int where "PAGER_JOURNALMODE_TRUNCATE \<equiv> 3"
abbreviation (input) PAGER_JOURNALMODE_MEMORY :: int where "PAGER_JOURNALMODE_MEMORY \<equiv> 4"
abbreviation (input) PAGER_JOURNALMODE_WAL :: int where "PAGER_JOURNALMODE_WAL \<equiv> 5"

abbreviation (input) SQLITE_IOCAP_SAFE_APPEND :: cint where "SQLITE_IOCAP_SAFE_APPEND \<equiv> 0x200"
abbreviation (input) SQLITE_IOCAP_SEQUENTIAL :: cint where "SQLITE_IOCAP_SEQUENTIAL \<equiv> 0x400"
abbreviation (input) SQLITE_SYNC_NORMAL :: cint where "SQLITE_SYNC_NORMAL \<equiv> 2"
abbreviation (input) SQLITE_SYNC_FULL :: cint where "SQLITE_SYNC_FULL \<equiv> 3"
abbreviation (input) SQLITE_SYNC_DATAONLY :: cint where "SQLITE_SYNC_DATAONLY \<equiv> 0x10"
abbreviation (input) PGHDR_NEED_SYNC :: "16 word" where "PGHDR_NEED_SYNC \<equiv> 0x8"

definition SQLITE_MAX_PAGE_SIZE :: int where "SQLITE_MAX_PAGE_SIZE = 65536"
definition MAX_SECTOR_SIZE :: int where "MAX_SECTOR_SIZE = 0x10000"

definition aJournalMagic :: bytes where
  "aJournalMagic = [0xd9, 0xd5, 0x05, 0xf9, 0x20, 0xa1, 0x63, 0xd7]"

section \<open>Big-endian integers\<close>

definition sqlite3Put4byte :: "u32 \<Rightarrow> bytes" where
  "sqlite3Put4byte v = [ucast (drop_bit 24 v), ucast (drop_bit 16 v), ucast (drop_bit 8 v), ucast v]"

definition sqlite3Get4byte :: "bytes \<Rightarrow> u32" where
  "sqlite3Get4byte p =
     push_bit 24 (ucast (p ! 0)) OR push_bit 16 (ucast (p ! 1)) OR push_bit 8 (ucast (p ! 2)) OR ucast (p ! 3)"

lemma length_Put4byte [simp]: "length (sqlite3Put4byte v) = 4"
  by (simp add: sqlite3Put4byte_def)

lemma Get4byte_Put4byte [simp]: "sqlite3Get4byte (sqlite3Put4byte v @ xs) = v"
proof (rule bit_word_eqI)
  fix n assume "n < LENGTH(32)"
  then show "bit (sqlite3Get4byte (sqlite3Put4byte v @ xs)) n \<longleftrightarrow> bit v n"
    by (cases "n < 8"; cases "n < 16"; cases "n < 24")
      (auto simp: sqlite3Get4byte_def sqlite3Put4byte_def bit_or_iff bit_push_bit_iff bit_ucast_iff bit_drop_bit_eq
        dest: bit_imp_le_length)
qed

lemma Get4byte_Put4byte_all [simp]: "sqlite3Get4byte (sqlite3Put4byte v) = v"
  using Get4byte_Put4byte [of v "[]"] by simp

section \<open>The pager\<close>

text \<open>A page in the cache, and an open savepoint. A bit vector is the set of its members.\<close>

record PgHdr =
  pData :: bytes
  pg_flags :: "16 word"

record PagerSavepoint =
  iHdrOffset :: int
  pInSavepoint :: "Pgno set"
  nOrig :: Pgno

text \<open>
  A file that is not open is \<open>None\<close>. \<open>pWal\<close> tells whether a write-ahead log is in use.
  \<open>pPCache\<close> are the pages in the cache,
  \<open>nPageRef\<close> the number of references to them; a bit vector that does not exist is \<open>None\<close>. \<open>sectorSize\<close> and \<open>pageSize\<close> are at most 65536 and
  journal offsets are \<open>i64\<close>s that do not overflow, so these are integers; page numbers,
  page counts and checksums wrap and are words.
\<close>

record 'f Pager =
  memDb :: bool
  noLock :: bool
  errCode :: cint
  pWal :: bool
  exclusiveMode :: bool
  tempFile :: bool
  extraSync :: bool
  zJournal :: bytes
  journalMode :: int
  noSync :: bool
  fullSync :: bool
  syncFlags :: cint
  eState :: int
  eLock :: int
  setMaster :: bool
  dbSize :: Pgno
  dbOrigSize :: Pgno
  dbFileSize :: Pgno
  nRec :: u32
  cksumInit :: u32
  pInJournal :: "Pgno set option"
  pfd :: "'f option"
  jfd :: "'f option"
  journalOff :: int
  journalHdr :: int
  aSavepoint :: "PagerSavepoint list"
  iDataVersion :: u32
  dbFileVers :: bytes
  nReserve :: int
  sectorSz :: int
  pageSize :: int
  journalSizeLimit :: int
  szMmap :: i64
  bUseFetch :: bool
  pTmpSpace :: bytes
  pPCache :: "Pgno \<rightharpoonup> PgHdr"
  nPageRef :: int

definition JOURNAL_PG_SZ :: "'f Pager \<Rightarrow> int" where
  "JOURNAL_PG_SZ p = pageSize p + 8"

definition JOURNAL_HDR_SZ :: "'f Pager \<Rightarrow> int" where
  "JOURNAL_HDR_SZ p = sectorSz p"

definition PAGER_MJ_PGNO :: "'f Pager \<Rightarrow> Pgno" where
  "PAGER_MJ_PGNO p = word_of_int (PENDING_BYTE div pageSize p + 1)"

section \<open>The files and the rest of the world\<close>

text \<open>
  The methods of an open file (\<open>sqlite3_io_methods\<close>), which also give the file's new handle,
  and their version; what the pager needs beside them: whether a file is kept in memory,
  whether to wait for a lock that is busy, looking for and deleting a file, the longest path name, four random bytes, whether an allocation succeeds and what fresh memory holds.
  \<open>None\<close> is a call that does not return.
\<close>

record ('f, 's) pager_env =
  xRead :: "'f \<Rightarrow> bytes \<Rightarrow> int \<Rightarrow> int \<Rightarrow> 's \<Rightarrow> (cint \<times> bytes \<times> 'f \<times> 's) option"
  xWrite :: "'f \<Rightarrow> bytes \<Rightarrow> int \<Rightarrow> int \<Rightarrow> 's \<Rightarrow> (cint \<times> unit \<times> 'f \<times> 's) option"
  xTruncate :: "'f \<Rightarrow> int \<Rightarrow> 's \<Rightarrow> (cint \<times> unit \<times> 'f \<times> 's) option"
  xSync :: "'f \<Rightarrow> cint \<Rightarrow> 's \<Rightarrow> (cint \<times> unit \<times> 'f \<times> 's) option"
  xFileSize :: "'f \<Rightarrow> 's \<Rightarrow> (cint \<times> int \<times> 'f \<times> 's) option"
  xDeviceCharacteristics :: "'f \<Rightarrow> 's \<Rightarrow> (cint \<times> unit \<times> 'f \<times> 's) option"
  xFileControl :: "'f \<Rightarrow> int \<Rightarrow> bytes \<Rightarrow> 's \<Rightarrow> (cint \<times> bytes \<times> 'f \<times> 's) option"
  xLock :: "'f \<Rightarrow> int \<Rightarrow> 's \<Rightarrow> (cint \<times> unit \<times> 'f \<times> 's) option"
  xUnlock :: "'f \<Rightarrow> int \<Rightarrow> 's \<Rightarrow> (cint \<times> unit \<times> 'f \<times> 's) option"
  xClose :: "'f \<Rightarrow> 's \<Rightarrow> 's option"
  iVersion :: int
  isInMemory :: "'f \<Rightarrow> bool"
  xBusyHandler :: "'s \<Rightarrow> (bool \<times> 's) option"
  xAccess :: "bytes \<Rightarrow> 's \<Rightarrow> (cint \<times> bool \<times> 's) option"
  xDelete :: "bytes \<Rightarrow> bool \<Rightarrow> 's \<Rightarrow> (cint \<times> 's) option"
  mxPathname :: int
  randomness4 :: "'s \<Rightarrow> u32 \<times> 's"
  mallocs :: "'s \<Rightarrow> bool \<times> 's"
  heapJunk :: "nat \<Rightarrow> byte"

text \<open>The pager and the world, and a result with its code and a value.\<close>

type_synonym ('f, 's) pst = "'f Pager \<times> 's"
type_synonym ('f, 's, 'a) pres = "(cint \<times> 'a \<times> ('f, 's) pst) option"

text \<open>A method of the database or the journal file; a file that is not open has no methods.\<close>

definition on_fd :: "('f \<Rightarrow> 's \<Rightarrow> (cint \<times> 'a \<times> 'f \<times> 's) option) \<Rightarrow> ('f, 's) pst \<Rightarrow> ('f, 's, 'a) pres" where
  "on_fd m = (\<lambda>(p, s). do {
     f \<leftarrow> pfd p;
     (rc, x, f, s) \<leftarrow> m f s;
     Some (rc, x, p\<lparr>pfd := Some f\<rparr>, s)
   })"

definition on_jfd :: "('f \<Rightarrow> 's \<Rightarrow> (cint \<times> 'a \<times> 'f \<times> 's) option) \<Rightarrow> ('f, 's) pst \<Rightarrow> ('f, 's, 'a) pres" where
  "on_jfd m = (\<lambda>(p, s). do {
     f \<leftarrow> jfd p;
     (rc, x, f, s) \<leftarrow> m f s;
     Some (rc, x, p\<lparr>jfd := Some f\<rparr>, s)
   })"

text \<open>The idiom \<open>rc = ...; if( rc!=SQLITE_OK ) return rc;\<close>, with a value for the error.\<close>

definition if_ok :: "('f, 's, 'a) pres \<Rightarrow> 'b \<Rightarrow> ('a \<Rightarrow> ('f, 's) pst \<Rightarrow> ('f, 's, 'b) pres) \<Rightarrow> ('f, 's, 'b) pres" where
  "if_ok r b k = do {
     (rc, x, ps) \<leftarrow> r;
     if rc = SQLITE_OK then k x ps else Some (rc, b, ps)
   }"

section \<open>Integers in the journal file\<close>

text \<open>The caller's variable \<open>old\<close> is left alone when the read fails.\<close>

definition read32bits :: "('f, 's) pager_env \<Rightarrow> int \<Rightarrow> u32 \<Rightarrow> ('f, 's) pst \<Rightarrow> ('f, 's, u32) pres" where
  "read32bits E offset old ps = do {
     (rc, ac, ps) \<leftarrow> on_jfd (\<lambda>f. xRead E f (zeroed 4) 4 offset) ps;
     Some (rc, if rc = SQLITE_OK then sqlite3Get4byte ac else old, ps)
   }"

definition write32bits :: "('f, 's) pager_env \<Rightarrow> int \<Rightarrow> u32 \<Rightarrow> ('f, 's) pst \<Rightarrow> ('f, 's, unit) pres" where
  "write32bits E offset val = on_jfd (\<lambda>f. xWrite E f (sqlite3Put4byte val) 4 offset)"

end
