(* ===== verification/Pager_Lock.thy ===== *)
theory Pager_Lock
  imports Pager_Defs
begin

text \<open>
  The pager's lock on the database file: \<open>eLock\<close> is what the pager believes it holds,
  \<open>UNKNOWN_LOCK\<close> that an unlock has failed.
\<close>

abbreviation (input) UNKNOWN_LOCK :: int where "UNKNOWN_LOCK \<equiv> 5"

definition pagerUnlockDb :: "('f, 's) pager_env \<Rightarrow> int \<Rightarrow> ('f, 's) pst \<Rightarrow> ('f, 's, unit) pres" where
  "pagerUnlockDb E lck = (\<lambda>(p, s).
     if pfd p \<noteq> None then do {
       (rc, _, p, s) \<leftarrow> (if noLock p then Some (SQLITE_OK, (), p, s) else on_fd (\<lambda>f. xUnlock E f lck) (p, s));
       Some (rc, (), if eLock p \<noteq> UNKNOWN_LOCK then p\<lparr>eLock := lck\<rparr> else p, s)
     }
     else Some (SQLITE_OK, (), p, s))"

definition pagerLockDb :: "('f, 's) pager_env \<Rightarrow> int \<Rightarrow> ('f, 's) pst \<Rightarrow> ('f, 's, unit) pres" where
  "pagerLockDb E lck = (\<lambda>(p, s).
     if eLock p < lck \<or> eLock p = UNKNOWN_LOCK then do {
       (rc, _, p, s) \<leftarrow> (if noLock p then Some (SQLITE_OK, (), p, s) else on_fd (\<lambda>f. xLock E f lck) (p, s));
       Some (rc, (), if rc = SQLITE_OK \<and> (eLock p \<noteq> UNKNOWN_LOCK \<or> lck = EXCLUSIVE_LOCK) then p\<lparr>eLock := lck\<rparr> else p, s)
     }
     else Some (SQLITE_OK, (), p, s))"

text \<open>While the lock is busy, the busy handler decides whether to try again.\<close>

partial_function (option) pager_wait_on_lock :: "('f, 's) pager_env \<Rightarrow> int \<Rightarrow> ('f, 's) pst \<Rightarrow> ('f, 's, unit) pres" where
  "pager_wait_on_lock E lck ps =
     Option.bind (pagerLockDb E lck ps) (\<lambda>(rc, _, p, s).
       if rc = SQLITE_BUSY then
         Option.bind (xBusyHandler E s) (\<lambda>(again, s).
           if again then pager_wait_on_lock E lck (p, s) else Some (rc, (), p, s))
       else Some (rc, (), p, s))"

declare pager_wait_on_lock.simps [code]

definition sqlite3PagerExclusiveLock :: "('f, 's) pager_env \<Rightarrow> ('f, 's) pst \<Rightarrow> ('f, 's, unit) pres" where
  "sqlite3PagerExclusiveLock E = (\<lambda>(p, s).
     if errCode p = SQLITE_OK \<and> \<not> pWal p then pager_wait_on_lock E EXCLUSIVE_LOCK (p, s)
     else Some (errCode p, (), p, s))"

text \<open>A lock that is held is not asked for again.\<close>

abbreviation exclusively_locked :: "'f Pager \<Rightarrow> bool" where
  "exclusively_locked p \<equiv> errCode p = SQLITE_OK \<and> (pWal p \<or> eLock p = EXCLUSIVE_LOCK)"

lemma pager_lock_held: "lck \<le> eLock p \<Longrightarrow> eLock p \<noteq> UNKNOWN_LOCK \<Longrightarrow> pager_wait_on_lock E lck (p, s) = Some (SQLITE_OK, (), p, s)"
  by (subst pager_wait_on_lock.simps) (simp add: pagerLockDb_def)

lemma exclusive_lock_held: "exclusively_locked p \<Longrightarrow> sqlite3PagerExclusiveLock E (p, s) = Some (SQLITE_OK, (), p, s)"
  by (auto simp: sqlite3PagerExclusiveLock_def  pager_lock_held)

end
