(* ===== verification/Pager_Journal.thy ===== *)
theory Pager_Journal
  imports Pager_Lock
begin

text \<open>
  Writing the rollback journal: its headers, the records of pages, the name of a master journal,
  and the synchronisation that makes the records count.
\<close>

section \<open>Checksums and offsets\<close>

text \<open>Every 200th byte of the page from the end, added to the random number of the header.\<close>

function cksum_loop :: "bytes \<Rightarrow> int \<Rightarrow> u32 \<Rightarrow> u32" where
  "cksum_loop aData i cksum =
     (if 0 < i then cksum_loop aData (i - 200) (cksum + ucast (aData ! nat i)) else cksum)"
  by pat_completeness auto
termination
  by (relation "measure (\<lambda>(_, i, _). nat i)") auto

declare cksum_loop.simps [simp del]

definition pager_cksum :: "'f Pager \<Rightarrow> bytes \<Rightarrow> u32" where
  "pager_cksum p aData = cksum_loop aData (pageSize p - 200) (cksumInit p)"

definition journalHdrOffset :: "'f Pager \<Rightarrow> int" where
  "journalHdrOffset p =
     (let c = journalOff p in
      if c \<noteq> 0 then ((c - 1) div JOURNAL_HDR_SZ p + 1) * JOURNAL_HDR_SZ p else 0)"

section \<open>Headers\<close>

text \<open>The buffer with the header: the first 28 bytes, the rest of \<open>n\<close> zeroed.\<close>

definition journal_header :: "bool \<Rightarrow> 'f Pager \<Rightarrow> nat \<Rightarrow> bytes" where
  "journal_header counted p n =
     (if counted then zeroed 12 else aJournalMagic @ sqlite3Put4byte 0xffffffff) @
     sqlite3Put4byte (cksumInit p) @ sqlite3Put4byte (dbOrigSize p) @
     sqlite3Put4byte (word_of_int (sectorSz p)) @ sqlite3Put4byte (word_of_int (pageSize p)) @
     zeroed (n - 28)"

text \<open>
  The header sector is written in pieces of the buffer, \<open>nHeader\<close> bytes each. Both sizes are
  powers of two and the loop counter is below 65536.
\<close>

partial_function (option) write_header ::
  "('f, 's) pager_env \<Rightarrow> bytes \<Rightarrow> int \<Rightarrow> int \<Rightarrow> ('f, 's) pst \<Rightarrow> ('f, 's, unit) pres" where
  "write_header E zHeader nHeader nWrite ps =
     (if nWrite < JOURNAL_HDR_SZ (fst ps) then
        Option.bind (on_jfd (\<lambda>f. xWrite E f zHeader nHeader (journalOff (fst ps))) ps) (\<lambda>(rc, _, p, s).
          let p = p\<lparr>journalOff := journalOff p + nHeader\<rparr> in
          if rc = SQLITE_OK then write_header E zHeader nHeader (nWrite + nHeader) (p, s)
          else Some (rc, (), p, s))
      else Some (SQLITE_OK, (), ps))"

declare write_header.simps [code]

definition mark_savepoints :: "int \<Rightarrow> PagerSavepoint list \<Rightarrow> PagerSavepoint list" where
  "mark_savepoints off = map (\<lambda>sp. if iHdrOffset sp = 0 then sp\<lparr>iHdrOffset := off\<rparr> else sp)"

text \<open>
  The header goes to the next sector boundary. The record count is left zero, to be filled in by
  \<open>syncJournal\<close>, unless nothing will be synced or the device appends safely.
\<close>

definition writeJournalHdr :: "('f, 's) pager_env \<Rightarrow> ('f, 's) pst \<Rightarrow> ('f, 's, unit) pres" where
  "writeJournalHdr E = (\<lambda>(p, s). do {
     let nHeader = min (pageSize p) (JOURNAL_HDR_SZ p);
     let p = p\<lparr>aSavepoint := mark_savepoints (journalOff p) (aSavepoint p)\<rparr>;
     let p = p\<lparr>journalHdr := journalHdrOffset p, journalOff := journalHdrOffset p\<rparr>;
     (uncounted, p, s) \<leftarrow>
       (if noSync p \<or> journalMode p = PAGER_JOURNALMODE_MEMORY then Some (True, p, s)
        else do {
          (iDc, _, p, s) \<leftarrow> on_fd (xDeviceCharacteristics E) (p, s);
          Some (iDc AND SQLITE_IOCAP_SAFE_APPEND \<noteq> 0, p, s)
        });
     let (rnd, s) = randomness4 E s;
     let p = p\<lparr>cksumInit := rnd\<rparr>;
     let zHeader = journal_header (\<not> uncounted) p (nat nHeader);
     pTmp \<leftarrow> memcpy (pTmpSpace p) 0 zHeader;
     write_header E pTmp nHeader 0 (p\<lparr>pTmpSpace := pTmp\<rparr>, s)
   })"

section \<open>Records\<close>

text \<open>
  Note the page in the bit vectors of the journal and of the open savepoints, each of which may
  need memory; a failure there is reported after all have been tried.
\<close>

definition bitvec_set :: "('f, 's) pager_env \<Rightarrow> Pgno \<Rightarrow> Pgno set \<Rightarrow> 's \<Rightarrow> cint \<times> Pgno set \<times> 's" where
  "bitvec_set E pgno B s =
     (case mallocs E s of (good, s) \<Rightarrow>
        if good then (SQLITE_OK, insert pgno B, s) else (SQLITE_NOMEM, B, s))"

fun addToSavepointBitvecs ::
  "('f, 's) pager_env \<Rightarrow> Pgno \<Rightarrow> PagerSavepoint list \<Rightarrow> 's \<Rightarrow> cint \<times> PagerSavepoint list \<times> 's" where
  "addToSavepointBitvecs E pgno [] s = (SQLITE_OK, [], s)"
| "addToSavepointBitvecs E pgno (sp # sps) s =
     (case (if pgno \<le> nOrig sp
            then (case bitvec_set E pgno (pInSavepoint sp) s of (rc, B, s) \<Rightarrow> (rc, sp\<lparr>pInSavepoint := B\<rparr>, s))
            else (SQLITE_OK, sp, s))
      of (rc, sp, s) \<Rightarrow>
        case addToSavepointBitvecs E pgno sps s of (rc', sps, s) \<Rightarrow> (rc OR rc', sp # sps, s))"

definition set_page_flags :: "Pgno \<Rightarrow> 16 word \<Rightarrow> 'f Pager \<Rightarrow> 'f Pager" where
  "set_page_flags pgno fl p =
     p\<lparr>pPCache := (case pPCache p pgno of None \<Rightarrow> pPCache p
        | Some pg \<Rightarrow> (pPCache p)(pgno \<mapsto> pg\<lparr>pg_flags := pg_flags pg OR fl\<rparr>))\<rparr>"

text \<open>\<open>pPg\<close> is the cached page \<open>pgno\<close>; the codec is compiled out.\<close>

definition pagerAddPageToRollbackJournal ::
  "('f, 's) pager_env \<Rightarrow> Pgno \<Rightarrow> ('f, 's) pst \<Rightarrow> ('f, 's, unit) pres" where
  "pagerAddPageToRollbackJournal E pgno = (\<lambda>(p, s). do {
     pPg \<leftarrow> pPCache p pgno;
     let iOff = journalOff p;
     let cksum = pager_cksum p (pData pPg);
     let p = set_page_flags pgno PGHDR_NEED_SYNC p;
     if_ok (write32bits E iOff pgno (p, s)) () (\<lambda>_ ps.
       if_ok (on_jfd (\<lambda>f. xWrite E f (pData pPg) (pageSize (fst ps)) (iOff + 4)) ps) () (\<lambda>_ ps.
         if_ok (write32bits E (iOff + pageSize (fst ps) + 4) cksum ps) () (\<lambda>_ (p, s). do {
           let p = p\<lparr>journalOff := journalOff p + (8 + pageSize p), nRec := nRec p + 1\<rparr>;
           B \<leftarrow> pInJournal p;
           let (rc, B, s) = bitvec_set E pgno B s;
           let (rc', sps, s) = addToSavepointBitvecs E pgno (aSavepoint p) s;
           Some (rc OR rc', (), p\<lparr>pInJournal := Some B, aSavepoint := sps\<rparr>, s)
         })))
   })"

section \<open>Making the journal count\<close>

text \<open>
  A stale header behind the journal's end, left by an earlier transaction in a file that is
  kept, is spoilt.
\<close>

definition spoil_next_header :: "('f, 's) pager_env \<Rightarrow> ('f, 's) pst \<Rightarrow> ('f, 's, unit) pres" where
  "spoil_next_header E ps = do {
     let off = journalHdrOffset (fst ps);
     (rc, aMagic, ps) \<leftarrow> on_jfd (\<lambda>f. xRead E f (zeroed 8) 8 off) ps;
     if rc = SQLITE_OK \<and> take 8 aMagic = aJournalMagic
     then on_jfd (\<lambda>f. xWrite E f [0] 1 off) ps
     else Some (rc, (), ps)
   }"

text \<open>
  The part of \<open>syncJournal\<close> between taking the lock and clearing the sync flags: the number of
  records is written into the last header, before and after which the file is synced.
\<close>

definition sync_counted :: "('f, 's) pager_env \<Rightarrow> cint \<Rightarrow> ('f, 's) pst \<Rightarrow> ('f, 's, unit) pres" where
  "sync_counted E iDc ps = do {
     let zHeader = aJournalMagic @ sqlite3Put4byte (nRec (fst ps));
     (rc, _, ps) \<leftarrow> spoil_next_header E ps;
     if rc \<noteq> SQLITE_OK \<and> rc \<noteq> SQLITE_IOERR_SHORT_READ then Some (rc, (), ps)
     else
       if_ok (if fullSync (fst ps) \<and> iDc AND SQLITE_IOCAP_SEQUENTIAL = 0
              then on_jfd (\<lambda>f. xSync E f (syncFlags (fst ps))) ps else Some (SQLITE_OK, (), ps)) ()
         (\<lambda>_ ps. on_jfd (\<lambda>f. xWrite E f zHeader 12 (journalHdr (fst ps))) ps)
   }"

definition sync_journal_file :: "('f, 's) pager_env \<Rightarrow> bool \<Rightarrow> ('f, 's) pst \<Rightarrow> ('f, 's, unit) pres" where
  "sync_journal_file E newHdr ps =
     (if noSync (fst ps) then Some (SQLITE_OK, (), ps)
      else if jfd (fst ps) \<noteq> None \<and> journalMode (fst ps) \<noteq> PAGER_JOURNALMODE_MEMORY then do {
        (iDc, _, ps) \<leftarrow> on_fd (xDeviceCharacteristics E) ps;
        if_ok (if iDc AND SQLITE_IOCAP_SAFE_APPEND = 0 then sync_counted E iDc ps
               else Some (SQLITE_OK, (), ps)) () (\<lambda>_ ps.
          if_ok (if iDc AND SQLITE_IOCAP_SEQUENTIAL = 0
                 then on_jfd (\<lambda>f. xSync E f (syncFlags (fst ps) OR
                        (if syncFlags (fst ps) = SQLITE_SYNC_FULL then SQLITE_SYNC_DATAONLY else 0))) ps
                 else Some (SQLITE_OK, (), ps)) () (\<lambda>_ (p, s).
            let p = p\<lparr>journalHdr := journalOff p\<rparr> in
            if newHdr \<and> iDc AND SQLITE_IOCAP_SAFE_APPEND = 0
            then writeJournalHdr E (p\<lparr>nRec := 0\<rparr>, s) else Some (SQLITE_OK, (), p, s)))
      }
      else Some (SQLITE_OK, (), (fst ps)\<lparr>journalHdr := journalOff (fst ps)\<rparr>, snd ps))"

text \<open>What follows a successful sync: every page may be written to the database.\<close>

definition clear_sync_flags :: "'f Pager \<Rightarrow> 'f Pager" where
  "clear_sync_flags p =
     p\<lparr>pPCache := \<lambda>k. map_option (\<lambda>pg. pg\<lparr>pg_flags := pg_flags pg AND NOT PGHDR_NEED_SYNC\<rparr>) (pPCache p k)\<rparr>"

definition syncJournal :: "('f, 's) pager_env \<Rightarrow> bool \<Rightarrow> ('f, 's) pst \<Rightarrow> ('f, 's, unit) pres" where
  "syncJournal E newHdr ps =
     if_ok (sqlite3PagerExclusiveLock E ps) () (\<lambda>_ ps.
       if_ok (sync_journal_file E newHdr ps) () (\<lambda>_ (p, s).
         Some (SQLITE_OK, (), (clear_sync_flags p)\<lparr>eState := PAGER_WRITER_DBMOD\<rparr>, s)))"

section \<open>The name of a master journal\<close>

text \<open>The sum of the name's bytes, each a signed one.\<close>

definition master_cksum :: "bytes \<Rightarrow> u32" where
  "master_cksum z = fold (\<lambda>b c. c + scast b) z 0"

text \<open>
  The name, a C string or null, goes behind the records with its length, its checksum and the
  magic number, and the file ends there.
\<close>

definition writeMasterJournal ::
  "('f, 's) pager_env \<Rightarrow> bytes option \<Rightarrow> ('f, 's) pst \<Rightarrow> ('f, 's, unit) pres" where
  "writeMasterJournal E zMaster = (\<lambda>(p, s).
     (case zMaster of
        None \<Rightarrow> Some (SQLITE_OK, (), p, s)
      | Some zMaster \<Rightarrow>
          if journalMode p = PAGER_JOURNALMODE_MEMORY \<or> jfd p = None then Some (SQLITE_OK, (), p, s)
          else do {
            nMaster \<leftarrow> c_strlen zMaster;
            let cksum = master_cksum (take nMaster zMaster);
            let n = int nMaster;
            let p = p\<lparr>setMaster := True\<rparr>;
            let p = (if fullSync p then p\<lparr>journalOff := journalHdrOffset p\<rparr> else p);
            let iHdrOff = journalOff p;
            if_ok (write32bits E iHdrOff (PAGER_MJ_PGNO p) (p, s)) () (\<lambda>_ ps.
            if_ok (on_jfd (\<lambda>f. xWrite E f zMaster n (iHdrOff + 4)) ps) () (\<lambda>_ ps.
            if_ok (write32bits E (iHdrOff + 4 + n) (word_of_int n) ps) () (\<lambda>_ ps.
            if_ok (write32bits E (iHdrOff + 4 + n + 4) cksum ps) () (\<lambda>_ ps.
            if_ok (on_jfd (\<lambda>f. xWrite E f aJournalMagic 8 (iHdrOff + 4 + n + 8)) ps) () (\<lambda>_ (p, s).
              let p = p\<lparr>journalOff := journalOff p + (n + 20)\<rparr> in
              if_ok (on_jfd (xFileSize E) (p, s)) () (\<lambda>jrnlSize ps.
                if journalOff (fst ps) < jrnlSize
                then on_jfd (\<lambda>f. xTruncate E f (journalOff (fst ps))) ps
                else Some (SQLITE_OK, (), ps)))))))
          }))"

end
