(* ===== verification/Pager_Playback.thy ===== *)
theory Pager_Playback
  imports Pager_Journal "HOL-Library.Signed_Division"
begin

text \<open>
  Rolling a rollback journal back (\<open>pager_playback\<close> and what it calls): the master journal's
  name, headers with their page and sector sizes, truncation of the database to its original
  size, and the records, one page each.
\<close>

section \<open>The page size\<close>

definition pager_reset :: "'f Pager \<Rightarrow> 'f Pager" where
  "pager_reset p = p\<lparr>iDataVersion := iDataVersion p + 1, pPCache := Map.empty\<rparr>"

text \<open>A new limit for mappings of the database file; the result of the hint is ignored.\<close>

definition pagerFixMaplimit :: "('f, 's) pager_env \<Rightarrow> ('f, 's) pst \<Rightarrow> ('f, 's) pst option" where
  "pagerFixMaplimit E = (\<lambda>(p, s).
     if pfd p \<noteq> None \<and> 3 \<le> iVersion E then do {
       let p = p\<lparr>bUseFetch := 0 < sint (szMmap p)\<rparr>;
       (_, _, ps) \<leftarrow> on_fd (\<lambda>f. xFileControl E f SQLITE_FCNTL_MMAP_SIZE (le_bytes 8 (szMmap p))) (p, s);
       Some ps
     }
     else Some (p, s))"

text \<open>
  Both the temporary page and a new page cache are allocated. The old cache is dropped, for no
  page of it is referenced.
\<close>

definition new_page_size :: "('f, 's) pager_env \<Rightarrow> u32 \<Rightarrow> ('f, 's) pst \<Rightarrow> ('f, 's, unit) pres" where
  "new_page_size E psz = (\<lambda>(p, s).
     if_ok (if PAGER_OPEN < eState p \<and> pfd p \<noteq> None then on_fd (xFileSize E) (p, s)
            else Some (SQLITE_OK, 0, p, s)) () (\<lambda>nByte (p, s).
       case mallocs E s of (good, s) \<Rightarrow>
         if \<not> good then Some (SQLITE_NOMEM, (), p, s)
         else case mallocs E s of (good, s) \<Rightarrow>
           let p = pager_reset p in
           if \<not> good then Some (SQLITE_NOMEM, (), p, s)
           else Some (SQLITE_OK, (),
             p\<lparr>pTmpSpace := map (heapJunk E) [0..<unat psz] @ zeroed 8,
               dbSize := word_of_int ((nByte + uint psz - 1) div uint psz),
               pageSize := uint psz\<rparr>, s)))"

definition sqlite3PagerSetPagesize ::
  "('f, 's) pager_env \<Rightarrow> u32 \<Rightarrow> int \<Rightarrow> ('f, 's) pst \<Rightarrow> ('f, 's, u32) pres" where
  "sqlite3PagerSetPagesize E psz nRes = (\<lambda>(p, s). do {
     (rc, _, p, s) \<leftarrow>
       (if (\<not> memDb p \<or> dbSize p = 0) \<and> nPageRef p = 0 \<and> psz \<noteq> 0 \<and> psz \<noteq> word_of_int (pageSize p)
        then new_page_size E psz (p, s) else Some (SQLITE_OK, (), p, s));
     let size = word_of_int (pageSize p);
     if rc = SQLITE_OK then do {
       ps \<leftarrow> pagerFixMaplimit E (p\<lparr>nReserve := (if nRes < 0 then nReserve p else nRes)\<rparr>, s);
       Some (rc, size, ps)
     }
     else Some (rc, size, p, s)
   })"

section \<open>The name of the master journal\<close>

text \<open>
  \<open>zMaster\<close> is the caller's buffer. A name that is absent, too long, or has the wrong checksum is
  the empty string.
\<close>

definition readMasterJournal ::
  "('f, 's) pager_env \<Rightarrow> bytes \<Rightarrow> u32 \<Rightarrow> ('f, 's) pst \<Rightarrow> ('f, 's, bytes) pres" where
  "readMasterJournal E zMaster nMaster ps = do {
     zMaster \<leftarrow> memcpy zMaster 0 [0];
     if_ok (on_jfd (xFileSize E) ps) zMaster (\<lambda>szJ ps.
       if szJ < 16 then Some (SQLITE_OK, zMaster, ps)
       else if_ok (read32bits E (szJ - 16) 0 ps) zMaster (\<lambda>len ps.
         if nMaster \<le> len \<or> szJ - 16 < uint len \<or> len = 0 then Some (SQLITE_OK, zMaster, ps)
         else if_ok (read32bits E (szJ - 12) 0 ps) zMaster (\<lambda>cksum ps.
           if_ok (on_jfd (\<lambda>f. xRead E f (zeroed 8) 8 (szJ - 8)) ps) zMaster (\<lambda>aMagic ps.
             if take 8 aMagic \<noteq> aJournalMagic then Some (SQLITE_OK, zMaster, ps)
             else do {
               (rc, zMaster, ps) \<leftarrow> on_jfd (\<lambda>f. xRead E f zMaster (uint len) (szJ - 16 - uint len)) ps;
               if rc \<noteq> SQLITE_OK then Some (rc, zMaster, ps)
               else do {
                 let len = (if cksum = master_cksum (take (unat len) zMaster) then len else 0);
                 zMaster \<leftarrow> memcpy zMaster (unat len) [0];
                 Some (SQLITE_OK, zMaster, ps)
               }
             }))))
   }"

section \<open>Headers\<close>

text \<open>The sizes a header may give: powers of two within the limits.\<close>

definition header_sizes_ok :: "u32 \<Rightarrow> u32 \<Rightarrow> bool" where
  "header_sizes_ok iPageSize iSectorSize \<longleftrightarrow>
     \<not> (uint iPageSize < 512 \<or> uint iSectorSize < 32 \<or>
        SQLITE_MAX_PAGE_SIZE < uint iPageSize \<or> MAX_SECTOR_SIZE < uint iSectorSize \<or>
        (iPageSize - 1) AND iPageSize \<noteq> 0 \<or> (iSectorSize - 1) AND iSectorSize \<noteq> 0)"

definition header_read :: "u32 \<Rightarrow> u32 \<Rightarrow> cint \<Rightarrow> ('f, 's) pst \<Rightarrow> ('f, 's, u32 \<times> u32) pres" where
  "header_read nRc dbSz rc = (\<lambda>(p, s).
     Some (rc, (nRc, dbSz), p\<lparr>journalOff := journalOff p + JOURNAL_HDR_SZ p\<rparr>, s))"

text \<open>The first header of the journal sets the page size and the sector size.\<close>

definition header_sizes ::
  "('f, 's) pager_env \<Rightarrow> int \<Rightarrow> u32 \<Rightarrow> u32 \<Rightarrow> ('f, 's) pst \<Rightarrow> ('f, 's, u32 \<times> u32) pres" where
  "header_sizes E iHdrOff nRc dbSz ps =
     if_ok (read32bits E (iHdrOff + 20) 0 ps) (nRc, dbSz) (\<lambda>iSectorSize ps.
     if_ok (read32bits E (iHdrOff + 24) 0 ps) (nRc, dbSz) (\<lambda>iPageSize ps.
       let iPageSize = (if iPageSize = 0 then word_of_int (pageSize (fst ps)) else iPageSize) in
       if \<not> header_sizes_ok iPageSize iSectorSize then Some (SQLITE_DONE, (nRc, dbSz), ps)
       else do {
         (rc, _, p, s) \<leftarrow> sqlite3PagerSetPagesize E iPageSize (- 1) ps;
         header_read nRc dbSz rc (p\<lparr>sectorSz := uint iSectorSize\<rparr>, s)
       }))"

definition check_magic :: "('f, 's) pager_env \<Rightarrow> int \<Rightarrow> ('f, 's) pst \<Rightarrow> ('f, 's, unit) pres" where
  "check_magic E off ps =
     if_ok (on_jfd (\<lambda>f. xRead E f (zeroed 8) 8 off) ps) () (\<lambda>aMagic ps.
       Some (if take 8 aMagic \<noteq> aJournalMagic then SQLITE_DONE else SQLITE_OK, (), ps))"

text \<open>
  The pair is \<open>*pNRec\<close> and \<open>*pDbSize\<close>, which callers look at on success only; what a
  failing call has put there is not followed.
\<close>

definition readJournalHdr ::
  "('f, 's) pager_env \<Rightarrow> bool \<Rightarrow> int \<Rightarrow> ('f, 's) pst \<Rightarrow> ('f, 's, u32 \<times> u32) pres" where
  "readJournalHdr E isHot journalSize = (\<lambda>(p, s).
     let iHdrOff = journalHdrOffset p; p = p\<lparr>journalOff := iHdrOff\<rparr> in
     if journalSize < iHdrOff + JOURNAL_HDR_SZ p then Some (SQLITE_DONE, (0, 0), p, s)
     else
       if_ok (if isHot \<or> iHdrOff \<noteq> journalHdr p then check_magic E iHdrOff (p, s)
              else Some (SQLITE_OK, (), p, s)) (0, 0) (\<lambda>_ ps.
       if_ok (read32bits E (iHdrOff + 8) 0 ps) (0, 0) (\<lambda>nRc ps.
       if_ok (do {
         (rc, ck, p, s) \<leftarrow> read32bits E (iHdrOff + 12) (cksumInit (fst ps)) ps;
         Some (rc, (), p\<lparr>cksumInit := ck\<rparr>, s)
       }) (nRc, 0) (\<lambda>_ ps.
       if_ok (read32bits E (iHdrOff + 16) 0 ps) (nRc, 0) (\<lambda>dbSz ps.
         if journalOff (fst ps) = 0 then header_sizes E iHdrOff nRc dbSz ps
         else header_read nRc dbSz SQLITE_OK ps)))))"

section \<open>Truncation\<close>

definition pager_truncate :: "('f, 's) pager_env \<Rightarrow> Pgno \<Rightarrow> ('f, 's) pst \<Rightarrow> ('f, 's, unit) pres" where
  "pager_truncate E nPage = (\<lambda>(p, s).
     if pfd p \<noteq> None \<and> (PAGER_WRITER_DBMOD \<le> eState p \<or> eState p = PAGER_OPEN) then
       if_ok (on_fd (xFileSize E) (p, s)) () (\<lambda>currentSize (p, s).
         let szPage = pageSize p; newSize = szPage * uint nPage in
         if currentSize = newSize then Some (SQLITE_OK, (), p, s)
         else
           if_ok (if newSize < currentSize then on_fd (\<lambda>f. xTruncate E f newSize) (p, s)
                  else if currentSize + szPage \<le> newSize then do {
                    pTmp \<leftarrow> memcpy (pTmpSpace p) 0 (zeroed (nat szPage));
                    on_fd (\<lambda>f. xWrite E f pTmp szPage (newSize - szPage)) (p\<lparr>pTmpSpace := pTmp\<rparr>, s)
                  }
                  else Some (SQLITE_OK, (), p, s)) () (\<lambda>_ (p, s).
             Some (SQLITE_OK, (), p\<lparr>dbFileSize := nPage\<rparr>, s)))
     else Some (SQLITE_OK, (), p, s))"

section \<open>Records\<close>

text \<open>
  The cached copy of a page, if there is one, gets the content too; the b-tree's callback
  \<open>xReiniter\<close> changes nothing the pager has.
\<close>

definition restore_cached :: "Pgno \<Rightarrow> 'f Pager \<Rightarrow> 'f Pager" where
  "restore_cached pgno p =
     (case pPCache p pgno of None \<Rightarrow> p
      | Some pPg \<Rightarrow>
          let aData = take (nat (pageSize p)) (pTmpSpace p);
              p = p\<lparr>pPCache := (pPCache p)(pgno \<mapsto> pPg\<lparr>pData := aData\<rparr>)\<rparr>
          in if pgno = 1 then p\<lparr>dbFileVers := take 16 (drop 24 aData)\<rparr> else p)"

definition restore_page :: "('f, 's) pager_env \<Rightarrow> Pgno \<Rightarrow> ('f, 's) pst \<Rightarrow> ('f, 's, unit) pres" where
  "restore_page E pgno = (\<lambda>(p, s). do {
     let p = (if pgno = 1 then p\<lparr>nReserve := uint (pTmpSpace p ! 20)\<rparr> else p);
     let isSynced = (noSync p \<or> journalOff p \<le> journalHdr p);
     (rc, _, p, s) \<leftarrow>
       (if pfd p \<noteq> None \<and> (PAGER_WRITER_DBMOD \<le> eState p \<or> eState p = PAGER_OPEN) \<and> isSynced then do {
          (rc, _, p, s) \<leftarrow> on_fd (\<lambda>f. xWrite E f (pTmpSpace p) (pageSize p) ((uint pgno - 1) * pageSize p)) (p, s);
          Some (rc, (), p\<lparr>dbFileSize := max (dbFileSize p) pgno\<rparr>, s)
        }
        else Some (SQLITE_OK, (), p, s));
     Some (rc, (), restore_cached pgno p, s)
   })"

text \<open>
  The record at \<open>journalOff\<close> of the main journal, outside a savepoint rollback
  (\<open>isMainJrnl\<close> 1, \<open>isSavepnt\<close> 0, \<open>pDone\<close> null).
\<close>

definition pager_playback_one_page :: "('f, 's) pager_env \<Rightarrow> ('f, 's) pst \<Rightarrow> ('f, 's, unit) pres" where
  "pager_playback_one_page E = (\<lambda>(p, s).
     let off = journalOff p in
     if_ok (read32bits E off 0 (p, s)) () (\<lambda>pgno (p, s). do {
       (rc, aData, p, s) \<leftarrow> on_jfd (\<lambda>f. xRead E f (pTmpSpace p) (pageSize p) (off + 4)) (p, s);
       let p = p\<lparr>pTmpSpace := aData\<rparr>;
       if rc \<noteq> SQLITE_OK then Some (rc, (), p, s)
       else
         let p = p\<lparr>journalOff := off + (pageSize p + 8)\<rparr> in
         if pgno = 0 \<or> pgno = PAGER_MJ_PGNO p then Some (SQLITE_DONE, (), p, s)
         else if dbSize p < pgno then Some (SQLITE_OK, (), p, s)
         else if_ok (read32bits E (journalOff p - 4) 0 (p, s)) () (\<lambda>cksum (p, s).
           if pager_cksum p (pTmpSpace p) \<noteq> cksum then Some (SQLITE_DONE, (), p, s)
           else restore_page E pgno (p, s))
     }))"

text \<open>
  The loop over the records of one header, \<open>u\<close> of them to go. The boolean of the result
  tells whether to go on with the next header.
\<close>

primrec playback_records ::
  "('f, 's) pager_env \<Rightarrow> int \<Rightarrow> nat \<Rightarrow> bool \<Rightarrow> nat \<Rightarrow> ('f, 's) pst \<Rightarrow>
     (bool \<times> cint \<times> bool \<times> nat \<times> ('f, 's) pst) option" where
  "playback_records E szJ 0 needPagerReset nPlayback ps = Some (True, SQLITE_OK, needPagerReset, nPlayback, ps)"
| "playback_records E szJ (Suc u) needPagerReset nPlayback ps = do {
     let ps = (if needPagerReset then (pager_reset (fst ps), snd ps) else ps);
     (rc, _, p, s) \<leftarrow> pager_playback_one_page E ps;
     if rc = SQLITE_OK then playback_records E szJ u False (nPlayback + 1) (p, s)
     else if rc = SQLITE_DONE then Some (True, rc, False, nPlayback, p\<lparr>journalOff := szJ\<rparr>, s)
     else Some (False, if rc = SQLITE_IOERR_SHORT_READ then SQLITE_OK else rc, False, nPlayback, p, s)
   }"

section \<open>The whole journal\<close>

text \<open>
  How many records follow a header: the number in it, or as many as the file has room for when
  nothing was to be synced, or when the header is this connection's own and not yet counted.
\<close>

definition records_after :: "bool \<Rightarrow> int \<Rightarrow> u32 \<Rightarrow> 'f Pager \<Rightarrow> u32" where
  "records_after isHot szJ nRc p =
     (let nRc = (if nRc = 0xffffffff then word_of_int ((szJ - JOURNAL_HDR_SZ p) sdiv JOURNAL_PG_SZ p) else nRc) in
      if nRc = 0 \<and> \<not> isHot \<and> journalHdr p + JOURNAL_HDR_SZ p = journalOff p
      then word_of_int ((szJ - journalOff p) sdiv JOURNAL_PG_SZ p) else nRc)"

partial_function (option) playback_headers ::
  "('f, 's) pager_env \<Rightarrow> bool \<Rightarrow> int \<Rightarrow> bool \<Rightarrow> nat \<Rightarrow> ('f, 's) pst \<Rightarrow> ('f, 's, nat) pres" where
  "playback_headers E isHot szJ needPagerReset nPlayback ps =
     Option.bind (readJournalHdr E isHot szJ ps) (\<lambda>(rc, (nRc, mxPg), p, s).
       if rc \<noteq> SQLITE_OK then Some (if rc = SQLITE_DONE then SQLITE_OK else rc, nPlayback, p, s)
       else
         Option.bind (if journalOff p = JOURNAL_HDR_SZ p then
             if_ok (pager_truncate E mxPg (p, s)) () (\<lambda>_ (p, s). Some (SQLITE_OK, (), p\<lparr>dbSize := mxPg\<rparr>, s))
           else Some (SQLITE_OK, (), p, s)) (\<lambda>(rc, _, ps').
         if rc \<noteq> SQLITE_OK then Some (rc, nPlayback, ps')
         else
           Option.bind (playback_records E szJ (unat (records_after isHot szJ nRc p)) needPagerReset nPlayback ps')
             (\<lambda>(go, rc, needPagerReset, nPlayback, ps).
               if go then playback_headers E isHot szJ needPagerReset nPlayback ps
               else Some (rc, nPlayback, ps))))"

declare playback_headers.simps [code]

text \<open>
  \<open>pager_playback\<close> up to and including the restoration of the page size behind
  \<open>end_playback\<close>: the code, the number of pages restored, and whether the master journal
  exists.
\<close>

definition playback_journal ::
  "('f, 's) pager_env \<Rightarrow> bool \<Rightarrow> ('f, 's) pst \<Rightarrow> ('f, 's, nat \<times> bool) pres" where
  "playback_journal E isHot ps = do {
     let savedPageSize = word_of_int (pageSize (fst ps));
     (rc, x, ps) \<leftarrow>
       if_ok (on_jfd (xFileSize E) ps) (0, True) (\<lambda>szJ ps. do {
         (rc, zMaster, p, s) \<leftarrow> readMasterJournal E (pTmpSpace (fst ps)) (word_of_int (mxPathname E + 1)) ps;
         let p = p\<lparr>pTmpSpace := zMaster\<rparr>;
         (rc, res, s) \<leftarrow> (if rc = SQLITE_OK \<and> zMaster ! 0 \<noteq> 0 then xAccess E zMaster s else Some (rc, True, s));
         if rc \<noteq> SQLITE_OK \<or> \<not> res then Some (rc, (0, res), p, s)
         else do {
           (rc, n, ps) \<leftarrow> playback_headers E isHot szJ isHot 0 (p\<lparr>journalOff := 0\<rparr>, s);
           Some (rc, (n, res), ps)
         }
       });
     if rc = SQLITE_OK then do {
       (rc, _, ps) \<leftarrow> sqlite3PagerSetPagesize E savedPageSize (- 1) ps;
       Some (rc, x, ps)
     }
     else Some (rc, x, ps)
   }"

definition pagerSyncHotJournal :: "('f, 's) pager_env \<Rightarrow> ('f, 's) pst \<Rightarrow> ('f, 's, unit) pres" where
  "pagerSyncHotJournal E ps =
     if_ok (if \<not> noSync (fst ps) then on_jfd (\<lambda>f. xSync E f SQLITE_SYNC_NORMAL) ps
            else Some (SQLITE_OK, (), ps)) () (\<lambda>_ ps. do {
       (rc, sz, p, s) \<leftarrow> on_jfd (xFileSize E) ps;
       Some (rc, (), if rc = SQLITE_OK then p\<lparr>journalHdr := sz\<rparr> else p, s)
     })"

end
