(* ===== verification/Journal_Files.thy ===== *)
theory Journal_Files
  imports Pager_Playback IO_Spec
begin

text \<open>
  The interface between the pager and the two files it works on, and rules for total
  correctness: \<open>ensures r Q\<close> says that a run returns and its result satisfies \<open>Q\<close>.
\<close>

section \<open>Runs that return\<close>

definition ensures :: "'a option \<Rightarrow> ('a \<Rightarrow> bool) \<Rightarrow> bool" where
  "ensures r Q \<longleftrightarrow> (\<exists>x. r = Some x \<and> Q x)"

lemma ensures_simps [simp]:
  "ensures (Some x) Q \<longleftrightarrow> Q x"
  "\<not> ensures None Q"
  "ensures (Option.bind m f) Q \<longleftrightarrow> ensures m (\<lambda>x. ensures (f x) Q)"
  "ensures (if b then r else r') Q \<longleftrightarrow> (if b then ensures r Q else ensures r' Q)"
  by (auto simp: ensures_def bind_eq_Some_iff)

lemma ensures_if_ok [simp]:
  "ensures (if_ok r b k) Q \<longleftrightarrow>
     ensures r (\<lambda>(rc, x, ps). if rc = SQLITE_OK then ensures (k x ps) Q else Q (rc, b, ps))"
  by (cases r) (auto simp: if_ok_def)

lemma ensures_weaken: "ensures r P \<Longrightarrow> (\<And>x. P x \<Longrightarrow> Q x) \<Longrightarrow> ensures r Q"
  by (auto simp: ensures_def)

lemma ensuresE: "ensures r Q \<Longrightarrow> (\<And>x. r = Some x \<Longrightarrow> Q x \<Longrightarrow> thesis) \<Longrightarrow> thesis"
  by (auto simp: ensures_def)

section \<open>Two files\<close>

datatype pager_file = Db | Jrn

text \<open>The pager's handles stand for a database with the bytes \<open>D\<close> and a journal with \<open>J\<close>.\<close>

definition files_hold ::
  "((pager_file \<Rightarrow> 'f) \<Rightarrow> 's \<Rightarrow> (pager_file \<Rightarrow> bytes) \<Rightarrow> bool) \<Rightarrow> 'f Pager \<Rightarrow> 's \<Rightarrow> bytes \<Rightarrow> bytes \<Rightarrow> bool" where
  "files_hold rep p s D J \<longleftrightarrow>
     (\<exists>F. pfd p = Some (F Db) \<and> jfd p = Some (F Jrn) \<and> rep F s (case_pager_file D J))"

text \<open>
  \<open>rep F s C\<close>: with the handles \<open>F\<close>, in the world \<open>s\<close>, the files have the contents
  \<open>C\<close>. Calls on one file succeed, return the new handle and leave the other file alone; a
  read or write moves at most \<open>mx\<close> bytes. A file of one byte is reported as empty by
  \<open>unixFileSize\<close> and left out here.
\<close>

locale two_files =
  fixes E :: "('f, 's) pager_env" and rep :: "(pager_file \<Rightarrow> 'f) \<Rightarrow> 's \<Rightarrow> (pager_file \<Rightarrow> bytes) \<Rightarrow> bool"
    and mx :: int
  assumes reads: "rep F s C \<Longrightarrow> 0 < n \<Longrightarrow> n \<le> mx \<Longrightarrow> 0 \<le> off \<Longrightarrow> off + n < 2 ^ 62 \<Longrightarrow> nat n \<le> length buf \<Longrightarrow>
      \<exists>buf' f s'. xRead E (F k) buf n off s =
          Some (if off + n \<le> int (length (C k)) then SQLITE_OK else SQLITE_IOERR_SHORT_READ, buf', f, s') \<and>
        rep (F(k := f)) s' C \<and> length buf' = length buf \<and>
        (off + n \<le> int (length (C k)) \<longrightarrow> take (nat n) buf' = available (C k) off n)"
    and writes: "rep F s C \<Longrightarrow> 0 < n \<Longrightarrow> n \<le> mx \<Longrightarrow> 0 \<le> off \<Longrightarrow> off + n < 2 ^ 62 \<Longrightarrow> nat n \<le> length b \<Longrightarrow>
      \<exists>f s'. xWrite E (F k) b n off s = Some (SQLITE_OK, (), f, s') \<and>
        rep (F(k := f)) s' (C(k := write_at (C k) (nat off) (take (nat n) b)))"
    and truncates: "rep F s C \<Longrightarrow> 0 \<le> n \<Longrightarrow> n < int (length (C k)) \<Longrightarrow> n < 2 ^ 62 \<Longrightarrow>
      \<exists>f s'. xTruncate E (F k) n s = Some (SQLITE_OK, (), f, s') \<and> rep (F(k := f)) s' (C(k := take (nat n) (C k)))"
    and syncs: "rep F s C \<Longrightarrow> \<exists>f s'. xSync E (F k) fl s = Some (SQLITE_OK, (), f, s') \<and> rep (F(k := f)) s' C"
    and sizes: "rep F s C \<Longrightarrow> length (C k) \<noteq> 1 \<Longrightarrow> length (C k) < 2 ^ 62 \<Longrightarrow>
      \<exists>f s'. xFileSize E (F k) s = Some (SQLITE_OK, int (length (C k)), f, s') \<and> rep (F(k := f)) s' C"
    and devices: "rep F s C \<Longrightarrow>
      \<exists>dc f s'. xDeviceCharacteristics E (F k) s = Some (dc, (), f, s') \<and> rep (F(k := f)) s' C \<and>
        dc AND SQLITE_IOCAP_SAFE_APPEND = 0"
    and hints: "rep F s C \<Longrightarrow>
      \<exists>rc v f s'. xFileControl E (F k) SQLITE_FCNTL_MMAP_SIZE (le_bytes 8 (0 :: i64)) s = Some (rc, v, f, s') \<and>
        rep (F(k := f)) s' C"
    and random: "rep F s C \<Longrightarrow> rep F (snd (randomness4 E s)) C"
    and allocs: "rep F s C \<Longrightarrow> \<exists>s'. mallocs E s = (True, s') \<and> rep F s' C"
    and mx_small: "mx < 2 ^ 20"
begin

abbreviation holds :: "'f Pager \<Rightarrow> 's \<Rightarrow> bytes \<Rightarrow> bytes \<Rightarrow> bool" where
  "holds \<equiv> files_hold rep"

lemmas holds_def = files_hold_def

lemma case_file_update [simp]:
  "(case_pager_file D J)(Db := X) = case_pager_file X J"
  "(case_pager_file D J)(Jrn := X) = case_pager_file D X"
  by (auto split: pager_file.splits)

lemma holds_fields [simp]:
  "holds (p\<lparr>journalOff := i\<rparr>) s D J = holds p s D J" "holds (p\<lparr>journalHdr := i\<rparr>) s D J = holds p s D J"
  "holds (p\<lparr>cksumInit := w\<rparr>) s D J = holds p s D J" "holds (p\<lparr>pTmpSpace := b\<rparr>) s D J = holds p s D J"
  "holds (p\<lparr>dbSize := w\<rparr>) s D J = holds p s D J" "holds (p\<lparr>dbFileSize := w\<rparr>) s D J = holds p s D J"
  "holds (p\<lparr>nReserve := i\<rparr>) s D J = holds p s D J" "holds (p\<lparr>pageSize := i\<rparr>) s D J = holds p s D J"
  "holds (p\<lparr>sectorSz := i\<rparr>) s D J = holds p s D J" "holds (p\<lparr>pPCache := c\<rparr>) s D J = holds p s D J"
  "holds (p\<lparr>dbFileVers := b\<rparr>) s D J = holds p s D J" "holds (p\<lparr>iDataVersion := w\<rparr>) s D J = holds p s D J"
  "holds (p\<lparr>bUseFetch := t\<rparr>) s D J = holds p s D J" "holds (p\<lparr>nRec := w\<rparr>) s D J = holds p s D J"
  "holds (p\<lparr>aSavepoint := a\<rparr>) s D J = holds p s D J" "holds (p\<lparr>pInJournal := B\<rparr>) s D J = holds p s D J"
  "holds (p\<lparr>eState := i\<rparr>) s D J = holds p s D J"
  by (simp_all add: holds_def)

lemma holds_open: "holds p s D J \<Longrightarrow> pfd p \<noteq> None \<and> jfd p \<noteq> None"
  by (auto simp: holds_def)

section \<open>The methods on the files of the pager\<close>

lemma jfd_step:
  assumes "holds p s D J"
    and step: "\<And>F. rep F s (case_pager_file D J) \<Longrightarrow> \<exists>rc x f s'. m (F Jrn) s = Some (rc, x, f, s') \<and>
      rep (F(Jrn := f)) s' (case_pager_file D J') \<and> P rc x"
    and Q: "\<And>rc x j s'. holds (p\<lparr>jfd := Some j\<rparr>) s' D J' \<Longrightarrow> P rc x \<Longrightarrow> Q (rc, x, p\<lparr>jfd := Some j\<rparr>, s')"
  shows "ensures (on_jfd m (p, s)) Q"
proof -
  obtain F where F: "pfd p = Some (F Db)" "jfd p = Some (F Jrn)" "rep F s (case_pager_file D J)"
    using assms(1) by (auto simp: holds_def)
  obtain rc x f s' where m: "m (F Jrn) s = Some (rc, x, f, s')" "rep (F(Jrn := f)) s' (case_pager_file D J')" "P rc x"
    using step [OF F(3)] by blast
  have "holds (p\<lparr>jfd := Some f\<rparr>) s' D J'"
    unfolding holds_def by (rule exI [of _ "F(Jrn := f)"]) (use F m in simp)
  from Q [OF this m(3)] show ?thesis using F m by (simp add: on_jfd_def)
qed

lemma fd_step:
  assumes "holds p s D J"
    and step: "\<And>F. rep F s (case_pager_file D J) \<Longrightarrow> \<exists>rc x f s'. m (F Db) s = Some (rc, x, f, s') \<and>
      rep (F(Db := f)) s' (case_pager_file D' J) \<and> P rc x"
    and Q: "\<And>rc x d s'. holds (p\<lparr>pfd := Some d\<rparr>) s' D' J \<Longrightarrow> P rc x \<Longrightarrow> Q (rc, x, p\<lparr>pfd := Some d\<rparr>, s')"
  shows "ensures (on_fd m (p, s)) Q"
proof -
  obtain F where F: "pfd p = Some (F Db)" "jfd p = Some (F Jrn)" "rep F s (case_pager_file D J)"
    using assms(1) by (auto simp: holds_def)
  obtain rc x f s' where m: "m (F Db) s = Some (rc, x, f, s')" "rep (F(Db := f)) s' (case_pager_file D' J)" "P rc x"
    using step [OF F(3)] by blast
  have "holds (p\<lparr>pfd := Some f\<rparr>) s' D' J"
    unfolding holds_def by (rule exI [of _ "F(Db := f)"]) (use F m in simp)
  from Q [OF this m(3)] show ?thesis using F m by (simp add: on_fd_def)
qed

lemma read_journal:
  assumes h: "holds p s D J" and b: "0 < n" "n \<le> mx" "0 \<le> off" "off + n < 2 ^ 62" "nat n \<le> length buf"
    and Q: "\<And>buf' j s'. holds (p\<lparr>jfd := Some j\<rparr>) s' D J \<Longrightarrow> length buf' = length buf \<Longrightarrow>
      (off + n \<le> int (length J) \<Longrightarrow> take (nat n) buf' = available J off n) \<Longrightarrow>
      Q (if off + n \<le> int (length J) then SQLITE_OK else SQLITE_IOERR_SHORT_READ, buf', p\<lparr>jfd := Some j\<rparr>, s')"
  shows "ensures (on_jfd (\<lambda>f. xRead E f buf n off) (p, s)) Q"
proof (rule jfd_step [where D = D and J = J and J' = J and P = "\<lambda>rc buf'. length buf' = length buf \<and>
    rc = (if off + n \<le> int (length J) then SQLITE_OK else SQLITE_IOERR_SHORT_READ) \<and>
    (off + n \<le> int (length J) \<longrightarrow> take (nat n) buf' = available J off n)", OF h])
  fix F assume "rep F s (case_pager_file D J)"
  from reads [OF this b, of Jrn] show "\<exists>rc x f s'. xRead E (F Jrn) buf n off s = Some (rc, x, f, s') \<and>
      rep (F(Jrn := f)) s' (case_pager_file D J) \<and> length x = length buf \<and>
      rc = (if off + n \<le> int (length J) then SQLITE_OK else SQLITE_IOERR_SHORT_READ) \<and>
      (off + n \<le> int (length J) \<longrightarrow> take (nat n) x = available J off n)" by fastforce
next
  fix rc x j s'
  assume "holds (p\<lparr>jfd := Some j\<rparr>) s' D J" and "length x = length buf \<and>
    rc = (if off + n \<le> int (length J) then SQLITE_OK else SQLITE_IOERR_SHORT_READ) \<and>
    (off + n \<le> int (length J) \<longrightarrow> take (nat n) x = available J off n)"
  then show "Q (rc, x, p\<lparr>jfd := Some j\<rparr>, s')" using Q [of j s' x] by simp
qed

lemma write_journal:
  assumes h: "holds p s D J" and b: "0 < n" "n \<le> mx" "0 \<le> off" "off + n < 2 ^ 62" "nat n \<le> length buf"
    and Q: "\<And>j s'. holds (p\<lparr>jfd := Some j\<rparr>) s' D (write_at J (nat off) (take (nat n) buf)) \<Longrightarrow>
      Q (SQLITE_OK, (), p\<lparr>jfd := Some j\<rparr>, s')"
  shows "ensures (on_jfd (\<lambda>f. xWrite E f buf n off) (p, s)) Q"
  by (rule jfd_step [where P = "\<lambda>rc x. rc = SQLITE_OK", OF h]) (use writes [OF _ b, of _ _ _ Jrn] Q in fastforce)+

lemma write_database:
  assumes h: "holds p s D J" and b: "0 < n" "n \<le> mx" "0 \<le> off" "off + n < 2 ^ 62" "nat n \<le> length buf"
    and Q: "\<And>d s'. holds (p\<lparr>pfd := Some d\<rparr>) s' (write_at D (nat off) (take (nat n) buf)) J \<Longrightarrow>
      Q (SQLITE_OK, (), p\<lparr>pfd := Some d\<rparr>, s')"
  shows "ensures (on_fd (\<lambda>f. xWrite E f buf n off) (p, s)) Q"
  by (rule fd_step [where P = "\<lambda>rc x. rc = SQLITE_OK", OF h]) (use writes [OF _ b, of _ _ _ Db] Q in fastforce)+

lemma truncate_database:
  assumes h: "holds p s D J" and b: "0 \<le> n" "n < int (length D)" "n < 2 ^ 62"
    and Q: "\<And>d s'. holds (p\<lparr>pfd := Some d\<rparr>) s' (take (nat n) D) J \<Longrightarrow> Q (SQLITE_OK, (), p\<lparr>pfd := Some d\<rparr>, s')"
  shows "ensures (on_fd (\<lambda>f. xTruncate E f n) (p, s)) Q"
  by (rule fd_step [where P = "\<lambda>rc x. rc = SQLITE_OK", OF h])
    (use truncates [where k = Db and C = "case_pager_file D J"] b Q in fastforce)+

lemma sync_journal:
  assumes h: "holds p s D J" and Q: "\<And>j s'. holds (p\<lparr>jfd := Some j\<rparr>) s' D J \<Longrightarrow> Q (SQLITE_OK, (), p\<lparr>jfd := Some j\<rparr>, s')"
  shows "ensures (on_jfd (\<lambda>f. xSync E f fl) (p, s)) Q"
  by (rule jfd_step [where P = "\<lambda>rc x. rc = SQLITE_OK", OF h]) (use syncs [where k = Jrn] Q in fastforce)+

lemma size_of_journal:
  assumes h: "holds p s D J" and b: "length J \<noteq> 1" "length J < 2 ^ 62"
    and Q: "\<And>j s'. holds (p\<lparr>jfd := Some j\<rparr>) s' D J \<Longrightarrow> Q (SQLITE_OK, int (length J), p\<lparr>jfd := Some j\<rparr>, s')"
  shows "ensures (on_jfd (xFileSize E) (p, s)) Q"
  by (rule jfd_step [where P = "\<lambda>rc x. rc = SQLITE_OK \<and> x = int (length J)", OF h])
    (use sizes [where k = Jrn and C = "case_pager_file D J"] b Q in fastforce)+

lemma size_of_database:
  assumes h: "holds p s D J" and b: "length D \<noteq> 1" "length D < 2 ^ 62"
    and Q: "\<And>d s'. holds (p\<lparr>pfd := Some d\<rparr>) s' D J \<Longrightarrow> Q (SQLITE_OK, int (length D), p\<lparr>pfd := Some d\<rparr>, s')"
  shows "ensures (on_fd (xFileSize E) (p, s)) Q"
  by (rule fd_step [where P = "\<lambda>rc x. rc = SQLITE_OK \<and> x = int (length D)", OF h])
    (use sizes [where k = Db and C = "case_pager_file D J"] b Q in fastforce)+

lemma device_of_database:
  assumes h: "holds p s D J" and Q: "\<And>dc d s'. holds (p\<lparr>pfd := Some d\<rparr>) s' D J \<Longrightarrow>
      dc AND SQLITE_IOCAP_SAFE_APPEND = 0 \<Longrightarrow> Q (dc, (), p\<lparr>pfd := Some d\<rparr>, s')"
  shows "ensures (on_fd (xDeviceCharacteristics E) (p, s)) Q"
  by (rule fd_step [where P = "\<lambda>rc x. rc AND SQLITE_IOCAP_SAFE_APPEND = 0", OF h]) (use devices [where k = Db] Q in fastforce)+

lemma hint_to_database:
  assumes h: "holds p s D J" and Q: "\<And>rc v d s'. holds (p\<lparr>pfd := Some d\<rparr>) s' D J \<Longrightarrow> Q (rc, v, p\<lparr>pfd := Some d\<rparr>, s')"
  shows "ensures (on_fd (\<lambda>f. xFileControl E f SQLITE_FCNTL_MMAP_SIZE (le_bytes 8 (0 :: i64))) (p, s)) Q"
  by (rule fd_step [where P = "\<lambda>rc x. True", OF h]) (use hints [where k = Db] Q in fastforce)+

lemma holds_random: "holds p s D J \<Longrightarrow> holds p (snd (randomness4 E s)) D J"
  by (auto simp: holds_def intro: random)

lemma holds_allocs:
  assumes "holds p s D J" obtains s' where "mallocs E s = (True, s')" "holds p s' D J"
proof -
  obtain F where F: "pfd p = Some (F Db)" "jfd p = Some (F Jrn)" "rep F s (case_pager_file D J)"
    using assms by (auto simp: holds_def)
  with allocs [OF F(3)] that show ?thesis unfolding holds_def by blast
qed

lemma read_journal_int:
  assumes h: "holds p s D J" and b: "0 \<le> off" "off + 4 \<le> int (length J)" "length J < 2 ^ 61" "4 \<le> mx"
    and Q: "\<And>j s'. holds (p\<lparr>jfd := Some j\<rparr>) s' D J \<Longrightarrow>
      Q (SQLITE_OK, sqlite3Get4byte (available J off 4), p\<lparr>jfd := Some j\<rparr>, s')"
  shows "ensures (read32bits E off old (p, s)) Q"
  unfolding read32bits_def ensures_simps
proof (rule read_journal [OF h], goal_cases)
  case (6 buf' j s')
  then have "buf' = available J off 4" using b(2) by simp
  then show ?case using Q [OF 6(1)] b(2) by simp
qed (use b in auto)

lemma write_journal_int:
  assumes h: "holds p s D J" and b: "0 \<le> off" "off + 4 < 2 ^ 62" "4 \<le> mx"
    and Q: "\<And>j s'. holds (p\<lparr>jfd := Some j\<rparr>) s' D (write_at J (nat off) (sqlite3Put4byte v)) \<Longrightarrow>
      Q (SQLITE_OK, (), p\<lparr>jfd := Some j\<rparr>, s')"
  shows "ensures (write32bits E off v (p, s)) Q"
  unfolding write32bits_def
  by (rule write_journal [OF h]) (use b Q in auto)

end

end
