(* ===== verification/Journal_Format.thy ===== *)
theory Journal_Format
  imports Journal_Files
begin

text \<open>
  The format of the rollback journal, as the comment above \<open>pager_playback\<close> describes it, and
  what its records do to a database: the specification the code is compared with.
\<close>

section \<open>Slices of a file\<close>

lemma available_available:
  assumes "0 \<le> a" "0 \<le> b" "b + m \<le> n"
  shows "available (available J a n) b m = available J (a + b) m"
proof (cases "0 \<le> m")
  case True
  then have "nat b + nat m \<le> nat n" using assms by simp
  then show ?thesis
    using assms by (simp add: available_def take_drop add.commute nat_add_distrib min_def)
next
  case False
  then show ?thesis by (simp add: available_def)
qed

lemma length_available: "0 \<le> off \<Longrightarrow> 0 \<le> n \<Longrightarrow> off + n \<le> int (length J) \<Longrightarrow> length (available J off n) = nat n"
  by (simp add: available_def)

lemma available_split:
  assumes "0 \<le> off" "0 \<le> m" "0 \<le> n"
  shows "available J off (m + n) = available J off m @ available J (off + m) n"
  using assms by (simp add: available_def nat_add_distrib take_add add.commute)

lemma available_append_left [simp]: "n = int (length xs) \<Longrightarrow> available (xs @ ys) 0 n = xs"
  by (simp add: available_def)

section \<open>Headers and records\<close>

definition header_bytes :: "u32 \<Rightarrow> u32 \<Rightarrow> Pgno \<Rightarrow> int \<Rightarrow> int \<Rightarrow> bytes" where
  "header_bytes n ck dbs ss sz =
     aJournalMagic @ sqlite3Put4byte n @ sqlite3Put4byte ck @ sqlite3Put4byte dbs @
     sqlite3Put4byte (word_of_int ss) @ sqlite3Put4byte (word_of_int sz)"

definition record_bytes :: "int \<Rightarrow> u32 \<Rightarrow> Pgno \<times> bytes \<Rightarrow> bytes" where
  "record_bytes sz ck r =
     sqlite3Put4byte (fst r) @ snd r @ sqlite3Put4byte (cksum_loop (snd r) (sz - 200) ck)"

lemma length_magic [simp]: "length aJournalMagic = 8"
  by (simp add: aJournalMagic_def)

lemma length_header_bytes [simp]: "length (header_bytes n ck dbs ss sz) = 28"
  by (simp add: header_bytes_def)

lemma length_record_bytes: "length (snd r) = nat sz \<Longrightarrow> 0 \<le> sz \<Longrightarrow> int (length (record_bytes sz ck r)) = sz + 8"
  by (simp add: record_bytes_def)

lemma header_fields:
  "available (header_bytes n ck dbs ss sz) 0 8 = aJournalMagic"
  "available (header_bytes n ck dbs ss sz) 8 4 = sqlite3Put4byte n"
  "available (header_bytes n ck dbs ss sz) 12 4 = sqlite3Put4byte ck"
  "available (header_bytes n ck dbs ss sz) 16 4 = sqlite3Put4byte dbs"
  "available (header_bytes n ck dbs ss sz) 20 4 = sqlite3Put4byte (word_of_int ss)"
  "available (header_bytes n ck dbs ss sz) 24 4 = sqlite3Put4byte (word_of_int sz)"
  by (simp_all add: available_def header_bytes_def)

lemma record_fields:
  assumes "length (snd r) = nat sz" and "0 \<le> sz"
  shows "available (record_bytes sz ck r) 0 4 = sqlite3Put4byte (fst r)"
    and "available (record_bytes sz ck r) 4 sz = snd r"
    and "available (record_bytes sz ck r) (4 + sz) 4 = sqlite3Put4byte (cksum_loop (snd r) (sz - 200) ck)"
  using assms by (simp_all add: available_def record_bytes_def nat_add_distrib)

text \<open>The checksum reads the page only.\<close>

lemma cksum_loop_take: "i < int n \<Longrightarrow> cksum_loop (take n a) i ck = cksum_loop a i ck"
proof (induction "nat i" arbitrary: i ck rule: less_induct)
  case less
  show ?case
  proof (cases "0 < i")
    case True
    then have "nat (i - 200) < nat i" "nat i < n" using less.prems by auto
    moreover have "i - 200 < int n" using less.prems by simp
    ultimately show ?thesis
      using less.hyps True by (subst (1 2) cksum_loop.simps) simp
  next
    case False
    then show ?thesis by (subst (1 2) cksum_loop.simps) simp
  qed
qed

section \<open>A whole journal\<close>

definition next_sector :: "int \<Rightarrow> int \<Rightarrow> int" where
  "next_sector ss off = (if off \<noteq> 0 then ((off - 1) div ss + 1) * ss else 0)"

lemma next_sector_ge: "0 < ss \<Longrightarrow> 0 \<le> off \<Longrightarrow> off \<le> next_sector ss off"
proof -
  assume ss: "0 < ss" and off: "0 \<le> off"
  have e: "(off - 1) div ss * ss + (off - 1) mod ss = off - 1" by simp
  have "(off - 1) mod ss < ss" using ss by simp
  moreover have "((off - 1) div ss + 1) * ss = (off - 1) div ss * ss + ss" by (simp add: distrib_right)
  ultimately have "off \<le> ((off - 1) div ss + 1) * ss" using e by linarith
  then show ?thesis by (simp add: next_sector_def)
qed

lemma next_sector_eq: "journalHdrOffset p = next_sector (sectorSz p) (journalOff p)"
  by (simp add: journalHdrOffset_def next_sector_def JOURNAL_HDR_SZ_def Let_def)

text \<open>
  From offset \<open>off\<close> the journal has the given segments, each a header at a sector boundary, with a
  checksum seed, and its records; behind the last one there is no header.
\<close>

fun journal_at :: "int \<Rightarrow> int \<Rightarrow> Pgno \<Rightarrow> bytes \<Rightarrow> int \<Rightarrow> (u32 \<times> (Pgno \<times> bytes) list) list \<Rightarrow> bool" where
  "journal_at sz ss dbs J off [] \<longleftrightarrow>
     int (length J) < next_sector ss off + ss \<or> available J (next_sector ss off) 8 \<noteq> aJournalMagic"
| "journal_at sz ss dbs J off ((ck, rs) # segs) \<longleftrightarrow>
     (let h = next_sector ss off; n = int (length rs) * (sz + 8) in
      h + ss + n \<le> int (length J) \<and> length rs < 2 ^ 32 - 1 \<and>
      available J h 28 = header_bytes (word_of_nat (length rs)) ck dbs ss sz \<and>
      available J (h + ss) n = concat (map (record_bytes sz ck) rs) \<and>
      journal_at sz ss dbs J (h + ss + n) segs)"

definition journal_sizes :: "int \<Rightarrow> int \<Rightarrow> bool" where
  "journal_sizes sz ss \<longleftrightarrow> 0 \<le> sz \<and> sz \<le> SQLITE_MAX_PAGE_SIZE \<and> 0 \<le> ss \<and> ss \<le> MAX_SECTOR_SIZE \<and>
     header_sizes_ok (word_of_int sz) (word_of_int ss)"

lemma journal_sizesD:
  assumes "journal_sizes sz ss"
  shows "512 \<le> sz" "sz \<le> 65536" "32 \<le> ss" "ss \<le> 65536"
    "uint (word_of_int sz :: u32) = sz" "uint (word_of_int ss :: u32) = ss"
proof -
  have *: "uint (word_of_int x :: u32) = x" if "0 \<le> x" "x \<le> 65536" for x
    using that by (simp add: uint_word_of_int)
  show "512 \<le> sz" "sz \<le> 65536" "32 \<le> ss" "ss \<le> 65536"
    "uint (word_of_int sz :: u32) = sz" "uint (word_of_int ss :: u32) = ss"
    using assms * by (auto simp: journal_sizes_def header_sizes_ok_def SQLITE_MAX_PAGE_SIZE_def MAX_SECTOR_SIZE_def)
qed

definition record_ok :: "int \<Rightarrow> Pgno \<times> bytes \<Rightarrow> bool" where
  "record_ok sz r \<longleftrightarrow> length (snd r) = nat sz \<and> fst r \<noteq> 0 \<and> fst r \<noteq> word_of_int (PENDING_BYTE div sz + 1)"

section \<open>What the records do to a database\<close>

definition put_page :: "int \<Rightarrow> Pgno \<Rightarrow> Pgno \<times> bytes \<Rightarrow> bytes \<Rightarrow> bytes" where
  "put_page sz dbs r D =
     (if fst r \<le> dbs then write_at D (nat ((uint (fst r) - 1) * sz)) (snd r) else D)"

definition cut_database :: "int \<Rightarrow> Pgno \<Rightarrow> bytes \<Rightarrow> bytes" where
  "cut_database sz dbs D =
     (let m = sz * uint dbs in
      if m < int (length D) then take (nat m) D
      else if int (length D) + sz \<le> m then write_at D (nat (m - sz)) (zeroed (nat sz))
      else D)"

text \<open>Page \<open>k\<close> of a database, counted from 1.\<close>

definition page_of :: "int \<Rightarrow> bytes \<Rightarrow> int \<Rightarrow> bytes" where
  "page_of sz D k = available D ((k - 1) * sz) sz"

definition page_same :: "int \<Rightarrow> bytes \<Rightarrow> bytes \<Rightarrow> int \<Rightarrow> bool" where
  "page_same sz Orig D k \<longleftrightarrow> k * sz \<le> int (length D) \<and> page_of sz D k = page_of sz Orig k"

lemma length_write_at: "b \<noteq> [] \<Longrightarrow> length (write_at c off b) = max (length c) (off + length b)"
  by (simp add: write_at_def)

lemma available_write_other:
  assumes "0 \<le> a" "0 \<le> n" "a + n \<le> int (length D)" "a + n \<le> int off \<or> int (off + length b) \<le> a"
  shows "available (write_at D off b) a n = available D a n"
proof (rule nth_equalityI)
  show "length (available (write_at D off b) a n) = length (available D a n)"
    using assms by (simp add: available_def write_at_def)
  fix i assume "i < length (available (write_at D off b) a n)"
  then have i: "i < nat n" by (simp add: available_def)
  have "write_at D off b ! (nat a + i) = D ! (nat a + i)" if "b \<noteq> []"
    using assms i that by (auto simp: write_at_def nth_append min_def)
  then show "available (write_at D off b) a n ! i = available D a n ! i"
    using assms i by (cases "b = []") (simp_all add: available_def length_write_at)
qed

lemma page_eq:
  assumes "\<forall>k. 1 \<le> k \<and> k \<le> n \<longrightarrow> page_same sz Orig D k" and "int (length Orig) = n * sz" "int (length D) = n * sz"
    and "0 < sz"
  shows "D = Orig"
proof (rule nth_equalityI)
  show "length D = length Orig" using assms by simp
  fix i assume i: "i < length D"
  define k where "k = int i div sz + 1"
  define r where "r = nat (int i mod sz)"
  have split: "int i = (k - 1) * sz + int (i mod nat sz)"
    using assms(4) by (simp add: k_def zmod_int)
  have r: "int (i mod nat sz) < sz" using assms(4) by (simp add: zmod_int)
  have k: "1 \<le> k" "k \<le> n"
  proof -
    show "1 \<le> k" using assms(4) by (simp add: k_def pos_imp_zdiv_nonneg_iff)
    show "k \<le> n"
    proof (rule ccontr)
      assume "\<not> k \<le> n"
      then have "n * sz \<le> (k - 1) * sz" using assms(4) by (intro mult_right_mono) simp_all
      then show False using split i assms(3) by linarith
    qed
  qed
  have "k * sz \<le> n * sz" using k(2) assms(4) by (intro mult_right_mono) simp_all
  then have b: "(k - 1) * sz + sz \<le> n * sz" by (simp add: left_diff_distrib)
  have k0: "0 \<le> (k - 1) * sz" using k(1) assms(4) by simp
  have i_eq: "i = nat ((k - 1) * sz) + i mod nat sz" using split k0 by linarith
  have nth: "X ! i = page_of sz X k ! (i mod nat sz)" if "int (length X) = n * sz" for X :: bytes
  proof -
    have "nat ((k - 1) * sz) \<le> length X" "i mod nat sz < nat sz" using b k0 that assms(4) r by linarith+
    then have "page_of sz X k ! (i mod nat sz) = X ! (nat ((k - 1) * sz) + i mod nat sz)"
      by (simp add: page_of_def available_def)
    then show ?thesis using i_eq by simp
  qed
  have "page_of sz D k = page_of sz Orig k" using assms(1) k by (simp add: page_same_def)
  then show "D ! i = Orig ! i" using nth [OF assms(3)] nth [OF assms(2)] by simp
qed

end
