(* ===== verification/Journal_Restore.thy ===== *)
theory Journal_Restore
  imports Journal_Format
begin

text \<open>
  Playing a journal back restores the database: what the records do to the bytes, and that the
  code does just that.
\<close>

section \<open>Databases\<close>

lemma word_le_uint: "(a :: 'a::len word) \<le> b \<longleftrightarrow> uint a \<le> uint b"
  by (simp add: word_le_def)

lemma uint_pos: "(w :: 'a::len word) \<noteq> 0 \<Longrightarrow> 1 \<le> uint w"
  using uint_0_iff [of w] uint_ge_0 [of w] by linarith

lemma put_page_length:
  assumes "0 < sz" "record_ok sz r" "int (length D) \<le> uint dbs * sz"
  shows "int (length (put_page sz dbs r D)) \<le> uint dbs * sz"
proof (cases "fst r \<le> dbs")
  case True
  have k: "1 \<le> uint (fst r)" "uint (fst r) \<le> uint dbs"
    using assms(2) True by (simp_all add: record_ok_def uint_pos word_le_def)
  then have "uint (fst r) * sz \<le> uint dbs * sz" using assms(1) by (intro mult_right_mono) simp_all
  then have "(uint (fst r) - 1) * sz + sz \<le> uint dbs * sz" by (simp add: left_diff_distrib)
  moreover have "0 \<le> (uint (fst r) - 1) * sz" using k assms(1) by simp
  moreover have data: "snd r \<noteq> []" "int (length (snd r)) = sz" using assms(1,2) by (auto simp: record_ok_def)
  ultimately have "int (nat ((uint (fst r) - 1) * sz) + length (snd r)) \<le> uint dbs * sz" by simp
  moreover have "put_page sz dbs r D = write_at D (nat ((uint (fst r) - 1) * sz)) (snd r)"
    using True by (simp add: put_page_def)
  moreover have "int (length (write_at D i (snd r))) = max (int (length D)) (int (i + length (snd r)))" for i
    by (simp only: length_write_at [OF data(1)] of_nat_max)
  ultimately show ?thesis using assms(3) by simp
qed (use assms in \<open>simp add: put_page_def\<close>)

lemma put_page_same:
  assumes sz: "0 < sz" and r: "record_ok sz r" "fst r \<le> dbs \<Longrightarrow> snd r = page_of sz Orig (uint (fst r))"
    and k: "1 \<le> k" "k \<le> uint dbs" "page_same sz Orig D k \<or> k = uint (fst r)"
  shows "page_same sz Orig (put_page sz dbs r D) k"
proof -
  let ?off = "(uint (fst r) - 1) * sz"
  have data: "int (length (snd r)) = sz" "snd r \<noteq> []" using r(1) sz by (auto simp: record_ok_def)
  have u: "1 \<le> uint (fst r)" using r(1) by (simp add: record_ok_def uint_pos)
  then have off: "0 \<le> ?off" using sz by simp
  show ?thesis
  proof (cases "k = uint (fst r)")
    case True
    then have le: "fst r \<le> dbs" using k(2) by (simp add: word_le_def)
    note W = available_write_at [OF data(2) off, of D, unfolded data(1)]
    show ?thesis
      using W r(2) [OF le] True le by (simp add: page_same_def put_page_def page_of_def left_diff_distrib)
  next
    case False
    then have same: "k * sz \<le> int (length D)" "page_of sz D k = page_of sz Orig k"
      using k(3) by (simp_all add: page_same_def)
    have k0: "0 \<le> (k - 1) * sz" "(k - 1) * sz + sz = k * sz" using k(1) sz by (simp_all add: left_diff_distrib)
    have "(k - 1) * sz + sz \<le> ?off \<or> ?off + sz \<le> (k - 1) * sz"
    proof (cases "k < uint (fst r)")
      case True
      then have "k * sz \<le> ?off" using sz by (intro mult_right_mono) simp_all
      then show ?thesis using k0(2) by simp
    next
      case F: False
      then have "uint (fst r) * sz \<le> (k - 1) * sz" using sz False by (intro mult_right_mono) simp_all
      then show ?thesis by (simp add: left_diff_distrib)
    qed
    then have "available (write_at D (nat ?off) (snd r)) ((k - 1) * sz) sz = available D ((k - 1) * sz) sz"
      using sz k0 same(1) off data(1) by (intro available_write_other) auto
    moreover have "k * sz \<le> int (length (write_at D (nat ?off) (snd r)))"
      using same(1) data(2) by (simp add: length_write_at)
    ultimately show ?thesis using same by (simp add: page_same_def put_page_def page_of_def)
  qed
qed

lemma cut_database_eq:
  assumes "m = sz * uint dbs"
  shows "cut_database sz dbs D =
    (if m < int (length D) then take (nat m) D
     else if int (length D) + sz \<le> m then write_at D (nat (m - sz)) (zeroed (nat sz)) else D)"
  by (simp add: cut_database_def assms)

lemma length_grown:
  assumes "0 < sz" "int (length D) + sz \<le> m"
  shows "int (length (write_at D (nat (m - sz)) (zeroed (nat sz)))) = m"
proof -
  have "zeroed (nat sz) \<noteq> []" using assms by (simp add: zeroed_def)
  then show ?thesis using assms by (simp add: length_write_at zeroed_def)
qed

lemma cut_database_length:
  assumes "0 < sz" shows "int (length (cut_database sz dbs D)) \<le> uint dbs * sz"
proof -
  define m where "m = sz * uint dbs"
  have "0 \<le> m" using assms by (simp add: m_def)
  then have "int (length (cut_database sz dbs D)) \<le> m"
    by (simp add: cut_database_eq [OF m_def] length_grown [OF assms])
  then show ?thesis by (simp add: m_def mult.commute)
qed

lemma cut_database_same:
  assumes sz: "0 < sz" and k: "1 \<le> k" "k \<le> uint dbs" and same: "page_same sz Orig D k"
  shows "page_same sz Orig (cut_database sz dbs D) k"
proof -
  define m where "m = sz * uint dbs"
  have k0: "0 \<le> (k - 1) * sz" "(k - 1) * sz + sz = k * sz" using k(1) sz by (simp_all add: left_diff_distrib)
  have km: "k * sz \<le> m" using k(2) sz by (simp add: m_def mult.commute mult_left_mono)
  note cut = cut_database_eq [OF m_def, of D]
  consider (cut) "m < int (length D)" | (grow) "\<not> m < int (length D)" "int (length D) + sz \<le> m"
    | (keep) "\<not> m < int (length D)" "\<not> int (length D) + sz \<le> m" by blast
  then show ?thesis
  proof cases
    case cut
    have "available (take (nat m) D) ((k - 1) * sz) sz = available D ((k - 1) * sz) sz"
      using available_available [OF order_refl k0(1), of sz m D] k0(2) km by (simp add: available_def)
    then show ?thesis using cut same km by (simp add: page_same_def cut_database_eq [OF m_def] page_of_def)
  next
    case grow
    have "available (write_at D (nat (m - sz)) (zeroed (nat sz))) ((k - 1) * sz) sz = available D ((k - 1) * sz) sz"
      using same k0 grow sz by (intro available_write_other) (auto simp: page_same_def)
    moreover have "k * sz \<le> int (length (write_at D (nat (m - sz)) (zeroed (nat sz))))"
      using length_grown [OF sz grow(2)] km by simp
    ultimately show ?thesis
      using grow same by (simp add: page_same_def cut page_of_def)
  next
    case keep
    then show ?thesis using same by (simp add: cut)
  qed
qed

text \<open>
  Records with original content restore the database when every page they do not cover is as
  it was.
\<close>

lemma records_restore:
  assumes sz: "0 < sz" and len: "int (length Orig) = uint dbs * sz"
    and rs: "\<forall>r \<in> set rs. record_ok sz r \<and> (fst r \<le> dbs \<longrightarrow> snd r = page_of sz Orig (uint (fst r)))"
    and same: "\<forall>k. 1 \<le> k \<and> k \<le> uint dbs \<longrightarrow> k \<in> uint ` fst ` set rs \<or> page_same sz Orig D k"
  shows "fold (put_page sz dbs) rs (cut_database sz dbs D) = Orig"
proof -
  have fold: "int (length (fold (put_page sz dbs) rs X)) \<le> uint dbs * sz \<and>
      (\<forall>k. 1 \<le> k \<and> k \<le> uint dbs \<longrightarrow> page_same sz Orig (fold (put_page sz dbs) rs X) k)"
    if "int (length X) \<le> uint dbs * sz"
      "\<forall>k. 1 \<le> k \<and> k \<le> uint dbs \<longrightarrow> k \<in> uint ` fst ` set rs \<or> page_same sz Orig X k" for X
    using that rs
  proof (induction rs arbitrary: X)
    case Nil
    then show ?case by simp
  next
    case (Cons r rs)
    have "int (length (put_page sz dbs r X)) \<le> uint dbs * sz"
      using Cons.prems by (intro put_page_length [OF sz]) simp_all
    moreover have "\<forall>k. 1 \<le> k \<and> k \<le> uint dbs \<longrightarrow>
        k \<in> uint ` fst ` set rs \<or> page_same sz Orig (put_page sz dbs r X) k"
      using Cons.prems put_page_same [OF sz, of r dbs Orig _ X] by auto
    ultimately show ?case using Cons.IH [of "put_page sz dbs r X"] Cons.prems(3) by simp
  qed
  let ?X = "cut_database sz dbs D"
  have X: "\<forall>k. 1 \<le> k \<and> k \<le> uint dbs \<longrightarrow> k \<in> uint ` fst ` set rs \<or> page_same sz Orig ?X k"
    using same cut_database_same [OF sz] by blast
  let ?Y = "fold (put_page sz dbs) rs ?X"
  have Y: "int (length ?Y) \<le> uint dbs * sz" "\<forall>k. 1 \<le> k \<and> k \<le> uint dbs \<longrightarrow> page_same sz Orig ?Y k"
    using fold [OF cut_database_length [OF sz] X] by auto
  have "uint dbs * sz \<le> int (length ?Y)"
  proof (cases "uint dbs = 0")
    case False
    then have "1 \<le> uint dbs" using uint_ge_0 [of dbs] by linarith
    then show ?thesis using Y(2) by (auto simp: page_same_def)
  qed simp
  then show ?thesis using page_eq [OF Y(2) len _ sz] Y(1) by simp
qed

section \<open>The code\<close>

definition kept :: "'f Pager \<Rightarrow> 'f Pager \<Rightarrow> bool" where
  "kept p q \<longleftrightarrow> pageSize q = pageSize p \<and> sectorSz q = sectorSz p \<and> eState q = eState p \<and>
     noSync q = noSync p \<and> journalHdr q = journalHdr p \<and> dbSize q = dbSize p \<and> cksumInit q = cksumInit p \<and>
     szMmap q = szMmap p \<and> nPageRef q = nPageRef p \<and> memDb q = memDb p \<and> length (pTmpSpace q) = length (pTmpSpace p)"

lemma kept_refl: "kept p p" by (simp add: kept_def)
lemma kept_trans: "kept p q \<Longrightarrow> kept q r \<Longrightarrow> kept p r" by (simp add: kept_def)

lemma restore_cached_kept [simp]: "kept p (restore_cached pgno q) = kept p q"
  "journalOff (restore_cached pgno q) = journalOff q"
  by (auto simp: restore_cached_def kept_def Let_def split: option.splits)

text \<open>A pager that has just found a hot journal.\<close>

text \<open>All records of a journal.\<close>

definition journal_records :: "(u32 \<times> (Pgno \<times> bytes) list) list \<Rightarrow> (Pgno \<times> bytes) list" where
  "journal_records segs = concat (map snd segs)"

definition hot :: "bytes \<Rightarrow> 'f Pager \<Rightarrow> bool" where
  "hot J p \<longleftrightarrow> eState p = PAGER_OPEN \<and> (noSync p \<or> int (length J) \<le> journalHdr p) \<and> length J < 2 ^ 61 \<and>
     szMmap p = 0 \<and> nPageRef p = 0 \<and> \<not> memDb p"

context two_files
begin

lemma holds_other:
  "holds (p\<lparr>cksumInit := w, jfd := x\<rparr>) s D J = holds (p\<lparr>jfd := x\<rparr>) s D J"
  "holds (p\<lparr>journalOff := i, jfd := x\<rparr>) s D J = holds (p\<lparr>jfd := x\<rparr>) s D J"
  by (simp_all add: holds_def)

lemma holds_restore_cached [simp]: "holds (restore_cached pgno p) s D J = holds p s D J"
  by (auto simp: restore_cached_def Let_def split: option.splits)

text \<open>What the pager must be like while a hot journal is played back.\<close>

definition ready :: "int \<Rightarrow> bytes \<Rightarrow> 'f Pager \<Rightarrow> bool" where
  "ready sz J p \<longleftrightarrow> pageSize p = sz \<and> eState p = PAGER_OPEN \<and> nat sz \<le> length (pTmpSpace p) \<and>
     (noSync p \<or> int (length J) \<le> journalHdr p) \<and> 512 \<le> sz \<and> sz \<le> mx \<and> length J < 2 ^ 61 \<and>
     szMmap p = 0 \<and> nPageRef p = 0 \<and> \<not> memDb p"

lemma ready_kept: "kept p q \<Longrightarrow> ready sz J p \<Longrightarrow> ready sz J q"
  by (simp add: kept_def ready_def)

lemma restore_page_spec:
  assumes h: "holds p s D J" and rd: "ready sz J p" and off: "journalOff p \<le> int (length J)"
    and r: "record_ok sz r" "fst r \<le> dbSize p" "take (nat sz) (pTmpSpace p) = snd r"
  shows "ensures (restore_page E (fst r) (p, s)) (\<lambda>(rc, _, p', s'). rc = SQLITE_OK \<and>
    holds p' s' (put_page sz (dbSize p) r D) J \<and> kept p p' \<and> journalOff p' = journalOff p)"
proof -
  define q where "q = (if fst r = 1 then p\<lparr>nReserve := uint (pTmpSpace p ! 20)\<rparr> else p)"
  have q: "holds q s D J" "pfd q \<noteq> None" "eState q = PAGER_OPEN" "noSync q \<or> journalOff q \<le> journalHdr q"
    "pTmpSpace q = pTmpSpace p" "pageSize q = sz" "kept p q" "journalOff q = journalOff p"
    using h rd off holds_open [OF h] by (auto simp: ready_def kept_def q_def)
  have u: "0 \<le> uint (fst r) - 1" "uint (fst r) < 2 ^ 32"
    using r(1) uint_pos [of "fst r"] uint_bounded [of "fst r"] by (simp_all add: record_ok_def)
  have szb: "0 < sz" "sz \<le> mx" "sz < 2 ^ 20" "nat sz \<le> length (pTmpSpace p)"
    using rd mx_small by (auto simp: ready_def)
  then have o: "0 \<le> (uint (fst r) - 1) * sz" using u by simp
  have "(uint (fst r) - 1) * sz \<le> 2 ^ 32 * 2 ^ 20" using u szb by (intro mult_mono) simp_all
  then have o2: "(uint (fst r) - 1) * sz + sz < 2 ^ 62" using szb by simp
  show ?thesis
    unfolding restore_page_def Let_def prod.case q_def [symmetric] ensures_simps
      if_P [OF conjI [OF q(2) conjI [OF disjI2 [OF q(3)] q(4)]]]
  proof (rule write_database [OF q(1)], goal_cases)
    case (6 d s')
    then have "holds (q\<lparr>pfd := Some d\<rparr>) s' (put_page sz (dbSize p) r D) J"
      using r q(5,6) by (simp add: put_page_def)
    moreover have "kept p (q\<lparr>pfd := Some d, dbFileSize := w\<rparr>)" for w using q(7) by (simp add: kept_def)
    ultimately show ?case using q(8) by simp
  qed (use szb o o2 q in auto)
qed

lemma one_page_spec:
  assumes h: "holds p s D J" and rd: "ready sz J p"
    and off: "journalOff p = off" "0 \<le> off" "off + (sz + 8) \<le> int (length J)"
    and rec: "available J off (sz + 8) = record_bytes sz (cksumInit p) r" and r: "record_ok sz r"
  shows "ensures (pager_playback_one_page E (p, s)) (\<lambda>(rc, _, p', s'). rc = SQLITE_OK \<and>
    holds p' s' (put_page sz (dbSize p) r D) J \<and> kept p p' \<and> journalOff p' = off + (sz + 8))"
proof -
  have szb: "0 < sz" "sz \<le> mx" "512 \<le> sz" "4 \<le> mx" "nat sz \<le> length (pTmpSpace p)" "length J < 2 ^ 61" "sz < 2 ^ 20"
    and psz: "pageSize p = sz" using rd mx_small by (auto simp: ready_def)
  have lr: "length (snd r) = nat sz" "0 \<le> sz" using r szb by (auto simp: record_ok_def)
  note F = record_fields [OF lr, of "cksumInit p"]
  have slice: "available J (off + b) m = available (record_bytes sz (cksumInit p) r) b m"
    if "0 \<le> b" "b + m \<le> sz + 8" for b m
    using available_available [OF off(2) that, of J] rec by simp
  have f: "available J off 4 = sqlite3Put4byte (fst r)" "available J (off + 4) sz = snd r"
    "available J (off + (sz + 4)) 4 = sqlite3Put4byte (cksum_loop (snd r) (sz - 200) (cksumInit p))"
    using slice [of 0 4] slice [of 4 sz] slice [of "sz + 4" 4] F szb by (simp_all add: add.commute)
  have nz: "fst r \<noteq> 0" using r by (simp add: record_ok_def)
  have mj: "fst r \<noteq> PAGER_MJ_PGNO q" if "pageSize q = sz" for q :: "'f Pager"
    using r that by (simp add: record_ok_def PAGER_MJ_PGNO_def)
  show ?thesis
    unfolding pager_playback_one_page_def Let_def prod.case ensures_simps ensures_if_ok
  proof (rule read_journal_int [OF h], goal_cases)
    case (5 j1 s1)
    then show ?case
      apply (simp add: psz off f)
      apply (rule read_journal, assumption)
           apply (use szb off in \<open>simp_all add: psz mj\<close>)[5]
      subgoal premises P for buf' j2 s2
      proof -
        define q where "q = p\<lparr>jfd := Some j2, pTmpSpace := buf', journalOff := off + (sz + 8)\<rparr>"
        have buf: "take (nat sz) buf' = snd r" using P(4) off by (simp add: f)
        have q: "holds q s2 D J" "kept p q" "journalOff q = off + (sz + 8)" "pTmpSpace q = buf'" "pageSize q = sz"
          "dbSize q = dbSize p" "cksumInit q = cksumInit p"
          using P psz by (simp_all add: q_def kept_def)
        have rest: "ensures (read32bits E (4 + (off + sz)) 0 (q, s2)) (\<lambda>(rc, x, ps). (rc = SQLITE_OK \<longrightarrow>
            ensures (case ps of (p, s) \<Rightarrow> if pager_cksum p (pTmpSpace p) \<noteq> x then Some (SQLITE_DONE, (), p, s)
              else restore_page E (fst r) (p, s)) (\<lambda>(rc, _, p', s'). rc = SQLITE_OK \<and>
              holds p' s' (put_page sz (dbSize p) r D) J \<and> kept p p' \<and> journalOff p' = off + (sz + 8))) \<and> rc = SQLITE_OK)"
          if le: "\<not> dbSize p < fst r"
        proof (rule read_journal_int [OF q(1)], goal_cases)
          case (5 j3 s3)
          let ?q = "q\<lparr>jfd := Some j3\<rparr>"
          have Q: "kept p ?q" "journalOff ?q = off + (sz + 8)" using q by (simp_all add: kept_def)
          have "pager_cksum ?q buf' = cksum_loop (snd r) (sz - 200) (cksumInit p)"
            using cksum_loop_take [of "sz - 200" "nat sz" buf'] szb q by (simp add: pager_cksum_def buf)
          moreover have "sqlite3Get4byte (available J (4 + (off + sz)) 4) = cksum_loop (snd r) (sz - 200) (cksumInit p)"
            using f(3) by (simp add: ac_simps)
          moreover have "ensures (restore_page E (fst r) (?q, s3)) (\<lambda>(rc, _, p', s'). rc = SQLITE_OK \<and>
              holds p' s' (put_page sz (dbSize ?q) r D) J \<and> kept ?q p' \<and> journalOff p' = journalOff ?q)"
            by (rule restore_page_spec [OF 5 ready_kept [OF Q(1) rd] _ r]) (use off q le buf in auto)
          then have "ensures (restore_page E (fst r) (?q, s3)) (\<lambda>(rc, _, p', s'). rc = SQLITE_OK \<and>
              holds p' s' (put_page sz (dbSize p) r D) J \<and> kept p p' \<and> journalOff p' = off + (sz + 8))"
            by (rule ensures_weaken) (use Q q kept_trans in auto)
          ultimately show ?case using q by simp
        qed (use szb off in auto)
        have skip: "put_page sz (dbSize p) r D = D" if "dbSize p < fst r" unfolding put_page_def using that by (metis leD)
        show ?thesis
          using rest q nz mj [OF q(5)] off skip by (simp add: q_def [symmetric] psz)
      qed
      done
  qed (use szb off in auto)
qed

lemma playback_records_spec:
  assumes "holds p s D J" "ready sz J p" "journalOff p = off" "0 \<le> off"
    and "off + int (length rs) * (sz + 8) \<le> int (length J)"
    and "available J off (int (length rs) * (sz + 8)) = concat (map (record_bytes sz (cksumInit p)) rs)"
    and "\<forall>r \<in> set rs. record_ok sz r"
  shows "ensures (playback_records E szJ (length rs) need n (p, s)) (\<lambda>(go, rc, need', n', p', s').
    go \<and> rc = SQLITE_OK \<and> n' = n + length rs \<and> holds p' s' (fold (put_page sz (dbSize p)) rs D) J \<and>
    kept p p' \<and> journalOff p' = off + int (length rs) * (sz + 8))"
  using assms
proof (induction rs arbitrary: p s D off need n)
  case Nil
  then show ?case by (simp add: kept_refl)
next
  case (Cons r rs)
  let ?p = "if need then pager_reset p else p"
  have p: "holds ?p s D J" "kept p ?p" "journalOff ?p = off"
    using Cons.prems(1,3) by (simp_all add: pager_reset_def kept_def)
  have rdy: "ready sz J ?p" by (rule ready_kept [OF p(2) Cons.prems(2)])
  have sz: "512 \<le> sz" using Cons.prems(2) by (simp add: ready_def)
  have k: "cksumInit ?p = cksumInit p" "dbSize ?p = dbSize p" using p(2) by (simp_all add: kept_def)
  have r: "record_ok sz r" using Cons.prems(7) by simp
  have lr: "int (length (record_bytes sz (cksumInit p) r)) = sz + 8"
    using r sz by (intro length_record_bytes) (simp_all add: record_ok_def)
  define m where "m = int (length rs) * (sz + 8)"
  have m0: "0 \<le> m" using sz by (simp add: m_def)
  have tot: "int (length (r # rs)) * (sz + 8) = (sz + 8) + m" by (simp add: m_def algebra_simps)
  have bytes: "available J off (sz + 8) @ available J (off + (sz + 8)) m =
      record_bytes sz (cksumInit p) r @ concat (map (record_bytes sz (cksumInit p)) rs)"
    using Cons.prems(6) available_split [OF Cons.prems(4), of "sz + 8" m J] sz m0 unfolding tot by simp
  have len: "length (available J off (sz + 8)) = length (record_bytes sz (cksumInit p) r)"
    using length_available [OF Cons.prems(4), of "sz + 8" J] lr sz Cons.prems(5) m0 unfolding tot by linarith
  have first: "available J off (sz + 8) = record_bytes sz (cksumInit p) r"
    and others: "available J (off + (sz + 8)) m = concat (map (record_bytes sz (cksumInit p)) rs)"
    using bytes len by simp_all
  have one: "ensures (pager_playback_one_page E (?p, s)) (\<lambda>(rc, _, p', s'). rc = SQLITE_OK \<and>
    holds p' s' (put_page sz (dbSize ?p) r D) J \<and> kept ?p p' \<and> journalOff p' = off + (sz + 8))"
    by (rule one_page_spec [OF p(1) rdy p(3) Cons.prems(4)]) (use Cons.prems(5) first k m0 tot r in auto)
  have step: "ensures (playback_records E szJ (length rs) False (n + 1) (q, t)) (\<lambda>(go, rc, need', n', p', s').
      go \<and> rc = SQLITE_OK \<and> n' = n + length (r # rs) \<and> holds p' s' (fold (put_page sz (dbSize p)) (r # rs) D) J \<and>
      kept p p' \<and> journalOff p' = off + int (length (r # rs)) * (sz + 8))"
    if "holds q t (put_page sz (dbSize ?p) r D) J" "kept ?p q" "journalOff q = off + (sz + 8)" for q t
  proof -
    have q: "kept p q" "ready sz J q" "cksumInit q = cksumInit p" "dbSize q = dbSize p"
      using kept_trans [OF p(2) that(2)] ready_kept [OF that(2) rdy] by (simp_all add: kept_def)
    have "ensures (playback_records E szJ (length rs) False (n + 1) (q, t)) (\<lambda>(go, rc, need', n', p', s').
      go \<and> rc = SQLITE_OK \<and> n' = (n + 1) + length rs \<and>
      holds p' s' (fold (put_page sz (dbSize q)) rs (put_page sz (dbSize ?p) r D)) J \<and>
      kept q p' \<and> journalOff p' = (off + (sz + 8)) + int (length rs) * (sz + 8))"
      by (rule Cons.IH [OF that(1) q(2) that(3)])
        (use Cons.prems(4,5,7) sz others tot in \<open>auto simp: q(3) m_def\<close>)
    then show ?thesis
      by (rule ensures_weaken) (use q k kept_trans [OF q(1)] tot in \<open>auto simp: m_def\<close>)
  qed
  have "ensures (pager_playback_one_page E (?p, s)) (\<lambda>(rc, _, q, t).
      ensures (if rc = SQLITE_OK then playback_records E szJ (length rs) False (n + 1) (q, t)
        else if rc = SQLITE_DONE then Some (True, rc, False, n, q\<lparr>journalOff := szJ\<rparr>, t)
        else Some (False, if rc = SQLITE_IOERR_SHORT_READ then SQLITE_OK else rc, False, n, q, t))
      (\<lambda>(go, rc, need', n', p', s').
      go \<and> rc = SQLITE_OK \<and> n' = n + length (r # rs) \<and> holds p' s' (fold (put_page sz (dbSize p)) (r # rs) D) J \<and>
      kept p p' \<and> journalOff p' = off + int (length (r # rs)) * (sz + 8)))"
    by (rule ensures_weaken [OF one]) (use step in auto)
  moreover have "(if need then (pager_reset (fst (p, s)), snd (p, s)) else (p, s)) = (?p, s)" by simp
  ultimately show ?case
    by (simp only: list.size add_0_right add_Suc_right playback_records.simps Let_def ensures_simps(3)) (simp add: case_prod_unfold)
qed

section \<open>Headers\<close>

text \<open>All that setting the page size leaves alone.\<close>

definition same_but_size :: "'f Pager \<Rightarrow> 'f Pager \<Rightarrow> bool" where
  "same_but_size p q \<longleftrightarrow> sectorSz q = sectorSz p \<and> eState q = eState p \<and> noSync q = noSync p \<and>
     journalHdr q = journalHdr p \<and> journalOff q = journalOff p \<and> cksumInit q = cksumInit p \<and>
     szMmap q = szMmap p \<and> nPageRef q = nPageRef p \<and> memDb q = memDb p"

lemma fix_limit_spec:
  assumes h: "holds p s D J" and z: "szMmap p = 0"
  shows "ensures (pagerFixMaplimit E (p, s)) (\<lambda>(p', s'). holds p' s' D J \<and> same_but_size p p' \<and>
    pageSize p' = pageSize p \<and> dbSize p' = dbSize p \<and> pTmpSpace p' = pTmpSpace p)"
proof (cases "3 \<le> iVersion E")
  case True
  have "holds (p\<lparr>bUseFetch := False\<rparr>) s D J" using h by simp
  from hint_to_database [OF this] have "ensures (on_fd (\<lambda>f. xFileControl E f SQLITE_FCNTL_MMAP_SIZE (le_bytes 8 (0 :: i64)))
      (p\<lparr>bUseFetch := False\<rparr>, s)) (\<lambda>(_, _, p', s'). holds p' s' D J \<and> same_but_size p p' \<and>
    pageSize p' = pageSize p \<and> dbSize p' = dbSize p \<and> pTmpSpace p' = pTmpSpace p)"
    by (simp add: same_but_size_def)
  then show ?thesis using True z holds_open [OF h] by (simp add: pagerFixMaplimit_def Let_def case_prod_unfold)
next
  case False
  then show ?thesis using h by (simp add: pagerFixMaplimit_def same_but_size_def)
qed

lemma set_pagesize_spec:
  assumes h: "holds p s D J" and p: "eState p = PAGER_OPEN" "nPageRef p = 0" "szMmap p = 0" "\<not> memDb p"
    "0 \<le> pageSize p" "pageSize p < 2 ^ 32" "nat (pageSize p) \<le> length (pTmpSpace p)" and sz: "uint psz = sz" "0 < sz"
  shows "ensures (sqlite3PagerSetPagesize E psz (- 1) (p, s)) (\<lambda>(rc, _, p', s'). rc = SQLITE_OK \<and>
    holds p' s' D J \<and> same_but_size p p' \<and> pageSize p' = sz \<and> nat sz \<le> length (pTmpSpace p'))"
proof -
  have lim: "ensures (pagerFixMaplimit E (q\<lparr>nReserve := nReserve q\<rparr>, t)) (\<lambda>(p', s').
      holds p' s' D J \<and> same_but_size p p' \<and> pageSize p' = sz \<and> nat sz \<le> length (pTmpSpace p'))"
    if "holds q t D J" "same_but_size p q" "pageSize q = sz" "nat sz \<le> length (pTmpSpace q)" for q t
  proof -
    have "szMmap q = 0" using that(2) p by (simp add: same_but_size_def)
    moreover have "q\<lparr>nReserve := nReserve q\<rparr> = q" by simp
    ultimately show ?thesis
      by (simp only:) (rule ensures_weaken [OF fix_limit_spec [OF that(1)]], use that in \<open>auto simp: same_but_size_def\<close>)
  qed
  show ?thesis
  proof (cases "psz = word_of_int (pageSize p)")
    case True
    then have "pageSize p = sz" using sz p by (simp add: uint_word_of_int)
    then show ?thesis
      using lim [OF h] True p by (simp add: sqlite3PagerSetPagesize_def same_but_size_def Let_def case_prod_unfold)
  next
    case False
    obtain s1 where s1: "mallocs E s = (True, s1)" "holds p s1 D J" by (rule holds_allocs [OF h])
    obtain s2 where s2: "mallocs E s1 = (True, s2)" "holds p s2 D J" by (rule holds_allocs [OF s1(2)])
    have nz: "psz \<noteq> 0" using sz by auto
    have cond: "(\<not> memDb p \<or> dbSize p = 0) \<and> nPageRef p = 0 \<and> psz \<noteq> 0 \<and> psz \<noteq> word_of_int (pageSize p)"
      using p nz False by simp
    let ?q = "(pager_reset p)\<lparr>pTmpSpace := map (heapJunk E) [0..<unat psz] @ zeroed 8,
               dbSize := word_of_int ((0 + uint psz - 1) div uint psz), pageSize := uint psz\<rparr>"
    have new: "new_page_size E psz (p, s) = Some (SQLITE_OK, (), ?q, s2)"
      using p s1 s2 by (simp add: new_page_size_def if_ok_def Let_def)
    have q: "holds ?q s2 D J" "same_but_size p ?q" "pageSize ?q = sz" "nat sz \<le> length (pTmpSpace ?q)"
      using s2 sz by (simp_all add: pager_reset_def same_but_size_def unat_eq_nat_uint)
    show ?thesis
      using lim [OF q] cond new by (simp add: sqlite3PagerSetPagesize_def Let_def case_prod_unfold)
  qed
qed

lemma header_slice:
  assumes "available J h 28 = header_bytes n ck dbs ss sz" and "0 \<le> h" "0 \<le> b" "b + m \<le> 28"
  shows "available J (h + b) m = available (header_bytes n ck dbs ss sz) b m"
  using available_available [OF assms(2-4), of J] assms(1) by simp

lemma check_magic_spec:
  assumes h: "holds p s D J" and b: "0 \<le> off" "off + 8 \<le> int (length J)" "length J < 2 ^ 61" "8 \<le> mx"
    and Q: "\<And>j s'. holds (p\<lparr>jfd := Some j\<rparr>) s' D J \<Longrightarrow>
      Q (if available J off 8 = aJournalMagic then SQLITE_OK else SQLITE_DONE, (), p\<lparr>jfd := Some j\<rparr>, s')"
  shows "ensures (check_magic E off (p, s)) Q"
  unfolding check_magic_def ensures_if_ok
proof (rule read_journal [OF h], goal_cases)
  case (6 buf' j s')
  then have "take 8 buf' = available J off 8" using b by simp
  then show ?case using Q [OF 6(1)] b by (cases "available J off 8 = aJournalMagic") simp_all
qed (use b in auto)

text \<open>The fields of a header at \<open>h\<close> that every header has.\<close>

lemma header_reads:
  assumes h: "holds p s D J" and at: "journalHdrOffset p = off" "0 \<le> off" "off + 28 \<le> int (length J)"
      "off + sectorSz p \<le> int (length J)" "available J off 28 = header_bytes n ck dbs ss sz"
    and b: "length J < 2 ^ 61" "8 \<le> mx"
    and Q: "\<And>j s'. holds (p\<lparr>journalOff := off, cksumInit := ck, jfd := Some j\<rparr>) s' D J \<Longrightarrow>
      ensures (if off = 0 then header_sizes E off n dbs (p\<lparr>journalOff := off, cksumInit := ck, jfd := Some j\<rparr>, s')
        else header_read n dbs SQLITE_OK (p\<lparr>journalOff := off, cksumInit := ck, jfd := Some j\<rparr>, s')) Q"
  shows "ensures (readJournalHdr E True (int (length J)) (p, s)) Q"
proof -
  note sl = header_slice [OF at(5) at(2)]
  have F: "available J off 8 = aJournalMagic" "available J (off + 8) 4 = sqlite3Put4byte n"
    "available J (off + 12) 4 = sqlite3Put4byte ck" "available J (off + 16) 4 = sqlite3Put4byte dbs"
    using sl [of 0 8] sl [of 8 4] sl [of 12 4] sl [of 16 4] by (simp_all add: header_fields)
  have h0: "holds (p\<lparr>journalOff := off\<rparr>) s D J" using h by simp
  show ?thesis
    unfolding readJournalHdr_def Let_def prod.case at(1) ensures_simps ensures_if_ok
    apply (simp add: JOURNAL_HDR_SZ_def at(4) leD)
    apply (rule check_magic_spec [OF h0])
        apply (use at b in simp_all)[4]
    apply (simp add: F)
    apply (rule read_journal_int, assumption)
        apply (use at b in simp_all)[4]
    apply (simp add: F)
    apply (rule read_journal_int, assumption)
        apply (use at b in simp_all)[4]
    apply (simp add: F)
    apply (rule read_journal_int [where D = D and J = J])
        apply simp
       apply (use at b in simp_all)[4]
    subgoal for j s' ja s'a jb s'b jc s'c
      using Q [of jc s'c] F by (cases "off = 0") simp_all
    done
qed

text \<open>The first header sets the sizes.\<close>

lemma ready_hot: "ready sz J p \<longleftrightarrow> hot J p \<and> pageSize p = sz \<and> nat sz \<le> length (pTmpSpace p) \<and> 512 \<le> sz \<and> sz \<le> mx"
  by (auto simp: ready_def hot_def)

lemma first_header_spec:
  assumes h: "holds p s D J" and p: "hot J p" "0 \<le> pageSize p" "pageSize p < 2 ^ 32" "nat (pageSize p) \<le> length (pTmpSpace p)"
      "journalOff p = 0" "sectorSz p \<le> int (length J)"
    and at: "ss \<le> int (length J)" "available J 0 28 = header_bytes n ck dbs ss sz"
    and sizes: "journal_sizes sz ss" "sz \<le> mx"
  shows "ensures (readJournalHdr E True (int (length J)) (p, s)) (\<lambda>(rc, x, p', s'). rc = SQLITE_OK \<and> x = (n, dbs) \<and>
    holds p' s' D J \<and> ready sz J p' \<and> sectorSz p' = ss \<and> journalOff p' = ss \<and> cksumInit p' = ck)"
proof -
  note sz = journal_sizesD [OF sizes(1)]
  have J: "length J < 2 ^ 61" using p by (simp add: hot_def)
  have J28: "28 \<le> int (length J)" using at(1) sz by simp
  have mx: "8 \<le> mx" "4 \<le> mx" using sz sizes(2) by simp_all
  note sl = header_slice [OF at(2), of 20 4] header_slice [OF at(2), of 24 4]
  have F: "available J 20 4 = sqlite3Put4byte (word_of_int ss)" "available J 24 4 = sqlite3Put4byte (word_of_int sz)"
    using sl by (simp_all add: header_fields)
  have ok: "header_sizes_ok (word_of_int sz) (word_of_int ss)" using sizes by (simp add: journal_sizes_def)
  have nz: "(word_of_int sz :: u32) \<noteq> 0"
  proof
    assume "(word_of_int sz :: u32) = 0"
    then have "uint (word_of_int sz :: u32) = 0" by simp
    then show False using sz by simp
  qed
  show ?thesis
  proof (rule header_reads [OF h, where off = 0 and n = n and ck = ck and dbs = dbs and ss = ss and sz = sz], goal_cases)
    case (8 j s1)
    let ?q = "p\<lparr>journalOff := 0, cksumInit := ck, jfd := Some j\<rparr>"
    have q: "eState q = PAGER_OPEN" "nPageRef q = 0" "szMmap q = 0" "\<not> memDb q" "0 \<le> pageSize q" "pageSize q < 2 ^ 32"
      "nat (pageSize q) \<le> length (pTmpSpace q)" "hot J q" "journalOff q = 0" "cksumInit q = ck"
      if "q = p\<lparr>journalOff := 0, cksumInit := ck, jfd := Some j'\<rparr>" for q j'
      using p that by (simp_all add: hot_def)
    have set: "ensures (sqlite3PagerSetPagesize E (word_of_int sz) (- 1) (q, t)) (\<lambda>(rc, _, p', s').
        ensures (header_read n dbs rc (p'\<lparr>sectorSz := ss\<rparr>, s')) (\<lambda>(rc, x, p', s'). rc = SQLITE_OK \<and> x = (n, dbs) \<and>
          holds p' s' D J \<and> ready sz J p' \<and> sectorSz p' = ss \<and> journalOff p' = ss \<and> cksumInit p' = ck))"
      if H: "holds q t D J" and Q: "q = p\<lparr>journalOff := 0, cksumInit := ck, jfd := Some j'\<rparr>" for q t j'
    proof -
      note q' = q [OF Q]
      have "0 < sz" using sz by simp
      from set_pagesize_spec [OF H q'(1-7) sz(5) this] show ?thesis
        by (rule ensures_weaken)
          (use q' sz sizes in \<open>auto simp: header_read_def ready_hot hot_def same_but_size_def JOURNAL_HDR_SZ_def\<close>)
    qed
    have "ensures (header_sizes E 0 n dbs (?q, s1)) (\<lambda>(rc, x, p', s'). rc = SQLITE_OK \<and> x = (n, dbs) \<and>
      holds p' s' D J \<and> ready sz J p' \<and> sectorSz p' = ss \<and> journalOff p' = ss \<and> cksumInit p' = ck)"
      unfolding header_sizes_def ensures_if_ok
      apply (rule read_journal_int [OF 8])
          apply (use J28 J mx in simp_all)[4]
      apply (simp add: F)
      apply (rule read_journal_int, assumption)
          apply (use J28 J mx in simp_all)[4]
      apply (simp add: F nz ok sz Let_def)
      subgoal for j2 s2 j3 s3
        using set [of "p\<lparr>journalOff := 0, cksumInit := ck, jfd := Some j3\<rparr>" s3 j3] by (simp add: case_prod_unfold)
      done
    then show ?case by simp
  qed (use p at sz J mx in \<open>auto simp: next_sector_eq next_sector_def\<close>)
qed

lemma next_header_spec:
  assumes h: "holds p s D J" and p: "ready sz J p" "sectorSz p = ss" "journalOff p = off0"
    and off: "off = next_sector ss off0" "0 < off" "off + ss \<le> int (length J)"
    and at: "available J off 28 = header_bytes n ck dbs ss sz" and sizes: "journal_sizes sz ss"
  shows "ensures (readJournalHdr E True (int (length J)) (p, s)) (\<lambda>(rc, x, p', s'). rc = SQLITE_OK \<and> x = (n, dbs) \<and>
    holds p' s' D J \<and> kept (p\<lparr>cksumInit := ck\<rparr>) p' \<and> journalOff p' = off + ss)"
proof -
  note sz = journal_sizesD [OF sizes(1)]
  show ?thesis
    by (rule header_reads [OF h, where off = off and n = n and ck = ck and dbs = dbs and ss = ss and sz = sz])
      (use p off at sz in \<open>auto simp: next_sector_eq ready_def header_read_def kept_def JOURNAL_HDR_SZ_def holds_other\<close>)
qed

lemma no_header_spec:
  assumes h: "holds p s D J" and p: "ready sz J p" "sectorSz p = ss" "journalOff p = off0" "0 \<le> off0"
    and no: "journal_at sz ss dbs J off0 []" and sizes: "journal_sizes sz ss"
  shows "ensures (readJournalHdr E True (int (length J)) (p, s)) (\<lambda>(rc, x, p', s'). rc = SQLITE_DONE \<and>
    holds p' s' D J \<and> kept p p')"
proof -
  note sz = journal_sizesD [OF sizes(1)]
  let ?off = "next_sector ss off0"
  have o: "0 \<le> ?off" using next_sector_ge [of ss off0] sz p(4) by simp
  have H: "holds (p\<lparr>journalOff := ?off\<rparr>) s D J" using h by simp
  show ?thesis
  proof (cases "int (length J) < ?off + ss")
    case True
    then show ?thesis using h p by (simp add: readJournalHdr_def next_sector_eq JOURNAL_HDR_SZ_def Let_def kept_def)
  next
    case False
    then have bad: "available J ?off 8 \<noteq> aJournalMagic" using no by simp
    show ?thesis
      unfolding readJournalHdr_def Let_def prod.case next_sector_eq p(2,3) ensures_simps ensures_if_ok
      apply (simp add: JOURNAL_HDR_SZ_def p False)
      apply (rule check_magic_spec [OF H])
          apply (use o sz False p in \<open>auto simp: ready_def\<close>)[4]
      apply (simp add: bad kept_def)
      done
  qed
qed

section \<open>The whole journal\<close>

lemma truncate_spec:
  assumes h: "holds p s D J" and p: "ready sz J p" and D: "length D \<noteq> 1" "length D < 2 ^ 61"
  shows "ensures (pager_truncate E dbs (p, s)) (\<lambda>(rc, _, p', s'). rc = SQLITE_OK \<and>
    holds p' s' (cut_database sz dbs D) J \<and> kept p p' \<and> journalOff p' = journalOff p)"
proof -
  have op: "pfd p \<noteq> None" using holds_open [OF h] by simp
  have P: "pageSize p = sz" "eState p = PAGER_OPEN" "512 \<le> sz" "sz \<le> mx" "nat sz \<le> length (pTmpSpace p)"
    using p by (simp_all add: ready_def)
  have sz20: "sz < 2 ^ 20" using P(4) mx_small by simp
  define m where "m = sz * uint dbs"
  have "uint dbs < 2 ^ 32" using uint_bounded [of dbs] by simp
  then have m: "0 \<le> m" "m \<le> 2 ^ 20 * 2 ^ 32"
    using P(3) sz20 unfolding m_def by (simp, intro mult_mono) simp_all
  note cutD = cut_database_eq [OF m_def, of D]
  define R where "R = (\<lambda>(rc :: cint, _ :: unit, q, t). rc = SQLITE_OK \<and> holds q t (cut_database sz dbs D) J \<and>
    kept p q \<and> journalOff q = journalOff p)"
  have fin: "ensures (if_ok r () (\<lambda>_ (p, s). Some (SQLITE_OK, (), p\<lparr>dbFileSize := dbs\<rparr>, s))) R" if "ensures r R" for r
    using that by (auto simp: ensures_def if_ok_def kept_def R_def)
  show ?thesis
    unfolding pager_truncate_def prod.case ensures_simps if_P [OF conjI [OF op disjI2 [OF P(2)]]]
      ensures_if_ok [of "on_fd (xFileSize E) _"] R_def [symmetric]
  proof (rule size_of_database [OF h D(1)], goal_cases)
    case (2 d s1)
    let ?p = "p\<lparr>pfd := Some d\<rparr>"
    consider (cut) "m < int (length D)" | (grow) "int (length D) + sz \<le> m"
      | (keep) "int (length D) = m" | (some) "int (length D) < m" "m < int (length D) + sz" by linarith
    then show ?case
    proof cases
      case cut
      have "ensures (on_fd (\<lambda>f. xTruncate E f m) (?p, s1)) R"
        by (rule truncate_database [OF 2]) (use cut m D cutD in \<open>auto simp: kept_def R_def\<close>)
      from fin [OF this] show ?thesis using cut P(1) by (simp add: m_def [symmetric] Let_def del: ensures_if_ok)
    next
      case grow
      have sp: "memcpy (pTmpSpace p) 0 (zeroed (nat sz)) = Some (overwrite (pTmpSpace p) 0 (zeroed (nat sz)))"
        using P(5) by (intro memcpy_ok) (simp add: zeroed_def)
      let ?q = "?p\<lparr>pTmpSpace := overwrite (pTmpSpace p) 0 (zeroed (nat sz))\<rparr>"
      have H: "holds ?q s1 D J" using 2 by simp
      have buf: "take (nat sz) (overwrite (pTmpSpace p) 0 (zeroed (nat sz))) = zeroed (nat sz)"
        "length (overwrite (pTmpSpace p) 0 (zeroed (nat sz))) = length (pTmpSpace p)"
        using P(5) by (simp_all add: overwrite_def zeroed_def)
      have "ensures (on_fd (\<lambda>f. xWrite E f (overwrite (pTmpSpace p) 0 (zeroed (nat sz))) sz (m - sz)) (?q, s1)) R"
        by (rule write_database [OF H]) (use grow m P buf cutD in \<open>auto simp: kept_def R_def\<close>)
      from fin [OF this] show ?thesis using grow P(1,3) sp by (simp add: m_def [symmetric] Let_def del: ensures_if_ok)
    next
      case keep
      then show ?thesis using 2 P(1,3) cutD by (simp add: m_def [symmetric] kept_def R_def)
    next
      case some
      then show ?thesis using 2 P(1) cutD by (simp add: m_def [symmetric] kept_def R_def)
    qed
  qed (use D in auto)
qed

lemma records_after_hot: "length rs < 2 ^ 32 - 1 \<Longrightarrow> unat (records_after True szJ (word_of_nat (length rs)) p) = length rs"
proof -
  assume l: "length rs < 2 ^ 32 - 1"
  then have u: "unat (word_of_nat (length rs) :: u32) = length rs" by (simp add: unat_of_nat)
  have "(word_of_nat (length rs) :: u32) \<noteq> 0xffffffff"
  proof
    assume "(word_of_nat (length rs) :: u32) = 0xffffffff"
    then have "unat (word_of_nat (length rs) :: u32) = unat (0xffffffff :: u32)" by simp
    then show False using l u by simp
  qed
  then show ?thesis using u by (simp add: records_after_def)
qed

text \<open>What the loop over the headers keeps.\<close>

definition kept_loop :: "'f Pager \<Rightarrow> 'f Pager \<Rightarrow> bool" where
  "kept_loop p q \<longleftrightarrow> kept (p\<lparr>cksumInit := cksumInit q\<rparr>) q"

lemma later_headers_spec:
  assumes "holds p s D J" "ready sz J p" "sectorSz p = ss" "journalOff p = off" "0 < off"
    and "journal_at sz ss dbs J off segs" "journal_sizes sz ss" "\<forall>r \<in> set (journal_records segs). record_ok sz r"
  shows "ensures (playback_headers E True (int (length J)) need n (p, s)) (\<lambda>(rc, n', p', s'). rc = SQLITE_OK \<and>
    n' = n + length (journal_records segs) \<and>
    holds p' s' (fold (put_page sz (dbSize p)) (journal_records segs) D) J \<and> kept_loop p p')"
  using assms
proof (induction segs arbitrary: p s D off need n)
  case Nil
  have "ensures (readJournalHdr E True (int (length J)) (p, s)) (\<lambda>(rc, x, p', s'). rc = SQLITE_DONE \<and>
    holds p' s' D J \<and> kept p p')"
    by (rule no_header_spec [OF Nil.prems(1-4) _ Nil.prems(6,7)]) (use Nil.prems(5) in simp)
  then show ?case
    by (subst playback_headers.simps) (auto simp: ensures_def journal_records_def kept_loop_def kept_def)
next
  case (Cons seg segs)
  obtain ck rs where seg: "seg = (ck, rs)" by fastforce
  define h where "h = next_sector ss off"
  define m where "m = int (length rs) * (sz + 8)"
  have at: "h + ss + m \<le> int (length J)" "length rs < 2 ^ 32 - 1"
    "available J h 28 = header_bytes (word_of_nat (length rs)) ck dbs ss sz"
    "available J (h + ss) m = concat (map (record_bytes sz ck) rs)" "journal_at sz ss dbs J (h + ss + m) segs"
    using Cons.prems(6) by (simp_all add: seg h_def m_def Let_def)
  note szs = journal_sizesD [OF Cons.prems(7)]
  have h: "0 < h" using next_sector_ge [of ss off] Cons.prems(5) szs by (simp add: h_def)
  have m: "0 \<le> m" using szs by (simp add: m_def)
  have rs: "\<forall>r \<in> set rs. record_ok sz r" "\<forall>r \<in> set (journal_records segs). record_ok sz r"
    using Cons.prems(8) by (simp_all add: seg journal_records_def)
  have hdr: "ensures (readJournalHdr E True (int (length J)) (p, s)) (\<lambda>(rc, x, p', s'). rc = SQLITE_OK \<and>
    x = (word_of_nat (length rs), dbs) \<and> holds p' s' D J \<and> kept (p\<lparr>cksumInit := ck\<rparr>) p' \<and> journalOff p' = h + ss)"
    by (rule next_header_spec [OF Cons.prems(1-4) h_def h _ at(3) Cons.prems(7)]) (use at m in simp)
  obtain q t where hd: "readJournalHdr E True (int (length J)) (p, s) = Some (SQLITE_OK, (word_of_nat (length rs), dbs), q, t)"
    and q: "holds q t D J" "kept (p\<lparr>cksumInit := ck\<rparr>) q" "journalOff q = h + ss"
    using hdr by (auto simp: ensures_def)
  have q': "ready sz J q" "sectorSz q = ss" "cksumInit q = ck" "dbSize q = dbSize p"
    using q(2) Cons.prems(2,3) by (simp_all add: kept_def ready_def)
  have recs: "ensures (playback_records E (int (length J)) (length rs) need n (q, t)) (\<lambda>(go, rc, need', n', p', s').
    go \<and> rc = SQLITE_OK \<and> n' = n + length rs \<and> holds p' s' (fold (put_page sz (dbSize q)) rs D) J \<and>
    kept q p' \<and> journalOff p' = (h + ss) + int (length rs) * (sz + 8))"
    by (rule playback_records_spec [OF q(1) q'(1) q(3)]) (use h at q' rs szs in \<open>auto simp: m_def [symmetric]\<close>)
  obtain need' q2 t2 where rr: "playback_records E (int (length J)) (length rs) need n (q, t) =
      Some (True, SQLITE_OK, need', n + length rs, q2, t2)"
    and q2: "holds q2 t2 (fold (put_page sz (dbSize p)) rs D) J" "kept q q2" "journalOff q2 = h + ss + m"
    using recs q' by (auto simp: ensures_def m_def)
  have q2': "ready sz J q2" "sectorSz q2 = ss" "dbSize q2 = dbSize p"
    using q2(2) q' by (simp_all add: kept_def ready_def)
  have "ensures (playback_headers E True (int (length J)) need' (n + length rs) (q2, t2)) (\<lambda>(rc, n', p', s'). rc = SQLITE_OK \<and>
    n' = n + length rs + length (journal_records segs) \<and>
    holds p' s' (fold (put_page sz (dbSize q2)) (journal_records segs) (fold (put_page sz (dbSize p)) rs D)) J \<and> kept_loop q2 p')"
    by (rule Cons.IH [OF q2(1) q2'(1,2) q2(3) _ at(5) Cons.prems(7) rs(2)]) (use h szs m in simp)
  then have rest: "ensures (playback_headers E True (int (length J)) need' (n + length rs) (q2, t2)) (\<lambda>(rc, n', p', s'). rc = SQLITE_OK \<and>
    n' = n + length (journal_records (seg # segs)) \<and>
    holds p' s' (fold (put_page sz (dbSize p)) (journal_records (seg # segs)) D) J \<and> kept_loop p p')"
    by (rule ensures_weaken) (use q(2) q2(2) q2' in \<open>auto simp: journal_records_def seg kept_loop_def kept_def\<close>)
  have "journalOff q \<noteq> JOURNAL_HDR_SZ q" using q(3) q'(2) h by (simp add: JOURNAL_HDR_SZ_def)
  then show ?case
    using rest rr by (subst playback_headers.simps) (simp add: hd records_after_hot [OF at(2)])
qed

text \<open>A journal whose last eight bytes are not the magic number names no master journal.\<close>

lemma no_master_spec:
  assumes h: "holds p s D J" and z: "z \<noteq> []" and J: "length J \<noteq> 1" "length J < 2 ^ 61"
    and no: "16 \<le> length J \<longrightarrow> available J (int (length J) - 8) 8 \<noteq> aJournalMagic" and mx: "8 \<le> mx"
  shows "ensures (readMasterJournal E z nMaster (p, s)) (\<lambda>(rc, z', p', s'). rc = SQLITE_OK \<and> z' = overwrite z 0 [0] \<and>
    holds p' s' D J \<and> (\<exists>j. p' = p\<lparr>jfd := Some j\<rparr>))"
proof -
  have z0: "memcpy z 0 [0] = Some (overwrite z 0 [0])" using z by (intro memcpy_ok) (simp add: Suc_le_eq)
  show ?thesis
  proof (cases "16 \<le> length J")
    case False
    then show ?thesis
      unfolding readMasterJournal_def ensures_simps z0 ensures_if_ok
      apply -
      apply (rule size_of_journal [OF h])
        apply (use J in simp_all)[2]
      apply auto
      done
  next
    case True
    note no' = no [THEN mp, OF True] and J' = True J(2)
    show ?thesis
      unfolding readMasterJournal_def ensures_simps z0 ensures_if_ok
      apply (rule size_of_journal [OF h])
        apply (use J in simp_all)[2]
      subgoal premises H1 for j1 s1
        apply (simp add: leD [OF True])
        apply (rule read_journal_int [OF H1])
            apply (use J' mx in simp_all)[4]
        subgoal premises H2 for j2 s2
          apply (simp add: H2 [simplified])
          apply (intro conjI impI; (rule exI, rule refl)?)
          apply (rule read_journal_int [OF H2 [simplified]])
              apply (use J' mx in simp_all)[4]
          subgoal premises H3 for j3 s3
            apply simp
            apply (rule read_journal [OF H3(2) [simplified]])
                 apply (use J' mx in simp_all)[5]
            apply (use no' J' in auto)
            done
          done
        done
      done
  qed
qed

text \<open>What comes before and after the loop over the headers.\<close>

lemma playback_frame:
  assumes h: "holds p s D J" and p: "1 \<le> pageSize p" "pageSize p < 2 ^ 32" "nat (pageSize p) \<le> length (pTmpSpace p)"
    and J: "length J \<noteq> 1" "length J < 2 ^ 61" "16 \<le> length J \<longrightarrow> available J (int (length J) - 8) 8 \<noteq> aJournalMagic"
    and mx: "8 \<le> mx"
    and loop: "\<And>j z t. holds (p\<lparr>jfd := j, pTmpSpace := z, journalOff := 0\<rparr>) t D J \<Longrightarrow> length z = length (pTmpSpace p) \<Longrightarrow>
      ensures (playback_headers E True (int (length J)) True 0 (p\<lparr>jfd := j, pTmpSpace := z, journalOff := 0\<rparr>, t))
        (\<lambda>(rc, n, p', s'). rc = SQLITE_OK \<and> n = N \<and> holds p' s' D' J \<and> hot J p' \<and> 0 \<le> pageSize p' \<and>
          pageSize p' < 2 ^ 32 \<and> nat (pageSize p') \<le> length (pTmpSpace p'))"
  shows "ensures (playback_journal E True (p, s)) (\<lambda>(rc, (n, res), p', s'). rc = SQLITE_OK \<and> res \<and>
    n = N \<and> holds p' s' D' J \<and> pageSize p' = pageSize p)"
proof -
  have tmp: "pTmpSpace p \<noteq> []" using p by auto
  have zl: "overwrite (pTmpSpace p) 0 [0] ! 0 = 0" "length (overwrite (pTmpSpace p) 0 [0]) = length (pTmpSpace p)"
    using tmp by (simp_all add: overwrite_def Suc_le_eq)
  have w: "uint (word_of_int (pageSize p) :: u32) = pageSize p" using p by (simp add: uint_word_of_int)
  let ?z = "overwrite (pTmpSpace p) 0 [0]"
  have "ensures (on_jfd (xFileSize E) (p, s)) (\<lambda>(rc, x, q, t). rc = SQLITE_OK \<and> x = int (length J) \<and>
      holds q t D J \<and> (\<exists>j. q = p\<lparr>jfd := Some j\<rparr>))"
  proof (rule size_of_journal [OF h J(1)])
    show "length J < 2 ^ 62" using J(2) by simp
  qed auto
  then obtain j1 s1 where r1: "on_jfd (xFileSize E) (p, s) = Some (SQLITE_OK, int (length J), p\<lparr>jfd := Some j1\<rparr>, s1)"
    and h1: "holds (p\<lparr>jfd := Some j1\<rparr>) s1 D J" by (auto simp: ensures_def)
  obtain j2 s2 where r2: "readMasterJournal E (pTmpSpace p) (word_of_int (mxPathname E + 1)) (p\<lparr>jfd := Some j1\<rparr>, s1) =
      Some (SQLITE_OK, ?z, p\<lparr>jfd := Some j2\<rparr>, s2)" and h2: "holds (p\<lparr>jfd := Some j2\<rparr>) s2 D J"
    using no_master_spec [OF h1 tmp J mx, of "word_of_int (mxPathname E + 1)"] by (auto simp: ensures_def)
  let ?p = "p\<lparr>jfd := Some j2, pTmpSpace := ?z, journalOff := 0\<rparr>"
  obtain q t where r3: "playback_headers E True (int (length J)) True 0 (?p, s2) = Some (SQLITE_OK, N, q, t)"
    and q: "holds q t D' J" "hot J q" "0 \<le> pageSize q" "pageSize q < 2 ^ 32" "nat (pageSize q) \<le> length (pTmpSpace q)"
    using loop [where j = "Some j2" and z = ?z and t = s2] h2 zl(2) by (auto simp: ensures_def)
  have "ensures (sqlite3PagerSetPagesize E (word_of_int (pageSize p)) (- 1) (q, t)) (\<lambda>(rc, _, p', s').
      rc = SQLITE_OK \<and> holds p' s' D' J \<and> pageSize p' = pageSize p)"
    by (rule ensures_weaken, rule set_pagesize_spec [OF _ _ _ _ _ _ _ _ w]) (use q p in \<open>auto simp: hot_def\<close>)
  then obtain w q1 t1 where r4: "sqlite3PagerSetPagesize E (word_of_int (pageSize p)) (- 1) (q, t) = Some (SQLITE_OK, w, q1, t1)"
    and q1: "holds q1 t1 D' J" "pageSize q1 = pageSize p" by (auto simp: ensures_def)
  show ?thesis
    using r1 r2 r3 r4 zl q1 by (simp add: playback_journal_def if_ok_def Let_def)
qed

text \<open>
  The journal of a transaction is played back: the code returns with success and the database
  has its original bytes.
\<close>

lemma hot_journal_restores:
  assumes h: "holds p s D J" and p: "hot J p" "1 \<le> pageSize p" "pageSize p < 2 ^ 32" "nat (pageSize p) \<le> length (pTmpSpace p)"
      "sectorSz p \<le> int (length J)"
    and at: "journal_at sz ss dbs J 0 segs" "segs \<noteq> []" and sizes: "journal_sizes sz ss" "sz \<le> mx"
    and no: "available J (int (length J) - 8) 8 \<noteq> aJournalMagic"
    and D: "length D \<noteq> 1" "length D < 2 ^ 61"
    and recs: "\<forall>r \<in> set (journal_records segs). record_ok sz r \<and>
      (fst r \<le> dbs \<longrightarrow> snd r = page_of sz Orig (uint (fst r)))"
    and len: "int (length Orig) = uint dbs * sz"
    and same: "\<forall>k. 1 \<le> k \<and> k \<le> uint dbs \<longrightarrow>
      k \<in> uint ` fst ` set (journal_records segs) \<or> page_same sz Orig D k"
  shows "ensures (playback_journal E True (p, s)) (\<lambda>(rc, (n, res), p', s'). rc = SQLITE_OK \<and> res \<and>
    n = length (journal_records segs) \<and> holds p' s' Orig J \<and> pageSize p' = pageSize p)"
proof -
  note szs = journal_sizesD [OF sizes(1)]
  have mx: "8 \<le> mx" using szs sizes(2) by simp
  obtain ck rs segs' where segs: "segs = (ck, rs) # segs'" using at(2) by (cases segs) auto
  define m where "m = int (length rs) * (sz + 8)"
  have A: "ss + m \<le> int (length J)" "length rs < 2 ^ 32 - 1"
    "available J 0 28 = header_bytes (word_of_nat (length rs)) ck dbs ss sz"
    "available J ss m = concat (map (record_bytes sz ck) rs)" "journal_at sz ss dbs J (ss + m) segs'"
    using at(1) by (simp_all add: segs m_def Let_def next_sector_def)
  have m: "0 \<le> m" using szs by (simp add: m_def)
  have J: "16 \<le> length J" "length J < 2 ^ 61" "length J \<noteq> 1" using A(1) m szs p(1) by (auto simp: hot_def)
  define Q where "Q = (\<lambda>(rc :: cint, n :: nat, p', s'). rc = SQLITE_OK \<and> n = length (journal_records segs) \<and>
    holds p' s' Orig J \<and> hot J p' \<and> pageSize p' = sz \<and> nat sz \<le> length (pTmpSpace p'))"
  have loop: "ensures (playback_headers E True (int (length J)) True 0 (p1, s1)) Q"
    if H: "holds p1 s1 D J" and P: "hot J p1" "0 \<le> pageSize p1" "pageSize p1 < 2 ^ 32"
      "nat (pageSize p1) \<le> length (pTmpSpace p1)" "journalOff p1 = 0" "sectorSz p1 \<le> int (length J)" for p1 s1
  proof -
    have "ensures (readJournalHdr E True (int (length J)) (p1, s1)) (\<lambda>(rc, x, p', s'). rc = SQLITE_OK \<and>
      x = (word_of_nat (length rs), dbs) \<and> holds p' s' D J \<and> ready sz J p' \<and> sectorSz p' = ss \<and>
      journalOff p' = ss \<and> cksumInit p' = ck)"
      by (rule first_header_spec [OF H P _ A(3) sizes]) (use A(1) m in simp)
    then obtain q t where hd: "readJournalHdr E True (int (length J)) (p1, s1) = Some (SQLITE_OK, (word_of_nat (length rs), dbs), q, t)"
      and q: "holds q t D J" "ready sz J q" "sectorSz q = ss" "journalOff q = ss" "cksumInit q = ck"
      by (auto simp: ensures_def)
    obtain q1 t1 where tr: "pager_truncate E dbs (q, t) = Some (SQLITE_OK, (), q1, t1)"
      and q1: "holds q1 t1 (cut_database sz dbs D) J" "kept q q1" "journalOff q1 = ss"
      using truncate_spec [OF q(1,2) D, of dbs] q(4) by (auto simp: ensures_def)
    let ?q = "q1\<lparr>dbSize := dbs\<rparr>"
    have q2: "holds ?q t1 (cut_database sz dbs D) J" "ready sz J ?q" "sectorSz ?q = ss" "cksumInit ?q = ck"
      using q1 q by (simp_all add: kept_def ready_def)
    have rs: "\<forall>r \<in> set rs. record_ok sz r" "\<forall>r \<in> set (journal_records segs'). record_ok sz r"
      using recs by (simp_all add: segs journal_records_def)
    have "ensures (playback_records E (int (length J)) (length rs) True 0 (?q, t1)) (\<lambda>(go, rc, need', n', p', s').
      go \<and> rc = SQLITE_OK \<and> n' = 0 + length rs \<and> holds p' s' (fold (put_page sz (dbSize ?q)) rs (cut_database sz dbs D)) J \<and>
      kept ?q p' \<and> journalOff p' = ss + int (length rs) * (sz + 8))"
      by (rule playback_records_spec [OF q2(1,2)]) (use A szs q1 q2 rs in \<open>auto simp: m_def [symmetric]\<close>)
    then obtain need q3 t3 where rr: "playback_records E (int (length J)) (length rs) True 0 (?q, t1) =
        Some (True, SQLITE_OK, need, length rs, q3, t3)"
      and q3: "holds q3 t3 (fold (put_page sz dbs) rs (cut_database sz dbs D)) J" "kept ?q q3" "journalOff q3 = ss + m"
      by (auto simp: ensures_def m_def)
    have q3': "ready sz J q3" "sectorSz q3 = ss" "dbSize q3 = dbs"
      using q3(2) q2 by (simp_all add: kept_def ready_def)
    have pos: "0 < ss + m" using szs m by simp
    have "ensures (playback_headers E True (int (length J)) need (length rs) (q3, t3)) (\<lambda>(rc, n', p', s'). rc = SQLITE_OK \<and>
      n' = length rs + length (journal_records segs') \<and>
      holds p' s' (fold (put_page sz (dbSize q3)) (journal_records segs') (fold (put_page sz dbs) rs (cut_database sz dbs D))) J \<and>
      kept_loop q3 p')"
      by (rule later_headers_spec [OF q3(1) q3'(1,2) q3(3) pos A(5) sizes(1) rs(2)])
    moreover have "fold (put_page sz dbs) (journal_records segs') (fold (put_page sz dbs) rs (cut_database sz dbs D)) = Orig"
      using records_restore [OF _ len recs same] szs by (simp add: segs journal_records_def)
    ultimately have "ensures (playback_headers E True (int (length J)) need (length rs) (q3, t3)) Q"
      by (elim ensures_weaken) (use q3' in \<open>auto simp: Q_def segs journal_records_def kept_loop_def kept_def ready_hot hot_def\<close>)
    moreover have "journalOff q = JOURNAL_HDR_SZ q" using q by (simp add: JOURNAL_HDR_SZ_def)
    ultimately show ?thesis
      using rr tr by (subst playback_headers.simps) (simp add: hd records_after_hot [OF A(2)])
  qed
  show ?thesis
  proof (rule playback_frame [OF h p(2-4) J(3,2) _ mx])
    show "ensures (playback_headers E True (int (length J)) True 0 (p\<lparr>jfd := j, pTmpSpace := z, journalOff := 0\<rparr>, t))
        (\<lambda>(rc, n, p', s'). rc = SQLITE_OK \<and> n = length (journal_records segs) \<and> holds p' s' Orig J \<and> hot J p' \<and>
          0 \<le> pageSize p' \<and> pageSize p' < 2 ^ 32 \<and> nat (pageSize p') \<le> length (pTmpSpace p'))"
      if "holds (p\<lparr>jfd := j, pTmpSpace := z, journalOff := 0\<rparr>) t D J" "length z = length (pTmpSpace p)" for j z t
      by (rule ensures_weaken [OF loop]) (use that p szs in \<open>auto simp: hot_def Q_def\<close>)
  qed (use no in simp)
qed

text \<open>
  A journal that does not start with a header is not played back at all: the code returns with
  success and the database is as it was.
\<close>

lemma headless_journal_ignored:
  assumes h: "holds p s D J" and p: "hot J p" "1 \<le> pageSize p" "pageSize p < 2 ^ 32" "nat (pageSize p) \<le> length (pTmpSpace p)"
      "8 \<le> sectorSz p" and J: "length J \<noteq> 1" "16 \<le> length J \<longrightarrow> available J (int (length J) - 8) 8 \<noteq> aJournalMagic"
    and head: "take 8 J \<noteq> aJournalMagic" and mx: "8 \<le> mx"
  shows "ensures (playback_journal E True (p, s)) (\<lambda>(rc, (n, res), p', s'). rc = SQLITE_OK \<and> res \<and>
    n = 0 \<and> holds p' s' D J \<and> pageSize p' = pageSize p)"
proof (rule playback_frame [OF h p(2-4) J(1) _ J(2) mx])
  show l: "length J < 2 ^ 61" using p(1) by (simp add: hot_def)
  fix j z t assume H: "holds (p\<lparr>jfd := j, pTmpSpace := z, journalOff := 0\<rparr>) t D J" "length z = length (pTmpSpace p)"
  let ?p = "p\<lparr>jfd := j, pTmpSpace := z, journalOff := 0\<rparr>"
  have "ensures (readJournalHdr E True (int (length J)) (?p, t)) (\<lambda>(rc, x, p', s'). rc = SQLITE_DONE \<and>
    holds p' s' D J \<and> hot J p' \<and> pageSize p' = pageSize p \<and> length (pTmpSpace p') = length (pTmpSpace p))"
  proof (cases "int (length J) < sectorSz p")
    case True
    then show ?thesis using H p by (auto simp: hot_def readJournalHdr_def journalHdrOffset_def JOURNAL_HDR_SZ_def Let_def)
  next
    case False
    have bad: "available J 0 8 \<noteq> aJournalMagic" using head by (simp add: available_def)
    show ?thesis
      unfolding readJournalHdr_def Let_def prod.case ensures_simps ensures_if_ok
      apply (simp add: JOURNAL_HDR_SZ_def journalHdrOffset_def False)
      apply (rule check_magic_spec [OF H(1)])
          apply (use False p l mx in auto)[4]
      apply (use bad H(2) p in \<open>auto simp: hot_def\<close>)
      done
  qed
  then show "ensures (playback_headers E True (int (length J)) True 0 (?p, t))
      (\<lambda>(rc, n, p', s'). rc = SQLITE_OK \<and> n = 0 \<and> holds p' s' D J \<and> hot J p' \<and>
        0 \<le> pageSize p' \<and> pageSize p' < 2 ^ 32 \<and> nat (pageSize p') \<le> length (pTmpSpace p'))"
    using p H by (subst playback_headers.simps) (auto simp: ensures_def hot_def)
qed

end

end
