(* ===== verification/Journal_Write.thy ===== *)
theory Journal_Write
  imports Journal_Restore
begin

text \<open>
  Writing the journal: after the pages of a transaction have been added and the journal has been
  synced, its file has the format that playing it back expects.
\<close>

lemma ensures_unitE:
  assumes "ensures r (\<lambda>(rc, _, p, s). Q rc p s)"
  obtains rc p s where "r = Some (rc, (), p, s)" "Q rc p s"
  using assms by (auto simp: ensures_def)

section \<open>Segments that are complete\<close>

fun journal_part ::
  "int \<Rightarrow> int \<Rightarrow> Pgno \<Rightarrow> bytes \<Rightarrow> int \<Rightarrow> (u32 \<times> (Pgno \<times> bytes) list) list \<Rightarrow> int \<Rightarrow> bool" where
  "journal_part sz ss dbs J off [] e \<longleftrightarrow> e = off"
| "journal_part sz ss dbs J off ((ck, rs) # segs) e \<longleftrightarrow>
     (let h = next_sector ss off; n = int (length rs) * (sz + 8) in
      h + ss + n \<le> int (length J) \<and> length rs < 2 ^ 32 - 1 \<and>
      available J h 28 = header_bytes (word_of_nat (length rs)) ck dbs ss sz \<and>
      available J (h + ss) n = concat (map (record_bytes sz ck) rs) \<and>
      journal_part sz ss dbs J (h + ss + n) segs e)"

lemma journal_part_at:
  "journal_part sz ss dbs J off segs e \<Longrightarrow> journal_at sz ss dbs J e [] \<Longrightarrow> journal_at sz ss dbs J off segs"
  by (induction sz ss dbs J off segs e rule: journal_part.induct) (auto simp: Let_def)

lemma journal_part_snoc:
  "journal_part sz ss dbs J off segs e \<Longrightarrow> journal_part sz ss dbs J e [seg] e' \<Longrightarrow>
     journal_part sz ss dbs J off (segs @ [seg]) e'"
  by (induction sz ss dbs J off segs e rule: journal_part.induct) (auto simp: Let_def)

text \<open>The first \<open>e\<close> bytes are as before.\<close>

definition extends :: "int \<Rightarrow> bytes \<Rightarrow> bytes \<Rightarrow> bool" where
  "extends e J J' \<longleftrightarrow> e \<le> int (length J) \<and> length J \<le> length J' \<and> take (nat e) J' = take (nat e) J"

lemma extends_refl: "e \<le> int (length J) \<Longrightarrow> extends e J J"
  by (simp add: extends_def)

lemma extends_trans [trans]: "extends e J J1 \<Longrightarrow> extends e J1 J2 \<Longrightarrow> extends e J J2"
  by (simp add: extends_def)

lemma extends_less: "extends e J J' \<Longrightarrow> d \<le> e \<Longrightarrow> extends d J J'"
proof -
  assume a: "extends e J J'" "d \<le> e"
  then have "take (nat d) (take (nat e) J') = take (nat d) (take (nat e) J)" by (simp add: extends_def)
  then show ?thesis using a by (simp add: extends_def min_absorb1 nat_mono)
qed

lemma extends_available:
  assumes "extends e J J'" "0 \<le> a" "a + n \<le> e"
  shows "available J' a n = available J a n"
proof (cases "0 \<le> n")
  case True
  have *: "available X a n = available (take (nat e) X) a n" for X :: bytes
    using available_available [OF order_refl assms(2), of n e X] assms(3) by (simp add: available_def)
  show ?thesis using *[of J] *[of J'] assms(1) by (simp add: extends_def)
qed (simp add: available_def)

lemma length_write_at_ge: "length J \<le> length (write_at J off b)"
proof (cases "b = []")
  case False
  then show ?thesis by (simp only: length_write_at [OF False] max.cobounded1)
qed (simp add: write_at_def)

lemma extends_write:
  assumes "e \<le> int (length J)" "e \<le> int off" shows "extends e J (write_at J off b)"
proof -
  have "nat e \<le> off" "nat e \<le> length J" using assms by simp_all
  then have "take (nat e) (write_at J off b) = take (nat e) J" by (simp add: write_at_def)
  then show ?thesis using assms(1) length_write_at_ge by (simp add: extends_def)
qed

lemma journal_part_extends:
  assumes "journal_part sz ss dbs J off segs e" "extends e J J'" "0 \<le> off" "28 \<le> ss" "0 \<le> sz"
  shows "journal_part sz ss dbs J' off segs e \<and> off \<le> e"
  using assms
proof (induction sz ss dbs J off segs e rule: journal_part.induct)
  case (2 sz ss dbs J off ck rs segs e)
  define h where "h = next_sector ss off"
  define n where "n = int (length rs) * (sz + 8)"
  have n: "0 \<le> n" using 2 by (simp add: n_def)
  have h: "off \<le> h" using next_sector_ge [of ss off] 2 by (simp add: h_def)
  have P: "h + ss + n \<le> int (length J)" "length rs < 2 ^ 32 - 1"
    "available J h 28 = header_bytes (word_of_nat (length rs)) ck dbs ss sz"
    "available J (h + ss) n = concat (map (record_bytes sz ck) rs)" "journal_part sz ss dbs J (h + ss + n) segs e"
    using 2(2) by (simp_all add: h_def n_def Let_def)
  have IH: "journal_part sz ss dbs J' (h + ss + n) segs e" "h + ss + n \<le> e"
    using 2(1) [OF h_def n_def P(5) 2(3)] h n 2(4-6) by simp_all
  note same = extends_available [OF 2(3)]
  have "available J' h 28 = available J h 28" "available J' (h + ss) n = available J (h + ss) n"
    using same [of h 28] same [of "h + ss" n] h n IH(2) 2(4,5) by simp_all
  moreover have "length J \<le> length J'" using 2(3) by (simp add: extends_def)
  ultimately show ?case using P IH h n 2(5) by (simp add: h_def n_def Let_def)
qed simp


lemma journal_part_le:
  "journal_part sz ss dbs J off segs e \<Longrightarrow> 0 \<le> off \<Longrightarrow> 0 < ss \<Longrightarrow> 0 \<le> sz \<Longrightarrow> off \<le> e"
proof (induction sz ss dbs J off segs e rule: journal_part.induct)
  case (2 sz ss dbs J off ck rs segs e)
  have *: "off \<le> next_sector ss off" "0 \<le> int (length rs) * (sz + 8)" using next_sector_ge [of ss off] 2 by simp_all
  have "next_sector ss off + ss + int (length rs) * (sz + 8) \<le> e"
    by (rule 2(1) [OF refl refl]) (use 2(2-5) * in \<open>simp_all add: Let_def\<close>)
  then show ?case using * 2(4) by linarith
qed simp

lemma not_magic: "zeroed 8 \<noteq> aJournalMagic" "hd b = 0 \<Longrightarrow> b \<noteq> aJournalMagic"
proof -
  have "hd aJournalMagic \<noteq> 0" "hd (zeroed 8) = 0" by (simp_all add: aJournalMagic_def zeroed_def)
  then show "zeroed 8 \<noteq> aJournalMagic" "hd b = 0 \<Longrightarrow> b \<noteq> aJournalMagic" by auto
qed

lemma next_sector_bound:
  assumes "0 < ss" "0 \<le> off" shows "next_sector ss off < off + ss"
proof (cases "off = 0")
  case False
  have "(off - 1) div ss * ss + (off - 1) mod ss = off - 1" "0 \<le> (off - 1) mod ss" using assms by simp_all
  moreover have "((off - 1) div ss + 1) * ss = (off - 1) div ss * ss + ss" by (simp add: distrib_right)
  ultimately have "((off - 1) div ss + 1) * ss < off + ss" by linarith
  then show ?thesis using False by (simp add: next_sector_def)
qed (use assms in \<open>simp add: next_sector_def\<close>)

section \<open>A journal that is being written\<close>

text \<open>
  The segments \<open>segs\<close> are complete; the last header, which does not count yet, is followed by
  the records \<open>rs\<close>. The file ends there, or at \<open>L\<close>, where it ended before.
\<close>

definition writing ::
  "int \<Rightarrow> int \<Rightarrow> int \<Rightarrow> Pgno \<Rightarrow> (u32 \<times> (Pgno \<times> bytes) list) list \<Rightarrow> (Pgno \<times> bytes) list \<Rightarrow> 'f Pager \<Rightarrow> bytes \<Rightarrow> bool" where
  "writing L sz ss dbs segs rs p J \<longleftrightarrow>
     (\<exists>e. journal_part sz ss dbs J 0 segs e \<and> journalHdr p = next_sector ss e) \<and>
     nRec p = word_of_nat (length rs) \<and> length rs < 2 ^ 32 - 1 \<and>
     journalOff p = journalHdr p + ss + int (length rs) * (sz + 8) \<and> journalOff p \<le> int (length J) \<and>
     int (length J) \<le> max L (journalOff p) \<and> available J (journalHdr p) 8 \<noteq> aJournalMagic \<and>
     available J (journalHdr p + 12) 16 = drop 12 (header_bytes 0 (cksumInit p) dbs ss sz) \<and>
     available J (journalHdr p + ss) (int (length rs) * (sz + 8)) = concat (map (record_bytes sz (cksumInit p)) rs)"

definition journals :: "int \<Rightarrow> int \<Rightarrow> Pgno \<Rightarrow> int \<Rightarrow> 'f Pager \<Rightarrow> bool" where
  "journals sz ss dbs mx p \<longleftrightarrow> pageSize p = sz \<and> sectorSz p = ss \<and> dbOrigSize p = dbs \<and>
     \<not> noSync p \<and> journalMode p \<noteq> PAGER_JOURNALMODE_MEMORY \<and> nat sz \<le> length (pTmpSpace p) \<and>
     pInJournal p \<noteq> None \<and> 512 \<le> sz \<and> sz \<le> mx \<and> 32 \<le> ss \<and> ss \<le> 65536 \<and> (ss \<le> sz \<or> sz dvd ss) \<and>
     exclusively_locked p"

text \<open>A crash at any time leaves the complete segments to be played back.\<close>

lemma writing_at: "writing L sz ss dbs segs rs p J \<Longrightarrow> journal_at sz ss dbs J 0 segs"
  by (auto simp: writing_def intro: journal_part_at)

text \<open>The segments are complete and synced up to \<open>off\<close>, and nothing follows.\<close>

definition counted :: "int \<Rightarrow> int \<Rightarrow> int \<Rightarrow> Pgno \<Rightarrow> (u32 \<times> (Pgno \<times> bytes) list) list \<Rightarrow> int \<Rightarrow> bytes \<Rightarrow> bool" where
  "counted L sz ss dbs segs off J \<longleftrightarrow> journal_part sz ss dbs J 0 segs off \<and> journal_at sz ss dbs J off [] \<and>
     off \<le> int (length J) \<and> int (length J) \<le> max L off"

lemma writing_length: "writing L sz ss dbs segs rs p J \<Longrightarrow> int (length J) \<le> max L (journalOff p)"
  unfolding writing_def by blast

lemma writing_bounds:
  assumes "writing L sz ss dbs segs rs p J" "32 \<le> ss" "0 \<le> sz"
  shows "0 \<le> journalOff p" "0 \<le> journalHdr p" "journalHdr p < journalOff p" "journalOff p \<le> int (length J)"
proof -
  obtain e where e: "journal_part sz ss dbs J 0 segs e" "journalHdr p = next_sector ss e"
    using assms(1) by (auto simp: writing_def)
  have "0 \<le> e" using journal_part_le [OF e(1)] assms by simp
  then show h: "0 \<le> journalHdr p" using e(2) next_sector_ge [of ss e] assms by simp
  have n: "0 \<le> int (length rs) * (sz + 8)" using assms(3) by simp
  have o: "journalOff p = journalHdr p + ss + int (length rs) * (sz + 8)" "journalOff p \<le> int (length J)"
    using assms(1) by (simp_all add: writing_def)
  then show "0 \<le> journalOff p" "journalHdr p < journalOff p" using h n assms(2) by linarith+
  show "journalOff p \<le> int (length J)" by (rule o(2))
qed

lemma writing_cong:
  assumes "writing L sz ss dbs segs rs p J" and "journalHdr q = journalHdr p" "journalOff q = journalOff p"
    "nRec q = nRec p" "cksumInit q = cksumInit p"
  shows "writing L sz ss dbs segs rs q J"
  using assms(1) unfolding writing_def assms(2-5) .

context two_files
begin

lemma write_header_spec:
  assumes "holds p s D J" "0 < nH" "nH \<le> mx" "nat nH \<le> length z" "sectorSz p = ss"
    "ss - nWrite = int k * nH" "0 \<le> journalOff p" "journalOff p + int k * nH < 2 ^ 61"
    "0 \<le> e" "e \<le> journalOff p" "e \<le> int (length J)"
  shows "ensures (write_header E z nH nWrite (p, s)) (\<lambda>(rc, _, p', s'). rc = SQLITE_OK \<and>
    (\<exists>J' j. holds p' s' D J' \<and> p' = p\<lparr>jfd := j, journalOff := journalOff p + int k * nH\<rparr> \<and> extends e J J' \<and>
      int (length J') \<le> max (int (length J)) (journalOff p + int k * nH) \<and>
      (0 < k \<longrightarrow> journalOff p + int k * nH \<le> int (length J') \<and>
        available J' (journalOff p) nH = take (nat nH) z)))"
  using assms
proof (induction k arbitrary: p s J nWrite e)
  case 0
  have "write_header E z nH nWrite (p, s) = Some (SQLITE_OK, (), p, s)"
    using 0 by (subst write_header.simps) (simp add: JOURNAL_HDR_SZ_def)
  moreover have "p = p\<lparr>jfd := jfd p, journalOff := journalOff p + int 0 * nH\<rparr>" by simp
  ultimately show ?case
    using 0(1) extends_refl [OF 0(11)] max.cobounded1 [of "int (length J)" "journalOff p + int 0 * nH"] by (simp only: ensures_simps prod.case) blast
next
  case (Suc k)
  let ?b = "take (nat nH) z"
  let ?J = "write_at J (nat (journalOff p)) ?b"
  have b: "int (length ?b) = nH" "?b \<noteq> []" using Suc.prems by auto
  have grown: "int (length ?J) \<le> max (int (length J)) (journalOff p + nH)"
    by (simp only: length_write_at [OF b(2)]) (use b Suc.prems in simp)
  have grow: "journalOff p + nH \<le> int (length ?J)"
    using Suc.prems by (simp only: length_write_at [OF b(2)]) (use b Suc.prems in simp)
  have ks: "int (Suc k) * nH = int k * nH + nH" by (simp add: distrib_right)
  have kn: "0 \<le> int k * nH" "ss - nWrite = int k * nH + nH" "journalOff p + nH + int k * nH < 2 ^ 61"
    using Suc.prems(2,6,8) unfolding ks by auto
  have "nWrite < ss" using kn(1,2) Suc.prems(2) by linarith
  then have lt: "nWrite < JOURNAL_HDR_SZ p" using Suc.prems(5) by (simp add: JOURNAL_HDR_SZ_def)
  show ?case
    apply (subst write_header.simps)
    apply (simp only: fst_conv if_P [OF lt] ensures_simps)
    apply (rule write_journal [OF Suc.prems(1-3)])
       apply (use Suc.prems(4,7,8) kn in simp_all)[3]
    subgoal premises P for j s'
    proof -
      let ?p = "p\<lparr>jfd := Some j, journalOff := journalOff p + nH\<rparr>"
      have H: "holds ?p s' D ?J" using P by (simp add: holds_def)
      have "ensures (write_header E z nH (nWrite + nH) (?p, s')) (\<lambda>(rc, _, p', s'). rc = SQLITE_OK \<and>
        (\<exists>J' j. holds p' s' D J' \<and> p' = ?p\<lparr>jfd := j, journalOff := journalOff ?p + int k * nH\<rparr> \<and>
          extends (journalOff p + nH) ?J J' \<and> int (length J') \<le> max (int (length ?J)) (journalOff ?p + int k * nH) \<and>
          (0 < k \<longrightarrow> journalOff ?p + int k * nH \<le> int (length J') \<and> available J' (journalOff ?p) nH = take (nat nH) z)))"
        by (rule Suc.IH [OF H Suc.prems(2-4)]) (use Suc.prems(2,5,7) kn grow in simp_all)
      then obtain rc p2 s2 where r: "write_header E z nH (nWrite + nH) (?p, s') = Some (rc, (), p2, s2)"
        and x: "rc = SQLITE_OK \<and>
        (\<exists>J' j. holds p2 s2 D J' \<and> p2 = ?p\<lparr>jfd := j, journalOff := journalOff ?p + int k * nH\<rparr> \<and>
          extends (journalOff p + nH) ?J J' \<and> int (length J') \<le> max (int (length ?J)) (journalOff ?p + int k * nH) \<and>
          (0 < k \<longrightarrow> journalOff ?p + int k * nH \<le> int (length J') \<and> available J' (journalOff ?p) nH = take (nat nH) z))"
        by (rule ensures_unitE)
      obtain J' j2 where R: "holds p2 s2 D J'" "p2 = ?p\<lparr>jfd := j2, journalOff := journalOff ?p + int k * nH\<rparr>"
          "extends (journalOff p + nH) ?J J'" "int (length J') \<le> max (int (length ?J)) (journalOff ?p + int k * nH)" "0 < k \<longrightarrow> journalOff ?p + int k * nH \<le> int (length J')"
        and rc: "rc = SQLITE_OK" using x by blast
      have "extends e ?J J'" using R(3) by (rule extends_less) (use Suc.prems(2,10) in simp)
      then have X: "extends e J J'"
        by (rule extends_trans [rotated]) (rule extends_write, use Suc.prems(7,10,11) in simp_all)
      have "available J' (journalOff p) nH = available ?J (journalOff p) nH"
        using extends_available [OF R(3)] Suc.prems(7) by simp
      also have "available ?J (journalOff p) nH = ?b"
        using available_write_at(1) [OF b(2), of "journalOff p" J] Suc.prems(7) b(1) by simp
      finally have Y: "available J' (journalOff p) nH = ?b" .
      have Z: "journalOff p + int (Suc k) * nH = journalOff p + nH + int k * nH" unfolding ks by simp
      have V: "int (length J') \<le> max (int (length J)) (journalOff p + nH + int k * nH)"
        using R(4) grown kn(1) by simp
      have W: "journalOff p + nH + int k * nH \<le> int (length J')"
        using R(3,5) grow by (cases "k = 0") (auto simp: extends_def simp del: One_nat_def)
      have "p2 = p\<lparr>jfd := j2, journalOff := journalOff p + int (Suc k) * nH\<rparr>" unfolding R(2) Z by simp
      moreover have "(let p = p\<lparr>jfd := Some j, journalOff := journalOff (p\<lparr>jfd := Some j\<rparr>) + nH\<rparr> in
          if SQLITE_OK = SQLITE_OK then write_header E z nH (nWrite + nH) (p, s') else Some (SQLITE_OK, (), p, s')) =
          Some (SQLITE_OK, (), p2, s2)" using r rc by simp
      ultimately show ?thesis unfolding Z using R(1) X Y W V by (simp only: ensures_simps prod.case) blast
    qed
    done
qed

lemma header_pieces:
  assumes "journals sz ss dbs mx p"
  obtains k where "ss = int k * min sz ss" "0 < k" "28 < min sz ss" "min sz ss \<le> mx" "nat (min sz ss) \<le> length (pTmpSpace p)"
proof (rule that)
  have a: "512 \<le> sz" "32 \<le> ss" "ss \<le> sz \<or> sz dvd ss" "sz \<le> mx" "nat sz \<le> length (pTmpSpace p)"
    using assms by (simp_all add: journals_def)
  then have d: "min sz ss dvd ss" by (auto simp: min_def)
  have m: "28 < min sz ss" using a by simp
  have q: "0 < ss div min sz ss" using a d m by (auto simp: pos_imp_zdiv_pos_iff)
  show "ss = int (nat (ss div min sz ss)) * min sz ss" using q d by simp
  show "0 < nat (ss div min sz ss)" using q by simp
  show "28 < min sz ss" by (rule m)
  show "min sz ss \<le> mx" "nat (min sz ss) \<le> length (pTmpSpace p)" using a by linarith+
qed

lemma header_buffer:
  assumes "28 < n" "z = journal_header True p (nat n)" "pageSize p = sz" "sectorSz p = ss" "dbOrigSize p = dbs"
    and "available J h n = z" "0 \<le> h"
  shows "length z = nat n" "available J h 8 \<noteq> aJournalMagic"
    "available J (h + 12) 16 = drop 12 (header_bytes 0 (cksumInit p) dbs ss sz)"
proof -
  show "length z = nat n" using assms(1,2) by (simp add: journal_header_def zeroed_def)
  have sub: "available J (h + b) m = available z b m" if "0 \<le> b" "b + m \<le> n" for b m
    using available_available [OF assms(7) that, of J] assms(6) by simp
  have "available z 0 8 = zeroed 8" using assms(2) by (simp add: journal_header_def available_def zeroed_def)
  then show "available J h 8 \<noteq> aJournalMagic"
    using sub [of 0 8] assms(1) by (simp add: not_magic)
  have "available z 12 16 = drop 12 (header_bytes 0 (cksumInit p) dbs ss sz)"
    using assms(2-5) by (simp add: journal_header_def available_def zeroed_def header_bytes_def)
  then show "available J (h + 12) 16 = drop 12 (header_bytes 0 (cksumInit p) dbs ss sz)"
    using sub [of 12 16] assms(1) by simp
qed

lemma holds_savepoints [simp]:
  "holds (p\<lparr>aSavepoint := a, journalHdr := i, journalOff := o'\<rparr>) s D J = holds p s D J"
  "holds (p\<lparr>jfd := j, aSavepoint := a\<rparr>) s D J = holds (p\<lparr>jfd := j\<rparr>) s D J"
  by (simp_all add: holds_def)

lemma writeJournalHdr_spec:
  assumes h: "holds p s D J" and cfg: "journals sz ss dbs mx p"
    and J: "journal_part sz ss dbs J 0 segs (journalOff p)" "0 \<le> journalOff p" "journalOff p \<le> int (length J)"
      "journalOff p < 2 ^ 60" "int (length J) \<le> max L (journalOff p)" and n: "nRec p = 0"
  shows "ensures (writeJournalHdr E (p, s)) (\<lambda>(rc, _, p', s'). rc = SQLITE_OK \<and> (\<exists>J'. holds p' s' D J' \<and>
    journals sz ss dbs mx p' \<and> writing L sz ss dbs segs [] p' J' \<and> pPCache p' = pPCache p \<and>
    journalOff p' < journalOff p + 2 * ss))"
proof -
  obtain k where k: "ss = int k * min sz ss" "0 < k" "28 < min sz ss" "min sz ss \<le> mx"
    "nat (min sz ss) \<le> length (pTmpSpace p)" by (rule header_pieces [OF cfg])
  have c: "pageSize p = sz" "sectorSz p = ss" "dbOrigSize p = dbs" "\<not> noSync p" "journalMode p \<noteq> PAGER_JOURNALMODE_MEMORY"
    "32 \<le> ss" "ss \<le> 65536" "0 \<le> sz"
    using cfg by (simp_all add: journals_def)
  let ?h = "next_sector ss (journalOff p)"
  have hb: "journalOff p \<le> ?h" "?h < journalOff p + ss"
    using next_sector_ge [of ss "journalOff p"] next_sector_bound [of ss "journalOff p"] J(2) c by simp_all
  let ?p = "p\<lparr>aSavepoint := mark_savepoints (journalOff p) (aSavepoint p), journalHdr := ?h, journalOff := ?h\<rparr>"
  have h1: "holds ?p s D J" using h by simp
  obtain dc d s1 where dev: "on_fd (xDeviceCharacteristics E) (?p, s) = Some (dc, (), ?p\<lparr>pfd := Some d\<rparr>, s1)"
    and dc: "dc AND SQLITE_IOCAP_SAFE_APPEND = 0" "holds (?p\<lparr>pfd := Some d\<rparr>) s1 D J"
    using device_of_database [OF h1, where Q = "\<lambda>(dc, x, p', s'). \<exists>d. p' = ?p\<lparr>pfd := Some d\<rparr> \<and> holds p' s' D J \<and>
      dc AND SQLITE_IOCAP_SAFE_APPEND = 0"] by (auto simp: ensures_def)
  obtain rnd s2 where rnd: "randomness4 E s1 = (rnd, s2)" by (cases "randomness4 E s1")
  define q where "q = ?p\<lparr>pfd := Some d, cksumInit := rnd\<rparr>"
  define z where "z = journal_header True q (nat (min sz ss))"
  define b where "b = overwrite (pTmpSpace p) 0 z"
  have q: "pageSize q = sz" "sectorSz q = ss" "dbOrigSize q = dbs" "cksumInit q = rnd" "journalOff q = ?h" "pTmpSpace q = pTmpSpace p"
    using c by (simp_all add: q_def)
  have hq: "holds (q\<lparr>pTmpSpace := b\<rparr>) s2 D J" using holds_random [OF dc(2)] rnd by (simp add: q_def)
  have "28 < nat (min sz ss)" using k(3) by linarith
  then have lz: "length z = nat (min sz ss)" by (simp add: z_def journal_header_def zeroed_def)
  then have b: "take (nat (min sz ss)) b = z" "length b = length (pTmpSpace p)" "nat (min sz ss) \<le> length b"
    using k(5) by (simp_all add: b_def overwrite_def)
  have mem: "memcpy (pTmpSpace p) 0 z = Some b" using k(5) lz by (simp add: memcpy_def b_def)
  have "ensures (write_header E b (min sz ss) 0 (q\<lparr>pTmpSpace := b\<rparr>, s2)) (\<lambda>(rc, _, p', s'). rc = SQLITE_OK \<and>
    (\<exists>J' j. holds p' s' D J' \<and> p' = q\<lparr>pTmpSpace := b, jfd := j, journalOff := journalOff (q\<lparr>pTmpSpace := b\<rparr>) + int k * min sz ss\<rparr> \<and>
      extends (journalOff p) J J' \<and>
      int (length J') \<le> max (int (length J)) (journalOff (q\<lparr>pTmpSpace := b\<rparr>) + int k * min sz ss) \<and>
      (0 < k \<longrightarrow> journalOff (q\<lparr>pTmpSpace := b\<rparr>) + int k * min sz ss \<le> int (length J') \<and>
        available J' (journalOff (q\<lparr>pTmpSpace := b\<rparr>)) (min sz ss) = take (nat (min sz ss)) b)))"
    by (rule write_header_spec [OF hq _ k(4) b(3)]) (use q k(1) [symmetric] k(3) hb J c in simp_all)
  then obtain rc p2 s3 where w: "write_header E b (min sz ss) 0 (q\<lparr>pTmpSpace := b\<rparr>, s2) = Some (rc, (), p2, s3)"
    and x: "rc = SQLITE_OK \<and> (\<exists>J' j. holds p2 s3 D J' \<and>
      p2 = q\<lparr>pTmpSpace := b, jfd := j, journalOff := journalOff (q\<lparr>pTmpSpace := b\<rparr>) + int k * min sz ss\<rparr> \<and>
      extends (journalOff p) J J' \<and>
      int (length J') \<le> max (int (length J)) (journalOff (q\<lparr>pTmpSpace := b\<rparr>) + int k * min sz ss) \<and>
      (0 < k \<longrightarrow> journalOff (q\<lparr>pTmpSpace := b\<rparr>) + int k * min sz ss \<le> int (length J') \<and>
        available J' (journalOff (q\<lparr>pTmpSpace := b\<rparr>)) (min sz ss) = take (nat (min sz ss)) b))"
    by (rule ensures_unitE)
  obtain J' j where R: "holds p2 s3 D J'" "p2 = q\<lparr>pTmpSpace := b, jfd := j, journalOff := ?h + ss\<rparr>"
    "extends (journalOff p) J J'" "?h + ss \<le> int (length J')" "available J' ?h (min sz ss) = z"
    "int (length J') \<le> max (int (length J)) (?h + ss)"
    using x k(1) [symmetric] k(2) q(5) b(1) by auto
  note B = header_buffer [OF k(3) z_def q(1-3) R(5)]
  have part: "journal_part sz ss dbs J' 0 segs (journalOff p)"
    using journal_part_extends [OF J(1) R(3)] c by simp
  have len: "int (length J') \<le> max L (?h + ss)" using R(6) J(5) hb c by simp
  have "writing L sz ss dbs segs [] p2 J'"
    unfolding writing_def using part B R(4) len n hb J q by (auto simp: R(2) q_def available_def)
  moreover have "journals sz ss dbs mx p2" using cfg b(2) by (simp add: R(2) q_def journals_def)
  moreover have "journalOff p2 < journalOff p + 2 * ss" "pPCache p2 = pPCache p" using hb by (simp_all add: R(2) q_def)
  moreover have "writeJournalHdr E (p, s) = Some (SQLITE_OK, (), p2, s3)"
    using dev dc(1) rnd w x c mem
    by (simp add: writeJournalHdr_def Let_def next_sector_eq JOURNAL_HDR_SZ_def q_def z_def b_def)
  ultimately show ?thesis using R(1) by (simp only: ensures_simps prod.case) blast
qed

lemma bitvec_set_spec:
  assumes "holds p s D J" obtains s' where "bitvec_set E k B s = (SQLITE_OK, insert k B, s')" "holds p s' D J"
proof -
  obtain s' where "mallocs E s = (True, s')" "holds p s' D J" by (rule holds_allocs [OF assms])
  then show thesis by (intro that [of s']) (simp_all add: bitvec_set_def)
qed

lemma savepoints_spec:
  assumes "holds p s D J"
  shows "\<exists>sps' s'. addToSavepointBitvecs E k sps s = (SQLITE_OK, sps', s') \<and> holds p s' D J"
  using assms
proof (induction sps arbitrary: s)
  case (Cons sp sps)
  show ?case
  proof (cases "k \<le> nOrig sp")
    case True
    obtain s1 where s1: "bitvec_set E k (pInSavepoint sp) s = (SQLITE_OK, insert k (pInSavepoint sp), s1)" "holds p s1 D J"
      by (rule bitvec_set_spec [OF Cons.prems])
    obtain sps' s' where "addToSavepointBitvecs E k sps s1 = (SQLITE_OK, sps', s')" "holds p s' D J"
      using Cons.IH [OF s1(2)] by blast
    then show ?thesis using True s1(1) by simp
  next
    case False
    obtain sps' s' where "addToSavepointBitvecs E k sps s = (SQLITE_OK, sps', s')" "holds p s' D J"
      using Cons.IH [OF Cons.prems] by blast
    then show ?thesis using False by simp
  qed
qed simp

text \<open>The three writes of a record are one write of its bytes.\<close>

lemma write_record:
  assumes "0 \<le> off" "int (length d) = sz" "0 < sz"
  shows "write_at (write_at (write_at J (nat off) (sqlite3Put4byte k)) (nat (off + 4)) d)
     (nat (off + sz + 4)) (sqlite3Put4byte c) = write_at J (nat off) (sqlite3Put4byte k @ d @ sqlite3Put4byte c)"
proof -
  have "nat (off + 4) = nat off + length (sqlite3Put4byte k)"
    "nat (off + sz + 4) = nat off + length (sqlite3Put4byte k @ d)" using assms by auto
  then show ?thesis by (simp only: write_at_append append_assoc)
qed

lemma available_more:
  assumes "available J a n = x" "extends (a + n) J J'" "available J' (a + n) m = y" "0 \<le> a" "0 \<le> n" "0 \<le> m"
  shows "available J' a (n + m) = x @ y"
  using assms extends_available [OF assms(2,4)] by (simp add: available_split)

lemma writing_grows:
  assumes w: "writing L sz ss dbs segs rs p J" and r: "length (snd r) = nat sz" "0 < sz" "length rs + 1 < 2 ^ 32 - 1"
    and ss: "32 \<le> ss"
    and J': "J' = write_at J (nat (journalOff p)) (record_bytes sz (cksumInit p) r)"
    and q: "nRec q = nRec p + 1" "journalOff q = journalOff p + (sz + 8)" "journalHdr q = journalHdr p" "cksumInit q = cksumInit p"
  shows "writing L sz ss dbs segs (rs @ [r]) q J'"
proof -
  obtain e where e: "journal_part sz ss dbs J 0 segs e" "journalHdr p = next_sector ss e"
    using w by (auto simp: writing_def)
  let ?n = "int (length rs) * (sz + 8)"
  have W: "journalOff p = journalHdr p + ss + ?n" "journalOff p \<le> int (length J)" "nRec p = word_of_nat (length rs)"
    "available J (journalHdr p) 8 \<noteq> aJournalMagic"
    "available J (journalHdr p + 12) 16 = drop 12 (header_bytes 0 (cksumInit p) dbs ss sz)"
    "available J (journalHdr p + ss) ?n = concat (map (record_bytes sz (cksumInit p)) rs)"
    using w by (simp_all add: writing_def)
  have n: "0 \<le> ?n" using r(2) by simp
  have e0: "0 \<le> e" using journal_part_le [OF e(1)] r(2) ss by simp
  have h: "0 \<le> journalHdr p" "e \<le> journalHdr p" using e(2) next_sector_ge [of ss e] e0 ss by simp_all
  have b: "int (length (record_bytes sz (cksumInit p) r)) = sz + 8" "record_bytes sz (cksumInit p) r \<noteq> []"
    using length_record_bytes [OF r(1)] r(2) by (auto simp: record_bytes_def)
  have o0: "0 \<le> journalOff p" using h n ss W(1) by simp
  note new = available_write_at [OF b(2) o0, of J, unfolded b(1), folded J']
  have len: "int (length J') \<le> max L (journalOff q)"
    unfolding J' length_write_at [OF b(2)] using writing_length [OF w] b(1) o0 q(2) r(2) by simp
  have X: "extends (journalOff p) J J'" unfolding J' by (rule extends_write) (use W(2) o0 in simp_all)
  have part: "journal_part sz ss dbs J' 0 segs e"
    using journal_part_extends [OF e(1) extends_less [OF X]] h n ss r W(1) by simp
  have "available J' (journalHdr p) 8 = available J (journalHdr p) 8"
    "available J' (journalHdr p + 12) 16 = available J (journalHdr p + 12) 16"
    using extends_available [OF X, of "journalHdr p" 8] extends_available [OF X, of "journalHdr p + 12" 16] h n ss W(1) by simp_all
  moreover have "available J' (journalHdr p + ss) (?n + (sz + 8)) =
      concat (map (record_bytes sz (cksumInit p)) rs) @ record_bytes sz (cksumInit p) r"
    by (rule available_more [OF W(6)]) (use X new W(1) n h ss r in simp_all)
  moreover have "int (length (rs @ [r])) * (sz + 8) = ?n + (sz + 8)" by (simp add: distrib_right)
  ultimately show ?thesis
    unfolding writing_def using part e(2) W new(2) r(3) q len by auto
qed

lemma set_page_flags_simps [simp]:
  "holds (set_page_flags k fl p) s D J = holds p s D J" "journals sz ss dbs m (set_page_flags k fl p) = journals sz ss dbs m p"
  "journalOff (set_page_flags k fl p) = journalOff p" "journalHdr (set_page_flags k fl p) = journalHdr p"
  "cksumInit (set_page_flags k fl p) = cksumInit p" "nRec (set_page_flags k fl p) = nRec p"
  "pageSize (set_page_flags k fl p) = pageSize p" "aSavepoint (set_page_flags k fl p) = aSavepoint p"
  "pInJournal (set_page_flags k fl p) = pInJournal p"
  by (simp_all add: set_page_flags_def journals_def)

lemma set_page_flags_data [simp]:
  "map_option pData (pPCache (set_page_flags k fl p) i) = map_option pData (pPCache p i)"
  by (auto simp: set_page_flags_def split: option.splits)

lemma holds_bitvecs [simp]:
  "holds (p\<lparr>journalOff := i, nRec := n\<rparr>) s D J = holds p s D J"
  "holds (p\<lparr>journalOff := i, nRec := n, pInJournal := B, aSavepoint := a\<rparr>) s D J = holds p s D J"
  by (simp_all add: holds_def)

lemma add_page_spec:
  assumes h: "holds p s D J" and cfg: "journals sz ss dbs mx p" and w: "writing L sz ss dbs segs rs p J"
    and pg: "pPCache p k = Some pg" "length (pData pg) = nat sz" and room: "length rs + 1 < 2 ^ 32 - 1" "journalOff p < 2 ^ 60"
      "0 \<le> journalOff p"
  shows "ensures (pagerAddPageToRollbackJournal E k (p, s)) (\<lambda>(rc, _, p', s'). rc = SQLITE_OK \<and> (\<exists>J'. holds p' s' D J' \<and>
    journals sz ss dbs mx p' \<and> writing L sz ss dbs segs (rs @ [(k, pData pg)]) p' J' \<and> journalOff p' = journalOff p + (sz + 8) \<and>
    (\<forall>i. map_option pData (pPCache p' i) = map_option pData (pPCache p i))))"
proof -
  define q where "q = set_page_flags k PGHDR_NEED_SYNC p"
  have c: "pageSize p = sz" "0 < sz" "sz \<le> mx" "4 \<le> mx" "sz < 2 ^ 20" "32 \<le> ss"
    using cfg mx_small by (auto simp: journals_def)
  obtain B where B: "pInJournal p = Some B" using cfg by (auto simp: journals_def)
  have q: "holds q s D J" "journals sz ss dbs mx q" "journalOff q = journalOff p" "journalHdr q = journalHdr p" "nRec q = nRec p"
    "cksumInit q = cksumInit p" "pageSize q = sz" "pInJournal q = Some B"
    using h cfg c(1) B by (simp_all add: q_def)
  let ?off = "journalOff p"
  let ?ck = "cksum_loop (pData pg) (sz - 200) (cksumInit p)"
  let ?J1 = "write_at J (nat ?off) (sqlite3Put4byte k)"
  let ?J2 = "write_at ?J1 (nat (?off + 4)) (pData pg)"
  let ?J3 = "write_at ?J2 (nat (?off + sz + 4)) (sqlite3Put4byte ?ck)"
  have J3: "?J3 = write_at J (nat ?off) (record_bytes sz (cksumInit p) (k, pData pg))"
    using write_record [OF room(3) _ c(2), of "pData pg"] pg(2) c(2) by (simp add: record_bytes_def)
  have ck: "pager_cksum p (pData pg) = ?ck" using c(1) by (simp add: pager_cksum_def)
  have "ensures (write32bits E ?off k (q, s)) (\<lambda>(rc, _, p', s'). rc = SQLITE_OK \<and> (\<exists>j. p' = q\<lparr>jfd := Some j\<rparr>) \<and> holds p' s' D ?J1)"
    by (rule write_journal_int [OF q(1)]) (use room c in auto)
  then obtain j1 s1 where r1: "write32bits E ?off k (q, s) = Some (SQLITE_OK, (), q\<lparr>jfd := Some j1\<rparr>, s1)"
    and h1: "holds (q\<lparr>jfd := Some j1\<rparr>) s1 D ?J1" by (auto simp: ensures_def)
  have "ensures (on_jfd (\<lambda>f. xWrite E f (pData pg) sz (?off + 4)) (q\<lparr>jfd := Some j1\<rparr>, s1))
      (\<lambda>(rc, _, p', s'). rc = SQLITE_OK \<and> (\<exists>j. p' = q\<lparr>jfd := Some j\<rparr>) \<and> holds p' s' D ?J2)"
    by (rule write_journal [OF h1]) (use room c pg in auto)
  then obtain j2 s2 where r2: "on_jfd (\<lambda>f. xWrite E f (pData pg) sz (?off + 4)) (q\<lparr>jfd := Some j1\<rparr>, s1) =
      Some (SQLITE_OK, (), q\<lparr>jfd := Some j2\<rparr>, s2)" and h2: "holds (q\<lparr>jfd := Some j2\<rparr>) s2 D ?J2"
    by (auto simp: ensures_def)
  have "ensures (write32bits E (?off + sz + 4) ?ck (q\<lparr>jfd := Some j2\<rparr>, s2))
      (\<lambda>(rc, _, p', s'). rc = SQLITE_OK \<and> (\<exists>j. p' = q\<lparr>jfd := Some j\<rparr>) \<and> holds p' s' D ?J3)"
    by (rule write_journal_int [OF h2]) (use room c in auto)
  then obtain j3 s3 where r3: "write32bits E (?off + sz + 4) ?ck (q\<lparr>jfd := Some j2\<rparr>, s2) = Some (SQLITE_OK, (), q\<lparr>jfd := Some j3\<rparr>, s3)"
    and h3: "holds (q\<lparr>jfd := Some j3\<rparr>) s3 D ?J3" by (auto simp: ensures_def)
  obtain s4 where s4: "bitvec_set E k B s3 = (SQLITE_OK, insert k B, s4)" "holds (q\<lparr>jfd := Some j3\<rparr>) s4 D ?J3"
    by (rule bitvec_set_spec [OF h3])
  obtain sps s5 where s5: "addToSavepointBitvecs E k (aSavepoint q) s4 = (SQLITE_OK, sps, s5)" "holds (q\<lparr>jfd := Some j3\<rparr>) s5 D ?J3"
    using savepoints_spec [OF s4(2)] by blast
  define p' where "p' = q\<lparr>jfd := Some j3, journalOff := ?off + (8 + sz), nRec := nRec p + 1, pInJournal := Some (insert k B), aSavepoint := sps\<rparr>"
  have run: "pagerAddPageToRollbackJournal E k (p, s) = Some (SQLITE_OK, (), p', s5)"
    using r1 r2 r3 s4(1) s5(1) pg(1) ck q unfolding p'_def
    by (simp add: pagerAddPageToRollbackJournal_def Let_def q_def [symmetric] if_ok_def)
  have "writing L sz ss dbs segs (rs @ [(k, pData pg)]) p' ?J3"
    by (rule writing_grows [OF w _ c(2) room(1) c(6) J3]) (use pg(2) q in \<open>simp_all add: p'_def\<close>)
  moreover have "holds p' s5 D ?J3" using s5(2) by (simp add: p'_def holds_def)
  moreover have "journals sz ss dbs mx p'" using q(2) by (simp add: p'_def journals_def)
  moreover have "journalOff p' = ?off + (sz + 8)" by (simp add: p'_def)
  moreover have "\<forall>i. map_option pData (pPCache p' i) = map_option pData (pPCache p i)" by (simp add: p'_def q_def)
  ultimately show ?thesis using run by auto
qed

lemma spoil_spec:
  assumes h: "holds p s D J" and c: "journals sz ss dbs mx p" and off: "0 \<le> journalOff p" "journalOff p < 2 ^ 60"
    "journalOff p \<le> int (length J)"
  shows "ensures (spoil_next_header E (p, s)) (\<lambda>(rc, _, p', s'). (rc = SQLITE_OK \<or> rc = SQLITE_IOERR_SHORT_READ) \<and>
    (\<exists>j. p' = p\<lparr>jfd := j\<rparr>) \<and> (\<exists>J'. holds p' s' D J' \<and> extends (journalOff p) J J' \<and> length J' = length J \<and>
      journal_at sz ss dbs J' (journalOff p) []))"
proof -
  let ?o = "next_sector ss (journalOff p)"
  have ss: "sectorSz p = ss" "32 \<le> ss" "ss \<le> 65536" "8 \<le> mx" using c by (simp_all add: journals_def)
  have o: "journalOff p \<le> ?o" "?o < journalOff p + ss"
    using next_sector_ge [of ss "journalOff p"] next_sector_bound [of ss "journalOff p"] off(1) ss by simp_all
  have "ensures (on_jfd (\<lambda>f. xRead E f (zeroed 8) 8 ?o) (p, s)) (\<lambda>(rc, b, p', s').
      rc = (if ?o + 8 \<le> int (length J) then SQLITE_OK else SQLITE_IOERR_SHORT_READ) \<and>
      (?o + 8 \<le> int (length J) \<longrightarrow> take 8 b = available J ?o 8) \<and> holds p' s' D J \<and> (\<exists>j. p' = p\<lparr>jfd := j\<rparr>))"
    by (rule read_journal [OF h]) (use off o ss in \<open>auto simp: zeroed_def\<close>)
  then obtain rc b p1 s1 where r: "on_jfd (\<lambda>f. xRead E f (zeroed 8) 8 ?o) (p, s) = Some (rc, b, p1, s1)"
    and R: "rc = (if ?o + 8 \<le> int (length J) then SQLITE_OK else SQLITE_IOERR_SHORT_READ)"
      "?o + 8 \<le> int (length J) \<longrightarrow> take 8 b = available J ?o 8" "holds p1 s1 D J" "\<exists>j. p1 = p\<lparr>jfd := j\<rparr>"
    unfolding ensures_def by blast
  have run: "spoil_next_header E (p, s) = (if rc = SQLITE_OK \<and> take 8 b = aJournalMagic
      then on_jfd (\<lambda>f. xWrite E f [0] 1 ?o) (p1, s1) else Some (rc, (), p1, s1))"
    using r ss by (simp add: spoil_next_header_def next_sector_eq)
  show ?thesis
  proof (cases "rc = SQLITE_OK \<and> take 8 b = aJournalMagic")
    case True
    let ?J = "write_at J (nat ?o) [0]"
    have "extends (journalOff p) J ?J" by (rule extends_write) (use o off in simp_all)
    moreover have "available ?J ?o 8 \<noteq> aJournalMagic"
    proof (rule not_magic(2))
      have "available ?J ?o 1 = [0]" using available_write_at(1) [of "[0]" ?o J] o off by simp
      moreover have "available ?J ?o 8 = available ?J ?o 1 @ available ?J (?o + 1) 7"
        using available_split [of ?o 1 7 ?J] o off by simp
      ultimately show "hd (available ?J ?o 8) = 0" by simp
    qed
    moreover have "length ?J = length J"
    proof -
      have "nat ?o + length [0 :: byte] \<le> length J" using True R(1) o off by (auto split: if_splits)
      then show ?thesis by (simp only: length_write_at [OF list.distinct(2)] max_absorb1)
    qed
    ultimately show ?thesis
      unfolding run if_P [OF True]
      by - (rule write_journal [OF R(3)], use R(4) ss o off in \<open>auto intro!: exI [of _ ?J]\<close>)
  next
    case False
    then have "journal_at sz ss dbs J (journalOff p) []" using R(1,2) ss by (auto split: if_splits)
    then show ?thesis
      unfolding run if_not_P [OF False] using R extends_refl [OF off(3)] by (auto split: if_splits)
  qed
qed

lemma writing_counted:
  assumes w: "writing L sz ss dbs segs rs p J" and X: "extends (journalOff p) J J1" and len1: "length J1 = length J" and at: "journal_at sz ss dbs J1 (journalOff p) []"
    and J2: "J2 = write_at J1 (nat (journalHdr p)) (aJournalMagic @ sqlite3Put4byte (nRec p))" and ss: "32 \<le> ss" "0 \<le> sz"
  shows "journal_part sz ss dbs J2 0 (segs @ [(cksumInit p, rs)]) (journalOff p)"
    and "journal_at sz ss dbs J2 (journalOff p) []" and "journalOff p \<le> int (length J2)" and "0 \<le> journalOff p" and "int (length J2) \<le> max L (journalOff p)"
proof -
  let ?n = "int (length rs) * (sz + 8)" and ?h = "journalHdr p"
  let ?b = "aJournalMagic @ sqlite3Put4byte (nRec p)"
  obtain e where e: "journal_part sz ss dbs J 0 segs e" "?h = next_sector ss e"
    using w by (auto simp: writing_def)
  have W: "journalOff p = ?h + ss + ?n" "nRec p = word_of_nat (length rs)" "length rs < 2 ^ 32 - 1"
    "available J (?h + 12) 16 = drop 12 (header_bytes 0 (cksumInit p) dbs ss sz)"
    "available J (?h + ss) ?n = concat (map (record_bytes sz (cksumInit p)) rs)"
    using w by (simp_all add: writing_def)
  have n: "0 \<le> ?n" using ss by simp
  have e0: "0 \<le> e" using journal_part_le [OF e(1)] ss by simp
  have h: "0 \<le> ?h" "e \<le> ?h" using e(2) next_sector_ge [of ss e] e0 ss by simp_all
  have len: "journalOff p \<le> int (length J1)" using X by (simp add: extends_def)
  have b: "int (length ?b) = 12" "?b \<noteq> []" "length ?b = 12" by (simp_all add: aJournalMagic_def)
  have lenJ: "length J2 = length J1"
  proof -
    have "nat ?h + length ?b \<le> length J1" unfolding b(3) using len W(1) h n ss by linarith
    then show ?thesis unfolding J2 length_write_at [OF b(2)] by (rule max_absorb1)
  qed
  have hs: "?h \<le> journalOff p" using W(1) n ss by linarith
  have other: "available J2 a m = available J1 a m"
    if "0 \<le> a" "0 \<le> m" "a + m \<le> int (length J1)" "a + m \<le> ?h \<or> ?h + 12 \<le> a" for a m
    unfolding J2 by (rule available_write_other) (use that h b(3) in auto)
  have first: "available J2 ?h 12 = ?b" using available_write_at(1) [OF b(2) h(1), of J1] unfolding J2 b(1) .
  have "available J2 (?h + 12) 16 = drop 12 (header_bytes 0 (cksumInit p) dbs ss sz)"
    using other [of "?h + 12" 16] extends_available [OF X, of "?h + 12" 16] W(1,4) h n ss len by simp
  then have hd: "available J2 ?h 28 = header_bytes (word_of_nat (length rs)) (cksumInit p) dbs ss sz"
    using available_split [of ?h 12 16 J2] h(1) first W(2) by (simp add: header_bytes_def aJournalMagic_def)
  have rec: "available J2 (?h + ss) ?n = concat (map (record_bytes sz (cksumInit p)) rs)"
    using other [of "?h + ss" ?n] extends_available [OF X, of "?h + ss" ?n] W(1,5) h n ss len by simp
  have "extends ?h J1 J2" unfolding J2 by (rule extends_write) (use h hs len in simp_all)
  then have "extends ?h J J2" by (rule extends_trans [OF extends_less [OF X hs]])
  then have "extends e J J2" using h(2) by (rule extends_less)
  then have "journal_part sz ss dbs J2 0 segs e" using journal_part_extends [OF e(1)] ss by simp
  then show "journal_part sz ss dbs J2 0 (segs @ [(cksumInit p, rs)]) (journalOff p)"
    by (rule journal_part_snoc) (use hd rec W e len lenJ in \<open>simp add: Let_def\<close>)
  show "journalOff p \<le> int (length J2)" "0 \<le> journalOff p" using len lenJ W(1) h n ss by simp_all
  show "int (length J2) \<le> max L (journalOff p)" using writing_length [OF w] lenJ len1 by simp
  let ?o = "next_sector ss (journalOff p)"
  have "journalOff p \<le> ?o" using next_sector_ge [of ss "journalOff p"] W(1) h n ss by simp
  then have "available J2 ?o 8 = available J1 ?o 8" if "?o + ss \<le> int (length J1)"
    using other [of ?o 8] W(1) h n ss that by simp
  then show "journal_at sz ss dbs J2 (journalOff p) []" using at lenJ by (cases "?o + ss \<le> int (length J1)") simp_all
qed

lemma sync_counted_spec:
  assumes h: "holds p s D J" and c: "journals sz ss dbs mx p" and w: "writing L sz ss dbs segs rs p J" and off: "journalOff p < 2 ^ 60"
  shows "ensures (sync_counted E iDc (p, s)) (\<lambda>(rc, _, p', s'). rc = SQLITE_OK \<and> (\<exists>j. p' = p\<lparr>jfd := j\<rparr>) \<and>
    (\<exists>J'. holds p' s' D J' \<and> counted L sz ss dbs (segs @ [(cksumInit p, rs)]) (journalOff p) J'))"
proof -
  have ss: "32 \<le> ss" "0 \<le> sz" "12 \<le> mx" using c by (simp_all add: journals_def)
  note B = writing_bounds [OF w ss(1,2)]
  obtain rc p1 s1 where r1: "spoil_next_header E (p, s) = Some (rc, (), p1, s1)"
    and x: "(rc = SQLITE_OK \<or> rc = SQLITE_IOERR_SHORT_READ) \<and>
    (\<exists>j. p1 = p\<lparr>jfd := j\<rparr>) \<and> (\<exists>J'. holds p1 s1 D J' \<and> extends (journalOff p) J J' \<and> length J' = length J \<and>
      journal_at sz ss dbs J' (journalOff p) [])"
    using spoil_spec [OF h c B(1) off B(4)] by (rule ensures_unitE)
  obtain j1 J1 where R1: "rc = SQLITE_OK \<or> rc = SQLITE_IOERR_SHORT_READ" "p1 = p\<lparr>jfd := j1\<rparr>" "holds p1 s1 D J1"
    "extends (journalOff p) J J1" "length J1 = length J" "journal_at sz ss dbs J1 (journalOff p) []" using x by blast
  let ?z = "aJournalMagic @ sqlite3Put4byte (nRec p)"
  let ?J = "write_at J1 (nat (journalHdr p)) ?z"
  have lz: "length ?z = 12" "take (nat 12) ?z = ?z" by (simp_all add: aJournalMagic_def)
  have "ensures (if fullSync p1 \<and> iDc AND SQLITE_IOCAP_SEQUENTIAL = 0
      then on_jfd (\<lambda>f. xSync E f (syncFlags p1)) (p1, s1) else Some (SQLITE_OK, (), p1, s1))
      (\<lambda>(rc, _, p', s'). rc = SQLITE_OK \<and> (\<exists>j. p' = p\<lparr>jfd := j\<rparr>) \<and> holds p' s' D J1)"
  proof (cases "fullSync p1 \<and> iDc AND SQLITE_IOCAP_SEQUENTIAL = 0")
    case True
    show ?thesis unfolding if_P [OF True] by (rule sync_journal [OF R1(3)]) (use R1(2) in auto)
  next
    case False
    show ?thesis unfolding if_not_P [OF False] ensures_simps prod.case using R1(2,3) by blast
  qed
  then obtain j2 s2 where r2: "(if fullSync p1 \<and> iDc AND SQLITE_IOCAP_SEQUENTIAL = 0
      then on_jfd (\<lambda>f. xSync E f (syncFlags p1)) (p1, s1) else Some (SQLITE_OK, (), p1, s1)) =
      Some (SQLITE_OK, (), p\<lparr>jfd := j2\<rparr>, s2)" and h2: "holds (p\<lparr>jfd := j2\<rparr>) s2 D J1"
    by (rule ensures_unitE) blast
  have r3: "ensures (on_jfd (\<lambda>f. xWrite E f ?z 12 (journalHdr p)) (p\<lparr>jfd := j2\<rparr>, s2))
      (\<lambda>(rc, _, p', s'). rc = SQLITE_OK \<and> (\<exists>j. p' = p\<lparr>jfd := j\<rparr>) \<and> holds p' s' D ?J)"
  proof (rule write_journal [OF h2])
    fix j s' assume H: "holds (p\<lparr>jfd := j2, jfd := Some j\<rparr>) s' D (write_at J1 (nat (journalHdr p)) (take (nat 12) ?z))"
    have "p\<lparr>jfd := j2, jfd := Some j\<rparr> = p\<lparr>jfd := Some j\<rparr>" by simp
    then show "case (SQLITE_OK, (), p\<lparr>jfd := j2, jfd := Some j\<rparr>, s') of (rc, _, p', s') \<Rightarrow>
        rc = SQLITE_OK \<and> (\<exists>j. p' = p\<lparr>jfd := j\<rparr>) \<and> holds p' s' D ?J"
      using H unfolding lz(2) prod.case by blast
  qed (use ss B off lz(1) in simp_all)
  have J: "counted L sz ss dbs (segs @ [(cksumInit p, rs)]) (journalOff p) ?J"
    using writing_counted [OF w R1(4-6) refl ss(1,2)] by (simp add: counted_def)
  have rc: "\<not> (rc \<noteq> SQLITE_OK \<and> rc \<noteq> SQLITE_IOERR_SHORT_READ)" using R1(1) by blast
  have run: "sync_counted E iDc (p, s) = on_jfd (\<lambda>f. xWrite E f ?z 12 (journalHdr p)) (p\<lparr>jfd := j2\<rparr>, s2)"
    unfolding sync_counted_def Let_def fst_conv
    by (simp only: r1 Option.bind.bind_lunit prod.case if_not_P [OF rc] if_ok_def fst_conv r2) simp
  show ?thesis
    unfolding run by (rule ensures_weaken [OF r3]) (use J in blast)
qed

text \<open>Everything up to the new header, which \<open>syncJournal\<close> writes on demand.\<close>

lemma sync_journal_file_steps:
  assumes h: "holds p s D J" and c: "journals sz ss dbs mx p" and w: "writing L sz ss dbs segs rs p J" and off: "journalOff p < 2 ^ 60"
  obtains d j s' J' where "sync_journal_file E newHdr (p, s) =
      (let p = p\<lparr>pfd := d, jfd := j, journalHdr := journalOff p\<rparr> in
       if newHdr then writeJournalHdr E (p\<lparr>nRec := 0\<rparr>, s') else Some (SQLITE_OK, (), p, s'))"
    "holds (p\<lparr>pfd := d, jfd := j\<rparr>) s' D J'"
    "counted L sz ss dbs (segs @ [(cksumInit p, rs)]) (journalOff p) J'"
proof -
  obtain dc d s1 where dev: "on_fd (xDeviceCharacteristics E) (p, s) = Some (dc, (), p\<lparr>pfd := Some d\<rparr>, s1)"
    and dc: "dc AND SQLITE_IOCAP_SAFE_APPEND = 0" and h1: "holds (p\<lparr>pfd := Some d\<rparr>) s1 D J"
    using device_of_database [OF h, where Q = "\<lambda>(dc, x, p', s'). \<exists>d. p' = p\<lparr>pfd := Some d\<rparr> \<and> holds p' s' D J \<and>
      dc AND SQLITE_IOCAP_SAFE_APPEND = 0"] by (auto simp: ensures_def)
  let ?q = "p\<lparr>pfd := Some d\<rparr>"
  have cq: "journals sz ss dbs mx ?q" "writing L sz ss dbs segs rs ?q J" "journalOff ?q < 2 ^ 60"
    using c off by (simp_all add: journals_def writing_cong [OF w])
  obtain rc p2 s2 where r2: "sync_counted E dc (?q, s1) = Some (rc, (), p2, s2)"
    and x: "rc = SQLITE_OK \<and> (\<exists>j. p2 = ?q\<lparr>jfd := j\<rparr>) \<and>
      (\<exists>J'. holds p2 s2 D J' \<and> counted L sz ss dbs (segs @ [(cksumInit ?q, rs)]) (journalOff ?q) J')"
    using sync_counted_spec [OF h1 cq] by (rule ensures_unitE)
  obtain j2 J' where R: "rc = SQLITE_OK" "p2 = p\<lparr>pfd := Some d, jfd := j2\<rparr>" "holds p2 s2 D J'"
    "counted L sz ss dbs (segs @ [(cksumInit p, rs)]) (journalOff p) J'" using x by auto
  let ?fl = "syncFlags p OR (if syncFlags p = SQLITE_SYNC_FULL then SQLITE_SYNC_DATAONLY else 0)"
  have "ensures (if dc AND SQLITE_IOCAP_SEQUENTIAL = 0 then on_jfd (\<lambda>f. xSync E f ?fl) (p2, s2)
      else Some (SQLITE_OK, (), p2, s2))
      (\<lambda>(rc, _, p', s'). rc = SQLITE_OK \<and> (\<exists>j. p' = p\<lparr>pfd := Some d, jfd := j\<rparr>) \<and> holds p' s' D J')"
  proof (cases "dc AND SQLITE_IOCAP_SEQUENTIAL = 0")
    case True
    show ?thesis unfolding if_P [OF True] by (rule sync_journal [OF R(3)]) (use R(2) in auto)
  next
    case False
    show ?thesis unfolding if_not_P [OF False] ensures_simps prod.case using R(2,3) by blast
  qed
  then obtain j3 s3 where r3: "(if dc AND SQLITE_IOCAP_SEQUENTIAL = 0 then on_jfd (\<lambda>f. xSync E f ?fl) (p2, s2)
      else Some (SQLITE_OK, (), p2, s2)) = Some (SQLITE_OK, (), p\<lparr>pfd := Some d, jfd := j3\<rparr>, s3)"
    and h3: "holds (p\<lparr>pfd := Some d, jfd := j3\<rparr>) s3 D J'" by (rule ensures_unitE) blast
  have g: "\<not> noSync p" "jfd p \<noteq> None \<and> journalMode p \<noteq> PAGER_JOURNALMODE_MEMORY" "syncFlags p2 = syncFlags p"
    using c holds_open [OF h] R(2) by (simp_all add: journals_def)
  have "sync_journal_file E newHdr (p, s) =
      (let p = p\<lparr>pfd := Some d, jfd := j3, journalHdr := journalOff p\<rparr> in
       if newHdr then writeJournalHdr E (p\<lparr>nRec := 0\<rparr>, s3) else Some (SQLITE_OK, (), p, s3))"
    unfolding sync_journal_file_def fst_conv if_not_P [OF g(1)] if_P [OF g(2)]
    by (simp only: dev Option.bind.bind_lunit prod.case if_P [OF dc] if_ok_def r2 R(1) fst_conv g(3) r3) (simp add: dc Let_def)
  then show thesis using h3 R(4) by (rule that)
qed

lemma clear_sync_flags_simps [simp]:
  "holds (clear_sync_flags p) s D J = holds p s D J"
  "journals sz ss dbs m ((clear_sync_flags p)\<lparr>eState := i\<rparr>) = journals sz ss dbs m p"
  "writing L sz ss dbs segs rs ((clear_sync_flags p)\<lparr>eState := i\<rparr>) J = writing L sz ss dbs segs rs p J"
  "journalOff (clear_sync_flags p) = journalOff p" "journalHdr (clear_sync_flags p) = journalHdr p"
  "map_option pData (pPCache (clear_sync_flags p) k) = map_option pData (pPCache p k)"
  by (simp_all add: clear_sync_flags_def holds_def journals_def writing_def option.map_comp comp_def)

lemma syncJournal_last:
  assumes h: "holds p s D J" and c: "journals sz ss dbs mx p" and w: "writing L sz ss dbs segs rs p J" and off: "journalOff p < 2 ^ 60"
  shows "ensures (syncJournal E False (p, s)) (\<lambda>(rc, _, p', s'). rc = SQLITE_OK \<and> (\<exists>J'. holds p' s' D J' \<and>
    counted L sz ss dbs (segs @ [(cksumInit p, rs)]) (journalOff p) J' \<and> eState p' = PAGER_WRITER_DBMOD))"
proof (rule sync_journal_file_steps [OF h c w off, where newHdr = False])
  fix d j s' J'
  assume r: "sync_journal_file E False (p, s) =
      (let p = p\<lparr>pfd := d, jfd := j, journalHdr := journalOff p\<rparr> in
       if False then writeJournalHdr E (p\<lparr>nRec := 0\<rparr>, s') else Some (SQLITE_OK, (), p, s'))"
    and H: "holds (p\<lparr>pfd := d, jfd := j\<rparr>) s' D J'" and C: "counted L sz ss dbs (segs @ [(cksumInit p, rs)]) (journalOff p) J'"
  define q where "q = (clear_sync_flags (p\<lparr>pfd := d, jfd := j, journalHdr := journalOff p\<rparr>))\<lparr>eState := PAGER_WRITER_DBMOD\<rparr>"
  have k: "sqlite3PagerExclusiveLock E (p, s) = Some (SQLITE_OK, (), p, s)"
    using c by (intro exclusive_lock_held) (simp add: journals_def)
  have "holds q s' D J'" using H unfolding q_def clear_sync_flags_simps holds_fields .
  moreover have "syncJournal E False (p, s) = Some (SQLITE_OK, (), q, s')"
    using r k by (simp add: syncJournal_def if_ok_def q_def)
  moreover have "eState q = PAGER_WRITER_DBMOD" by (simp add: q_def)
  ultimately show ?thesis using C by auto
qed

lemma syncJournal_more:
  assumes h: "holds p s D J" and c: "journals sz ss dbs mx p" and w: "writing L sz ss dbs segs rs p J" and off: "journalOff p < 2 ^ 60"
  shows "ensures (syncJournal E True (p, s)) (\<lambda>(rc, _, p', s'). rc = SQLITE_OK \<and> (\<exists>J'. holds p' s' D J' \<and>
    journals sz ss dbs mx p' \<and> writing L sz ss dbs (segs @ [(cksumInit p, rs)]) [] p' J' \<and>
    journalOff p' < journalOff p + 2 * ss \<and> (\<forall>i. map_option pData (pPCache p' i) = map_option pData (pPCache p i))))"
proof (rule sync_journal_file_steps [OF h c w off, where newHdr = True])
  fix d j s' J'
  assume r: "sync_journal_file E True (p, s) =
      (let p = p\<lparr>pfd := d, jfd := j, journalHdr := journalOff p\<rparr> in
       if True then writeJournalHdr E (p\<lparr>nRec := 0\<rparr>, s') else Some (SQLITE_OK, (), p, s'))"
    and H: "holds (p\<lparr>pfd := d, jfd := j\<rparr>) s' D J'" and C: "counted L sz ss dbs (segs @ [(cksumInit p, rs)]) (journalOff p) J'"
  define q where "q = p\<lparr>pfd := d, jfd := j, journalHdr := journalOff p, nRec := 0\<rparr>"
  have q: "holds q s' D J'" "journals sz ss dbs mx q" using H c by (simp_all add: holds_def journals_def q_def)
  have q': "journalOff q = journalOff p" "nRec q = 0" "pPCache q = pPCache p" by (simp_all add: q_def)
  have b: "0 \<le> journalOff p" using writing_bounds [OF w] c by (simp add: journals_def)
  have C': "journal_part sz ss dbs J' 0 (segs @ [(cksumInit p, rs)]) (journalOff q)" "journalOff q \<le> int (length J')"
      "int (length J') \<le> max L (journalOff q)"
    using C by (simp_all add: counted_def q')
  have "ensures (writeJournalHdr E (q, s')) (\<lambda>(rc, _, p2, s2). rc = SQLITE_OK \<and> (\<exists>J'. holds p2 s2 D J' \<and>
    journals sz ss dbs mx p2 \<and> writing L sz ss dbs (segs @ [(cksumInit p, rs)]) [] p2 J' \<and> pPCache p2 = pPCache q \<and>
    journalOff p2 < journalOff q + 2 * ss))"
    by (rule writeJournalHdr_spec [OF q C'(1) _ C'(2) _ C'(3)]) (use b off q' in simp_all)
  then obtain rc p2 s2 where w2: "writeJournalHdr E (q, s') = Some (rc, (), p2, s2)"
    and x: "rc = SQLITE_OK \<and> (\<exists>J'. holds p2 s2 D J' \<and>
    journals sz ss dbs mx p2 \<and> writing L sz ss dbs (segs @ [(cksumInit p, rs)]) [] p2 J' \<and> pPCache p2 = pPCache q \<and>
    journalOff p2 < journalOff q + 2 * ss)" by (rule ensures_unitE)
  have k: "sqlite3PagerExclusiveLock E (p, s) = Some (SQLITE_OK, (), p, s)"
    using c by (intro exclusive_lock_held) (simp add: journals_def)
  have "syncJournal E True (p, s) = Some (SQLITE_OK, (), (clear_sync_flags p2)\<lparr>eState := PAGER_WRITER_DBMOD\<rparr>, s2)"
    using r k w2 x by (simp add: syncJournal_def if_ok_def q_def)
  then show ?thesis using x q' by auto
qed

end

section \<open>A transaction\<close>

text \<open>
  What a transaction does to the journal: the pages it is about to change are journaled
  (\<open>pager_write\<close>), their cached copies are changed, and the journal is synced when cached
  pages must be written to the database.
\<close>

datatype journal_step = Journal Pgno | Change Pgno bytes | Sync

definition change_cached :: "Pgno \<Rightarrow> bytes \<Rightarrow> 'f Pager \<Rightarrow> 'f Pager" where
  "change_cached k d p = p\<lparr>pPCache := (pPCache p)(k := map_option (\<lambda>pg. pg\<lparr>pData := d\<rparr>) (pPCache p k))\<rparr>"

fun journal_steps ::
  "('f, 's) pager_env \<Rightarrow> journal_step list \<Rightarrow> ('f, 's) pst \<Rightarrow> ('f, 's, unit) pres" where
  "journal_steps E [] ps = Some (SQLITE_OK, (), ps)"
| "journal_steps E (Journal k # xs) ps = if_ok (pagerAddPageToRollbackJournal E k ps) () (\<lambda>_. journal_steps E xs)"
| "journal_steps E (Change k d # xs) ps = journal_steps E xs (change_cached k d (fst ps), snd ps)"
| "journal_steps E (Sync # xs) ps = if_ok (syncJournal E True ps) () (\<lambda>_. journal_steps E xs)"

text \<open>
  The discipline of \<open>pager_write\<close>: a page of the database is journaled once, before it is
  changed. \<open>B\<close> are the pages already journaled.
\<close>

fun proper_steps :: "int \<Rightarrow> Pgno \<Rightarrow> Pgno set \<Rightarrow> journal_step list \<Rightarrow> bool" where
  "proper_steps sz dbs B [] \<longleftrightarrow> True"
| "proper_steps sz dbs B (Journal k # xs) \<longleftrightarrow> k \<noteq> 0 \<and> k \<le> dbs \<and> k \<notin> B \<and> proper_steps sz dbs (insert k B) xs"
| "proper_steps sz dbs B (Change k d # xs) \<longleftrightarrow> (k \<in> B \<or> dbs < k) \<and> proper_steps sz dbs B xs"
| "proper_steps sz dbs B (Sync # xs) \<longleftrightarrow> proper_steps sz dbs B xs"

text \<open>The pages journaled and synced, and those that are not yet synced.\<close>

fun settled :: "journal_step list \<Rightarrow> Pgno list \<times> Pgno list \<Rightarrow> Pgno list \<times> Pgno list" where
  "settled [] c = c"
| "settled (Journal k # xs) (done, pending) = settled xs (done, pending @ [k])"
| "settled (Change k d # xs) c = settled xs c"
| "settled (Sync # xs) (done, pending) = settled xs (done @ pending, [])"

definition original :: "int \<Rightarrow> bytes \<Rightarrow> Pgno \<Rightarrow> Pgno \<times> bytes" where
  "original sz Orig k = (k, page_of sz Orig (uint k))"

fun journaled :: "journal_step list \<Rightarrow> Pgno list" where
  "journaled [] = []"
| "journaled (Journal k # xs) = k # journaled xs"
| "journaled (Change k d # xs) = journaled xs"
| "journaled (Sync # xs) = journaled xs"

lemma settled_all: "fst (settled xs c) @ snd (settled xs c) = fst c @ snd c @ journaled xs"
  by (induction xs c rule: settled.induct) simp_all

definition begin_journal ::
  "('f, 's) pager_env \<Rightarrow> journal_step list \<Rightarrow> ('f, 's) pst \<Rightarrow> ('f, 's, unit) pres" where
  "begin_journal E xs ps = if_ok (writeJournalHdr E ps) () (\<lambda>_. journal_steps E xs)"

definition journal_transaction ::
  "('f, 's) pager_env \<Rightarrow> journal_step list \<Rightarrow> ('f, 's) pst \<Rightarrow> ('f, 's, unit) pres" where
  "journal_transaction E xs ps = if_ok (begin_journal E xs ps) () (\<lambda>_. syncJournal E False)"

lemma journal_in_database: "Journal i \<in> set xs \<Longrightarrow> proper_steps sz dbs B xs \<Longrightarrow> i \<le> dbs"
  by (induction sz dbs B xs rule: proper_steps.induct) auto

context two_files
begin

lemma change_cached_simps [simp]:
  "holds (change_cached k d p) s D J = holds p s D J" "journals sz ss dbs m (change_cached k d p) = journals sz ss dbs m p"
  "writing L sz ss dbs segs rs (change_cached k d p) J = writing L sz ss dbs segs rs p J"
  "journalOff (change_cached k d p) = journalOff p"
  "k \<noteq> i \<Longrightarrow> pPCache (change_cached k d p) i = pPCache p i"
  by (simp_all add: change_cached_def journals_def writing_def)

lemma journal_steps_run:
  assumes "holds p s D J" "journals sz ss dbs mx p" "writing L sz ss dbs segs rs p J" "proper_steps sz dbs B xs"
    and "journal_records segs = map orig done" "rs = map orig pending" and orig: "\<And>k. orig k = (k, page_of sz Orig (uint k))"
    and len: "int (length Orig) = uint dbs * sz"
    and "length pending + length xs < 2 ^ 32 - 2" "journalOff p + int (length xs) * 2 ^ 21 < 2 ^ 60"
    and "\<forall>k. Journal k \<in> set xs \<and> k \<notin> B \<longrightarrow> map_option pData (pPCache p k) = Some (page_of sz Orig (uint k))"
  shows "ensures (journal_steps E xs (p, s)) (\<lambda>(rc, _, p', s'). rc = SQLITE_OK \<and> (\<exists>J' segs' rs'. holds p' s' D J' \<and>
    journals sz ss dbs mx p' \<and> writing L sz ss dbs segs' rs' p' J' \<and> journalOff p' < 2 ^ 60 \<and>
    (journal_records segs', rs') = map_prod (map orig) (map orig) (settled xs (done, pending))))"
  using assms(1-6,9-11)
proof (induction xs arbitrary: p s J segs rs B "done" pending)
  case Nil
  then show ?case by auto
next
  case (Cons x xs)
  note prems = Cons.prems
  have c: "32 \<le> ss" "ss \<le> 65536" "512 \<le> sz" "sz < 2 ^ 20 " using prems(2) mx_small by (simp_all add: journals_def)
  have off: "journalOff p + 2 ^ 21 + int (length xs) * 2 ^ 21 < 2 ^ 60" "0 \<le> int (length xs) * 2 ^ 21" "0 \<le> journalOff p"
    using prems(8) writing_bounds [OF prems(3)] c by (simp_all add: distrib_right)
  then have o60: "journalOff p < 2 ^ 60" by simp
  let ?R = "\<lambda>xs d e. \<lambda>(rc, _, p', s'). rc = SQLITE_OK \<and> (\<exists>J' segs' rs'. holds p' s' D J' \<and>
    journals sz ss dbs mx p' \<and> writing L sz ss dbs segs' rs' p' J' \<and> journalOff p' < 2 ^ 60 \<and>
    (journal_records segs', rs') = map_prod (map orig) (map orig) (settled xs (d, e)))"
  show ?case
  proof (cases x)
    case (Journal k)
    have k: "k \<noteq> 0" "k \<le> dbs" "k \<notin> B" "proper_steps sz dbs (insert k B) xs" using prems(4) by (simp_all add: Journal)
    then obtain pg where pg: "pPCache p k = Some pg" "pData pg = page_of sz Orig (uint k)" using prems(9) by (auto simp: Journal)
    have "uint k * sz \<le> uint dbs * sz" "1 \<le> uint k" using k(1,2) c by (simp_all add: uint_pos word_le_def mult_right_mono)
    then have lpg: "length (pData pg) = nat sz"
      using len c unfolding pg(2) page_of_def by (intro length_available) (simp_all add: left_diff_distrib)
    have room: "length rs + 1 < 2 ^ 32 - 1" using prems(6,7) by simp
    obtain rc p1 s1 where r1: "pagerAddPageToRollbackJournal E k (p, s) = Some (rc, (), p1, s1)"
      and y: "rc = SQLITE_OK \<and> (\<exists>J'. holds p1 s1 D J' \<and>
        journals sz ss dbs mx p1 \<and> writing L sz ss dbs segs (rs @ [(k, pData pg)]) p1 J' \<and> journalOff p1 = journalOff p + (sz + 8) \<and>
        (\<forall>i. map_option pData (pPCache p1 i) = map_option pData (pPCache p i)))"
      using add_page_spec [OF prems(1-3) pg(1) lpg room o60 off(3)] by (rule ensures_unitE)
    obtain J1 where y': "rc = SQLITE_OK" "holds p1 s1 D J1" "journals sz ss dbs mx p1"
      "writing L sz ss dbs segs (rs @ [(k, pData pg)]) p1 J1" "journalOff p1 = journalOff p + (sz + 8)"
      "\<And>i. map_option pData (pPCache p1 i) = map_option pData (pPCache p i)" using y by blast
    have "ensures (journal_steps E xs (p1, s1)) (?R xs done (pending @ [k]))"
      by (rule Cons.IH [OF y'(2-4) k(4) prems(5)]) (use prems(6,7,9) y'(5,6) off c pg(2) orig in \<open>auto simp: Journal\<close>)
    then show ?thesis using r1 y'(1) by (simp add: Journal if_ok_def)
  next
    case (Change k d)
    have k: "k \<in> B \<or> dbs < k" and pr: "proper_steps sz dbs B xs" using prems(4) by (simp_all add: Change)
    have data: "map_option pData (pPCache (change_cached k d p) i) = Some (page_of sz Orig (uint i))"
      if "Journal i \<in> set xs" "i \<notin> B" for i
    proof -
      have "i \<le> dbs" using that(1) pr by (rule journal_in_database)
      then have "k \<noteq> i" using k that(2) by auto
      then show ?thesis using prems(9) that by (simp add: Change)
    qed
    have "ensures (journal_steps E xs (change_cached k d p, s)) (?R xs done pending)"
      by (rule Cons.IH [OF _ _ _ pr prems(5,6)]) (use prems(1-3,7) off data in auto)
    then show ?thesis by (simp add: Change)
  next
    case Sync
    have pr: "proper_steps sz dbs B xs" using prems(4) by (simp add: Sync)
    obtain rc p1 s1 where r1: "syncJournal E True (p, s) = Some (rc, (), p1, s1)"
      and y: "rc = SQLITE_OK \<and> (\<exists>J'. holds p1 s1 D J' \<and>
        journals sz ss dbs mx p1 \<and> writing L sz ss dbs (segs @ [(cksumInit p, rs)]) [] p1 J' \<and>
        journalOff p1 < journalOff p + 2 * ss \<and> (\<forall>i. map_option pData (pPCache p1 i) = map_option pData (pPCache p i)))"
      using syncJournal_more [OF prems(1-3) o60] by (rule ensures_unitE)
    obtain J1 where y': "rc = SQLITE_OK" "holds p1 s1 D J1" "journals sz ss dbs mx p1"
      "writing L sz ss dbs (segs @ [(cksumInit p, rs)]) [] p1 J1" "journalOff p1 < journalOff p + 2 * ss"
      "\<And>i. map_option pData (pPCache p1 i) = map_option pData (pPCache p i)" using y by blast
    have "ensures (journal_steps E xs (p1, s1)) (?R xs (done @ pending) [])"
      by (rule Cons.IH [OF y'(2-4) pr]) (use prems(5-7,9) y'(5,6) off c in \<open>auto simp: Sync journal_records_def\<close>)
    then show ?thesis using r1 y'(1) by (simp add: Sync if_ok_def)
  qed
qed

text \<open>From the first header on, to any moment of the transaction.\<close>

lemma transaction_begins:
  assumes h: "holds p s D J" "journals sz ss dbs mx p" "journalOff p = 0" "nRec p = 0" and pr: "proper_steps sz dbs {} xs"
    and len: "int (length Orig) = uint dbs * sz"
    and room: "length xs < 2 ^ 31"
    and cached: "\<forall>k. Journal k \<in> set xs \<longrightarrow> map_option pData (pPCache p k) = Some (page_of sz Orig (uint k))"
  shows "ensures (begin_journal E xs (p, s)) (\<lambda>(rc, _, p', s'). rc = SQLITE_OK \<and> (\<exists>J' segs' rs'. holds p' s' D J' \<and>
    journals sz ss dbs mx p' \<and> writing (int (length J)) sz ss dbs segs' rs' p' J' \<and> journalOff p' < 2 ^ 60 \<and>
    (journal_records segs', rs') = map_prod (map (original sz Orig)) (map (original sz Orig)) (settled xs ([], []))))"
    (is "ensures _ ?Q")
proof -
  have c: "32 \<le> ss" "ss \<le> 65536" using h(2) by (simp_all add: journals_def)
  have e: "journal_part sz ss dbs J 0 [] (journalOff p)" using h(3) by simp
  have hdr: "ensures (writeJournalHdr E (p, s)) (\<lambda>(rc, _, p1, s1). rc = SQLITE_OK \<and> (\<exists>J'. holds p1 s1 D J' \<and>
      journals sz ss dbs mx p1 \<and> writing (int (length J)) sz ss dbs [] [] p1 J' \<and> pPCache p1 = pPCache p \<and>
      journalOff p1 < journalOff p + 2 * ss))"
    by (rule writeJournalHdr_spec [OF h(1,2) e _ _ _ _ h(4)]) (simp_all add: h(3))
  obtain rc p1 s1 where r1: "writeJournalHdr E (p, s) = Some (rc, (), p1, s1)"
    and y: "rc = SQLITE_OK \<and> (\<exists>J'. holds p1 s1 D J' \<and>
      journals sz ss dbs mx p1 \<and> writing (int (length J)) sz ss dbs [] [] p1 J' \<and> pPCache p1 = pPCache p \<and>
      journalOff p1 < journalOff p + 2 * ss)"
    using hdr by (rule ensures_unitE)
  obtain J1 where y': "rc = SQLITE_OK" "holds p1 s1 D J1" "journals sz ss dbs mx p1"
    "writing (int (length J)) sz ss dbs [] [] p1 J1" "pPCache p1 = pPCache p" "journalOff p1 < 2 * ss" using y h(3) by auto
  have "journalOff p1 + int (length xs) * 2 ^ 21 < 2 ^ 60" using y'(6) c room by simp
  then have "ensures (journal_steps E xs (p1, s1)) ?Q"
    by (intro journal_steps_run [OF y'(2-4) pr _ _ original_def len]) (use room cached y'(5) in \<open>simp_all add: journal_records_def\<close>)
  then show ?thesis using r1 y'(1) by (simp add: begin_journal_def if_ok_def)
qed

text \<open>At the end every journaled page counts.\<close>

lemma transaction_journaled:
  assumes h: "holds p s D J" "journals sz ss dbs mx p" "journalOff p = 0" "nRec p = 0" and pr: "proper_steps sz dbs {} xs"
    and len: "int (length Orig) = uint dbs * sz"
    and room: "length xs < 2 ^ 31"
    and cached: "\<forall>k. Journal k \<in> set xs \<longrightarrow> map_option pData (pPCache p k) = Some (page_of sz Orig (uint k))"
  shows "ensures (journal_transaction E xs (p, s)) (\<lambda>(rc, _, p', s'). rc = SQLITE_OK \<and> (\<exists>J' off segs ck.
    holds p' s' D J' \<and>
    counted (int (length J)) sz ss dbs (segs @ [(ck, map (original sz Orig) (snd (settled xs ([], []))))]) off J' \<and>
    journal_records segs = map (original sz Orig) (fst (settled xs ([], [])))))"
proof -
  obtain rc p1 s1 where r1: "begin_journal E xs (p, s) = Some (rc, (), p1, s1)"
    and y: "rc = SQLITE_OK \<and> (\<exists>J' segs' rs'. holds p1 s1 D J' \<and>
    journals sz ss dbs mx p1 \<and> writing (int (length J)) sz ss dbs segs' rs' p1 J' \<and> journalOff p1 < 2 ^ 60 \<and>
    (journal_records segs', rs') = map_prod (map (original sz Orig)) (map (original sz Orig)) (settled xs ([], [])))"
    using transaction_begins [OF assms(1-5) len room cached] by (rule ensures_unitE)
  obtain J1 segs rs where y': "rc = SQLITE_OK" "holds p1 s1 D J1" "journals sz ss dbs mx p1"
    "writing (int (length J)) sz ss dbs segs rs p1 J1" "journalOff p1 < 2 ^ 60"
    "(journal_records segs, rs) = map_prod (map (original sz Orig)) (map (original sz Orig)) (settled xs ([], []))"
    using y by blast
  have rec: "journal_records segs = map (original sz Orig) (fst (settled xs ([], [])))"
    "rs = map (original sz Orig) (snd (settled xs ([], [])))" using y'(6) by (cases "settled xs ([], [])"; simp)+
  have "ensures (syncJournal E False (p1, s1)) (\<lambda>(rc, _, p', s'). rc = SQLITE_OK \<and> (\<exists>J' off segs ck.
    holds p' s' D J' \<and>
    counted (int (length J)) sz ss dbs (segs @ [(ck, map (original sz Orig) (snd (settled xs ([], []))))]) off J' \<and>
    journal_records segs = map (original sz Orig) (fst (settled xs ([], [])))))"
    by (rule ensures_weaken [OF syncJournal_last [OF y'(2-5)]]) (use rec in blast)
  then show ?thesis using r1 y'(1) by (simp add: journal_transaction_def if_ok_def)
qed

end

text \<open>The end of a journal that a transaction has written into an empty file.\<close>

lemma records_last:
  assumes "\<forall>x \<in> set rs. length (snd x) = nat sz" "length (snd r) = nat sz" "0 \<le> sz"
  shows "available (concat (map (record_bytes sz ck) (rs @ [r]))) (int (length rs) * (sz + 8)) (sz + 8) = record_bytes sz ck r"
proof -
  have "int (length (concat (map (record_bytes sz ck) rs))) = int (length rs) * (sz + 8)"
    using assms(1,3) by (induction rs) (simp_all add: length_record_bytes distrib_right)
  then show ?thesis using length_record_bytes [OF assms(2,3), of ck] by (simp add: available_def nat_eq_iff)
qed

lemma journal_part_end:
  "journal_part sz ss dbs J off (segs @ [(ck, rs @ [r])]) e \<Longrightarrow> 0 \<le> off \<Longrightarrow> 0 < ss \<Longrightarrow> length (snd r) = nat sz \<Longrightarrow> 0 \<le> sz \<Longrightarrow>
     \<forall>x \<in> set rs. length (snd x) = nat sz \<Longrightarrow>
     available J (e - (sz + 8)) (sz + 8) = record_bytes sz ck r"
proof (induction sz ss dbs J off "segs @ [(ck, rs @ [r])]" e arbitrary: segs rule: journal_part.induct)
  case (1 sz ss dbs J off e)
  then show ?case by simp
next
  case (2 sz ss dbs J off ck' rs' segs' e)
  let ?h = "next_sector ss off" and ?n = "int (length rs') * (sz + 8)"
  have h: "0 \<le> ?h" "0 \<le> ?n" using 2(4-8) next_sector_ge [of ss off] by simp_all
  have P: "available J (?h + ss) ?n = concat (map (record_bytes sz ck') rs')"
    "journal_part sz ss dbs J (?h + ss + ?n) segs' e" using 2(3) [folded 2(2)] by (simp_all add: Let_def)
  show ?case
  proof (cases segs)
    case Nil
    then have e: "e = ?h + ss + ?n" "rs' = rs @ [r]" "ck' = ck" using 2(2) P(2) by auto
    let ?m = "int (length rs) * (sz + 8)"
    have n: "?n = ?m + (sz + 8)" by (simp add: e(2) distrib_right)
    have "available J (?h + ss + ?m) (sz + 8) = available (available J (?h + ss) ?n) ?m (sz + 8)"
      using available_available [of "?h + ss" ?m "sz + 8" ?n J] h 2(5,7) n by simp
    also have "\<dots> = record_bytes sz ck r" using P(1) e(2,3) records_last [OF 2(8,6,7), of ck] by simp
    finally have "available J (?h + ss + ?m) (sz + 8) = record_bytes sz ck r" .
    moreover have "e - (sz + 8) = ?h + ss + ?m" using e(1) n by simp
    ultimately show ?thesis by (simp only:)
  next
    case (Cons seg segs0)
    then have "segs' = segs0 @ [(ck, rs @ [r])]" using 2(2) by simp
    then show ?thesis using 2(1) [OF refl refl _ _ _ 2(5-8)] P(2) h 2(5) by simp
  qed
qed

lemma record_end:
  assumes rec: "available J (int (length J) - (sz + 8)) (sz + 8) = record_bytes sz ck r"
    and r: "512 \<le> sz" "length (snd r) = nat sz" and m: "drop (nat sz - 4) (snd r) \<noteq> take 4 aJournalMagic"
  shows "available J (int (length J) - 8) 8 \<noteq> aJournalMagic"
proof
  assume a: "available J (int (length J) - 8) 8 = aJournalMagic"
  have lr: "int (length (record_bytes sz ck r)) = sz + 8" using length_record_bytes [OF r(2)] r(1) by simp
  have "length (record_bytes sz ck r) \<le> length J" unfolding rec [symmetric] by (simp add: available_def)
  then have ge: "sz + 8 \<le> int (length J)" using lr by linarith
  have "available (record_bytes sz ck r) sz 8 = aJournalMagic"
    using available_available [of "int (length J) - (sz + 8)" sz 8 "sz + 8" J] rec ge a r(1) by simp
  then have "take 4 (available (record_bytes sz ck r) sz 8) = take 4 aJournalMagic" by simp
  moreover have "nat sz = 4 + (nat sz - 4)" using r(1) by simp
  then have "take 4 (available (record_bytes sz ck r) sz 8) = drop (nat sz - 4) (snd r)"
    using r(2) by (simp add: available_def record_bytes_def)
  ultimately show False using m by simp
qed

lemma counted_end:
  assumes C: "counted L sz ss dbs (segs @ [(ck, rs @ [r])]) off J" and L: "L \<le> 0" "0 < ss" "512 \<le> sz"
    and r: "length (snd r) = nat sz" "\<forall>x \<in> set rs. length (snd x) = nat sz"
    and m: "drop (nat sz - 4) (snd r) \<noteq> take 4 aJournalMagic"
  shows "available J (int (length J) - 8) 8 \<noteq> aJournalMagic"
proof (rule record_end [OF _ L(3) r(1) m])
  have P: "journal_part sz ss dbs J 0 (segs @ [(ck, rs @ [r])]) off" "off \<le> int (length J)" "int (length J) \<le> max L off"
    using C by (simp_all add: counted_def)
  have "0 \<le> off" using journal_part_le [OF P(1)] L by simp
  then have "off = int (length J)" using P(2,3) L(1) by simp
  then show "available J (int (length J) - (sz + 8)) (sz + 8) = record_bytes sz ck r"
    using journal_part_end [OF P(1)] L r by simp
qed

lemma writing_end:
  assumes w: "writing L sz ss dbs segs (rs @ [r]) p J" and L: "L \<le> 0" "32 \<le> ss" "512 \<le> sz"
    and r: "length (snd r) = nat sz" "\<forall>x \<in> set rs. length (snd x) = nat sz"
    and m: "drop (nat sz - 4) (snd r) \<noteq> take 4 aJournalMagic"
  shows "available J (int (length J) - 8) 8 \<noteq> aJournalMagic"
proof (rule record_end [OF _ L(3) r(1) m])
  have B: "0 \<le> journalHdr p" "0 \<le> journalOff p" "journalOff p \<le> int (length J)"
    using writing_bounds [OF w L(2)] L(3) by simp_all
  have off: "journalOff p = int (length J)" using writing_length [OF w] B L(1) by simp
  let ?m = "int (length rs) * (sz + 8)"
  have n: "int (length (rs @ [r])) * (sz + 8) = ?m + (sz + 8)" by (simp add: distrib_right)
  have W: "journalOff p = journalHdr p + ss + (?m + (sz + 8))"
    "available J (journalHdr p + ss) (?m + (sz + 8)) = concat (map (record_bytes sz (cksumInit p)) (rs @ [r]))"
    using w unfolding writing_def n by blast+
  have "available J (int (length J) - (sz + 8)) (sz + 8) = available J (journalHdr p + ss + ?m) (sz + 8)"
    by (rule arg_cong [where f = "\<lambda>a. available J a (sz + 8)"]) (use off W(1) in linarith)
  also have "\<dots> = available (available J (journalHdr p + ss) (?m + (sz + 8))) ?m (sz + 8)"
    using available_available [of "journalHdr p + ss" ?m "sz + 8" "?m + (sz + 8)" J] B L by simp
  also have "\<dots> = record_bytes sz (cksumInit p) r"
    unfolding W(2) using records_last [OF r(2,1), of "cksumInit p"] L(3) by simp
  finally show "available J (int (length J) - (sz + 8)) (sz + 8) = record_bytes sz (cksumInit p) r" .
qed

end
