(* ===== verification/Journal_Recover.thy ===== *)
theory Journal_Recover
  imports Journal_Write
begin

text \<open>
  Writing and playing back together: the journal that a transaction leaves undoes it, whatever
  has happened to the pages it covers and whichever pager opens the files afterwards.
\<close>

section \<open>A restart\<close>

text \<open>Only the pages \<open>ks\<close> of the database differ from the original.\<close>

definition only_changed :: "int \<Rightarrow> Pgno \<Rightarrow> bytes \<Rightarrow> Pgno list \<Rightarrow> bytes \<Rightarrow> bool" where
  "only_changed sz dbs Orig ks D \<longleftrightarrow> length D \<noteq> 1 \<and> length D < 2 ^ 61 \<and>
     (\<forall>k. 1 \<le> k \<and> k \<le> uint dbs \<longrightarrow> k \<in> uint ` set ks \<or> page_same sz Orig D k)"

text \<open>A pager that has just found the journal.\<close>

definition restarted :: "bytes \<Rightarrow> 'f Pager \<Rightarrow> bool" where
  "restarted J p \<longleftrightarrow> hot J p \<and> 1 \<le> pageSize p \<and> pageSize p < 2 ^ 32 \<and>
     nat (pageSize p) \<le> length (pTmpSpace p) \<and> sectorSz p \<le> int (length J)"

text \<open>
  Playing the journal \<open>J\<close> back gives the original database again, from any state in which
  only the pages \<open>ks\<close> have changed.
\<close>

definition undoes ::
  "('f, 's) pager_env \<Rightarrow> ((pager_file \<Rightarrow> 'f) \<Rightarrow> 's \<Rightarrow> (pager_file \<Rightarrow> bytes) \<Rightarrow> bool) \<Rightarrow>
     int \<Rightarrow> Pgno \<Rightarrow> bytes \<Rightarrow> Pgno list \<Rightarrow> bytes \<Rightarrow> bool" where
  "undoes E rep sz dbs Orig ks J \<longleftrightarrow>
     (\<forall>q t D. files_hold rep q t D J \<longrightarrow> restarted J q \<longrightarrow> only_changed sz dbs Orig ks D \<longrightarrow>
        ensures (playback_journal E True (q, t)) (\<lambda>(rc, (n, found), q', t').
          rc = SQLITE_OK \<and> n = length ks \<and> files_hold rep q' t' Orig J \<and> pageSize q' = pageSize q))"

text \<open>What a transaction may journal: pages of the database, but not the one of the locks.\<close>

definition journal_pages :: "int \<Rightarrow> journal_step list \<Rightarrow> bool" where
  "journal_pages sz xs \<longleftrightarrow> (\<forall>k. Journal k \<in> set xs \<longrightarrow> k \<noteq> word_of_int (PENDING_BYTE div sz + 1))"

lemma journaled_set: "k \<in> set (journaled xs) \<longleftrightarrow> Journal k \<in> set xs"
  by (induction xs rule: journaled.induct) auto

lemma proper_journal: "Journal k \<in> set xs \<Longrightarrow> proper_steps sz dbs B xs \<Longrightarrow> k \<noteq> 0"
  by (induction sz dbs B xs rule: proper_steps.induct) auto

lemma original_ok:
  assumes "proper_steps sz dbs B xs" "journal_pages sz xs" "k \<in> set (journaled xs)"
    "int (length Orig) = uint dbs * sz" "0 < sz"
  shows "record_ok sz (original sz Orig k)"
proof -
  have k: "k \<noteq> 0" "k \<le> dbs" "k \<noteq> word_of_int (PENDING_BYTE div sz + 1)"
    using assms(1-3) proper_journal journal_in_database by (auto simp: journaled_set journal_pages_def)
  have "uint k * sz \<le> uint dbs * sz" "1 \<le> uint k" using k assms(5) by (simp_all add: uint_pos word_le_def mult_right_mono)
  then have "length (page_of sz Orig (uint k)) = nat sz"
    using assms(4,5) unfolding page_of_def by (intro length_available) (simp_all add: left_diff_distrib)
  then show ?thesis using k by (simp add: record_ok_def original_def)
qed

text \<open>The tail of the last page journaled must not look like the end of a master journal's name.\<close>

definition plain_tail :: "int \<Rightarrow> bytes \<Rightarrow> Pgno list \<Rightarrow> bool" where
  "plain_tail sz Orig ks \<longleftrightarrow> ks \<noteq> [] \<and> drop (nat sz - 4) (page_of sz Orig (uint (last ks))) \<noteq> take 4 aJournalMagic"

context two_files
begin

lemma journal_undoes:
  assumes at: "journal_at sz ss dbs J 0 segs" "segs \<noteq> []" and sizes: "journal_sizes sz ss" "sz \<le> mx"
    and no: "available J (int (length J) - 8) 8 \<noteq> aJournalMagic"
    and recs: "journal_records segs = map (original sz Orig) ks" "\<forall>k \<in> set ks. record_ok sz (original sz Orig k)"
    and len: "int (length Orig) = uint dbs * sz"
  shows "undoes E rep sz dbs Orig ks J"
  unfolding undoes_def
proof (intro allI impI)
  fix q t D
  assume h: "files_hold rep q t D J" and r: "restarted J q" and D: "only_changed sz dbs Orig ks D"
  have R: "hot J q" "1 \<le> pageSize q" "pageSize q < 2 ^ 32" "nat (pageSize q) \<le> length (pTmpSpace q)"
    "sectorSz q \<le> int (length J)" using r by (simp_all add: restarted_def)
  have C: "length D \<noteq> 1" "length D < 2 ^ 61"
    "\<forall>k. 1 \<le> k \<and> k \<le> uint dbs \<longrightarrow> k \<in> uint ` fst ` set (journal_records segs) \<or> page_same sz Orig D k"
    using D by (auto simp: only_changed_def recs(1) original_def image_image)
  have recs': "\<forall>r \<in> set (journal_records segs). record_ok sz r \<and> (fst r \<le> dbs \<longrightarrow> snd r = page_of sz Orig (uint (fst r)))"
    using recs by (auto simp: original_def)
  show "ensures (playback_journal E True (q, t)) (\<lambda>(rc, (n, found), q', t').
      rc = SQLITE_OK \<and> n = length ks \<and> files_hold rep q' t' Orig J \<and> pageSize q' = pageSize q)"
    by (rule ensures_weaken [OF hot_journal_restores [OF h R at sizes no C(1,2) recs' len C(3)]]) (auto simp: recs(1))
qed

lemma transaction_undone:
  assumes h: "holds p s D []" "journals sz ss dbs mx p" "journalOff p = 0" "nRec p = 0" and sizes: "journal_sizes sz ss"
    and pr: "proper_steps sz dbs {} xs" "journal_pages sz xs"
    and len: "int (length D) = uint dbs * sz"
    and room: "length xs < 2 ^ 31"
    and cached: "\<forall>k. Journal k \<in> set xs \<longrightarrow> map_option pData (pPCache p k) = Some (page_of sz D (uint k))"
    and tail: "plain_tail sz D (snd (settled xs ([], [])))"
  shows "ensures (journal_transaction E xs (p, s)) (\<lambda>(rc, _, p', s'). rc = SQLITE_OK \<and>
    (\<exists>J. holds p' s' D J \<and> undoes E rep sz dbs D (journaled xs) J))"
proof (rule ensures_weaken [OF transaction_journaled [OF h pr(1) len room cached]])
  have sz: "512 \<le> sz" "sz \<le> mx" "0 < ss" using h(2) by (simp_all add: journals_def)
  have ok: "\<forall>k \<in> set (journaled xs). record_ok sz (original sz D k)"
    using original_ok [OF pr _ len] sz by simp
  let ?e = "snd (settled xs ([], []))"
  have all: "fst (settled xs ([], [])) @ ?e = journaled xs" using settled_all [of xs "([], [])"] by simp
  obtain ks k where e: "?e = ks @ [k]" using tail by (metis append_butlast_last_id plain_tail_def)
  have in_e: "\<forall>x \<in> set (ks @ [k]). length (snd (original sz D x)) = nat sz"
    using ok all unfolding e by (metis Un_iff record_ok_def set_append)
  fix x :: "cint \<times> unit \<times> 'f Pager \<times> 's"
  assume X: "case x of (rc, _, p', s') \<Rightarrow> rc = SQLITE_OK \<and> (\<exists>J' off segs ck. holds p' s' D J' \<and>
    counted (int (length [])) sz ss dbs (segs @ [(ck, map (original sz D) ?e)]) off J' \<and>
    journal_records segs = map (original sz D) (fst (settled xs ([], []))))"
  obtain rc u p' s' where x: "x = (rc, u, p', s')" by (rule prod_cases4)
  obtain J' off segs ck where R: "rc = SQLITE_OK" "holds p' s' D J'"
    "counted 0 sz ss dbs (segs @ [(ck, map (original sz D) ?e)]) off J'"
    "journal_records segs = map (original sz D) (fst (settled xs ([], [])))" using X x by auto
  have at: "journal_at sz ss dbs J' 0 (segs @ [(ck, map (original sz D) ?e)])"
    using R(3) by (auto simp: counted_def intro: journal_part_at)
  have rec: "journal_records (segs @ [(ck, map (original sz D) ?e)]) = map (original sz D) (journaled xs)"
    using R(4) unfolding all [symmetric] by (simp add: journal_records_def)
  have no: "available J' (int (length J') - 8) 8 \<noteq> aJournalMagic"
    by (rule counted_end [OF R(3) [unfolded e map_append list.map]])
      (use sz in_e tail e in \<open>auto simp: plain_tail_def original_def\<close>)
  have "undoes E rep sz dbs D (journaled xs) J'"
    by (rule journal_undoes [OF at _ sizes sz(2) no rec ok len]) simp
  then show "case x of (rc, _, p', s') \<Rightarrow> rc = SQLITE_OK \<and> (\<exists>J. holds p' s' D J \<and> undoes E rep sz dbs D (journaled xs) J)"
    using R(1,2) x by auto
qed

text \<open>
  A transaction that is interrupted between two syncs: the pages that were synced are undone,
  and no other page has been written to the database by then.
\<close>

lemma interrupted_undone:
  assumes h: "holds p s D []" "journals sz ss dbs mx p" "journalOff p = 0" "nRec p = 0" and sizes: "journal_sizes sz ss"
    and pr: "proper_steps sz dbs {} xs" "journal_pages sz xs"
    and len: "int (length D) = uint dbs * sz"
    and room: "length xs < 2 ^ 31"
    and cached: "\<forall>k. Journal k \<in> set xs \<longrightarrow> map_option pData (pPCache p k) = Some (page_of sz D (uint k))"
    and tail: "plain_tail sz D (snd (settled xs ([], [])))" and synced: "fst (settled xs ([], [])) \<noteq> []"
  shows "ensures (begin_journal E xs (p, s)) (\<lambda>(rc, _, p', s'). rc = SQLITE_OK \<and>
    (\<exists>J. holds p' s' D J \<and> undoes E rep sz dbs D (fst (settled xs ([], []))) J))"
proof (rule ensures_weaken [OF transaction_begins [OF h pr(1) len room cached]])
  have sz: "512 \<le> sz" "sz \<le> mx" "32 \<le> ss" using h(2) by (simp_all add: journals_def)
  have ok: "\<forall>k \<in> set (journaled xs). record_ok sz (original sz D k)"
    using original_ok [OF pr _ len] sz by simp
  let ?d = "fst (settled xs ([], []))" and ?e = "snd (settled xs ([], []))"
  have all: "?d @ ?e = journaled xs" using settled_all [of xs "([], [])"] by simp
  obtain ks k where e: "?e = ks @ [k]" using tail by (metis append_butlast_last_id plain_tail_def)
  have in_e: "\<forall>x \<in> set (ks @ [k]). length (snd (original sz D x)) = nat sz"
    using ok all unfolding e by (metis Un_iff record_ok_def set_append)
  have ok_d: "\<forall>k \<in> set ?d. record_ok sz (original sz D k)" using ok all by (metis Un_iff set_append)
  fix x :: "cint \<times> unit \<times> 'f Pager \<times> 's"
  assume X: "case x of (rc, _, p', s') \<Rightarrow> rc = SQLITE_OK \<and> (\<exists>J' segs' rs'. holds p' s' D J' \<and>
    journals sz ss dbs mx p' \<and> writing (int (length [])) sz ss dbs segs' rs' p' J' \<and> journalOff p' < 2 ^ 60 \<and>
    (journal_records segs', rs') = map_prod (map (original sz D)) (map (original sz D)) (settled xs ([], [])))"
  obtain rc u p' s' where x: "x = (rc, u, p', s')" by (rule prod_cases4)
  obtain J' segs rs where R: "rc = SQLITE_OK" "holds p' s' D J'" "writing 0 sz ss dbs segs rs p' J'"
    "(journal_records segs, rs) = map_prod (map (original sz D)) (map (original sz D)) (settled xs ([], []))"
    using X x by auto
  have rec: "journal_records segs = map (original sz D) ?d" "rs = map (original sz D) ?e"
    using R(4) by (cases "settled xs ([], [])"; simp)+
  have ne: "segs \<noteq> []" using rec(1) synced by (auto simp: journal_records_def)
  have no: "available J' (int (length J') - 8) 8 \<noteq> aJournalMagic"
    by (rule writing_end [OF R(3) [unfolded rec(2) e map_append list.map]])
      (use sz in_e tail e in \<open>auto simp: plain_tail_def original_def\<close>)
  have "undoes E rep sz dbs D ?d J'"
    by (rule journal_undoes [OF writing_at [OF R(3)] ne sizes sz(2) no rec(1) ok_d len])
  then show "case x of (rc, _, p', s') \<Rightarrow> rc = SQLITE_OK \<and> (\<exists>J. holds p' s' D J \<and> undoes E rep sz dbs D ?d J)"
    using R(1,2) x by auto
qed

end

end
