(* ===== verification/Pager_Commit.thy ===== *)
theory Pager_Commit
  imports Pager_Lock
begin

text \<open>
  The end of a transaction: the journal is finalized (deleted, truncated or its first header
  zeroed), after which it cannot undo the transaction any more.
\<close>

definition zeroJournalHdr :: "('f, 's) pager_env \<Rightarrow> bool \<Rightarrow> ('f, 's) pst \<Rightarrow> ('f, 's, unit) pres" where
  "zeroJournalHdr E doTruncate ps =
     (if journalOff (fst ps) \<noteq> 0 then
        let iLimit = journalSizeLimit (fst ps) in
        if_ok (if doTruncate \<or> iLimit = 0 then on_jfd (\<lambda>f. xTruncate E f 0) ps
               else on_jfd (\<lambda>f. xWrite E f (zeroed 28) 28 0) ps) () (\<lambda>_ ps.
          if_ok (if \<not> noSync (fst ps)
                 then on_jfd (\<lambda>f. xSync E f (SQLITE_SYNC_DATAONLY OR syncFlags (fst ps))) ps
                 else Some (SQLITE_OK, (), ps)) () (\<lambda>_ ps.
            if 0 < iLimit then
              if_ok (on_jfd (xFileSize E) ps) () (\<lambda>sz ps.
                if iLimit < sz then on_jfd (\<lambda>f. xTruncate E f iLimit) ps else Some (SQLITE_OK, (), ps))
            else Some (SQLITE_OK, (), ps)))
      else Some (SQLITE_OK, (), ps))"

definition close_journal :: "('f, 's) pager_env \<Rightarrow> ('f, 's) pst \<Rightarrow> ('f, 's) pst option" where
  "close_journal E = (\<lambda>(p, s). do {
     f \<leftarrow> jfd p;
     s \<leftarrow> xClose E f s;
     Some (p\<lparr>jfd := None\<rparr>, s)
   })"

text \<open>The part of \<open>pager_end_transaction\<close> that deals with an open journal file.\<close>

definition finalize_journal :: "('f, 's) pager_env \<Rightarrow> bool \<Rightarrow> ('f, 's) pst \<Rightarrow> ('f, 's, unit) pres" where
  "finalize_journal E hasMaster = (\<lambda>(p, s). do {
     j \<leftarrow> jfd p;
     if isInMemory E j then do {
       ps \<leftarrow> close_journal E (p, s);
       Some (SQLITE_OK, (), ps)
     }
     else if journalMode p = PAGER_JOURNALMODE_TRUNCATE then do {
       (rc, _, p, s) \<leftarrow>
         (if journalOff p = 0 then Some (SQLITE_OK, (), p, s)
          else if_ok (on_jfd (\<lambda>f. xTruncate E f 0) (p, s)) () (\<lambda>_ ps.
            if fullSync (fst ps) then on_jfd (\<lambda>f. xSync E f (syncFlags (fst ps))) ps
            else Some (SQLITE_OK, (), ps)));
       Some (rc, (), p\<lparr>journalOff := 0\<rparr>, s)
     }
     else if journalMode p = PAGER_JOURNALMODE_PERSIST \<or>
             exclusiveMode p \<and> journalMode p \<noteq> PAGER_JOURNALMODE_WAL then do {
       (rc, _, p, s) \<leftarrow> zeroJournalHdr E (hasMaster \<or> tempFile p) (p, s);
       Some (rc, (), p\<lparr>journalOff := 0\<rparr>, s)
     }
     else do {
       (p, s) \<leftarrow> close_journal E (p, s);
       if \<not> tempFile p then do {
         (rc, s) \<leftarrow> xDelete E (zJournal p) (extraSync p) s;
         Some (rc, (), p, s)
       }
       else Some (SQLITE_OK, (), p, s)
     }
   })"

end
