(* ===== verification/Journal_Commit.thy ===== *)
theory Journal_Commit
  imports Journal_Recover Pager_Commit
begin

text \<open>A finalized journal is spent: whoever plays it back restores nothing.\<close>

definition spent ::
  "('f, 's) pager_env \<Rightarrow> ((pager_file \<Rightarrow> 'f) \<Rightarrow> 's \<Rightarrow> (pager_file \<Rightarrow> bytes) \<Rightarrow> bool) \<Rightarrow> bytes \<Rightarrow> bool" where
  "spent E rep J \<longleftrightarrow>
     (\<forall>q t D. files_hold rep q t D J \<longrightarrow> hot J q \<and> 1 \<le> pageSize q \<and> pageSize q < 2 ^ 32 \<and>
        nat (pageSize q) \<le> length (pTmpSpace q) \<and> 32 \<le> sectorSz q \<longrightarrow>
        ensures (playback_journal E True (q, t)) (\<lambda>(rc, (n, found), q', t').
          rc = SQLITE_OK \<and> n = 0 \<and> files_hold rep q' t' D J \<and> pageSize q' = pageSize q))"

text \<open>The ways to finalize a journal that leave its file.\<close>

definition keeps_journal :: "'f Pager \<Rightarrow> bool" where
  "keeps_journal p \<longleftrightarrow> journalMode p \<in> {PAGER_JOURNALMODE_TRUNCATE, PAGER_JOURNALMODE_PERSIST} \<or>
     exclusiveMode p \<and> journalMode p \<noteq> PAGER_JOURNALMODE_WAL"

context two_files
begin

lemma headless_spent:
  assumes "length J \<noteq> 1" "16 \<le> length J \<longrightarrow> available J (int (length J) - 8) 8 \<noteq> aJournalMagic"
    "take 8 J \<noteq> aJournalMagic" "8 \<le> mx"
  shows "spent E rep J"
  unfolding spent_def
proof (intro allI impI, elim conjE)
  fix q t D
  assume h: "files_hold rep q t D J" and q: "hot J q" "1 \<le> pageSize q" "pageSize q < 2 ^ 32"
    "nat (pageSize q) \<le> length (pTmpSpace q)" "32 \<le> sectorSz q"
  have "8 \<le> sectorSz q" using q(5) by simp
  from headless_journal_ignored [OF h q(1-4) this assms]
  show "ensures (playback_journal E True (q, t)) (\<lambda>(rc, (n, found), q', t').
      rc = SQLITE_OK \<and> n = 0 \<and> files_hold rep q' t' D J \<and> pageSize q' = pageSize q)"
    by (rule ensures_weaken) auto
qed

lemma empty_spent: "8 \<le> mx \<Longrightarrow> spent E rep []"
  by (rule headless_spent) (simp_all add: aJournalMagic_def)

lemma zeroed_spent:
  assumes "36 \<le> length J" "available J (int (length J) - 8) 8 \<noteq> aJournalMagic" "8 \<le> mx"
  shows "spent E rep (write_at J 0 (zeroed 28))"
proof (rule headless_spent [OF _ _ _ assms(3)])
  let ?J = "write_at J 0 (zeroed 28)"
  have l: "length ?J = length J" using assms(1) by (simp add: length_write_at zeroed_def)
  show "length ?J \<noteq> 1" using l assms(1) by simp
  have "available ?J (int (length J) - 8) 8 = available J (int (length J) - 8) 8"
    by (rule available_write_other) (use assms(1) in \<open>simp_all add: zeroed_def\<close>)
  then show "16 \<le> length ?J \<longrightarrow> available ?J (int (length ?J) - 8) 8 \<noteq> aJournalMagic" using assms(2) l by simp
  show "take 8 ?J \<noteq> aJournalMagic" using not_magic(1) by (simp add: write_at_def zeroed_def)
qed

lemma truncate_journal:
  assumes h: "holds p s D J" and b: "0 \<le> n" "n < int (length J)" "n < 2 ^ 62"
    and Q: "\<And>j s'. holds (p\<lparr>jfd := Some j\<rparr>) s' D (take (nat n) J) \<Longrightarrow> Q (SQLITE_OK, (), p\<lparr>jfd := Some j\<rparr>, s')"
  shows "ensures (on_jfd (\<lambda>f. xTruncate E f n) (p, s)) Q"
  by (rule jfd_step [where P = "\<lambda>rc x. rc = SQLITE_OK", OF h])
    (use truncates [where k = Jrn and C = "case_pager_file D J"] b Q in fastforce)+

text \<open>Zeroing or truncating succeeds, and leaves a journal that is spent.\<close>

lemma ensures_seq:
  assumes "ensures r (\<lambda>(rc, x, p, s). rc = SQLITE_OK \<and> P x p s)" "\<And>x p s. P x p s \<Longrightarrow> ensures (k x (p, s)) Q"
  shows "ensures (if_ok r b k) Q"
  using assms(2) by (auto intro: ensures_weaken [OF assms(1)])

lemma zeroJournalHdr_spec:
  assumes h: "holds p s D J" and off: "journalOff p \<noteq> 0" and J: "36 \<le> length J" "length J < 2 ^ 61"
    "available J (int (length J) - 8) 8 \<noteq> aJournalMagic"
    and lim: "journalSizeLimit p \<le> 0 \<or> int (length J) \<le> journalSizeLimit p" and mx: "28 \<le> mx"
  shows "ensures (zeroJournalHdr E tr (p, s)) (\<lambda>(rc, _, p', s'). rc = SQLITE_OK \<and>
    (\<exists>J'. holds p' s' D J' \<and> spent E rep J'))"
proof -
  let ?J = "if tr \<or> journalSizeLimit p = 0 then [] else write_at J 0 (zeroed 28)"
  have mx8: "8 \<le> mx" using mx by simp
  have spent: "spent E rep ?J" using empty_spent [OF mx8] zeroed_spent [OF J(1,3) mx8] by simp
  have l: "length ?J \<le> length J" "length ?J \<noteq> 1" using J by (simp_all add: length_write_at zeroed_def)
  have zeroes: "ensures (if tr \<or> journalSizeLimit p = 0 then on_jfd (\<lambda>f. xTruncate E f 0) (p, s)
      else on_jfd (\<lambda>f. xWrite E f (zeroed 28) 28 0) (p, s))
    (\<lambda>(rc, _, p', s'). rc = SQLITE_OK \<and> holds p' s' D ?J \<and> noSync p' = noSync p)"
  proof (cases "tr \<or> journalSizeLimit p = 0")
    case True
    show ?thesis unfolding if_P [OF True]
      by (rule truncate_journal [OF h]) (use J in auto)
  next
    case False
    show ?thesis unfolding if_not_P [OF False]
      by (rule write_journal [OF h]) (use mx in \<open>auto simp: zeroed_def\<close>)
  qed
  have syncs: "ensures (if \<not> noSync q then on_jfd (\<lambda>f. xSync E f fl) (q, t) else Some (SQLITE_OK, (), q, t))
    (\<lambda>(rc, _, p', s'). rc = SQLITE_OK \<and> holds p' s' D ?J)" if "holds q t D ?J" for q t fl
    unfolding ensures_simps by (auto intro: sync_journal [OF that] simp: that)
  have size: "ensures (if_ok (on_jfd (xFileSize E) (q, t)) () (\<lambda>sz ps. if journalSizeLimit p < sz
        then on_jfd (\<lambda>f. xTruncate E f (journalSizeLimit p)) ps else Some (SQLITE_OK, (), ps)))
      (\<lambda>(rc, _, p', s'). rc = SQLITE_OK \<and> holds p' s' D ?J)" if "0 < journalSizeLimit p" "holds q t D ?J" for q t
  proof (rule ensures_seq [where P = "\<lambda>sz q t. sz = int (length ?J) \<and> holds q t D ?J"])
    show "ensures (on_jfd (xFileSize E) (q, t)) (\<lambda>(rc, sz, q, t). rc = SQLITE_OK \<and> sz = int (length ?J) \<and> holds q t D ?J)"
      by (rule size_of_journal [OF that(2) l(2)]) (use l J in auto)
    have "\<not> journalSizeLimit p < int (length ?J)" using lim that(1) l(1) by auto
    then show "ensures (if journalSizeLimit p < sz then on_jfd (\<lambda>f. xTruncate E f (journalSizeLimit p)) (q, t)
        else Some (SQLITE_OK, (), q, t)) (\<lambda>(rc, _, p', s'). rc = SQLITE_OK \<and> holds p' s' D ?J)"
      if "sz = int (length ?J) \<and> holds q t D ?J" for sz q t using that by simp
  qed
  have last: "ensures (if 0 < journalSizeLimit p then if_ok (on_jfd (xFileSize E) (q, t)) () (\<lambda>sz ps. if journalSizeLimit p < sz
        then on_jfd (\<lambda>f. xTruncate E f (journalSizeLimit p)) ps else Some (SQLITE_OK, (), ps)) else Some (SQLITE_OK, (), q, t))
      (\<lambda>(rc, _, p', s'). rc = SQLITE_OK \<and> holds p' s' D ?J)" if "holds q t D ?J" for q t
  proof (cases "0 < journalSizeLimit p")
    case True
    show ?thesis unfolding if_P [OF True] by (rule size [OF True that])
  qed (use that in auto)
  have "ensures (zeroJournalHdr E tr (p, s)) (\<lambda>(rc, _, p', s'). rc = SQLITE_OK \<and> holds p' s' D ?J)"
    unfolding zeroJournalHdr_def Let_def fst_conv if_P [OF off]
    by (rule ensures_seq [OF zeroes], unfold fst_conv, rule ensures_seq [OF syncs], simp) (rule last)
  then show ?thesis by (rule ensures_weaken) (use spent in auto)
qed

lemma finalize_spends:
  assumes h: "holds p s D J" and off: "journalOff p \<noteq> 0" and J: "36 \<le> length J" "length J < 2 ^ 61"
    "available J (int (length J) - 8) 8 \<noteq> aJournalMagic"
    and lim: "journalSizeLimit p \<le> 0 \<or> int (length J) \<le> journalSizeLimit p" and mx: "28 \<le> mx"
    and mode: "keeps_journal p" "\<not> isInMemory E (the (jfd p))"
  shows "ensures (finalize_journal E hasMaster (p, s)) (\<lambda>(rc, _, p', s'). rc = SQLITE_OK \<and> journalOff p' = 0 \<and>
    (\<exists>J'. holds p' s' D J' \<and> spent E rep J'))"
proof -
  have mx8: "8 \<le> mx" using mx by simp
  obtain j where j: "jfd p = Some j" using holds_open [OF h] by blast
  have J0: "0 < int (length J)" using J(1) by linarith
  show ?thesis
  proof (cases "journalMode p = PAGER_JOURNALMODE_TRUNCATE")
    case True
    obtain j1 s1 where r1: "on_jfd (\<lambda>f. xTruncate E f 0) (p, s) = Some (SQLITE_OK, (), p\<lparr>jfd := Some j1\<rparr>, s1)"
      and h1: "holds (p\<lparr>jfd := Some j1\<rparr>) s1 D []"
    proof -
      have "ensures (on_jfd (\<lambda>f. xTruncate E f 0) (p, s))
          (\<lambda>(rc, _, p', s'). rc = SQLITE_OK \<and> (\<exists>j. p' = p\<lparr>jfd := Some j\<rparr>) \<and> holds p' s' D [])"
        by (rule truncate_journal [OF h]) (use J0 in auto)
      then show thesis by (rule ensures_unitE) (blast intro: that)
    qed
    have "ensures (on_jfd (\<lambda>f. xSync E f (syncFlags p)) (p\<lparr>jfd := Some j1\<rparr>, s1)) (\<lambda>(rc, _, p', s'). rc = SQLITE_OK \<and> holds p' s' D [])"
      by (rule sync_journal [OF h1]) simp
    then obtain q t where r2: "on_jfd (\<lambda>f. xSync E f (syncFlags p)) (p\<lparr>jfd := Some j1\<rparr>, s1) = Some (SQLITE_OK, (), q, t)" "holds q t D []"
      by (auto simp: ensures_def)
    show ?thesis
      using r1 r2 h1 empty_spent [OF mx8] True mode(2) off j by (auto simp: finalize_journal_def if_ok_def)
  next
    case False
    then have m: "journalMode p = PAGER_JOURNALMODE_PERSIST \<or> exclusiveMode p \<and> journalMode p \<noteq> PAGER_JOURNALMODE_WAL"
      using mode(1) by (auto simp: keeps_journal_def)
    obtain q t J' where "zeroJournalHdr E (hasMaster \<or> tempFile p) (p, s) = Some (SQLITE_OK, (), q, t)" "holds q t D J'" "spent E rep J'"
      using zeroJournalHdr_spec [OF h off J lim mx, of "hasMaster \<or> tempFile p"] by (auto simp: ensures_def)
    then show ?thesis using False m mode(2) j by (auto simp: finalize_journal_def)
  qed
qed

end

end
