(* ===== verification/Remote_IO.thy ===== *)
theory Remote_IO
  imports Remote_System IO_Spec
begin

text \<open>
  Reading and writing through the remote VFS, down to the bytes of the file: a delivered read or
  write is the local one on the server's view of the handle, what a client writes is what the
  next reader gets, and what happens to data that does not fit the protocol's arrays.
\<close>

section \<open>Delivered reads and writes\<close>

lemma remoteWrite_delivered:
  assumes inv: "ml_inv (sv_list sv)" "served (sv_list sv) (h_fd f)" and fits: "fits pBuf amt"
    and run: "unixWrite S (server_view sv f) (buffer (uninit junk 1 8192) pBuf amt) (sint amt) (sint offset)
      (sv_os sv) = Some (rc, g, os)"
  shows "remoteWrite S Delivered junk f pBuf amt offset sv =
    Some ((setClientRemotePMethods g, rc), settle g (put_os os sv))"
proof -
  have c: "call_write S (server_view sv f) (buffer (uninit junk 1 8192) pBuf amt, amt, offset) sv =
      Some (g, rc, put_os os sv)"
    using run by (simp add: call_write_def)
  have ok: "fits pBuf amt \<and> fits (uninit junk 1 8192) amt"
    using fits by (simp add: fits_def MAX_SIZE_def)
  show ?thesis
    using remote_write.delivered [where a = "(f, pBuf, amt, offset)" and e = "uninit junk 1 8192" and c = "()"
        and junk = junk, OF _ _ inv c] ok
    by (simp add: remoteWrite_def WrapWrite_def del: One_nat_def)
qed

lemma remoteRead_delivered:
  assumes inv: "ml_inv (sv_list sv)" "served (sv_list sv) (h_fd f)" and fits: "fits pBuf amt"
    and run: "unixRead S (server_view sv f) (buffer (uninit junk 1 8192) pBuf amt) (sint amt) (sint offset)
      (sv_os sv) = Some (rc, g, buf, os)" and len: "length buf = 8192"
  shows "remoteRead S Delivered junk f pBuf amt offset sv =
    Some ((setClientRemotePMethods g, buffer pBuf buf amt, rc), settle g (put_os os sv))"
proof -
  have c: "call_read S (server_view sv f) (buffer (uninit junk 1 8192) pBuf amt, amt, offset) sv =
      Some (g, (buf, amt, rc), put_os os sv)"
    using run by (simp add: call_read_def)
  have ok: "fits pBuf amt" "fits (uninit junk 1 8192) amt" "fits buf amt"
    using fits len by (simp_all add: fits_def MAX_SIZE_def)
  show ?thesis
    using remote_read.delivered [where a = "(f, pBuf, amt, offset)" and e = "uninit junk 1 8192"
        and c = "(pBuf, amt)" and junk = junk, OF _ _ inv c] ok
    by (simp add: remoteRead_def WrapRead_def del: One_nat_def)
qed

section \<open>What is written is read\<close>

lemma server_view_fields:
  assumes "ml_inv (sv_list sv)" and "served (sv_list sv) (h_fd f)"
  shows "h_fd (server_view sv f) = h_fd f" "mmapSize (server_view sv f) = mmapSize f"
  by (rule served_file [OF assms]; simp)+

lemma client_fields [simp]: "mmapSize (setClientRemotePMethods g) = mmapSize g"
  by (simp add: setClientRemotePMethods_def)

lemma write_read_delivered:
  assumes inv: "ml_inv (sv_list sv)" "served (sv_list sv) (h_fd f)"
    and K: "kernel_seeks S content offs" "kernel_reads S content offs" "kernel_writes S content offs"
      "io_succeeds S (h_fd f)"
    and bd: "0 < sint amt" "sint amt \<le> 8192" "0 \<le> sint offset"
    and len: "length pBuf = nat (sint amt)" "length buf = nat (sint amt)" and um: "mmapSize f = 0"
  obtains g sv1 h sv2 where
    "remoteWrite S Delivered junk f pBuf amt offset sv = Some ((g, SQLITE_OK), sv1)"
    "content (sv_os sv1) (h_fd f) = write_at (content (sv_os sv) (h_fd f)) (nat (sint offset)) pBuf"
    "remoteRead S Delivered junk g buf amt offset sv1 = Some ((h, pBuf, SQLITE_OK), sv2)"
proof -
  have amt: "csize amt = nat (sint amt)" using bd by (simp add: csize_nonneg)
  have fits: "fits pBuf amt" "fits buf amt" using len bd amt by (simp_all add: fits_def MAX_SIZE_def)
  note V = server_view_fields [OF inv]
  let ?wbuf = "buffer (uninit junk 1 8192) pBuf amt"
  have wb: "take (nat (sint amt)) ?wbuf = pBuf" "nat (sint amt) \<le> length ?wbuf"
    using len bd by (simp_all add: buffer_def amt overwrite_def)
  have am: "sint amt \<le> 0x1ffff" using bd by simp
  obtain g1 os1 where w: "unixWrite S (server_view sv f) ?wbuf (sint amt) (sint offset) (sv_os sv) = Some (SQLITE_OK, g1, os1)"
    using unixWrite_returns [OF K(1,3) _ bd(3,1) am wb(2), of "server_view sv f" "sv_os sv"] K(4) V(1) by auto
  note W = unixWrite_spec [OF w K(1,3) bd(3,1) am]
  define sv1 where "sv1 = settle g1 (put_os os1 sv)"
  have run1: "remoteWrite S Delivered junk f pBuf amt offset sv = Some ((setClientRemotePMethods g1, SQLITE_OK), sv1)"
    unfolding sv1_def by (rule remoteWrite_delivered [OF inv fits(1) w])
  have sh: "same_handle (server_view sv f) g1"
    using unixWrite_handle [OF w] by (auto dest: only_errnoD)
  have gr: "list_grows (sv_list sv) (sv_list sv1)"
    unfolding sv1_def by (rule settle_grows [OF inv sh]) simp
  have os1: "sv_os sv1 = os1" by (simp add: sv1_def)
  let ?g = "setClientRemotePMethods g1"
  have g: "h_fd ?g = h_fd f" "mmapSize ?g = 0" using W(2,3) V um by simp_all
  have inv1: "ml_inv (sv_list sv1)" "served (sv_list sv1) (h_fd ?g)"
    using gr inv(2) list_grows_served g by (auto simp: list_grows_def)
  note V1 = server_view_fields [OF inv1]
  have c1: "content os1 (h_fd f) = write_at (content (sv_os sv) (h_fd f)) (nat (sint offset)) pBuf"
    using W(1) wb(1) V by simp
  let ?rbuf = "buffer (uninit junk 1 8192) buf amt"
  have rb: "nat (sint amt) \<le> length ?rbuf" "length ?rbuf = 8192" using len bd by (simp_all add: buffer_def amt)
  have a64: "sint amt < 2 ^ 64" using bd by simp
  have um1: "mmapSize (server_view sv1 ?g) = 0" using V1 g by simp
  obtain rc h buf' os2 where r: "unixRead S (server_view sv1 ?g) ?rbuf (sint amt) (sint offset) (sv_os sv1) = Some (rc, h, buf', os2)"
    and rc: "rc \<in> {SQLITE_OK, SQLITE_IOERR_SHORT_READ}"
    using unixRead_returns [OF K(1,2) _ bd(3,1) a64 rb(1) um1] K(4) V1 g by metis
  note R = unixRead_spec [OF r K(1,2) bd(3,1) a64 rb(1) um1]
  have pb: "pBuf \<noteq> []" "int (length pBuf) = sint amt" using len bd by auto
  note av = available_write_at [OF pb(1) bd(3), of "content (sv_os sv) (h_fd f)", unfolded pb(2)]
  have c2: "content (sv_os sv1) (h_fd (server_view sv1 ?g)) = write_at (content (sv_os sv) (h_fd f)) (nat (sint offset)) pBuf"
    using c1 V1 g os1 by simp
  have "rc = SQLITE_OK" using rc R(3) av(2) unfolding c2 by auto
  moreover from this have "take (nat (sint amt)) buf' = pBuf" using R(2) av(1) unfolding c2 by simp
  then have "buffer buf buf' amt = pBuf" using len by (simp add: buffer_def amt overwrite_def)
  ultimately have run2: "remoteRead S Delivered junk ?g buf amt offset sv1 =
      Some ((setClientRemotePMethods h, pBuf, SQLITE_OK), settle h (put_os os2 sv1))"
    using remoteRead_delivered [OF inv1 fits(2) r] R(5) rb(2) by simp
  from run1 _ run2 show ?thesis by (rule that) (simp add: os1 c1)
qed

end
