(* ===== verification/Pager_Remote.thy ===== *)
theory Pager_Remote
  imports Journal_Commit Remote_IO
begin

text \<open>
  The pager over the remote VFS: the methods it calls are the client's, the files are two
  descriptors of the server, and the interface \<open>two_files\<close> holds for them.
\<close>

section \<open>Other files\<close>

text \<open>
  \<open>apart os a b\<close>: the descriptors \<open>a\<close> and \<open>b\<close> are open files that do not share bytes. A
  call on a descriptor leaves the contents of the files apart from it alone.
\<close>

definition aside ::
  "('os \<Rightarrow> cint \<Rightarrow> bytes) \<Rightarrow> ('os \<Rightarrow> cint \<Rightarrow> cint \<Rightarrow> bool) \<Rightarrow> cint \<Rightarrow> 'os \<Rightarrow> 'os \<Rightarrow> bool" where
  "aside content apart fd os os' \<longleftrightarrow>
     (\<forall>a b. apart os a b \<longrightarrow> apart os' a b) \<and> (\<forall>g. apart os g fd \<longrightarrow> content os' g = content os g)"

lemma aside_refl: "aside content apart fd os os"
  by (simp add: aside_def)

lemma aside_trans: "aside content apart fd os os1 \<Longrightarrow> aside content apart fd os1 os2 \<Longrightarrow> aside content apart fd os os2"
  by (simp add: aside_def)

definition kernel_aside ::
  "'os syscalls \<Rightarrow> ('os \<Rightarrow> cint \<Rightarrow> bytes) \<Rightarrow> ('os \<Rightarrow> cint \<Rightarrow> cint \<Rightarrow> bool) \<Rightarrow> bool" where
  "kernel_aside S content apart \<longleftrightarrow>
     (\<forall>fd off os r os'. osLseek S fd off os = (r, os') \<longrightarrow> aside content apart fd os os') \<and>
     (\<forall>fd n os r d os'. osRead S fd n os = (r, d, os') \<longrightarrow> aside content apart fd os os') \<and>
     (\<forall>fd b os r os'. osWrite S fd b os = (r, os') \<longrightarrow> aside content apart fd os os') \<and>
     (\<forall>fd n os r os'. osFtruncate S fd n os = (r, os') \<longrightarrow> aside content apart fd os os') \<and>
     (\<forall>fd os r os'. osFsync S fd os = (r, os') \<longrightarrow> aside content apart fd os os') \<and>
     (\<forall>fd os r st os'. osFstat S fd os = (r, st, os') \<longrightarrow> aside content apart fd os os')"

lemma kernel_asideD:
  assumes "kernel_aside S content apart"
  shows "osLseek S fd off os = (n, os') \<Longrightarrow> aside content apart fd os os'"
    "osRead S fd m os = (n, d, os') \<Longrightarrow> aside content apart fd os os'"
    "osWrite S fd b os = (n, os') \<Longrightarrow> aside content apart fd os os'"
    "osFtruncate S fd n os = (r, os') \<Longrightarrow> aside content apart fd os os'"
    "osFsync S fd os = (r, os') \<Longrightarrow> aside content apart fd os os'"
    "osFstat S fd os = (r, st, os') \<Longrightarrow> aside content apart fd os os'"
  using assms by (simp_all add: kernel_aside_def)

lemma seekAndRead_aside:
  assumes run: "seekAndRead S f offset buf pos cnt prior os = Some r" and K: "kernel_aside S content apart"
  shows "aside content apart (h_fd f) os (snd (snd (snd r)))"
proof -
  have "kernel_aside S content apart \<longrightarrow> aside content apart (h_fd f) os (snd (snd (snd r)))"
  proof (rule seekAndRead.raw_induct [where P = "\<lambda>S f offset buf pos cnt prior os r.
      kernel_aside S content apart \<longrightarrow> aside content apart (h_fd f) os (snd (snd (snd r)))", OF _ run], intro impI)
    fix rec and S :: "'a syscalls" and f offset buf pos cnt prior os and r :: "int \<times> unixFile \<times> bytes \<times> 'a"
    assume IH: "\<And>S f offset buf pos cnt prior os r. rec S f offset buf pos cnt prior os = Some r \<Longrightarrow>
        kernel_aside S content apart \<longrightarrow> aside content apart (h_fd f) os (snd (snd (snd r)))"
      and K: "kernel_aside S content apart"
      and eq: "(case osLseek S (h_fd f) offset os of (newOffset, os) \<Rightarrow>
        if newOffset < 0 then Some (- 1, storeLastErrno f (osErrno S os), buf, os)
        else case osRead S (h_fd f) (size_t cnt) os of (got, data, os) \<Rightarrow>
             if got < 0 then
               (if osErrno S os = EINTR then rec S f offset buf pos cnt prior os
                else Some (got, storeLastErrno f (osErrno S os), buf, os))
             else Option.bind (memcpy buf pos data) (\<lambda>buf.
               if got = cnt then Some (got + prior, f, buf, os)
               else if 0 < got
               then rec S f (offset + got) buf (pos + nat got) (cnt - got) (prior + got) os
               else Some (got + prior, f, buf, os))) = Some r"
    obtain n os1 where l: "osLseek S (h_fd f) offset os = (n, os1)" by fastforce
    obtain got d os2 where rd: "osRead S (h_fd f) (size_t cnt) os1 = (got, d, os2)" by (rule prod_cases3) (rule that)
    note A = kernel_asideD(1) [OF K l] and B = kernel_asideD(2) [OF K rd]
    have C: "aside content apart (h_fd f) os os2" by (rule aside_trans [OF A B])
    show "aside content apart (h_fd f) os (snd (snd (snd r)))"
      using eq K A C by (auto simp: l rd bind_eq_Some_iff split: if_splits dest!: IH intro: aside_trans)
  qed
  then show ?thesis using K by simp
qed

lemma write_loop_aside:
  assumes run: "write_loop S fd iOff data os = Some r" and K: "kernel_aside S content apart"
  shows "aside content apart fd os (snd r)"
proof -
  have "kernel_aside S content apart \<longrightarrow> aside content apart fd os (snd r)"
  proof (rule write_loop.raw_induct [where P = "\<lambda>S fd iOff data os r.
      kernel_aside S content apart \<longrightarrow> aside content apart fd os (snd r)", OF _ run], intro impI)
    fix rec and S :: "'a syscalls" and fd iOff data os and r :: "int \<times> 'a"
    assume IH: "\<And>S fd iOff data os r. rec S fd iOff data os = Some r \<Longrightarrow>
        kernel_aside S content apart \<longrightarrow> aside content apart fd os (snd r)"
      and K: "kernel_aside S content apart"
      and eq: "(case osLseek S fd iOff os of (iSeek, os) \<Rightarrow>
        if iSeek < 0 then Some (- 1, os)
        else case osWrite S fd data os of (rc, os) \<Rightarrow>
          if rc < 0 \<and> osErrno S os = EINTR then rec S fd iOff data os else Some (rc, os)) = Some r"
    obtain n os1 where l: "osLseek S fd iOff os = (n, os1)" by fastforce
    obtain w os2 where wr: "osWrite S fd data os1 = (w, os2)" by fastforce
    note A = kernel_asideD(1) [OF K l] and B = kernel_asideD(3) [OF K wr]
    have C: "aside content apart fd os os2" by (rule aside_trans [OF A B])
    show "aside content apart fd os (snd r)"
      using eq K A C by (auto simp: l wr split: if_splits dest!: IH intro: aside_trans)
  qed
  then show ?thesis using K by simp
qed

lemma seekAndWrite_aside:
  "seekAndWrite S f offset buf pos cnt os = Some (w, g, os') \<Longrightarrow> kernel_aside S content apart \<Longrightarrow>
     aside content apart (h_fd f) os os' \<and> h_fd g = h_fd f"
  by (auto simp: seekAndWrite_def seekAndWriteFd_def bind_eq_Some_iff dest: write_loop_aside)

lemma unixWrite_loop_aside:
  assumes run: "unixWrite_loop S f buf pos amt offset os = Some r" and K: "kernel_aside S content apart"
  shows "aside content apart (h_fd f) os (snd (snd (snd r)))"
proof -
  have "kernel_aside S content apart \<longrightarrow> aside content apart (h_fd f) os (snd (snd (snd r)))"
  proof (rule unixWrite_loop.raw_induct [where P = "\<lambda>S f buf pos amt offset os r.
      kernel_aside S content apart \<longrightarrow> aside content apart (h_fd f) os (snd (snd (snd r)))", OF _ run], intro impI)
    fix rec and S :: "'a syscalls" and f buf pos amt offset os and r :: "int \<times> int \<times> unixFile \<times> 'a"
    assume IH: "\<And>S f buf pos amt offset os r. rec S f buf pos amt offset os = Some r \<Longrightarrow>
        kernel_aside S content apart \<longrightarrow> aside content apart (h_fd f) os (snd (snd (snd r)))"
      and K: "kernel_aside S content apart"
      and eq: "Option.bind (seekAndWrite S f offset buf pos amt os) (\<lambda>(wrote, f, os).
       if wrote < amt \<and> 0 < wrote
       then rec S f buf (pos + nat wrote) (amt - wrote) (offset + wrote) os
       else Some (wrote, amt, f, os)) = Some r"
    obtain w g os1 where s: "seekAndWrite S f offset buf pos amt os = Some (w, g, os1)"
      using eq by (auto simp: bind_eq_Some_iff)
    have A: "aside content apart (h_fd f) os os1" "h_fd g = h_fd f" using seekAndWrite_aside [OF s K] by simp_all
    show "aside content apart (h_fd f) os (snd (snd (snd r)))"
      using eq K A IH [of S g buf "pos + nat w" "amt - w" "offset + w" os1 r]
      by (auto simp: s split: if_splits intro: aside_trans)
  qed
  then show ?thesis using K by simp
qed

lemma unixRead_aside:
  assumes "unixRead S f buf amt offset os = Some (rc, g, buf', os')" "kernel_aside S content apart" "mmapSize f = 0" "0 \<le> offset"
  shows "aside content apart (h_fd f) os os'"
  using assms by (auto simp: unixRead_def read_file_def bind_eq_Some_iff split: if_splits dest!: seekAndRead_aside)

lemma unixWrite_aside:
  assumes "unixWrite S f buf amt offset os = Some (rc, g, os')" "kernel_aside S content apart"
  shows "aside content apart (h_fd f) os os'"
  using assms by (auto simp: unixWrite_def bind_eq_Some_iff split: if_splits dest!: unixWrite_loop_aside)

section \<open>Sizes and syncs\<close>

text \<open>On descriptors of regular files these calls succeed; a file that is cut keeps its head.\<close>

definition kernel_sizes :: "'os syscalls \<Rightarrow> ('os \<Rightarrow> cint \<Rightarrow> bytes) \<Rightarrow> bool" where
  "kernel_sizes S content \<longleftrightarrow>
     (\<forall>fd n os r os'. osFtruncate S fd n os = (r, os') \<longrightarrow> 0 \<le> n \<longrightarrow> n \<le> int (length (content os fd)) \<longrightarrow>
        r = 0 \<and> content os' fd = take (nat n) (content os fd)) \<and>
     (\<forall>fd os r os'. osFsync S fd os = (r, os') \<longrightarrow> r = 0 \<and> content os' fd = content os fd) \<and>
     (\<forall>fd os r st os'. osFstat S fd os = (r, st, os') \<longrightarrow> length (content os fd) < 2 ^ 62 \<longrightarrow>
        r = 0 \<and> content os' fd = content os fd \<and> st_size st = int (length (content os fd)))"

lemma kernel_sizesD:
  assumes "kernel_sizes S content"
  shows "osFtruncate S fd n os = (r, os') \<Longrightarrow> 0 \<le> n \<Longrightarrow> n \<le> int (length (content os fd)) \<Longrightarrow>
      r = 0 \<and> content os' fd = take (nat n) (content os fd)"
    "osFsync S fd os = (r, os') \<Longrightarrow> r = 0 \<and> content os' fd = content os fd"
    "osFstat S fd os = (r, st, os') \<Longrightarrow> length (content os fd) < 2 ^ 62 \<Longrightarrow>
      r = 0 \<and> content os' fd = content os fd \<and> st_size st = int (length (content os fd))"
  using assms by (simp_all add: kernel_sizes_def)

section \<open>Handles\<close>

text \<open>
  A handle the pager can work with: nothing of the file is mapped, it grows as it is written,
  its directory is synced, and the device has not promised safe appends.
\<close>

definition plain_handle :: "unixFile \<Rightarrow> bool" where
  "plain_handle f \<longleftrightarrow> mmapSize f = 0 \<and> szChunk f = 0 \<and> ctrlFlags f AND UNIXFILE_DIRSYNC = 0 \<and>
     deviceCharacteristics f AND SQLITE_IOCAP_SAFE_APPEND = 0"

lemma plain_handle_simps [simp]:
  "plain_handle (setClientRemotePMethods f) = plain_handle f"
  "plain_handle (f\<lparr>pMethod := m, zPath := a\<rparr>) = plain_handle f"
  "plain_handle (f\<lparr>mmapSizeMax := v\<rparr>) = plain_handle f"
  by (simp_all add: plain_handle_def setClientRemotePMethods_def)

lemma plain_handle_errno: "only_errno f g \<Longrightarrow> plain_handle g = plain_handle f"
  by (cases f; cases g) (simp add: only_errno_def plain_handle_def)

lemma plain_handle_view:
  assumes "ml_inv (sv_list sv)" "served (sv_list sv) (h_fd f)"
  shows "plain_handle (server_view sv f) = plain_handle f"
proof -
  obtain m a where "server_view sv f = f\<lparr>pMethod := served_method m, zPath := a\<rparr>"
    by (rule served_file [OF assms]) (rule that)
  then show ?thesis by simp
qed

lemma plain_handle_device: "plain_handle (setDeviceCharacteristics f) = plain_handle f"
proof -
  have "(w OR 0x1000) AND 0x200 = w AND (0x200 :: cint)" for w
    by (rule bit_word_eqI) (auto simp: bit_simps word_ao_dist)
  then show ?thesis by (simp add: plain_handle_def setDeviceCharacteristics_def)
qed

section \<open>The two files\<close>

definition remote_files ::
  "('os \<Rightarrow> cint \<Rightarrow> bytes) \<Rightarrow> ('os \<Rightarrow> cint \<Rightarrow> cint \<Rightarrow> bool) \<Rightarrow>
     (pager_file \<Rightarrow> unixFile) \<Rightarrow> 'os server \<Rightarrow> (pager_file \<Rightarrow> bytes) \<Rightarrow> bool" where
  "remote_files content apart F sv C \<longleftrightarrow>
     ml_inv (sv_list sv) \<and> apart (sv_os sv) (h_fd (F Db)) (h_fd (F Jrn)) \<and>
     apart (sv_os sv) (h_fd (F Jrn)) (h_fd (F Db)) \<and>
     (\<forall>k. served (sv_list sv) (h_fd (F k)) \<and> plain_handle (F k) \<and> content (sv_os sv) (h_fd (F k)) = C k)"

text \<open>A call of the server on one of the handles.\<close>

lemma remote_files_step:
  assumes rep: "remote_files content apart F sv C" and sh: "same_handle (server_view sv (F k)) g"
    and os: "aside content apart (h_fd (F k)) (sv_os sv) os" "content os (h_fd (F k)) = X" "plain_handle g"
    and sv': "sv_list sv' = sv_list sv" "sv_os sv' = os"
  shows "remote_files content apart (F(k := setClientRemotePMethods g)) (settle g sv') (C(k := X))"
proof -
  have inv: "ml_inv (sv_list sv)" "served (sv_list sv) (h_fd (F k))" using rep by (simp_all add: remote_files_def)
  have fd: "h_fd g = h_fd (F k)" using sh inv by (simp add: same_handle_def)
  have gr: "list_grows (sv_list sv) (sv_list (settle g sv'))" by (rule settle_grows [OF inv sh sv'(1)])
  have fd': "h_fd (setClientRemotePMethods g) = h_fd (F k)" using fd by simp
  have same: "h_fd ((F(k := setClientRemotePMethods g)) i) = h_fd (F i)" for i using fd' by simp
  have "served (sv_list (settle g sv')) (h_fd (F i))" for i
    using rep gr by (auto simp: remote_files_def intro: list_grows_served)
  moreover have "plain_handle ((F(k := setClientRemotePMethods g)) i)" for i
    using rep os(3) by (simp add: remote_files_def)
  moreover have "content os (h_fd (F i)) = (C(k := X)) i" for i
  proof (cases "i = k")
    case False
    then have "apart (sv_os sv) (h_fd (F i)) (h_fd (F k))" using rep by (cases i; cases k) (simp_all add: remote_files_def)
    then show ?thesis using os(1) rep False by (simp add: aside_def remote_files_def)
  qed (simp add: os(2))
  moreover have "apart os (h_fd (F Db)) (h_fd (F Jrn))" "apart os (h_fd (F Jrn)) (h_fd (F Db))"
    using rep os(1) by (simp_all add: remote_files_def aside_def)
  ultimately show ?thesis
    unfolding remote_files_def same settle_unix sv'(2) using gr by (simp add: list_grows_def)
qed

section \<open>The methods\<close>

lemma small_cint: "0 \<le> n \<Longrightarrow> n \<le> 8192 \<Longrightarrow> sint (word_of_int n :: cint) = n"
  by (rule sint_of_int32) simp_all

lemma small_i64: "0 \<le> n \<Longrightarrow> n < 2 ^ 63 \<Longrightarrow> sint (word_of_int n :: i64) = n"
  by (rule sint_of_int64) simp_all

lemma small_csize: "0 \<le> n \<Longrightarrow> n \<le> 8192 \<Longrightarrow> csize (word_of_int n :: cint) = nat n"
  using small_cint [of n] by (simp add: csize_nonneg)

text \<open>What a kernel is to the pager's files.\<close>

definition kernel_files ::
  "'os syscalls \<Rightarrow> ('os \<Rightarrow> cint \<Rightarrow> bytes) \<Rightarrow> ('os \<Rightarrow> cint \<Rightarrow> nat) \<Rightarrow> ('os \<Rightarrow> cint \<Rightarrow> cint \<Rightarrow> bool) \<Rightarrow> bool" where
  "kernel_files S content offs apart \<longleftrightarrow>
     kernel_seeks S content offs \<and> kernel_reads S content offs \<and> kernel_writes S content offs \<and>
     (\<forall>fd. io_succeeds S fd) \<and> kernel_aside S content apart \<and> kernel_sizes S content"

lemma remote_reads:
  assumes K: "kernel_files S content offs apart" and rep: "remote_files content apart F sv C"
    and bd: "0 < n" "n \<le> 8192" "0 \<le> off" "off + n < 2 ^ 62" "nat n \<le> length buf"
  shows "\<exists>buf' g sv'. remoteRead S Delivered junk (F k) buf (word_of_int n) (word_of_int off) sv =
      Some ((g, buf', if off + n \<le> int (length (C k)) then SQLITE_OK else SQLITE_IOERR_SHORT_READ), sv') \<and>
    remote_files content apart (F(k := g)) sv' C \<and> length buf' = length buf \<and>
    (off + n \<le> int (length (C k)) \<longrightarrow> take (nat n) buf' = available (C k) off n)"
proof -
  have K': "kernel_seeks S content offs" "kernel_reads S content offs" "io_succeeds S fd" "kernel_aside S content apart" for fd
    using K by (simp_all add: kernel_files_def)
  have inv: "ml_inv (sv_list sv)" "served (sv_list sv) (h_fd (F k))" "plain_handle (F k)" "content (sv_os sv) (h_fd (F k)) = C k"
    using rep by (simp_all add: remote_files_def)
  let ?v = "server_view sv (F k)"
  have v: "h_fd ?v = h_fd (F k)" "plain_handle ?v" "mmapSize ?v = 0"
    using inv plain_handle_view [OF inv(1,2)] server_view_fields [OF inv(1,2)] by (simp_all add: plain_handle_def)
  have num: "sint (word_of_int n :: cint) = n" "sint (word_of_int off :: i64) = off" "csize (word_of_int n :: cint) = nat n"
    using bd by (simp_all add: small_cint small_i64 small_csize)
  let ?b = "buffer (uninit junk 1 8192) buf (word_of_int n)"
  have lb: "length ?b = 8192" "nat n \<le> length ?b" using bd num(3) by (simp_all add: buffer_def)
  have n64: "n < 2 ^ 64" using bd by simp
  obtain rc g b os where r: "unixRead S ?v ?b n off (sv_os sv) = Some (rc, g, b, os)"
    and rc: "rc \<in> {SQLITE_OK, SQLITE_IOERR_SHORT_READ}"
    using unixRead_returns [OF K'(1-3) bd(3,1) n64 lb(2) v(3)] by blast
  note R = unixRead_spec [OF r K'(1,2) bd(3,1) n64 lb(2) v(3)]
  have rc': "rc = (if off + n \<le> int (length (C k)) then SQLITE_OK else SQLITE_IOERR_SHORT_READ)"
    using rc R(2,3) inv(4) v(1) by auto
  have fits: "fits buf (word_of_int n)" using bd num(3) by (simp add: fits_def MAX_SIZE_def)
  have run: "remoteRead S Delivered junk (F k) buf (word_of_int n) (word_of_int off) sv =
      Some ((setClientRemotePMethods g, buffer buf b (word_of_int n), rc), settle g (put_os os sv))"
    by (rule remoteRead_delivered [OF inv(1,2) fits]) (use r num R(5) lb(1) in simp_all)
  have sh: "same_handle ?v g" and pg: "plain_handle g"
    using unixRead_handle [OF r] v(2) by (auto dest: only_errnoD plain_handle_errno)
  have "remote_files content apart (F(k := setClientRemotePMethods g)) (settle g (put_os os sv)) (C(k := C k))"
    by (rule remote_files_step [OF rep sh _ _ pg])
      (use unixRead_aside [OF r K'(4) v(3) bd(3)] R(1) v(1) inv(4) in simp_all)
  moreover have "length (buffer buf b (word_of_int n)) = length buf" "take (nat n) (buffer buf b (word_of_int n)) = take (nat n) b"
    using bd(5) num(3) R(5) lb(2) by (simp_all add: buffer_def overwrite_def)
  moreover have "take (nat n) b = available (C k) off n" if "off + n \<le> int (length (C k))"
    using R(2) rc' that inv(4) v(1) by simp
  ultimately show ?thesis using run rc' by auto
qed

lemma remote_writes:
  assumes K: "kernel_files S content offs apart" and rep: "remote_files content apart F sv C"
    and bd: "0 < n" "n \<le> 8192" "0 \<le> off" "off + n < 2 ^ 62" "nat n \<le> length b"
  shows "\<exists>g sv'. remoteWrite S Delivered junk (F k) b (word_of_int n) (word_of_int off) sv = Some ((g, SQLITE_OK), sv') \<and>
    remote_files content apart (F(k := g)) sv' (C(k := write_at (C k) (nat off) (take (nat n) b)))"
proof -
  have K': "kernel_seeks S content offs" "kernel_writes S content offs" "io_succeeds S fd" "kernel_aside S content apart" for fd
    using K by (simp_all add: kernel_files_def)
  have inv: "ml_inv (sv_list sv)" "served (sv_list sv) (h_fd (F k))" "plain_handle (F k)" "content (sv_os sv) (h_fd (F k)) = C k"
    using rep by (simp_all add: remote_files_def)
  let ?v = "server_view sv (F k)"
  have v: "h_fd ?v = h_fd (F k)" "plain_handle ?v"
    using inv plain_handle_view [OF inv(1,2)] server_view_fields [OF inv(1,2)] by simp_all
  have num: "sint (word_of_int n :: cint) = n" "sint (word_of_int off :: i64) = off" "csize (word_of_int n :: cint) = nat n"
    using bd by (simp_all add: small_cint small_i64 small_csize)
  let ?b = "buffer (uninit junk 1 8192) b (word_of_int n)"
  have lb: "nat n \<le> length ?b" "take (nat n) ?b = take (nat n) b"
    using bd num(3) by (simp_all add: buffer_def overwrite_def)
  have nm: "n \<le> 0x1ffff" using bd by simp
  obtain g os where w: "unixWrite S ?v ?b n off (sv_os sv) = Some (SQLITE_OK, g, os)"
    using unixWrite_returns [OF K'(1-3) bd(3,1) nm lb(1)] by blast
  note W = unixWrite_spec [OF w K'(1,2) bd(3,1) nm]
  have fits: "fits b (word_of_int n)" using bd num(3) by (simp add: fits_def MAX_SIZE_def)
  have run: "remoteWrite S Delivered junk (F k) b (word_of_int n) (word_of_int off) sv =
      Some ((setClientRemotePMethods g, SQLITE_OK), settle g (put_os os sv))"
    by (rule remoteWrite_delivered [OF inv(1,2) fits]) (use w num in simp)
  have sh: "same_handle ?v g" and pg: "plain_handle g"
    using unixWrite_handle [OF w] v(2) by (auto dest: only_errnoD plain_handle_errno)
  have "remote_files content apart (F(k := setClientRemotePMethods g)) (settle g (put_os os sv))
      (C(k := write_at (C k) (nat off) (take (nat n) b)))"
    by (rule remote_files_step [OF rep sh _ _ pg])
      (use unixWrite_aside [OF w K'(4)] W(1) v(1) inv(4) lb(2) in simp_all)
  then show ?thesis using run by blast
qed

lemma remote_truncates:
  assumes K: "kernel_files S content offs apart" and rep: "remote_files content apart F sv C"
    and bd: "0 \<le> n" "n < int (length (C k))" "n < 2 ^ 62"
  shows "\<exists>g sv'. remoteTruncate S Delivered junk (F k) (word_of_int n) sv = Some ((g, SQLITE_OK), sv') \<and>
    remote_files content apart (F(k := g)) sv' (C(k := take (nat n) (C k)))"
proof -
  have K': "kernel_aside S content apart" "kernel_sizes S content" using K by (simp_all add: kernel_files_def)
  have inv: "ml_inv (sv_list sv)" "served (sv_list sv) (h_fd (F k))" "content (sv_os sv) (h_fd (F k)) = C k"
    using rep by (simp_all add: remote_files_def)
  let ?v = "server_view sv (F k)"
  have v: "h_fd ?v = h_fd (F k)" "plain_handle ?v"
    using rep inv plain_handle_view [OF inv(1,2)] server_view_fields [OF inv(1,2)] by (simp_all add: remote_files_def)
  have num: "sint (word_of_int n :: i64) = n" using bd by (simp add: small_i64)
  obtain r os where t: "osFtruncate S (h_fd (F k)) n (sv_os sv) = (r, os)" by fastforce
  note T = kernel_sizesD(1) [OF K'(2) t bd(1)] and A = kernel_asideD(4) [OF K'(1) t]
  have r: "r = 0" "content os (h_fd (F k)) = take (nat n) (C k)" using T bd(2) inv(3) by auto
  have run: "unixTruncate S ?v n (sv_os sv) = Some (SQLITE_OK, ?v, os)"
    using t r v bd by (simp add: unixTruncate_def plain_handle_def robust_ftruncate.simps)
  have "call_truncate S ?v (word_of_int n) sv = Some (?v, SQLITE_OK, put_os os sv)"
    using run num by (simp add: call_truncate_def)
  then have "remoteTruncate S Delivered junk (F k) (word_of_int n) sv =
      Some ((setClientRemotePMethods ?v, SQLITE_OK), settle ?v (put_os os sv))"
    using remote_truncate.delivered [where a = "(F k, word_of_int n)" and junk = junk, OF _ _ inv(1,2)]
    by (simp add: remoteTruncate_def WrapTruncate_def)
  moreover have "remote_files content apart (F(k := setClientRemotePMethods ?v)) (settle ?v (put_os os sv))
      (C(k := take (nat n) (C k)))"
    by (rule remote_files_step [OF rep same_handle_refl A r(2) v(2)]) simp_all
  ultimately show ?thesis by blast
qed

lemma remote_syncs:
  assumes K: "kernel_files S content offs apart" and rep: "remote_files content apart F sv C"
  shows "\<exists>g sv'. remoteSync S Delivered junk (F k) flags sv = Some ((g, SQLITE_OK), sv') \<and>
    remote_files content apart (F(k := g)) sv' C"
proof -
  have K': "kernel_aside S content apart" "kernel_sizes S content" using K by (simp_all add: kernel_files_def)
  have inv: "ml_inv (sv_list sv)" "served (sv_list sv) (h_fd (F k))" "content (sv_os sv) (h_fd (F k)) = C k"
    using rep by (simp_all add: remote_files_def)
  let ?v = "server_view sv (F k)"
  have v: "h_fd ?v = h_fd (F k)" "plain_handle ?v"
    using rep inv plain_handle_view [OF inv(1,2)] server_view_fields [OF inv(1,2)] by (simp_all add: remote_files_def)
  obtain r os where t: "osFsync S (h_fd (F k)) (sv_os sv) = (r, os)" by fastforce
  note T = kernel_sizesD(2) [OF K'(2) t] and A = kernel_asideD(5) [OF K'(1) t]
  have "unixSync S mem ?v flags (sv_os sv) = Some (SQLITE_OK, ?v, os)" for mem
    using t T v by (simp add: unixSync_def full_fsync_def plain_handle_def)
  then have "call_sync S ?v flags sv = Some (?v, SQLITE_OK, put_os os sv)" by (simp add: call_sync_def)
  then have "remoteSync S Delivered junk (F k) flags sv =
      Some ((setClientRemotePMethods ?v, SQLITE_OK), settle ?v (put_os os sv))"
    using remote_sync.delivered [where a = "(F k, flags)" and junk = junk, OF _ _ inv(1,2)]
    by (simp add: remoteSync_def WrapSync_def)
  moreover have "remote_files content apart (F(k := setClientRemotePMethods ?v)) (settle ?v (put_os os sv)) (C(k := C k))"
    by (rule remote_files_step [OF rep same_handle_refl A _ v(2)]) (use T inv(3) in simp_all)
  ultimately show ?thesis by auto
qed

lemma remote_sizes:
  assumes K: "kernel_files S content offs apart" and rep: "remote_files content apart F sv C"
    and bd: "length (C k) \<noteq> 1" "length (C k) < 2 ^ 62"
  shows "\<exists>g sv'. remoteFileSize S Delivered junk (F k) pSize sv = Some ((g, word_of_nat (length (C k)), SQLITE_OK), sv') \<and>
    remote_files content apart (F(k := g)) sv' C"
proof -
  have K': "kernel_aside S content apart" "kernel_sizes S content" using K by (simp_all add: kernel_files_def)
  have inv: "ml_inv (sv_list sv)" "served (sv_list sv) (h_fd (F k))" "content (sv_os sv) (h_fd (F k)) = C k"
    using rep by (simp_all add: remote_files_def)
  let ?v = "server_view sv (F k)"
  have v: "h_fd ?v = h_fd (F k)" "plain_handle ?v"
    using rep inv plain_handle_view [OF inv(1,2)] server_view_fields [OF inv(1,2)] by (simp_all add: remote_files_def)
  obtain r st os where t: "osFstat S (h_fd (F k)) (sv_os sv) = (r, st, os)" by (rule prod_cases3) (rule that)
  note T = kernel_sizesD(3) [OF K'(2) t] and A = kernel_asideD(6) [OF K'(1) t]
  have "unixFileSize S ?v pSize (sv_os sv) = (SQLITE_OK, word_of_nat (length (C k)), ?v, os)"
    using t T v bd inv(3) by (simp add: unixFileSize_def)
  then have "call_file_size S ?v pSize sv = Some (?v, (word_of_nat (length (C k)), SQLITE_OK), put_os os sv)"
    by (simp add: call_file_size_def)
  then have "remoteFileSize S Delivered junk (F k) pSize sv =
      Some ((setClientRemotePMethods ?v, word_of_nat (length (C k)), SQLITE_OK), settle ?v (put_os os sv))"
    using remote_size.delivered [where a = "(F k, pSize)" and junk = junk, OF _ _ inv(1,2)]
    by (simp add: remoteFileSize_def WrapFileSize_def)
  moreover have "remote_files content apart (F(k := setClientRemotePMethods ?v)) (settle ?v (put_os os sv)) (C(k := C k))"
    by (rule remote_files_step [OF rep same_handle_refl A _ v(2)]) (use T bd inv(3) in simp_all)
  ultimately show ?thesis by auto
qed

lemma remote_devices:
  assumes rep: "remote_files content apart F sv C"
  shows "\<exists>g dc sv'. remoteDeviceCharacteristics Delivered junk (F k) sv = Some ((g, dc), sv') \<and>
    remote_files content apart (F(k := g)) sv' C \<and> dc AND SQLITE_IOCAP_SAFE_APPEND = 0"
proof -
  have inv: "ml_inv (sv_list sv)" "served (sv_list sv) (h_fd (F k))" "content (sv_os sv) (h_fd (F k)) = C k"
    using rep by (simp_all add: remote_files_def)
  let ?v = "server_view sv (F k)" and ?g = "setDeviceCharacteristics (server_view sv (F k))"
  have v: "plain_handle ?g"
    using rep inv plain_handle_view [OF inv(1,2)] by (simp add: remote_files_def plain_handle_device)
  have "call_device unixDeviceCharacteristics ?v () sv = Some (?g, deviceCharacteristics ?g, sv)"
    by (simp add: call_device_def unixDeviceCharacteristics_def Let_def)
  then have "remoteDeviceCharacteristics Delivered junk (F k) sv =
      Some ((setClientRemotePMethods ?g, deviceCharacteristics ?g), settle ?g sv)"
    using remote_characteristics.delivered [where a = "F k" and junk = junk, OF _ _ inv(1,2)]
    by (simp add: remoteDeviceCharacteristics_def WrapDeviceCharacteristics_def)
  moreover have "remote_files content apart (F(k := setClientRemotePMethods ?g)) (settle ?g sv) (C(k := C k))"
    by (rule remote_files_step [OF rep setDeviceCharacteristics_handle(1) aside_refl inv(3) v]) simp_all
  moreover have "deviceCharacteristics ?g AND SQLITE_IOCAP_SAFE_APPEND = 0" using v by (simp add: plain_handle_def)
  ultimately show ?thesis by auto
qed

lemma remote_hints:
  assumes rep: "remote_files content apart F sv C"
  shows "\<exists>g v rc sv'. remoteFileControl S Delivered junk deref (F k) (word_of_int SQLITE_FCNTL_MMAP_SIZE)
      (Some (le_bytes 8 (0 :: i64))) sv = Some ((g, v, rc), sv') \<and>
    remote_files content apart (F(k := g)) sv' C"
proof -
  have inv: "ml_inv (sv_list sv)" "served (sv_list sv) (h_fd (F k))" "content (sv_os sv) (h_fd (F k)) = C k"
    using rep by (simp_all add: remote_files_def)
  let ?v = "server_view sv (F k)"
  have v: "plain_handle ?v" using rep inv plain_handle_view [OF inv(1,2)] by (simp add: remote_files_def)
  define b where "b = buffer (uninit junk 1 512) (le_bytes 8 (0 :: i64)) 8"
  have lb: "length b = 512" by (simp add: b_def buffer_def csize_def)
  obtain w where w: "get64 b 0 = Some w" using lb by (auto simp: get64_def read_at_def)
  let ?r = "control_mmap_size S ?v w (sv_os sv)"
  have um: "mmapSize ?v = 0" using v by (simp add: plain_handle_def)
  obtain old g where c: "?r = (SQLITE_OK, old, g, sv_os sv)" and g: "same_handle ?v g" "plain_handle g"
  proof -
    have "\<exists>old g. ?r = (SQLITE_OK, old, g, sv_os sv) \<and> same_handle ?v g \<and> plain_handle g"
      using v um by (auto simp: control_mmap_size_def Let_def same_handle_def)
    then show thesis using that by blast
  qed
  obtain b' where b': "memcpy b 0 (le64 old) = Some b'" "length b' = 512" using lb by (auto simp: memcpy_def)
  let ?sv = "sv\<lparr>sv_unix := (sv_unix sv)\<lparr>us_os := sv_os sv\<rparr>, sv_strs := sv_strs sv\<rparr>"
  have "call_file_control S ?v (18, b, 8) sv = Some (g, (b', SQLITE_OK, 18, server_deref ?sv), ?sv)"
    using c w b'(1) by (simp add: call_file_control_def unixFileControl_def)
  note call = this [unfolded b_def]
  have ok: "control_reply_ok (Some (le_bytes 8 (0 :: i64))) (g, b', SQLITE_OK, 18, server_deref ?sv)"
    using b'(2) by (simp add: control_reply_ok_def LenFileControlPArg_def ControlType_def control_fits_def csize_def)
  have len: "LenFileControlPArg d 18 (Some (le_bytes 8 (0 :: i64))) = Some 8" for d
    by (simp add: LenFileControlPArg_def ControlType_def)
  have "remoteFileControl S Delivered junk deref (F k) 18 (Some (le_bytes 8 (0 :: i64))) sv =
      Some (control_reply (Some (le_bytes 8 (0 :: i64))) (g, b', SQLITE_OK, 18, server_deref ?sv), settle g ?sv)"
    using remote_control.delivered [where a = "(F k, 18, Some (le_bytes 8 (0 :: i64)), 8)" and e = "uninit junk 1 512"
        and junk = junk, OF _ _ inv(1,2) _ ok] call len
    by (simp add: remoteFileControl_def WrapFileControl_def control_fits_def csize_def)
  moreover have "remote_files content apart (F(k := setClientRemotePMethods g)) (settle g ?sv) (C(k := C k))"
    by (rule remote_files_step [OF rep g(1) aside_refl inv(3) g(2)]) simp_all
  ultimately show ?thesis by (auto simp: control_reply_def Let_def)
qed

section \<open>The interface\<close>

definition remote_pager ::
  "'os syscalls \<Rightarrow> junk \<Rightarrow> (ptr \<Rightarrow> bytes option) \<Rightarrow> (unixFile, 'os server) pager_env \<Rightarrow> (unixFile, 'os server) pager_env" where
  "remote_pager S junk deref R = R\<lparr>
     xRead := \<lambda>f buf n off sv. map_option (\<lambda>((f, buf, rc), sv). (rc, buf, f, sv))
       (remoteRead S Delivered junk f buf (word_of_int n) (word_of_int off) sv),
     xWrite := \<lambda>f b n off sv. map_option (\<lambda>((f, rc), sv). (rc, (), f, sv))
       (remoteWrite S Delivered junk f b (word_of_int n) (word_of_int off) sv),
     xTruncate := \<lambda>f n sv. map_option (\<lambda>((f, rc), sv). (rc, (), f, sv))
       (remoteTruncate S Delivered junk f (word_of_int n) sv),
     xSync := \<lambda>f flags sv. map_option (\<lambda>((f, rc), sv). (rc, (), f, sv)) (remoteSync S Delivered junk f flags sv),
     xFileSize := \<lambda>f sv. map_option (\<lambda>((f, n, rc), sv). (rc, sint n, f, sv)) (remoteFileSize S Delivered junk f 0 sv),
     xDeviceCharacteristics := \<lambda>f sv. map_option (\<lambda>((f, dc), sv). (dc, (), f, sv))
       (remoteDeviceCharacteristics Delivered junk f sv),
     xFileControl := \<lambda>f op b sv. map_option (\<lambda>((f, b', rc), sv). (rc, case b' of None \<Rightarrow> b | Some b' \<Rightarrow> b', f, sv))
       (remoteFileControl S Delivered junk deref f (word_of_int op) (Some b) sv),
     xLock := \<lambda>f level sv. map_option (\<lambda>((f, rc), sv). (rc, (), f, sv))
       (remoteLock S Delivered junk f (word_of_int level) sv),
     xUnlock := \<lambda>f level sv. map_option (\<lambda>((f, rc), sv). (rc, (), f, sv))
       (remoteUnlock S Delivered junk f (word_of_int level) sv),
     xClose := \<lambda>f sv. map_option snd (remoteClose S Delivered junk f sv),
     isInMemory := \<lambda>f. False,
     xDelete := \<lambda>z dirSync sv. remoteDelete S Delivered junk z (if dirSync then 1 else 0) sv,
     xAccess := \<lambda>z sv. map_option (\<lambda>((res, rc), sv). (rc, res \<noteq> 0, sv)) (remoteAccess S Delivered junk z 0 0 sv),
     iVersion := 3, mxPathname := 512\<rparr>"

text \<open>
  What the pager needs beside its files: allocations succeed, and neither they nor random
  numbers touch the files.
\<close>

definition memory_available ::
  "((pager_file \<Rightarrow> 'f) \<Rightarrow> 's \<Rightarrow> (pager_file \<Rightarrow> bytes) \<Rightarrow> bool) \<Rightarrow> ('f, 's) pager_env \<Rightarrow> bool" where
  "memory_available rep R \<longleftrightarrow>
     (\<forall>F s C. rep F s C \<longrightarrow> rep F (snd (randomness4 R s)) C \<and> fst (mallocs R s) \<and> rep F (snd (mallocs R s)) C)"

definition remote_rep ::
  "'os syscalls \<Rightarrow> ('os \<Rightarrow> cint \<Rightarrow> bytes) \<Rightarrow> ('os \<Rightarrow> cint \<Rightarrow> nat) \<Rightarrow> ('os \<Rightarrow> cint \<Rightarrow> cint \<Rightarrow> bool) \<Rightarrow>
     (unixFile, 'os server) pager_env \<Rightarrow> (pager_file \<Rightarrow> unixFile) \<Rightarrow> 'os server \<Rightarrow> (pager_file \<Rightarrow> bytes) \<Rightarrow> bool" where
  "remote_rep S content offs apart R F sv C \<longleftrightarrow>
     kernel_files S content offs apart \<and> memory_available (remote_files content apart) R \<and>
     remote_files content apart F sv C"

interpretation over_remote: two_files "remote_pager S junk deref R" "remote_rep S content offs apart R" 8192
  for S :: "'os syscalls" and content offs apart junk deref R
proof
  fix F :: "pager_file \<Rightarrow> unixFile" and s C n off k and buf :: bytes
  assume rep: "remote_rep S content offs apart R F s C" and b: "0 < n" "n \<le> 8192" "0 \<le> off" "off + n < 2 ^ 62" "nat n \<le> length buf"
  note K = rep [unfolded remote_rep_def, THEN conjunct1] and R = rep [unfolded remote_rep_def, THEN conjunct2, THEN conjunct1]
    and r = rep [unfolded remote_rep_def, THEN conjunct2, THEN conjunct2]
  show "\<exists>buf' f s'. xRead (remote_pager S junk deref R) (F k) buf n off s =
      Some (if off + n \<le> int (length (C k)) then SQLITE_OK else SQLITE_IOERR_SHORT_READ, buf', f, s') \<and>
    remote_rep S content offs apart R (F(k := f)) s' C \<and> length buf' = length buf \<and>
    (off + n \<le> int (length (C k)) \<longrightarrow> take (nat n) buf' = available (C k) off n)"
    using remote_reads [OF K r b, of junk k] K R by (auto simp: remote_pager_def remote_rep_def)
  show "\<exists>f s'. xWrite (remote_pager S junk deref R) (F k) buf n off s = Some (SQLITE_OK, (), f, s') \<and>
      remote_rep S content offs apart R (F(k := f)) s' (C(k := write_at (C k) (nat off) (take (nat n) buf)))"
    using remote_writes [OF K r b, of junk k] K R by (auto simp: remote_pager_def remote_rep_def)
next
  fix F :: "pager_file \<Rightarrow> unixFile" and s C n k
  assume rep: "remote_rep S content offs apart R F s C" and b: "0 \<le> n" "n < int (length (C k))" "n < 2 ^ 62"
  note K = rep [unfolded remote_rep_def, THEN conjunct1] and R = rep [unfolded remote_rep_def, THEN conjunct2, THEN conjunct1]
    and r = rep [unfolded remote_rep_def, THEN conjunct2, THEN conjunct2]
  show "\<exists>f s'. xTruncate (remote_pager S junk deref R) (F k) n s = Some (SQLITE_OK, (), f, s') \<and>
      remote_rep S content offs apart R (F(k := f)) s' (C(k := take (nat n) (C k)))"
    using remote_truncates [OF K r b, of junk] K R by (auto simp: remote_pager_def remote_rep_def)
next
  fix F :: "pager_file \<Rightarrow> unixFile" and s C k
  assume rep: "remote_rep S content offs apart R F s C"
  note K = rep [unfolded remote_rep_def, THEN conjunct1] and R = rep [unfolded remote_rep_def, THEN conjunct2, THEN conjunct1]
    and r = rep [unfolded remote_rep_def, THEN conjunct2, THEN conjunct2]
  show "\<exists>f s'. xSync (remote_pager S junk deref R) (F k) fl s = Some (SQLITE_OK, (), f, s') \<and>
      remote_rep S content offs apart R (F(k := f)) s' C" for fl
    using remote_syncs [OF K r, of junk k fl] K R by (auto simp: remote_pager_def remote_rep_def)
  show "\<exists>f s'. xFileSize (remote_pager S junk deref R) (F k) s = Some (SQLITE_OK, int (length (C k)), f, s') \<and>
      remote_rep S content offs apart R (F(k := f)) s' C" if "length (C k) \<noteq> 1" "length (C k) < 2 ^ 62"
  proof -
    have "sint (word_of_nat (length (C k)) :: i64) = int (length (C k))"
      using small_i64 [of "int (length (C k))"] that(2) by simp
    then show ?thesis using remote_sizes [OF K r that, of junk 0] K R by (auto simp: remote_pager_def remote_rep_def)
  qed
  show "\<exists>dc f s'. xDeviceCharacteristics (remote_pager S junk deref R) (F k) s = Some (dc, (), f, s') \<and>
      remote_rep S content offs apart R (F(k := f)) s' C \<and> dc AND SQLITE_IOCAP_SAFE_APPEND = 0"
    using remote_devices [OF r, of junk k] K R by (auto simp: remote_pager_def remote_rep_def)
  show "\<exists>rc v f s'. xFileControl (remote_pager S junk deref R) (F k) SQLITE_FCNTL_MMAP_SIZE (le_bytes 8 (0 :: i64)) s =
      Some (rc, v, f, s') \<and> remote_rep S content offs apart R (F(k := f)) s' C"
    using remote_hints [OF r, of S junk deref k] K R by (auto simp: remote_pager_def remote_rep_def)
  show "remote_rep S content offs apart R F (snd (randomness4 (remote_pager S junk deref R) s)) C"
    using K R r by (simp add: memory_available_def remote_pager_def remote_rep_def)
  show "\<exists>s'. mallocs (remote_pager S junk deref R) s = (True, s') \<and> remote_rep S content offs apart R F s' C"
  proof -
    have "fst (mallocs R s) \<and> remote_files content apart F (snd (mallocs R s)) C"
      using R r by (simp add: memory_available_def)
    then show ?thesis using K R by (cases "mallocs R s") (simp add: remote_pager_def remote_rep_def)
  qed
next
  show "(8192 :: int) < 2 ^ 20" by simp
qed

end
