(* ===== verification/Sim_Pager.thy ===== *)
theory Sim_Pager
  imports Pager_Remote Journal_Commit Sim_Kernel
begin

text \<open>
  A pager over the remote VFS on the small kernel, for the concrete instances: a database of two
  pages and an empty journal, open as the descriptors 3 and 4.
\<close>

section \<open>The kernel's files\<close>

definition sim_apart :: "sim \<Rightarrow> cint \<Rightarrow> cint \<Rightarrow> bool" where
  "sim_apart os a b \<longleftrightarrow> k_name os a \<noteq> k_name os b"

lemma sim_files: "kernel_files sim_kernel sim_content k_pos sim_apart"
proof -
  have "kernel_aside sim_kernel sim_content sim_apart"
    by (auto simp: kernel_aside_def aside_def sim_kernel_def sim_content_def sim_apart_def Let_def)
  moreover have "kernel_sizes sim_kernel sim_content"
    by (auto simp: kernel_sizes_def sim_kernel_def sim_content_def sim_stat_def sim_resize_def zeroed_def)
  ultimately show ?thesis using sim_io by (simp add: kernel_files_def io_succeeds_def sim_kernel_def)
qed

section \<open>The server\<close>

definition pager_list :: "mlist option" where
  "pager_list = do {
     ml \<leftarrow> AddNode 3 posixIoMethods empty_mlist;
     ml \<leftarrow> setServicePath 3 [97, 0] ml;
     ml \<leftarrow> AddNode 4 posixIoMethods ml;
     setServicePath 4 [98, 0] ml
   }"

lemma pager_list_served: "\<exists>ml. pager_list = Some ml \<and> ml_inv ml \<and> served ml 3 \<and> served ml 4"
proof -
  have "pager_list \<noteq> None" by code_simp
  then obtain m1 m2 m3 m4 where m: "AddNode 3 posixIoMethods empty_mlist = Some m1" "setServicePath 3 [97, 0] m1 = Some m2"
    "AddNode 4 posixIoMethods m2 = Some m3" "setServicePath 4 [98, 0] m3 = Some m4"
    by (auto simp: pager_list_def bind_eq_Some_iff)
  have z: "c_string [97, 0 :: byte] = Some [97, 0]" "c_string [98, 0 :: byte] = Some [98, 0]" by code_simp+
  note i1 = AddNode_spec [OF ml_inv_empty m(1)]
  note i2 = setServicePath_spec [OF i1(1) m(2)]
  note i3 = AddNode_spec [OF i2(1) m(3)]
  note i4 = setServicePath_spec [OF i3(1) m(4)]
  have l0: "ml_lookup empty_mlist = Map.empty" by (simp add: ml_lookup_def empty_mlist_def fun_eq_iff)
  have l: "ml_lookup m4 3 = Some (posixIoMethods, [97, 0])" "ml_lookup m4 4 = Some (posixIoMethods, [98, 0])"
    using i1(2) i2(2) i3(2) i4(2) z by (simp_all add: l0)
  have "served m4 3" "served m4 4" using l z by (simp_all add: served_def PATH_LEN_def)
  then show ?thesis using m i4(1) by (simp add: pager_list_def)
qed

definition pager_os :: "bytes \<Rightarrow> bytes \<Rightarrow> sim" where
  "pager_os D J = sim_start\<lparr>k_name := (\<lambda>_. [97])(4 := [98]), k_data := (\<lambda>_. D)([98] := J)\<rparr>"

definition pager_server :: "bytes \<Rightarrow> bytes \<Rightarrow> sim server" where
  "pager_server D J = \<lparr>sv_list = the pager_list, sv_unix = us_init (pager_os D J), sv_strs = Map.empty\<rparr>"

definition pager_handle :: "pager_file \<Rightarrow> unixFile" where
  "pager_handle k = zero_unixFile\<lparr>h_fd := (case k of Db \<Rightarrow> 3 | Jrn \<Rightarrow> 4)\<rparr>"

text \<open>The rest of the pager's world: memory is there, and every random number is 0.\<close>

definition pager_rest :: "(unixFile, sim server) pager_env" where
  "pager_rest = \<lparr>xRead = \<lambda>_ _ _ _ _. None, xWrite = \<lambda>_ _ _ _ _. None, xTruncate = \<lambda>_ _ _. None,
     xSync = \<lambda>_ _ _. None, xFileSize = \<lambda>_ _. None, xDeviceCharacteristics = \<lambda>_ _. None,
     xFileControl = \<lambda>_ _ _ _. None, xLock = \<lambda>_ _ _. None, xUnlock = \<lambda>_ _ _. None, xClose = \<lambda>_ _. None, iVersion = 3,
     isInMemory = \<lambda>_. False,
     xBusyHandler = \<lambda>s. Some (False, s), xAccess = \<lambda>_ _. None, xDelete = \<lambda>_ _ _. None, mxPathname = 512,
     randomness4 = \<lambda>s. (0, s), mallocs = \<lambda>s. (True, s), heapJunk = \<lambda>_. 0\<rparr>"

definition sim_rep :: "(pager_file \<Rightarrow> unixFile) \<Rightarrow> sim server \<Rightarrow> (pager_file \<Rightarrow> bytes) \<Rightarrow> bool" where
  "sim_rep = remote_rep sim_kernel sim_content k_pos sim_apart pager_rest"

lemma pager_holds: "sim_rep pager_handle (pager_server D J) (case_pager_file D J)"
proof -
  obtain ml where ml: "pager_list = Some ml" "ml_inv ml" "served ml 3" "served ml 4" using pager_list_served by blast
  have "remote_files sim_content sim_apart pager_handle (pager_server D J) (case_pager_file D J)"
    using ml(2-4) by (auto simp: ml(1) remote_files_def pager_server_def pager_handle_def pager_os_def sim_apart_def sim_content_def
        sim_start_def us_init_def plain_handle_def zero_unixFile_def split: pager_file.splits)
  then show ?thesis using sim_files
    by (auto simp: sim_rep_def remote_rep_def memory_available_def pager_rest_def)
qed

section \<open>The pager\<close>

definition sim_page :: "byte \<Rightarrow> PgHdr" where
  "sim_page b = \<lparr>pData = replicate 512 b, pg_flags = 0\<rparr>"

definition sim_pager :: "unixFile Pager" where
  "sim_pager = \<lparr>memDb = False, noLock = False, errCode = SQLITE_OK, pWal = False, exclusiveMode = True, tempFile = False,
     extraSync = False, zJournal = [98, 0], journalMode = 1,
     noSync = False, fullSync = True, syncFlags = SQLITE_SYNC_NORMAL, eState = PAGER_WRITER_CACHEMOD,
     eLock = EXCLUSIVE_LOCK, setMaster = False, dbSize = 2, dbOrigSize = 2, dbFileSize = 2, nRec = 0,
     cksumInit = 0, pInJournal = Some {}, pfd = Some (pager_handle Db), jfd = Some (pager_handle Jrn),
     journalOff = 0, journalHdr = 0, aSavepoint = [], iDataVersion = 0, dbFileVers = zeroed 16, nReserve = 0,
     sectorSz = 512, pageSize = 512, journalSizeLimit = - 1, szMmap = 0, bUseFetch = False,
     pTmpSpace = zeroed 520, pPCache = [1 \<mapsto> sim_page 7, 2 \<mapsto> sim_page 8], nPageRef = 0\<rparr>"

definition sim_db :: bytes where
  "sim_db = replicate 512 7 @ replicate 512 8"

lemma sim_pager_holds: "files_hold sim_rep sim_pager (pager_server D J) D J"
  using pager_holds [of D J] by (auto simp: files_hold_def sim_pager_def)

section \<open>A journal and a transaction\<close>

definition sim_record :: "Pgno \<times> bytes" where
  "sim_record = (1, replicate 512 7)"

definition sim_journal :: bytes where
  "sim_journal = header_bytes 1 0 2 512 512 @ zeroed 484 @ record_bytes 512 0 sim_record"

lemma replicate_4: "replicate 4 x = [x, x, x, x]"
  by (simp add: numeral_eq_Suc)

lemma sim_journal_record:
  "length sim_journal = 1032" "available sim_journal 512 520 = record_bytes 512 0 sim_record"
proof -
  have l: "length (record_bytes 512 0 sim_record) = 520" by (simp add: record_bytes_def sim_record_def)
  then show "length sim_journal = 1032" "available sim_journal 512 520 = record_bytes 512 0 sim_record"
    by (simp_all add: sim_journal_def available_def zeroed_def)
qed

lemma sim_journal_at: "journal_at 512 512 2 sim_journal 0 [(0, [sim_record])]"
  using sim_journal_record
  by (simp add: next_sector_def Let_def) (simp add: sim_journal_def)

lemma sim_journal_end: "available sim_journal (int (length sim_journal) - 8) 8 \<noteq> aJournalMagic"
proof (rule record_end [where sz = 512 and ck = 0 and r = sim_record])
  show "available sim_journal (int (length sim_journal) - (512 + 8)) (512 + 8) = record_bytes 512 0 sim_record"
    using sim_journal_record by simp
  have "replicate 4 (7 :: byte) \<noteq> take 4 aJournalMagic" by (simp add: aJournalMagic_def replicate_4)
  then show "drop (nat 512 - 4) (snd sim_record) \<noteq> take 4 aJournalMagic" by (simp add: sim_record_def)
qed (simp_all add: sim_record_def)

lemma sim_pages: "page_of 512 sim_db 1 = replicate 512 7" "page_of 512 sim_db 2 = replicate 512 8"
  by (simp_all add: page_of_def available_def sim_db_def)

lemma sim_sizes: "journal_sizes 512 512" "record_ok 512 sim_record" "snd sim_record = page_of 512 sim_db 1"
  "length sim_db = 1024"
proof -
  show "journal_sizes 512 512" by code_simp
  have "(1 :: Pgno) \<noteq> word_of_int (PENDING_BYTE div 512 + 1)" by code_simp
  then show "record_ok 512 sim_record" by (simp add: record_ok_def sim_record_def)
  show "snd sim_record = page_of 512 sim_db 1" by (simp add: sim_record_def sim_pages)
qed (simp add: sim_db_def)

definition sim_opened :: "unixFile Pager" where
  "sim_opened = sim_pager\<lparr>eState := PAGER_OPEN, journalHdr := 1032\<rparr>"

definition sim_changed :: bytes where
  "sim_changed = replicate 512 9 @ replicate 512 8 @ replicate 512 1"

lemma sim_changed_page: "page_of 512 sim_changed 2 = page_of 512 sim_db 2" "length sim_changed = 1536"
  by (simp_all add: page_of_def available_def sim_db_def sim_changed_def)

lemma sim_opened_restarts: "restarted sim_journal sim_opened"
  using sim_journal_record(1) by (simp add: restarted_def hot_def sim_opened_def sim_pager_def zeroed_def)

lemma sim_opened_holds: "files_hold sim_rep sim_opened (pager_server D J) D J"
  using sim_pager_holds [of D J] by (simp add: files_hold_def sim_opened_def)

definition sim_steps :: "journal_step list" where
  "sim_steps = [Journal 1, Change 1 (replicate 512 9), Sync, Journal 2]"

lemma sim_steps_ok: "proper_steps 512 2 {} sim_steps" "journal_pages 512 sim_steps" "length sim_steps < 2 ^ 31"
  "settled sim_steps ([], []) = ([1], [2])" "journaled sim_steps = [1, 2]" "plain_tail 512 sim_db [2]"
proof -
  have "replicate 4 (8 :: byte) \<noteq> take 4 aJournalMagic" by (simp add: aJournalMagic_def replicate_4)
  then show "plain_tail 512 sim_db [2]" by (simp add: plain_tail_def sim_pages)
  have "(1 :: Pgno) \<noteq> word_of_int (PENDING_BYTE div 512 + 1)" "(2 :: Pgno) \<noteq> word_of_int (PENDING_BYTE div 512 + 1)"
    by code_simp+
  then show "journal_pages 512 sim_steps" by (simp add: journal_pages_def sim_steps_def)
qed (simp_all add: sim_steps_def)

lemma sim_pager_journals: "journals 512 512 2 8192 sim_pager" "journalOff sim_pager = 0" "nRec sim_pager = 0"
  by (simp_all add: journals_def sim_pager_def zeroed_def)

lemma sim_pager_cached:
  "Journal k \<in> set sim_steps \<longrightarrow> map_option pData (pPCache sim_pager k) = Some (page_of 512 sim_db (uint k))"
  by (auto simp: sim_steps_def sim_pager_def sim_page_def sim_pages)

definition sim_finished :: "unixFile Pager" where
  "sim_finished = sim_pager\<lparr>journalOff := 1032\<rparr>"

lemma sim_finished_holds: "files_hold sim_rep sim_finished (pager_server D J) D J"
  using sim_pager_holds [of D J] by (simp add: files_hold_def sim_finished_def)

end
