(* ===== verification/Remote_Faults.thy ===== *)
theory Remote_Faults
  imports Remote_System
begin

text \<open>
  Where the remote VFS does not do what the local one does: replies that never came, data that
  does not fit the protocol's arrays, pages that are not mapped, locks on files that have none,
  and fields of the handle that do not come back.
\<close>

section \<open>Lost messages\<close>

text \<open>A reply of zeros is a handle of zeros and the code of success.\<close>

lemma setClient_zero [simp]: "setClientRemotePMethods zero_unixFile = zero_unixFile"
  by (simp add: setClientRemotePMethods_def zero_unixFile_def)

lemma zero_reply [simp]: "setClientRemotePMethods (dec_unixFile (zeroed 120)) = zero_unixFile"
  using dec_unixFile_zeroed by (simp add: SIZE_UNIXFILE_def)

lemma request_lost_lock:
  "remoteLock S RequestLost junk f e sv = Some ((zero_unixFile, SQLITE_OK), sv)"
  by (simp add: remoteLock_def invoke_def rpc_def marshal_simps)

lemma request_lost_unlock:
  "remoteUnlock S RequestLost junk f e sv = Some ((zero_unixFile, SQLITE_OK), sv)"
  by (simp add: remoteUnlock_def invoke_def rpc_def marshal_simps)

lemma request_lost_sync:
  "remoteSync S RequestLost junk f flags sv = Some ((zero_unixFile, SQLITE_OK), sv)"
  by (simp add: remoteSync_def invoke_def rpc_def marshal_simps)

lemma request_lost_truncate:
  "remoteTruncate S RequestLost junk f n sv = Some ((zero_unixFile, SQLITE_OK), sv)"
  by (simp add: remoteTruncate_def invoke_def rpc_def marshal_simps)

lemma request_lost_write:
  assumes "fits pBuf amt"
  shows "remoteWrite S RequestLost junk f pBuf amt offset sv = Some ((zero_unixFile, SQLITE_OK), sv)"
  using assms by (simp add: remoteWrite_def invoke_def rpc_def marshal_simps fits_def)

lemma request_lost_read:
  assumes "fits pBuf amt"
  shows "remoteRead S RequestLost junk f pBuf amt offset sv =
    Some ((zero_unixFile, buffer pBuf (zeroed (csize amt)) amt, SQLITE_OK), sv)"
  using assms by (simp add: remoteRead_def invoke_def rpc_def marshal_simps fits_def buffer_def)

text \<open>A lock whose reply is lost is held by a client that no longer has the handle.\<close>

lemma reply_lost_lock:
  assumes inv: "ml_inv (sv_list sv)" "served (sv_list sv) (h_fd f)"
    and run: "unixLock S (server_view sv f) (sint e) (sv_unix sv) = Some (rc, g, st)"
  shows "remoteLock S ReplyLost junk f e sv =
    Some ((zero_unixFile, SQLITE_OK), settle g (sv\<lparr>sv_unix := st\<rparr>))"
proof -
  have c: "call_lock S (server_view sv f) e sv = Some (g, rc, sv\<lparr>sv_unix := st\<rparr>)"
    using run by (simp add: call_lock_def)
  have "unixLockConvertCharToReturn (zeroed SIZE_ReturnLock) = Some (zero_unixFile, SQLITE_OK)"
    by (simp add: marshal_simps)
  then show ?thesis
    using remote_lock.reply_lost [where a = "(f, e)" and e = "()" and c = "()" and junk = junk, OF _ _ inv c]
    by (simp add: remoteLock_def WrapLock_def)
qed

section \<open>Sizes\<close>

text \<open>Data of more than \<open>MAX_SIZE\<close> bytes overruns an array of the client or of the handler.\<close>

lemma write_too_long:
  assumes "MAX_SIZE < csize amt"
  shows "remoteWrite S Delivered junk f pBuf amt offset sv = None"
proof (rule ccontr)
  assume "\<not> ?thesis"
  then obtain m r where m: "unixWriteConvertArgInToChar f pBuf amt offset (zeroed SIZE_ArgInWrite) = Some m"
    and u: "unixWriteConvertCharToArgIn m (uninit junk 1 8192) = Some r"
    by (auto simp: remoteWrite_def invoke_def rpc_def WrapWrite_def handle_def bind_eq_Some_iff
        simp del: One_nat_def)
  obtain b where b: "read_at m SIZE_UNIXFILE (csize amt) = Some b" "length b \<le> 8192"
    using m u by (auto simp: method_simps get32_def get64_def read_at_def [of pBuf] split: if_splits)
  show False using read_at_length [OF b(1)] b(2) assms by (simp add: MAX_SIZE_def)
qed

lemma read_too_long:
  assumes "MAX_SIZE < csize amt"
  shows "remoteRead S Delivered junk f pBuf amt offset sv = None"
proof (rule ccontr)
  assume "\<not> ?thesis"
  then obtain m r where m: "unixReadConvertArgInToChar f pBuf amt offset (zeroed SIZE_ArgInRead) = Some m"
    and u: "unixReadConvertCharToArgIn m (uninit junk 1 8192) = Some r"
    by (auto simp: remoteRead_def invoke_def rpc_def WrapRead_def handle_def bind_eq_Some_iff
        simp del: One_nat_def)
  obtain b where b: "read_at m SIZE_UNIXFILE (csize amt) = Some b" "length b \<le> 8192"
    using m u by (auto simp: method_simps get32_def get64_def read_at_def [of pBuf] split: if_splits)
  show False using read_at_length [OF b(1)] b(2) assms by (simp add: MAX_SIZE_def)
qed


section \<open>Pages, locks and handles\<close>

text \<open>A page that is not mapped is copied from a null pointer.\<close>

lemma fetch_unmapped:
  assumes inv: "ml_inv (sv_list sv)" "served (sv_list sv) (h_fd f)"
    and run: "unixFetch S (server_view sv f) iOff nAmt (sv_os sv) = (rc, NULL, g, os)"
    and n: "nAmt \<noteq> 0"
  shows "remoteFetch S Delivered junk f iOff nAmt sv = None"
proof -
  obtain m where m: "unixFetchConvertArgInToChar f iOff nAmt (zeroed SIZE_ArgInFetch) = Some m"
    "unixFetchConvertCharToArgIn m = Some (f, iOff, nAmt)"
    using fetch.req.round_trip [of "()" "(f, iOff, nAmt)" "zeroed SIZE_ArgInFetch"] by auto
  have c: "call_fetch S (server_view sv f) (iOff, nAmt) sv = Some (g, (None, nAmt, rc), put_os os sv)"
    using run by (simp add: call_fetch_def)
  have "unixFetchsConvertReturnToChar g None nAmt rc r = None" for r
    using n by (simp add: unixFetchsConvertReturnToChar_def bind_eq_None_iff load_ptr_def csize_zero)
  then have "WrapFetch S m r sv = None" for r
    by (simp add: WrapFetch_def fetch_call.handled [where unpack = unixFetchConvertCharToArgIn, OF inv(1) m(2) inv(2)] c)
  then show ?thesis by (simp add: remoteFetch_def invoke_def m(1) rpc_def)
qed

text \<open>
  The handlers of the locks do not consult the method table: a lock on a file that was opened
  without locking reaches for an inode object that is not there.
\<close>

lemma lock_without_inode:
  assumes inv: "ml_inv (sv_list sv)" "served (sv_list sv) (h_fd f)"
    and f: "pInode f = NULL" "lock_level f < sint e"
  shows "remoteLock S Delivered junk f e sv = None"
proof -
  obtain m where m: "unixLockConvertArgInToChar f e (zeroed SIZE_ArgInLock) = Some m"
    "unixLockConvertCharToArgIn m = Some (f, e)"
    using lock.req.round_trip [of "()" "(f, e)" "zeroed SIZE_ArgInLock"] by auto
  have "pInode (server_view sv f) = NULL" "lock_level (server_view sv f) = lock_level f"
    using server_view_key(1) [OF inv] f by (simp_all add: file_key_def)
  then have c: "call_lock S (server_view sv f) e sv = None"
    using f by (simp add: call_lock_def unixLock_def)
  then have "WrapLock S m r sv = None" for r
    by (simp add: WrapLock_def lock_call.handled [where unpack = unixLockConvertCharToArgIn, OF inv(1) m(2) inv(2)] c)
  then show ?thesis by (simp add: remoteLock_def invoke_def m(1) rpc_def)
qed

text \<open>
  Of the handle an unfetch sends back the client takes over the method table only: the count
  of pages in use, which the server has lowered, stays as it was.
\<close>

lemma unfetch_keeps_count:
  assumes inv: "ml_inv (sv_list sv)" "served (sv_list sv) (h_fd f)"
  obtains g sv' where "remoteUnfetch S Delivered junk f iOff True sv = Some ((g, SQLITE_OK), sv')"
    "nFetchOut g = nFetchOut f"
    "unixUnfetch S f True os = (SQLITE_OK, f\<lparr>nFetchOut := nFetchOut f - 1\<rparr>, os)"
proof -
  let ?v = "server_view sv f"
  have c: "call_unfetch S ?v (iOff, 1) sv = Some (?v\<lparr>nFetchOut := nFetchOut ?v - 1\<rparr>, SQLITE_OK, put_os (sv_os sv) sv)"
    by (simp add: call_unfetch_def unixUnfetch_def)
  have run: "remoteUnfetch S Delivered junk f iOff True sv =
      Some ((setClientRemotePMethods (f\<lparr>pMethod := pMethod ?v\<rparr>), SQLITE_OK),
        settle (?v\<lparr>nFetchOut := nFetchOut ?v - 1\<rparr>) (put_os (sv_os sv) sv))"
    using remote_unfetch.delivered [where a = "(f, iOff, 1)" and e = "()" and c = f and junk = junk, OF _ _ inv c]
    by (simp add: remoteUnfetch_def WrapUnfetch_def)
  show ?thesis by (rule that [OF run]) (simp_all add: setClientRemotePMethods_def unixUnfetch_def)
qed

end
