(* ===== verification/Uri_Spec.thy ===== *)
theory Uri_Spec
  imports Sqlite_Uri
begin

text \<open>
  What the URI helpers compute: a decimal number is read exactly when it fits 32 bits, and the
  value of a parameter is the one its name was stored with.
\<close>

section \<open>Decimal numbers\<close>

abbreviation decimal :: "bytes \<Rightarrow> int" where
  "decimal s \<equiv> number 10 (\<lambda>c. uint c - 48) s"

lemma number_Nil [simp]: "number b val [] = 0"
  by (simp add: number_def)

lemma number_snoc [simp]: "number b val (s @ [c]) = number b val s * b + val c"
  by (simp add: number_def)

lemma digit_value: "is_digit c \<Longrightarrow> 0 \<le> uint c - 48 \<and> uint c - 48 \<le> 9"
  by (auto simp: is_digit_def word_le_def)

lemma decimal_bounds:
  "\<forall>c \<in> set s. is_digit c \<Longrightarrow> 0 \<le> decimal s \<and> decimal s < 10 ^ length s"
proof (induction s rule: rev_induct)
  case (snoc c s)
  then show ?case using digit_value [of c] by simp
qed simp

lemma decimal_grows:
  assumes "\<forall>c \<in> set s. is_digit c" and "s \<noteq> []" and "hd s \<noteq> 48"
  shows "10 ^ (length s - 1) \<le> decimal s"
  using assms
proof (induction s rule: rev_induct)
  case (snoc c s)
  show ?case
  proof (cases "s = []")
    case True
    have "c \<noteq> 48" using snoc.prems(3) True by simp
    then have "uint c \<noteq> uint (48 :: byte)" using word_uint_eqI [of c 48] by blast
    then have "1 \<le> uint c - 48" using digit_value [of c] snoc.prems(1) by simp
    then show ?thesis using number_snoc [of 10 "\<lambda>c. uint c - 48" "[]" c] by (simp add: True)
  next
    case False
    then have "10 ^ (length s - 1) \<le> decimal s" using snoc by simp
    moreover have "(10 :: int) ^ length s = 10 ^ (length s - 1) * 10"
      using False by (cases s) simp_all
    ultimately show ?thesis using digit_value [of c] snoc.prems(1) by simp
  qed
qed simp

lemma number_zero_digits: "decimal (replicate n 48 @ t) = decimal t"
proof (induction t rule: rev_induct)
  case Nil
  show ?case
  proof (induction n)
    case (Suc n)
    have "decimal (replicate n 48 @ [48]) = 0" using Suc by simp
    then show ?case by (simp add: replicate_append_same)
  qed simp
next
  case (snoc c t)
  then show ?case using number_snoc [of 10 "\<lambda>c. uint c - 48" "replicate n 48 @ t" c] by simp
qed

lemma number_zeros: "decimal (dropWhile (\<lambda>c. c = 48) s) = decimal s"
proof -
  let ?z = "takeWhile (\<lambda>c. c = 48) s"
  have z: "?z = replicate (length ?z) 48"
    by (rule replicate_eqI) (auto dest: set_takeWhileD)
  have "decimal s = decimal (?z @ dropWhile (\<lambda>c. c = 48) s)" by (simp only: takeWhile_dropWhile_id)
  also have "\<dots> = decimal (replicate (length ?z) 48 @ dropWhile (\<lambda>c. c = 48) s)" using z by presburger
  also have "\<dots> = decimal (dropWhile (\<lambda>c. c = 48) s)" by (rule number_zero_digits)
  finally show ?thesis by (rule sym)
qed

lemma get_decimal_digits:
  assumes "\<forall>c \<in> set s. is_digit c" and "s \<noteq> []"
  shows "get_decimal False s = (if decimal s < 2 ^ 31 then Some (decimal s) else None)"
proof -
  let ?t = "dropWhile (\<lambda>c. c = 48) s"
  have d: "\<forall>c \<in> set ?t. is_digit c" using assms(1) by (auto dest: set_dropWhileD)
  then have tw: "takeWhile is_digit (take 11 ?t) = take 11 ?t"
    by (auto simp: takeWhile_eq_all_conv dest: in_set_takeD)
  show ?thesis
  proof (cases "length ?t \<le> 10")
    case True
    then have "takeWhile is_digit (take 11 ?t) = ?t" using tw by simp
    then show ?thesis using assms True by (simp add: get_decimal_def Let_def number_zeros del: take_all)
  next
    case False
    have "?t \<noteq> []" using False by (metis list.size(3) zero_le)
    then have "10 ^ (length ?t - 1) \<le> decimal s"
      using decimal_grows [OF d] hd_dropWhile [of "\<lambda>c. c = 48" s] by (simp add: number_zeros)
    moreover have "(10 :: int) ^ 10 \<le> 10 ^ (length ?t - 1)" using False by (intro power_increasing) auto
    ultimately show ?thesis using assms False by (simp add: get_decimal_def tw)
  qed
qed

lemma sqlite3GetInt32_digits:
  assumes "\<forall>c \<in> set s. is_digit c" and "s \<noteq> []"
  shows "sqlite3GetInt32 s = (if decimal s < 2 ^ 31 then Some (decimal s) else None)"
proof -
  obtain c cs where s: "s = c # cs" using assms(2) by (cases s) auto
  have "is_digit c" using assms(1) s by simp
  then have "c \<noteq> 45" "c \<noteq> 43" by (auto simp: is_digit_def)
  moreover have "\<not> (2 \<le> length cs \<and> (cs ! 0 = 120 \<or> cs ! 0 = 88))"
  proof (cases cs)
    case (Cons d ds)
    then have "is_digit d" using assms(1) s by simp
    then have "d \<noteq> 120" "d \<noteq> 88" by (auto simp: is_digit_def)
    then show ?thesis by (simp add: Cons)
  qed simp
  ultimately show ?thesis
    using get_decimal_digits [OF assms] by (auto simp: sqlite3GetInt32_def s)
qed

section \<open>Parameters\<close>

text \<open>How the parameters follow the name: pairs of strings, ended by an empty one.\<close>

primrec enc_params :: "(bytes \<times> bytes) list \<Rightarrow> bytes" where
  "enc_params [] = [0]"
| "enc_params (kv # ps) = fst kv @ 0 # snd kv @ 0 # enc_params ps"

definition param_ok :: "bytes \<times> bytes \<Rightarrow> bool" where
  "param_ok kv \<longleftrightarrow> fst kv \<noteq> [] \<and> 0 \<notin> set (fst kv) \<and> 0 \<notin> set (snd kv)"

declare uri_scan.simps [simp del]

lemma uri_scan_step:
  assumes "z = c # r" "c \<noteq> 0" and "c_strlen z = Some n" and "c_strlen (drop (Suc n) z) = Some m"
  shows "uri_scan z k = (if take n z = k then Some (Some (drop (Suc n) z))
     else uri_scan (drop (Suc m) (drop (Suc n) z)) k)"
proof -
  have "uri_scan z k = (case c_strlen z of None \<Rightarrow> None
     | Some n \<Rightarrow> if take n z = k then Some (Some (drop (Suc n) z))
         else (case c_strlen (drop (Suc n) z) of None \<Rightarrow> None
               | Some m \<Rightarrow> uri_scan (drop (Suc m) (drop (Suc n) z)) k))"
    by (subst uri_scan.simps) (use assms(1,2) in \<open>simp only: list.case if_False\<close>)
  then show ?thesis by (simp only: assms(3,4) option.case)
qed

lemma uri_scan_params:
  assumes "\<forall>kv \<in> set ps. param_ok kv"
  shows "case map_of ps k of
      None \<Rightarrow> uri_scan (enc_params ps @ more) k = Some None
    | Some v \<Rightarrow> \<exists>rest. uri_scan (enc_params ps @ more) k = Some (Some (v @ 0 # rest))"
  using assms
proof (induction ps)
  case Nil
  show ?case by (subst uri_scan.simps) simp
next
  case (Cons kv ps)
  obtain k' v where kv: "kv = (k', v)" by fastforce
  have ok: "k' \<noteq> []" "0 \<notin> set k'" "0 \<notin> set v" using Cons.prems by (auto simp: kv param_ok_def)
  obtain c cs where k': "k' = c # cs" "c \<noteq> 0" using ok by (cases k') auto
  let ?z = "k' @ 0 # v @ 0 # enc_params ps @ more"
  have n: "c_strlen ?z = Some (length k')" "c_strlen (drop (Suc (length k')) ?z) = Some (length v)"
    using c_strlen_terminated [OF ok(2)] c_strlen_terminated [OF ok(3)] by simp_all
  have z: "?z = c # cs @ 0 # v @ 0 # enc_params ps @ more" by (simp add: k'(1))
  have "uri_scan ?z k = (if take (length k') ?z = k then Some (Some (drop (Suc (length k')) ?z))
      else uri_scan (drop (Suc (length v)) (drop (Suc (length k')) ?z)) k)"
    by (rule uri_scan_step [OF z k'(2) n])
  then have "uri_scan (enc_params (kv # ps) @ more) k =
      (if k' = k then Some (Some (v @ 0 # enc_params ps @ more)) else uri_scan (enc_params ps @ more) k)"
    by (simp add: kv del: uri_scan.simps)
  then show ?case using Cons.IH Cons.prems by (cases "k' = k") (simp_all add: kv split: option.splits)
qed


lemma uri_parameter_found:
  assumes "0 \<notin> set name" and "\<forall>kv \<in> set ps. param_ok kv"
  shows "case map_of ps k of
      None \<Rightarrow> sqlite3_uri_parameter (name @ 0 # enc_params ps @ more) k = Some None
    | Some v \<Rightarrow> \<exists>rest. sqlite3_uri_parameter (name @ 0 # enc_params ps @ more) k = Some (Some (v @ 0 # rest))"
  using uri_scan_params [OF assms(2), of more k] c_strlen_terminated [OF assms(1)]
  by (simp add: sqlite3_uri_parameter_def split: option.splits)

end
