(* ===== verification/Unix_Spec.thy ===== *)
theory Unix_Spec
  imports Server_Files Unix_Open
begin

text \<open>
  Contracts of single operations of \<open>os_unix.c\<close>: the invariant of the mapping under every
  operation that touches it, the rounding of sizes to chunks, the answer about reserved locks,
  and the construction of full path names.
\<close>

section \<open>The mapping\<close>

text \<open>\<open>fstat\<close> reports a size that a file offset can hold.\<close>

definition stat_sizes :: "'os syscalls \<Rightarrow> bool" where
  "stat_sizes S \<longleftrightarrow> (\<forall>h os. 0 \<le> st_size (fst (snd (osFstat S h os))) \<and>
     st_size (fst (snd (osFstat S h os))) < 2 ^ 63)"

lemma unixFetch_inv:
  assumes "mmap_nonnull S" "stat_sizes S" "map_inv f" and "unixFetch S f iOff nAmt os = (rc, p, g, os')"
  shows "map_inv g"
proof -
  have m: "unixMapfile S f (- 1) os = (rc1, f1, os1) \<Longrightarrow> map_inv f1" for rc1 f1 os1
    using unixMapfile_inv [OF assms(1,3)] assms(2) by (simp add: stat_sizes_def)
  have n: "map_inv h \<Longrightarrow> map_inv (h\<lparr>nFetchOut := k\<rparr>)" for h k by (simp add: map_inv_def)
  show ?thesis using assms(3,4)
    by (auto simp: unixFetch_def split: if_splits prod.splits dest!: m intro: n)
qed

lemma unixUnfetch_inv:
  assumes "map_inv f" and "unixUnfetch S f p os = (rc, g, os')"
  shows "map_inv g"
  using assms by (auto simp: unixUnfetch_def map_inv_def unixUnmapfile_def split: if_splits prod.splits)

lemma round_up_bounds:
  assumes "0 \<le> n" and "0 < c"
  shows "n \<le> round_up n c" and "round_up n c < n + c" and "c dvd round_up n c"
proof -
  have s: "(n + c - 1) sdiv c = (n + c - 1) div c"
    using assms by (cases "n + c - 1 = 0") (simp_all add: signed_divide_int_def)
  have e: "round_up n c = (n + c - 1) - (n + c - 1) mod c"
    by (simp add: round_up_def s minus_mod_eq_div_mult)
  have "0 \<le> (n + c - 1) mod c" "(n + c - 1) mod c < c" using assms by simp_all
  then show "n \<le> round_up n c" "round_up n c < n + c" using e assms by linarith+
  show "c dvd round_up n c" by (simp add: round_up_def)
qed

lemma unixTruncate_inv:
  assumes "map_inv f" and "0 \<le> nByte" and "unixTruncate S f nByte os = Some (rc, g, os')"
  shows "map_inv g"
proof -
  define n where "n = (if 0 < sint (szChunk f) then round_up nByte (sint (szChunk f)) else nByte)"
  have nn: "0 \<le> n" using round_up_bounds(1) [OF assms(2)] assms(2) by (auto simp: n_def intro: order_trans)
  have "sint (word_of_int n :: 64 word) = n" if "n < sint (mmapSize f)"
    using nn that sint_lt [of "mmapSize f"] by (intro sint_of_int64) auto
  then have m: "map_inv (f\<lparr>mmapSize := word_of_int n\<rparr>)" if "n < sint (mmapSize f)"
    using assms(1) nn that by (auto simp: map_inv_def)
  have st: "map_inv (storeLastErrno f e)" for e using assms(1) by (simp add: map_inv_def)
  obtain r os1 where "robust_ftruncate S (h_fd f) n os = Some (r, os1)"
    "(if r \<noteq> 0 then Some (SQLITE_IOERR_TRUNCATE, storeLastErrno f (osErrno S os1), os1)
      else Some (SQLITE_OK, if n < sint (mmapSize f) then f\<lparr>mmapSize := word_of_int n\<rparr> else f, os1)) =
      Some (rc, g, os')"
    using assms(3) by (auto simp: unixTruncate_def Let_def bind_eq_Some_iff simp flip: n_def)
  then show ?thesis using assms(1) m st by (auto split: if_splits)
qed

lemma control_mmap_size_inv:
  assumes "mmap_nonnull S" "stat_sizes S" "map_inv f" and "control_mmap_size S f v os = (rc, old, g, os')"
  shows "map_inv g"
proof -
  define lim where "lim = (if SQLITE_MAX_MMAP_SIZE < sint v then word_of_int SQLITE_MAX_MMAP_SIZE else v)"
  note run = assms(4) [unfolded control_mmap_size_def, folded lim_def, unfolded Let_def]
  show ?thesis
  proof (cases "0 \<le> sint lim \<and> lim \<noteq> mmapSizeMax f \<and> nFetchOut f = 0")
    case False
    then show ?thesis using run assms(3) by (auto split: if_splits)
  next
    case lim: True
    show ?thesis
    proof (cases "0 < sint (mmapSize f)")
      case False
      then have "g = f\<lparr>mmapSizeMax := lim\<rparr>" using run lim by simp
      then show ?thesis using assms(3) False lim by (auto simp: map_inv_def)
    next
      case True
      obtain h os1 where u: "unixUnmapfile S (f\<lparr>mmapSizeMax := lim\<rparr>) os = (h, os1)" by fastforce
      obtain rc2 g2 os2 where m: "unixMapfile S h (- 1) os1 = (rc2, g2, os2)" by (rule prod_cases3)
      have "g = g2" using run lim True u m by simp
      moreover have "map_inv h" using assms(3) u lim True by (auto simp: unixUnmapfile_def map_inv_def)
      ultimately show ?thesis using unixMapfile_inv [OF assms(1) _ m] assms(2) by (simp add: stat_sizes_def)
    qed
  qed
qed

section \<open>Reserved locks\<close>

text \<open>A writer among the open handles is seen without asking the kernel.\<close>

lemma check_reserved_writer:
  assumes inv: "files_inv F st" and f: "f \<in># F" and g: "g \<in># F" "pInode g = pInode f" "SHARED_LOCK < lock_level g"
  shows "unixCheckReservedLock S f st = Some (SQLITE_OK, 1, f, st)"
proof -
  obtain i where i: "inode_at (pInode f) st = Some i" "inode_inv F (pInode f) i"
    by (rule files_inv_inode [OF inv f]) (rule that)
  have "lock_level g \<in># levels (pInode f) F" using g by (simp add: levels_def on_inode_def)
  then have "lock_level g \<le> inode_level i" using i(2) by (auto simp: inode_inv_def lock_inv_def)
  then show ?thesis using g(3) by (simp add: unixCheckReservedLock_def i(1))
qed

section \<open>Full path names\<close>

lemma c_stringE:
  assumes "c_string s = Some z"
  obtains d where "z = d @ [0]" "0 \<notin> set d" "c_strlen s = Some (length d)" "take (length z) s = z"
proof -
  obtain n where n: "c_strlen s = Some n" "z = take (Suc n) s" using assms by (auto simp: c_string_def bind_eq_Some_iff)
  have s: "n < length s" "s ! n = 0" "0 \<notin> set (take n s)" using c_strlen_Some [OF n(1)] by simp_all
  show ?thesis
    by (rule that [of "take n s"]) (use s n in \<open>simp_all add: take_Suc_conv_app_nth\<close>)
qed

lemma full_pathname_absolute:
  assumes "c_string zName = Some z" and "zName ! 0 = SLASH" and "length z \<le> length zOut"
  shows "\<exists>out. unixFullPathname S zName (int (length zOut)) zOut os = Some (SQLITE_OK, out, os) \<and>
     c_string out = Some z \<and> length out = length zOut"
proof -
  obtain d where d: "z = d @ [0]" "c_strlen zName = Some (length d)"
    by (rule c_stringE [OF assms(1)]) (rule that)
  have "strcpy zOut 0 zName = Some (overwrite zOut 0 z)"
    using assms by (simp add: strcpy_ok)
  moreover have "\<not> int (length zOut) < int (0 + length d + 1)" using assms(3) d(1) by simp
  ultimately show ?thesis using assms d(2) c_string_overwrite [OF assms(1)]
    by (simp add: unixFullPathname_def mkFullPathname_def)
qed


text \<open>A relative name is put behind the working directory and a slash.\<close>

lemma full_pathname_relative:
  assumes z: "c_string zName = Some z" "zName ! 0 \<noteq> SLASH"
    and w: "osGetcwd S (int (length zOut) - 2) os = (Some w, os')" "c_string w = Some (d @ [0])"
    and fit: "length d + 1 + length z \<le> length zOut"
  shows "\<exists>out. unixFullPathname S zName (int (length zOut)) zOut os = Some (SQLITE_OK, out, os') \<and>
     c_string out = Some (d @ SLASH # z) \<and> length out = length zOut"
proof -
  obtain n where n: "z = n @ [0]" "0 \<notin> set n" "c_strlen zName = Some (length n)"
    by (rule c_stringE [OF z(1)]) (rule that)
  have dz: "0 \<notin> set d" by (rule c_stringE [OF w(2)]) simp
  let ?o1 = "overwrite zOut 0 (d @ [0])"
  have s1: "strcpy zOut 0 w = Some ?o1" using w(2) fit by (simp add: strcpy_ok)
  have l1: "c_strlen ?o1 = Some (length d)"
    using c_strlen_terminated [OF dz] by (simp add: overwrite_def)
  let ?o2 = "overwrite ?o1 (length d) [SLASH]"
  have s2: "memcpy ?o1 (length d) [SLASH] = Some ?o2" using fit by (simp add: memcpy_ok)
  let ?o3 = "overwrite ?o2 (length d + 1) z"
  have s3: "strcpy ?o2 (length d + 1) zName = Some ?o3" using z(1) fit by (simp add: strcpy_ok)
  have lt: "\<not> int (length zOut) < int (length d + 1 + length n + 1)" using fit n(1) by simp
  have "?o3 = d @ SLASH # z @ drop (length d + 1 + length z) zOut"
    using fit by (simp add: overwrite_def add.commute)
  moreover have "c_string ((d @ SLASH # n) @ 0 # t) = Some (d @ SLASH # n @ [0])" for t
  proof -
    have "0 \<notin> set (d @ SLASH # n)" using dz n(2) by simp
    then have "c_strlen ((d @ SLASH # n) @ 0 # t) = Some (length (d @ SLASH # n))"
      by (rule c_strlen_terminated)
    then show ?thesis by (simp add: c_string_def)
  qed
  ultimately have c: "c_string ?o3 = Some (d @ SLASH # z)" by (simp add: n(1))
  have "length ?o3 = length zOut" using fit by simp
  with c show ?thesis
    using z(2) w(1) n(3) s1 l1 s2 s3 lt by (simp add: unixFullPathname_def mkFullPathname_def)
qed

text \<open>A name that does not fit is refused, with an empty result.\<close>

lemma full_pathname_too_long:
  assumes "c_string zName = Some z" and "zName ! 0 = SLASH" and "length zOut < length z" "zOut \<noteq> []"
  shows "\<exists>out. unixFullPathname S zName (int (length zOut)) zOut os = Some (SQLITE_CANTOPEN, out, os) \<and>
     c_string out = Some [0]"
proof -
  obtain d where d: "z = d @ [0]" "c_strlen zName = Some (length d)"
    by (rule c_stringE [OF assms(1)]) (rule that)
  obtain b bs where "zOut = b # bs" using assms(4) by (cases zOut) auto
  then show ?thesis using assms d
    by (auto simp: unixFullPathname_def mkFullPathname_def memcpy_def overwrite_def c_string_def)
qed

end
