(* ===== verification/Operation_Facts.thy ===== *)
theory Operation_Facts
  imports Sim_Kernel Uri_Spec Unix_Spec
begin

text \<open>
  Facts about single operations, each with an instance: the message of an open, descriptors
  that are not standard streams, rounding of truncation, path names, decimal strings.
\<close>

text \<open>
  The request of an open carries name, old handle and flags: a name that fits 512 bytes with
  its terminator is the string in the handler's array, and \<open>-1\<close> stands for a client that does
  not ask for the resulting flags.
\<close>

lemma open_message_round_trip:
  assumes "length arg = SIZE_ArgInOpen" and "c_string zName = Some z" and "length z \<le> 512" and "length path = 512"
  shows "\<exists>path'. Option.bind (unixOpenConvertArgInToChar zName f flags out arg)
      (\<lambda>m. unixOpenConvertCharToArgIn m path) =
        Some (path', f, flags, case out of None \<Rightarrow> - 1 | Some v \<Rightarrow> v) \<and> c_string path' = Some z"
proof -
  have "name_fits path zName" using assms by (simp add: name_fits_def)
  then have "Option.bind (unixOpenConvertArgInToChar zName f flags out arg)
      (\<lambda>m. unixOpenConvertCharToArgIn m path) =
        Some (name_copy path zName, f, flags, case out of None \<Rightarrow> - 1 | Some v \<Rightarrow> v)"
    using open_msg.req.transfer [of path "(zName, f, flags, out)" arg] assms(1) by simp
  moreover have "c_string (name_copy path zName) = Some z"
    using c_string_overwrite [OF assms(2)] assms(2) by (simp add: name_copy_def)
  ultimately show ?thesis by blast
qed

lemma open_message_round_trip_witness:
  "\<exists>path'. Option.bind (unixOpenConvertArgInToChar sim_name zero_unixFile 6 None (zeroed SIZE_ArgInOpen))
      (\<lambda>m. unixOpenConvertCharToArgIn m (zeroed 512)) = Some (path', zero_unixFile, 6, - 1) \<and>
    c_string path' = Some sim_name"
proof -
  have z: "c_string sim_name = Some sim_name" "length sim_name \<le> 512" by code_simp+
  show ?thesis
    using open_message_round_trip [OF _ z, of "zeroed SIZE_ArgInOpen" "zeroed 512" zero_unixFile 6 None] by simp
qed

text \<open>
  \<open>robust_open\<close> never returns the descriptor of a standard stream, whatever the kernel
  gives it: a successful result is 3 or more.
\<close>

lemma robust_open_avoids_streams:
  assumes "robust_open S z flags mode os = Some (fd, os')"
  shows "sint fd < 0 \<or> 3 \<le> sint fd"
proof -
  obtain os1 where "open_loop S z flags mode (if mode \<noteq> 0 then mode else SQLITE_DEFAULT_FILE_PERMISSIONS) os =
      Some (fd, os1)"
    using assms by (auto simp: robust_open_def bind_eq_Some_iff)
  from open_loop_fd [OF this] show ?thesis by (simp add: SQLITE_MINIMUM_FILE_DESCRIPTOR_def)
qed

lemma robust_open_avoids_streams_witness:
  "\<exists>fd os'. robust_open sim_kernel [97, 0] O_RDWR 0 (sim_start\<lparr>k_next := 1\<rparr>) = Some (fd, os') \<and> 3 \<le> sint fd"
proof -
  have "case robust_open sim_kernel [97, 0] O_RDWR 0 (sim_start\<lparr>k_next := 1\<rparr>) of None \<Rightarrow> False
    | Some (fd, os') \<Rightarrow> 0 \<le> sint fd" by code_simp
  then obtain fd os' where r: "robust_open sim_kernel [97, 0] O_RDWR 0 (sim_start\<lparr>k_next := 1\<rparr>) = Some (fd, os')"
    and "0 \<le> sint fd" by (auto split: option.splits)
  with robust_open_avoids_streams [OF r] show ?thesis by auto
qed

text \<open>
  With a chunk size set, \<open>unixTruncate\<close> rounds the size up to a multiple of the chunk:
  never below what was asked for, and by less than one chunk.
\<close>

lemma truncate_rounds_up:
  assumes "0 \<le> nByte" and "0 < sint (szChunk f)" and "unixTruncate S f nByte os = Some (rc, g, os')"
  shows "\<exists>n r os1. robust_ftruncate S (h_fd f) n os = Some (r, os1) \<and>
    nByte \<le> n \<and> n < nByte + sint (szChunk f) \<and> sint (szChunk f) dvd n"
proof -
  obtain r os1 where "robust_ftruncate S (h_fd f) (round_up nByte (sint (szChunk f))) os = Some (r, os1)"
    using assms(2,3) by (auto simp: unixTruncate_def Let_def bind_eq_Some_iff)
  with round_up_bounds [OF assms(1,2)] show ?thesis by blast
qed

lemma truncate_rounds_up_witness:
  "\<exists>n r os1. robust_ftruncate sim_kernel 3 n sim_start = Some (r, os1) \<and> 100 \<le> n \<and> n < 4196 \<and> 4096 dvd n"
proof -
  let ?f = "zero_unixFile\<lparr>h_fd := 3, szChunk := 4096\<rparr>"
  have "case unixTruncate sim_kernel ?f 100 sim_start of None \<Rightarrow> False | Some (rc, g, os') \<Rightarrow> rc = SQLITE_OK"
    by (simp add: unixTruncate_def round_up_def signed_divide_int_def robust_ftruncate.simps sim_kernel_def zero_unixFile_def)
  then obtain rc g os' where r: "unixTruncate sim_kernel ?f 100 sim_start = Some (rc, g, os')"
    by (auto split: option.splits)
  have "0 < sint (szChunk ?f)" by simp
  from truncate_rounds_up [OF _ this r] show ?thesis by simp
qed

text \<open>
  The full path name of a relative name is the working directory, a slash and the name,
  written inside the caller's buffer.
\<close>

lemma relative_full_pathname:
  assumes "c_string zName = Some z" and "zName ! 0 \<noteq> SLASH"
    and "osGetcwd S (int (length zOut) - 2) os = (Some w, os')" and "c_string w = Some (d @ [0])"
    and "length d + 1 + length z \<le> length zOut"
  shows "\<exists>out. unixFullPathname S zName (int (length zOut)) zOut os = Some (SQLITE_OK, out, os') \<and>
    c_string out = Some (d @ SLASH # z) \<and> length out = length zOut"
  by (rule full_pathname_relative [OF assms])

lemma relative_full_pathname_witness:
  "\<exists>out. unixFullPathname sim_kernel [97, 98, 0] 10 (zeroed 10) sim_start = Some (SQLITE_OK, out, sim_start) \<and>
     c_string out = Some [47, 47, 97, 98, 0]"
proof -
  have z: "c_string [97, 98, 0 :: byte] = Some [97, 98, 0]" "[97, 98, 0 :: byte] ! 0 \<noteq> SLASH" by code_simp+
  have w: "osGetcwd sim_kernel (int (length (zeroed 10)) - 2) sim_start = (Some [47, 0], sim_start)"
    "c_string [47, 0 :: byte] = Some ([47] @ [0])" by (simp_all add: sim_kernel_def c_string_def)
  show ?thesis using relative_full_pathname [OF z w] by auto
qed

text \<open>
  An absolute name that does not fit the caller's buffer is refused with SQLITE_CANTOPEN and
  an empty string; nothing is written behind the buffer.
\<close>

lemma long_full_pathname_refused:
  assumes "c_string zName = Some z" and "zName ! 0 = SLASH" and "length zOut < length z" and "zOut \<noteq> []"
  shows "\<exists>out. unixFullPathname S zName (int (length zOut)) zOut os = Some (SQLITE_CANTOPEN, out, os) \<and>
    c_string out = Some [0]"
  by (rule full_pathname_too_long [OF assms])

lemma long_full_pathname_refused_witness:
  "\<exists>out. unixFullPathname sim_kernel [47, 97, 98, 0] 3 (zeroed 3) sim_start = Some (SQLITE_CANTOPEN, out, sim_start)"
proof -
  have z: "c_string [47, 97, 98, 0 :: byte] = Some [47, 97, 98, 0]" "[47, 97, 98, 0 :: byte] ! 0 = SLASH"
    by code_simp+
  show ?thesis using long_full_pathname_refused [OF z, of "zeroed 3" sim_kernel sim_start]
    by (auto simp: zeroed_def)
qed

text \<open>
  \<open>sqlite3GetInt32\<close> reads a string of decimal digits, leading zeros included, as its
  value when that fits 32 bits and refuses it otherwise.
\<close>

lemma decimal_string_value:
  assumes "\<forall>c \<in> set s. is_digit c" and "s \<noteq> []"
  shows "sqlite3GetInt32 s =
    (if number 10 (\<lambda>c. uint c - 48) s < 2 ^ 31 then Some (number 10 (\<lambda>c. uint c - 48) s) else None)"
  by (rule sqlite3GetInt32_digits [OF assms])

lemma decimal_string_value_witness:
  "sqlite3GetInt32 [48, 49, 50] = Some 12 \<and>
   sqlite3GetInt32 [57, 57, 57, 57, 57, 57, 57, 57, 57, 57, 57, 57] = None"
proof -
  have "\<forall>c \<in> set [48, 49, 50]. is_digit c"
    "\<forall>c \<in> set [57, 57, 57, 57, 57, 57, 57, 57, 57, 57, 57, 57]. is_digit c" by code_simp+
  then show ?thesis using decimal_string_value [of "[48, 49, 50]"]
      decimal_string_value [of "[57, 57, 57, 57, 57, 57, 57, 57, 57, 57, 57, 57]"]
    by (simp add: number_def)
qed

section \<open>Descriptors, pages, reservations and parameters\<close>

text \<open>
  While one of the open handles is above SHARED, \<open>unixCheckReservedLock\<close> on any handle
  of the same file reports a reserved lock, without asking the kernel and without side effects.
\<close>

lemma check_reserved_lock_sees_writer:
  assumes "files_inv F st" and "f \<in># F" and "g \<in># F" and "pInode g = pInode f"
    and "SHARED_LOCK < lock_level g"
  shows "unixCheckReservedLock S f st = Some (SQLITE_OK, 1, f, st)"
  by (rule check_reserved_writer [OF assms])

lemma check_reserved_lock_sees_writer_witness:
  "\<exists>f st. unixCheckReservedLock sim_kernel f st = Some (SQLITE_OK, 1, f, st)"
proof -
  obtain s f g where run: "reachable sim_kernel s" "dbs s = {#f, g#}" "pInode f = pInode g"
    and l: "lock_level f = RESERVED_LOCK" by (rule sim_run)
  have F: "files_inv {#f, g#} (sv_unix (srv s))"
    using reachable_inv [OF run(1)] run(2) by (simp add: sys_inv_def)
  show ?thesis using check_reserved_lock_sees_writer [OF F, of g f sim_kernel] run(3) l by auto
qed

text \<open>
  Registering a descriptor the way the handler of an open does, with \<open>AddNode\<close> and then
  \<open>setServicePath\<close>, makes its method table and its name known and touches no other entry.
\<close>

lemma registered_descriptor_known:
  assumes "ml_inv ml" and "AddNode fd m ml = Some ml1" and "setServicePath fd path ml1 = Some ml2"
    and "c_string path = Some z"
  shows "ml_inv ml2 \<and> (\<exists>p. ml_lookup ml2 fd = Some (m, p) \<and> c_string p = Some z) \<and>
    (\<forall>fd'. fd' \<noteq> fd \<longrightarrow> ml_lookup ml2 fd' = ml_lookup ml fd')"
  using methods.registered [OF assms] by blast

lemma registered_descriptor_known_witness:
  "\<exists>ml1 ml2 p. AddNode 5 posixIoMethods empty_mlist = Some ml1 \<and> setServicePath 5 [97, 98, 0] ml1 = Some ml2 \<and>
     ml_lookup ml2 5 = Some (posixIoMethods, p) \<and> c_string p = Some [97, 98, 0]"
proof -
  have "ml_room (Suc (Suc 0)) empty_mlist" by code_simp
  then obtain ml1 where a: "AddNode 5 posixIoMethods empty_mlist = Some ml1"
    using AddNode_defined [OF ml_inv_empty] by blast
  have "ml_lookup empty_mlist 5 = None" by (simp add: ml_lookup_def empty_mlist_def)
  then have A: "ml_inv ml1" "ml_lookup ml1 5 = Some (posixIoMethods, [])"
    using AddNode_spec [OF ml_inv_empty a] by simp_all
  have z: "c_string [97, 98, 0 :: byte] = Some [97, 98, 0]" by code_simp
  obtain ml2 where s: "setServicePath 5 [97, 98, 0] ml1 = Some ml2"
    using setServicePath_defined [OF A z] by (auto simp: PATH_LEN_def)
  from registered_descriptor_known [OF ml_inv_empty a s z] a s show ?thesis by blast
qed

text \<open>
  A page that \<open>unixFetch\<close> hands out lies inside the mapping the handle has: it starts
  at the region's address plus the offset, ends no later than the usable bytes, and is counted.
\<close>

lemma fetched_page_in_mapping:
  assumes "unixFetch S f iOff nAmt os = (rc, pp, f', os')" and "pp \<noteq> NULL"
  shows "rc = SQLITE_OK \<and> pp = pMapRegion f' + iOff \<and> sint iOff + sint nAmt \<le> sint (mmapSize f')"
  using unixFetch_page [OF assms] by blast

lemma fetched_page_in_mapping_witness:
  "\<exists>f' os'. unixFetch sim_kernel
     (zero_unixFile\<lparr>pMapRegion := 0x1000, mmapSize := 8192, mmapSizeActual := 8192, mmapSizeMax := 65536\<rparr>)
     4096 4096 sim_start = (SQLITE_OK, 0x2000, f', os') \<and> 8192 \<le> sint (mmapSize f')"
proof -
  let ?f = "zero_unixFile\<lparr>pMapRegion := 0x1000, mmapSize := 8192, mmapSizeActual := 8192, mmapSizeMax := 65536\<rparr>"
  have r: "unixFetch sim_kernel ?f 4096 4096 sim_start =
      (SQLITE_OK, 0x2000, ?f\<lparr>nFetchOut := nFetchOut ?f + 1\<rparr>, sim_start)"
    by (simp add: unixFetch_def)
  from fetched_page_in_mapping [OF r] r show ?thesis by simp
qed

text \<open>
  A URI parameter stored behind a file name is found again: \<open>sqlite3_uri_parameter\<close>
  returns the value of the first pair with that name, and null where there is none, for every
  list of pairs of zero-free strings with names that are not empty.
\<close>

lemma uri_parameter_round_trip:
  assumes "0 \<notin> set name" and "\<forall>kv \<in> set ps. param_ok kv"
  shows "case map_of ps k of
      None \<Rightarrow> sqlite3_uri_parameter (name @ 0 # enc_params ps @ tail) k = Some None
    | Some v \<Rightarrow> \<exists>rest. sqlite3_uri_parameter (name @ 0 # enc_params ps @ tail) k = Some (Some (v @ 0 # rest))"
  by (rule uri_parameter_found [OF assms])

lemma uri_parameter_round_trip_witness:
  "\<exists>rest. sqlite3_uri_parameter ([97] @ 0 # enc_params [([107], [49]), ([106], [50])] @ []) [106] =
     Some (Some ([50] @ 0 # rest))"
proof -
  have "\<forall>kv \<in> set [([107], [49]), ([106], [50])]. param_ok kv" by (simp add: param_ok_def)
  from uri_parameter_round_trip [OF _ this, of "[97]" "[]" "[106]"] show ?thesis by simp
qed

end
