(* ===== verification/Spec2Isabelle.thy ===== *)
theory Spec2Isabelle
  imports Sim_Shm Sim_Pager Remote_IO Remote_Faults Operation_Facts
begin

text \<open>
  A verification library for the remote VFS of this repository: SQLite's file system layer split
  into a client that ships every call over gRPC and a server that runs the functions of
  \<open>os_unix.c\<close> for all clients.

  \<^bold>\<open>The program.\<close> \<open>src/os_remote/client/os_remote_client.c\<close> has the methods
  SQLite calls. Each packs its arguments and the whole client-side \<open>unixFile\<close> into a byte
  array (\<open>src/os_remote/common/os_arg_convert.c\<close>), sends the array through
  \<open>os_client_wrap.cc\<close>, and unpacks the reply, which brings a new \<open>unixFile\<close>. On the
  other side \<open>os_remote_server.cc\<close> calls a handler of
  \<open>src/os_remote/server/os_server_wrap.c\<close>, which unpacks, looks the descriptor's method table
  and file name up in a linked list (\<open>MethodAndFD\<close>, also \<open>os_arg_convert.c\<close>), calls the
  function of \<open>src/sqlite-src-3280000/src/os_unix.c\<close>, records method table and name and packs
  the reply. The server keeps no other record of a client's file: the lock level, the inode
  pointer and the mapping travel in the handle. What all handles share on the server are the inode
  objects, with their lock and reference counts, and the kernel. The caller of all this is the pager of
  SQLite (\<open>pager.c\<close>), whose rollback journal is what the files are for: it is modelled over the
  methods of any VFS and then run over the remote one.

  \<^bold>\<open>The theories\<close>, each below the ones it uses.
  \<^item> \<open>Prelude\<close>, \<open>Bytes\<close>: C integers, byte arrays, \<open>memcpy\<close>, \<open>strcpy\<close>,
    little-endian integers (locale \<open>codec\<close>). A result \<open>None\<close> is a run that leaves an
    object, goes through a bad pointer or does not return.
  \<^item> \<open>Sqlite_Defs\<close>: result codes, lock levels, flags, the record \<open>unixFile\<close> and its
    120 bytes. \<open>Method_List\<close>: the linked list on a heap of nodes, shown to be a finite map
    (locale \<open>fd_table\<close>). \<open>Arg_Convert\<close>: all conversion functions and the layout of the
    messages. \<open>Marshal\<close>: their round trips (locales \<open>marshalled\<close>, \<open>remote_call\<close>).
  \<^item> \<open>Posix\<close>: the system calls, a record of functions over any kernel state, and the
    retrying wrappers. \<open>Unix_Map\<close>, \<open>Unix_Inode\<close>, \<open>Unix_Lock\<close>, \<open>Unix_IO\<close>,
    \<open>Unix_Open\<close>: the functions of \<open>os_unix.c\<close>: mapping, inode objects and deferred
    descriptors, the lock protocol, reading, writing, syncing, sizes and file controls, opening,
    deleting, access, path names. \<open>Unix_Shm\<close>: shared memory for the write-ahead log, which
    the functions of \<open>os_unix.c\<close> provide and the remote VFS does not ship. \<open>Sqlite_Uri\<close>:
    the URI helpers of \<open>main.c\<close>, \<open>pragma.c\<close> and \<open>util.c\<close> that \<open>unixOpen\<close> uses.
  \<^item> \<open>Lock_Inv\<close>: the invariant between an inode's counts and the levels of its handles.
    \<open>Server_Files\<close>, \<open>Server_Open\<close>: the invariant \<open>files_inv\<close> of all open files,
    kept by lock, unlock, close and open. \<open>IO_Spec\<close>: what reads and writes do to the bytes of
    a file. \<open>Shm_Inv\<close>, \<open>Shm_Life\<close>, \<open>Shm_Lock\<close>: the invariant between shared-memory
    nodes, connections and inodes, and opening, closing and locking under it; \<open>Shm_System\<close>: the
    connections of a process as a step relation. \<open>Unix_Spec\<close>, \<open>Uri_Spec\<close>,
    \<open>Operation_Facts\<close>: contracts of single operations.
  \<^item> \<open>Server_Wrap\<close>: the handlers. \<open>Server_Call\<close>: the interface between handlers and
    functions (locales \<open>file_call\<close>, \<open>quiet_call\<close>). \<open>Client_Remote\<close>: transport,
    client methods, stubs and initialisation. \<open>Remote_Calls\<close>, \<open>Quiet_Methods\<close>,
    \<open>Remote_Open\<close>, \<open>Remote_IO\<close>: a delivered remote call is the local call on the server's
    view of the handle (locales \<open>remote_file_call\<close>, \<open>file_method\<close>,
    \<open>quiet_method\<close>). \<open>Remote_Faults\<close>: where it is not.
  \<^item> \<open>Remote_System\<close>: any number of clients and the server as a step relation, its
    reachable states and their invariant. \<open>Sim_Kernel\<close>: a small kernel and a run of the
    system on it, for the concrete instances below.
  \<^item> \<open>Pager_Defs\<close>, \<open>Pager_Lock\<close>, \<open>Pager_Journal\<close>, \<open>Pager_Playback\<close>,
    \<open>Pager_Commit\<close>: the pager's locks and its rollback journal: writing headers, records and
    master names, syncing, playing back, finalizing. \<open>Journal_Files\<close>: the interface of the
    two files the pager works on (locale \<open>two_files\<close>) and rules for runs that return.
    \<open>Journal_Format\<close>: the bytes of a journal as an abstract list of segments.
    \<open>Journal_Restore\<close>: playing such a journal back. \<open>Journal_Write\<close>: the invariant of a
    journal being written and of a whole transaction. \<open>Journal_Recover\<close>,
    \<open>Journal_Commit\<close>: what is written undoes the transaction, until it is finalized.
    \<open>Pager_Remote\<close>: the interface holds for two descriptors of the server.
    \<open>Sim_Pager\<close>: a pager over the small kernel, for the concrete instances.

  \<^bold>\<open>The properties\<close> of this theory: mutual exclusion and right bookkeeping in every
  reachable state of the system (C1 to C4); remote calls against local ones, down to the bytes of
  the file (C5 to C7); the rollback journal over the network (C8 to C11); contracts of lock,
  unlock, close and open (C12 to C16); reading and writing, with termination (C17 to C20); shared
  memory: exclusion, agreement with the kernel's locks, contracts of lock, map, open and unmap (C21
  to C26); the list as a finite map (C27 to C29); messages (C30, C31); lost messages, oversized
  data and other failures (C32 to C37); mapped pages and what a close leaves behind (C38, C39).

  \<^bold>\<open>Choices.\<close> A C \<open>int\<close> is a 32-bit word, \<open>i64\<close> and pointers are 64-bit words,
  sizes are those of the LP64 ABI; file offsets and counts are integers where the code computes
  on them without wrapping, and the counters of an inode object (number of handles and of locks)
  are integers. Loops that depend on the kernel (\<open>robust_open\<close>, \<open>seekAndRead\<close>, the
  write loops) are partial functions whose \<open>None\<close> is non-termination; that they return is
  proved (C18, C20), and there is no fuel; so it is for the loops over the headers of a journal (C8). \<open>malloc\<close> gives fresh addresses from a bounded
  address space and null at its end; a hypothesis \<open>ml_room\<close> asks for space for a few nodes
  of 536 bytes. \<open>junk\<close> is what uninitialised arrays hold, and no theorem restricts it. The
  build modelled is the one of the repository: Linux, posix locks, memory mapping with
  \<open>mremap\<close>, no \<open>posix_fallocate\<close>, no \<open>fchown\<close>, no debugging, assertions off.

  \<^bold>\<open>Not modelled.\<close> The bodies of gRPC, protobuf and the kernel, which are parameters:
  the transport delivers a call, loses the request or loses the reply, and the kernel answers as it
  likes but for the hypotheses a theorem names. Handlers run one after the other; the C++ server
  runs them in threads, without a lock around the list. The write-ahead log itself
  (\<open>wal.c\<close>) over the shared memory; the locking styles other than posix and none; the random names of
  temporary files (\<open>osTempname\<close>); randomness, sleeping and time, which the client runs
  locally; performance counters and logging. Of the pager: savepoint rollback, deleting a master journal,
  backups, the codec, fetching and spilling pages; its cache is a map of pages. Its pages are at
  most 8192 bytes over the network, since larger ones overrun the messages (C34). The rest of
  SQLite, the vendored copies of it, the command line tools and the JDBC bridge.
\<close>

section \<open>The system of clients and server\<close>

text \<open>
  C1. Mutual exclusion. In every state that any number of clients can reach by calls the
  transport delivers, whatever the kernel answers, two handles on one file never hold
  conflicting locks: beside a handle above SHARED the other one has SHARED at most, beside an
  EXCLUSIVE one it has none.
\<close>

theorem mutual_exclusion:
  assumes "reachable S s" and "dbs s = add_mset f (add_mset g F)" and "pInode f = pInode g"
  shows "(SHARED_LOCK < lock_level f \<longrightarrow> lock_level g \<le> SHARED_LOCK) \<and>
         (lock_level f = EXCLUSIVE_LOCK \<longrightarrow> lock_level g = NO_LOCK)"
  using reachable_compatible [OF assms] by (simp add: compatible_def)

theorem mutual_exclusion_witness:
  "\<exists>s f g. reachable sim_kernel s \<and> dbs s = {#f, g#} \<and> pInode f = pInode g \<and>
     lock_level f = RESERVED_LOCK \<and> lock_level g \<le> SHARED_LOCK"
proof -
  obtain s f g where run: "reachable sim_kernel s" "dbs s = {#f, g#}" "pInode f = pInode g"
    and l: "lock_level f = RESERVED_LOCK"
    by (rule sim_run)
  have "lock_level g \<le> SHARED_LOCK" using mutual_exclusion [OF run(1) _ run(3)] run(2) l by simp
  with run l show ?thesis by blast
qed

text \<open>
  C2. In every reachable state the server's bookkeeping is right: its list of descriptors is
  well formed and knows every handle the clients hold, each database handle under the methods
  of posix locking, and the lock counts, reference counts and deferred descriptors of its
  inode objects agree with those handles.
\<close>

theorem reachable_bookkeeping:
  assumes "reachable S s"
  shows "ml_inv (sv_list (srv s)) \<and> files_inv (dbs s) (sv_unix (srv s)) \<and>
    (\<forall>f \<in># dbs s. db_served (sv_list (srv s)) (h_fd f)) \<and>
    (\<forall>f \<in># others s. served (sv_list (srv s)) (h_fd f))"
  using reachable_inv [OF assms] by (simp add: sys_inv_def)

theorem reachable_bookkeeping_witness:
  "\<exists>s f g. reachable sim_kernel s \<and> dbs s = {#f, g#} \<and> files_inv {#f, g#} (sv_unix (srv s)) \<and>
     db_served (sv_list (srv s)) (h_fd f)"
proof -
  obtain s f g where run: "reachable sim_kernel s" "dbs s = {#f, g#}" by (rule sim_run)
  show ?thesis
    using reachable_bookkeeping [OF run(1)] run by auto
qed

text \<open>
  C3. No client can be left without an answer: in a reachable state, a lock request that obeys
  the pager's contract, a release to NONE or SHARED and a close of a database handle are all
  answered, the close with success.
\<close>

theorem database_calls_answered:
  assumes "reachable S s" and "dbs s = add_mset f F"
  shows "(lock_request_ok f (sint e) \<longrightarrow> (\<exists>r. remoteLock S Delivered junk f e (srv s) = Some r)) \<and>
    (sint e = NO_LOCK \<or> sint e = SHARED_LOCK \<longrightarrow> (\<exists>r. remoteUnlock S Delivered junk f e (srv s) = Some r)) \<and>
    (\<exists>g sv'. remoteClose S Delivered junk f (srv s) = Some ((g, SQLITE_OK), sv'))"
proof (intro conjI impI)
  have inv: "sys_inv s" by (rule reachable_inv [OF assms(1)])
  then have S: "ml_inv (sv_list (srv s))" "served (sv_list (srv s)) (h_fd f)"
    "files_inv (add_mset f F) (sv_unix (srv s))"
    using assms(2) by (auto simp: sys_inv_def db_served_def)
  show "\<exists>r. remoteLock S Delivered junk f e (srv s) = Some r" if "lock_request_ok f (sint e)"
    by (rule remoteLock_served [OF S that, of S junk]) blast
  show "\<exists>r. remoteUnlock S Delivered junk f e (srv s) = Some r" if "sint e = NO_LOCK \<or> sint e = SHARED_LOCK"
    by (rule remoteUnlock_served [OF S that, of S junk]) blast
  show "\<exists>g sv'. remoteClose S Delivered junk f (srv s) = Some ((g, SQLITE_OK), sv')"
    by (rule remoteClose_db [OF inv assms(2), of S junk]) blast
qed

theorem database_calls_answered_witness:
  "\<exists>s f g r. reachable sim_kernel s \<and> dbs s = {#f, g#} \<and>
     remoteLock sim_kernel Delivered no_junk f 4 (srv s) = Some r"
proof -
  obtain s f g where run: "reachable sim_kernel s" "dbs s = {#f, g#}" and l: "lock_level f = RESERVED_LOCK"
    by (rule sim_run)
  have "lock_request_ok f (sint (4 :: cint))" using l by (simp add: lock_request_ok_def)
  then show ?thesis using database_calls_answered [OF run, of 4 no_junk] run by blast
qed

text \<open>
  C4. A request that neither locks nor opens nor closes (read, write, truncate, sync, size,
  file control, sector size, device characteristics, reserved-lock check, fetch, unfetch) leaves
  the lock level, the inode and the deferred descriptor of the client's handle as they were and
  keeps the bookkeeping of all open files.
\<close>

theorem other_requests_keep_locks:
  assumes "reachable S s" and "f \<in># dbs s + others s" and "file_request S f (srv s) g sv'"
  shows "lock_level g = lock_level f \<and> pInode g = pInode f \<and> h_fd g = h_fd f \<and>
    pPreallocatedUnused g = pPreallocatedUnused f \<and> files_inv (dbs s) (sv_unix sv')"
proof -
  have inv: "sys_inv s" by (rule reachable_inv [OF assms(1)])
  then have "ml_inv (sv_list (srv s))" "served (sv_list (srv s)) (h_fd f)"
    using assms(2) by (auto simp: sys_inv_def db_served_def)
  then have "quiet_step f (srv s) g sv'" by (rule file_request_quiet [OF assms(3)])
  then show ?thesis using inv by (simp add: quiet_step_def file_key_def sys_inv_def)
qed

theorem other_requests_keep_locks_witness:
  "\<exists>s f g h sv'. reachable sim_kernel s \<and> dbs s = {#f, g#} \<and> file_request sim_kernel f (srv s) h sv' \<and>
     lock_level h = RESERVED_LOCK"
proof -
  obtain s f g where run: "reachable sim_kernel s" "dbs s = {#f, g#}" and l: "lock_level f = RESERVED_LOCK"
    by (rule sim_run)
  have S: "ml_inv (sv_list (srv s))" "served (sv_list (srv s)) (h_fd f)"
    using reachable_inv [OF run(1)] run(2) by (auto simp: sys_inv_def db_served_def)
  obtain n h where c: "call_device unixSectorSize (server_view (srv s) f) () (srv s) = Some (h, n, srv s)"
    by (cases "unixSectorSize (server_view (srv s) f)") (simp add: call_device_def)
  have "remoteSectorSize Delivered no_junk f (srv s) = Some ((setClientRemotePMethods h, n), settle h (srv s))"
    using remote_sector.delivered [where a = f and e = "()" and c = "()" and junk = no_junk, OF _ _ S c]
    by (simp add: remoteSectorSize_def WrapSectorSize_def)
  then have r: "file_request sim_kernel f (srv s) (setClientRemotePMethods h) (settle h (srv s))"
    by (rule req_sector)
  have "f \<in># dbs s + others s" using run(2) by simp
  then show ?thesis using other_requests_keep_locks [OF run(1) _ r] run l r by auto
qed

section \<open>Remote calls and local calls\<close>

text \<open>
  C5. A delivered remote lock is the local lock: the client gets the code and, but for the
  method table of the client side, the handle that \<open>unixLock\<close> leaves on the server's view of
  the handle, and the server is in the state that call leaves.
\<close>

theorem remote_lock_is_local:
  assumes "ml_inv (sv_list sv)" and "served (sv_list sv) (h_fd f)"
    and "unixLock S (server_view sv f) (sint e) (sv_unix sv) = Some (rc, g, st)"
  shows "remoteLock S Delivered junk f e sv =
    Some ((setClientRemotePMethods g, rc), settle g (sv\<lparr>sv_unix := st\<rparr>))"
proof -
  have "call_lock S (server_view sv f) e sv = Some (g, rc, sv\<lparr>sv_unix := st\<rparr>)"
    by (simp add: call_lock_def assms(3))
  from remote_lock.delivered [where a = "(f, e)" and e = "()" and c = "()" and junk = junk, OF _ _ assms(1,2) this]
  show ?thesis by (simp add: remoteLock_def WrapLock_def)
qed

theorem remote_lock_is_local_witness:
  "\<exists>s f g h rc st. reachable sim_kernel s \<and> dbs s = {#f, g#} \<and> lock_level f = RESERVED_LOCK \<and>
     unixLock sim_kernel (server_view (srv s) f) EXCLUSIVE_LOCK (sv_unix (srv s)) = Some (rc, h, st) \<and>
     remoteLock sim_kernel Delivered no_junk f 4 (srv s) =
       Some ((setClientRemotePMethods h, rc), settle h ((srv s)\<lparr>sv_unix := st\<rparr>))"
proof -
  obtain s f g where run: "reachable sim_kernel s" "dbs s = {#f, g#}" and l: "lock_level f = RESERVED_LOCK"
    by (rule sim_run)
  have S: "ml_inv (sv_list (srv s))" "served (sv_list (srv s)) (h_fd f)"
    "files_inv (add_mset f {#g#}) (sv_unix (srv s))"
    using reachable_inv [OF run(1)] run(2) by (auto simp: sys_inv_def db_served_def)
  have ok: "lock_request_ok f (sint (4 :: cint))" using l by (simp add: lock_request_ok_def)
  obtain rc h st where u: "unixLock sim_kernel (server_view (srv s) f) (sint (4 :: cint)) (sv_unix (srv s)) =
      Some (rc, h, st)"
    by (rule remoteLock_served [OF S ok, of sim_kernel no_junk]) (rule that)
  have "unixLock sim_kernel (server_view (srv s) f) EXCLUSIVE_LOCK (sv_unix (srv s)) = Some (rc, h, st)"
    using u by simp
  with remote_lock_is_local [OF S(1,2) u, of no_junk] run l show ?thesis by blast
qed

text \<open>
  C6. A delivered remote open is the local open: on a server whose list has memory for four
  more nodes, the client's call runs \<open>unixOpen\<close> on the name it gave and the flags it gave
  (but for the bits the handler masks), returns its code and handle, records name and methods
  of the new descriptor and leaves what the server knows of other descriptors alone. So it is
  with and without a variable for the flags that took effect (\<open>pOutFlags\<close>; the pager passes
  one for the database and none for the journal): the variable gets the value the local open
  writes to it and is untouched where that writes none. Only a variable that holds -1 before the
  call is excluded: the messages encode a null pointer as -1, so the client would not write to it.
\<close>

theorem remote_open_is_local:
  assumes "ml_inv (sv_list sv)" and "ml_room 4 (sv_list sv)"
    and "c_string z = Some z'" and "length z' \<le> 512" and "pOut \<noteq> Some (- 1)"
    and "unixOpen S [STACK_path \<mapsto> name_copy (uninit junk 1 512) z] STACK_path (passed_flags flags)
      (sv_unix sv) = Some (rc, g, out, st)"
  shows "\<exists>ml. remoteOpen S Delivered junk (Some z) f0 flags pOut sv =
       Some ((setClientRemotePMethods g, flags_after pOut out, rc), sv\<lparr>sv_list := ml, sv_unix := st\<rparr>) \<and> ml_inv ml \<and>
     (\<exists>p. ml_lookup ml (h_fd g) = Some (pMethod g, p) \<and> c_string p = Some z') \<and>
     (\<forall>fd. fd \<noteq> h_fd g \<longrightarrow> ml_lookup ml fd = ml_lookup (sv_list sv) fd)"
proof -
  have room: "ml_room (0 + 4) (sv_list sv)" using assms(2) by simp
  obtain ml where "remoteOpen S Delivered junk (Some z) f0 flags pOut sv =
       Some ((setClientRemotePMethods g, flags_after pOut out, rc), sv\<lparr>sv_list := ml, sv_unix := st\<rparr>)" "ml_inv ml"
    "ml_lookup ml = (ml_lookup (sv_list sv))(h_fd g \<mapsto> the (ml_lookup ml (h_fd g)))"
    "\<exists>p. ml_lookup ml (h_fd g) = Some (pMethod g, p) \<and> c_string p = Some z'"
    by (rule remoteOpen_delivered [OF assms(1) room assms(3,4,6,5)]) (rule that)
  then show ?thesis by (metis fun_upd_other)
qed

theorem remote_open_is_local_witness:
  "\<exists>ml g out st. sim_open (us_init sim_start) = Some (SQLITE_OK, g, out, st) \<and>
     remoteOpen sim_kernel Delivered no_junk (Some sim_name) zero_unixFile sim_flags (Some 0) (sv_init sim_start) =
       Some ((setClientRemotePMethods g, flags_after (Some 0) out, SQLITE_OK),
         (sv_init sim_start)\<lparr>sv_list := ml, sv_unix := st\<rparr>)"
proof -
  obtain g out st where o: "sim_open (us_init sim_start) = Some (SQLITE_OK, g, out, st)"
    by (rule sim_two_opens)
  have z: "c_string sim_name = Some sim_name" "length sim_name \<le> 512" by code_simp+
  have e: "ml_inv (sv_list (sv_init sim_start))" by (simp add: sv_init_def ml_inv_empty)
  have i: "ml_room 4 (sv_list (sv_init sim_start))" "sv_unix (sv_init sim_start) = us_init sim_start"
    by (simp_all add: sv_init_def ml_room_def empty_mlist_def MALLOC_TOP_def SIZE_MethodAndFD_def)
  have "Some 0 \<noteq> Some (- 1 :: cint)" by simp
  from remote_open_is_local [OF e i(1) z this o [unfolded sim_open_def, folded i(2)], of zero_unixFile] o
  show ?thesis by blast
qed

text \<open>
  C7. What one client writes is what is read: on an unmapped file the server knows, with a
  kernel that reads and writes files and does not fail, a remote write of up to 8192 bytes
  succeeds, puts exactly those bytes into the file, and a remote read of the same range
  through the returned handle succeeds and fills the reader's buffer with them.
\<close>

theorem write_then_read:
  assumes "ml_inv (sv_list sv)" and "served (sv_list sv) (h_fd f)"
    and "kernel_seeks S content offs" and "kernel_reads S content offs" and "kernel_writes S content offs"
    and "io_succeeds S (h_fd f)"
    and "0 < sint amt" and "sint amt \<le> 8192" and "0 \<le> sint offset"
    and "length data = nat (sint amt)" and "length buf = nat (sint amt)" and "mmapSize f = 0"
  shows "\<exists>g sv1 h sv2. remoteWrite S Delivered junk f data amt offset sv = Some ((g, SQLITE_OK), sv1) \<and>
    content (sv_os sv1) (h_fd f) = write_at (content (sv_os sv) (h_fd f)) (nat (sint offset)) data \<and>
    remoteRead S Delivered junk g buf amt offset sv1 = Some ((h, data, SQLITE_OK), sv2)"
  by (rule write_read_delivered [OF assms, of junk]) blast

theorem write_then_read_witness:
  "\<exists>s f g h sv1 k sv2. reachable sim_kernel s \<and> dbs s = {#f, g#} \<and>
    remoteWrite sim_kernel Delivered no_junk (f\<lparr>mmapSize := 0\<rparr>) [7, 8, 9] 3 5 (srv s) = Some ((h, SQLITE_OK), sv1) \<and>
    remoteRead sim_kernel Delivered no_junk h [0, 0, 0] 3 5 sv1 = Some ((k, [7, 8, 9], SQLITE_OK), sv2)"
proof -
  obtain s f g where run: "reachable sim_kernel s" "dbs s = {#f, g#}" by (rule sim_run)
  let ?f = "f\<lparr>mmapSize := 0\<rparr>"
  have S: "ml_inv (sv_list (srv s))" "served (sv_list (srv s)) (h_fd ?f)"
    using reachable_inv [OF run(1)] run(2) by (auto simp: sys_inv_def db_served_def)
  have "\<exists>g sv1 h sv2. remoteWrite sim_kernel Delivered no_junk ?f [7, 8, 9] 3 5 (srv s) = Some ((g, SQLITE_OK), sv1) \<and>
    sim_content (sv_os sv1) (h_fd ?f) =
      write_at (sim_content (sv_os (srv s)) (h_fd ?f)) (nat (sint (5 :: i64))) [7, 8, 9] \<and>
    remoteRead sim_kernel Delivered no_junk g [0, 0, 0] 3 5 sv1 = Some ((h, [7, 8, 9], SQLITE_OK), sv2)"
    by (rule write_then_read [OF S sim_io(1-4)]) simp_all
  then show ?thesis using run by blast
qed

section \<open>The rollback journal over the network\<close>

text \<open>
  C8. A journal is played back over the network. \<open>playback_journal\<close> is \<open>pager_playback\<close> up to
  and including its call of \<open>sqlite3PagerSetPagesize\<close>: the look for a master journal's name, the
  loops over headers and records with the truncation of the database; the second look for a master
  name, the final sync, the end of the transaction and the deletion of a master are behind it. The
  server's files hold a database \<open>D\<close>, whose length is not one byte (\<open>unixFileSize\<close> reports that
  as empty), and a journal \<open>J\<close> with complete segments of checksummed records, which does not end
  in the magic bytes behind a master journal's name. The page size is at most the
  8192 bytes that a message carries, and every page of the original database \<open>Orig\<close> is either
  among the records or unchanged in \<open>D\<close>. Then \<open>playback_journal\<close> of a pager that has just found
  the journal returns with success, after restoring as many pages as there are records, and
  the database file is \<open>Orig\<close> again, byte for byte and in length.
\<close>

theorem hot_journal_restores_database:
  assumes "files_hold (remote_rep S content offs apart R) p sv D J" "restarted J p"
    and "journal_at sz ss np J 0 segs" "segs \<noteq> []" "journal_sizes sz ss" "sz \<le> 8192"
    and "available J (int (length J) - 8) 8 \<noteq> aJournalMagic" "length D \<noteq> 1" "length D < 2 ^ 61"
    and "\<forall>r \<in> set (journal_records segs). record_ok sz r \<and> (fst r \<le> np \<longrightarrow> snd r = page_of sz Orig (uint (fst r)))"
    and "int (length Orig) = uint np * sz"
    and "\<forall>k. 1 \<le> k \<and> k \<le> uint np \<longrightarrow> k \<in> uint ` fst ` set (journal_records segs) \<or> page_same sz Orig D k"
  shows "ensures (playback_journal (remote_pager S junk deref R) True (p, sv)) (\<lambda>(rc, (n, found), p', sv').
    rc = SQLITE_OK \<and> n = length (journal_records segs) \<and>
    files_hold (remote_rep S content offs apart R) p' sv' Orig J \<and> pageSize p' = pageSize p)"
proof -
  have "hot J p" "1 \<le> pageSize p" "pageSize p < 2 ^ 32" "nat (pageSize p) \<le> length (pTmpSpace p)"
    "sectorSz p \<le> int (length J)" using assms(2) by (simp_all add: restarted_def)
  from over_remote.hot_journal_restores [OF assms(1) this assms(3-12)]
  show ?thesis by (rule ensures_weaken) auto
qed

theorem hot_journal_restores_database_witness:
  "ensures (playback_journal (remote_pager sim_kernel no_junk Map.empty pager_rest) True
      (sim_opened, pager_server sim_changed sim_journal)) (\<lambda>(rc, (n, found), p', sv').
    rc = SQLITE_OK \<and> n = 1 \<and> files_hold sim_rep p' sv' sim_db sim_journal \<and> pageSize p' = 512)"
proof -
  have pages: "1 \<le> k \<and> k \<le> 2 \<longrightarrow> k \<in> uint ` fst ` set (journal_records [(0 :: u32, [sim_record])]) \<or> page_same 512 sim_db sim_changed k" for k
    using sim_changed_page by (cases "k = 1"; cases "k = 2") (auto simp: journal_records_def sim_record_def page_same_def)
  have rec: "\<forall>r \<in> set (journal_records [(0 :: u32, [sim_record])]). record_ok 512 r \<and>
      (fst r \<le> 2 \<longrightarrow> snd r = page_of 512 sim_db (uint (fst r)))"
    using sim_sizes by (simp add: journal_records_def) (simp add: sim_record_def)
  show ?thesis
    using hot_journal_restores_database [OF sim_opened_holds [of sim_changed sim_journal, unfolded sim_rep_def] sim_opened_restarts
        sim_journal_at _ sim_sizes(1) _ sim_journal_end _ _ rec, of no_junk Map.empty] pages sim_sizes(4) sim_changed_page
    by (simp add: journal_records_def sim_rep_def [symmetric] sim_opened_def sim_pager_def)
qed

text \<open>
  C9. A whole transaction over the network: its header is written, pages are journaled before
  they are changed in the cache, the journal is synced as often as wanted and at the end
  (\<open>writeJournalHdr\<close>, \<open>pagerAddPageToRollbackJournal\<close>, \<open>syncJournal\<close>, by a pager with the
  exclusive lock). The journal is empty at the start and the caches of its pages agree with the
  file, the kernel does not fail on the two files (part of \<open>files_hold\<close>), steps are in the order
  the pager makes them, and what is journaled behind the last sync does not end in the magic bytes
  of a master journal's name (\<open>plain_tail\<close>). Then every call returns with success, and the
  journal that is left undoes the transaction: from whatever state of the database file in which
  only the journaled pages have changed, \<open>playback_journal\<close> gives the database that the
  transaction began with.
\<close>

theorem transaction_leaves_undoing_journal:
  assumes "files_hold (remote_rep S content offs apart R) p sv D []" "journals sz ss np 8192 p" "journalOff p = 0" "nRec p = 0"
    and "journal_sizes sz ss" "proper_steps sz np {} xs" "journal_pages sz xs"
    and "int (length D) = uint np * sz" "length xs < 2 ^ 31"
    and "\<forall>k. Journal k \<in> set xs \<longrightarrow> map_option pData (pPCache p k) = Some (page_of sz D (uint k))"
    and "plain_tail sz D (snd (settled xs ([], [])))"
  shows "ensures (journal_transaction (remote_pager S junk deref R) xs (p, sv)) (\<lambda>(rc, _, p', sv'). rc = SQLITE_OK \<and>
    (\<exists>J. files_hold (remote_rep S content offs apart R) p' sv' D J \<and>
      undoes (remote_pager S junk deref R) (remote_rep S content offs apart R) sz np D (journaled xs) J))"
  by (rule over_remote.transaction_undone [OF assms])

theorem transaction_leaves_undoing_journal_witness:
  "ensures (journal_transaction (remote_pager sim_kernel no_junk Map.empty pager_rest) sim_steps
      (sim_pager, pager_server sim_db [])) (\<lambda>(rc, _, p', sv'). rc = SQLITE_OK \<and>
    (\<exists>J. files_hold sim_rep p' sv' sim_db J \<and>
      undoes (remote_pager sim_kernel no_junk Map.empty pager_rest) sim_rep 512 2 sim_db [1, 2] J))"
  using transaction_leaves_undoing_journal [OF sim_pager_holds [of sim_db "[]", unfolded sim_rep_def] sim_pager_journals
      sim_sizes(1) sim_steps_ok(1,2) _ sim_steps_ok(3), of no_junk Map.empty] sim_pager_cached sim_steps_ok sim_sizes(4)
  by (simp add: sim_rep_def [symmetric])

text \<open>
  C10. The transaction is cut off at any moment after a sync, with records behind the last sync
  that nothing counts: the journal undoes it all the same, for by then only pages that had been
  synced can have been written to the database file.
\<close>

theorem interrupted_transaction_undone:
  assumes "files_hold (remote_rep S content offs apart R) p sv D []" "journals sz ss np 8192 p" "journalOff p = 0" "nRec p = 0"
    and "journal_sizes sz ss" "proper_steps sz np {} xs" "journal_pages sz xs"
    and "int (length D) = uint np * sz" "length xs < 2 ^ 31"
    and "\<forall>k. Journal k \<in> set xs \<longrightarrow> map_option pData (pPCache p k) = Some (page_of sz D (uint k))"
    and "plain_tail sz D (snd (settled xs ([], [])))" "fst (settled xs ([], [])) \<noteq> []"
  shows "ensures (begin_journal (remote_pager S junk deref R) xs (p, sv)) (\<lambda>(rc, _, p', sv'). rc = SQLITE_OK \<and>
    (\<exists>J. files_hold (remote_rep S content offs apart R) p' sv' D J \<and>
      undoes (remote_pager S junk deref R) (remote_rep S content offs apart R) sz np D (fst (settled xs ([], []))) J))"
  by (rule over_remote.interrupted_undone [OF assms])

theorem interrupted_transaction_undone_witness:
  "ensures (begin_journal (remote_pager sim_kernel no_junk Map.empty pager_rest) sim_steps
      (sim_pager, pager_server sim_db [])) (\<lambda>(rc, _, p', sv'). rc = SQLITE_OK \<and>
    (\<exists>J. files_hold sim_rep p' sv' sim_db J \<and>
      undoes (remote_pager sim_kernel no_junk Map.empty pager_rest) sim_rep 512 2 sim_db [1] J))"
  using interrupted_transaction_undone [OF sim_pager_holds [of sim_db "[]", unfolded sim_rep_def] sim_pager_journals
      sim_sizes(1) sim_steps_ok(1,2) _ sim_steps_ok(3), of no_junk Map.empty] sim_pager_cached sim_steps_ok sim_sizes(4)
  by (simp add: sim_rep_def [symmetric])

text \<open>
  C11. A committed transaction stays committed: when the journal is finalized by truncating it or
  by zeroing its header (the journal modes TRUNCATE and PERSIST, or exclusive locking), the code
  succeeds and the journal that is left is spent. A pager that finds it restores no page and
  leaves the database as it is. The journal does not end in the magic bytes of a master journal's
  name, and a limit on its size, where one is set, is not below its length.
\<close>

theorem finalized_journal_spent:
  assumes "files_hold (remote_rep S content offs apart R) p sv D J" "journalOff p \<noteq> 0" "36 \<le> length J" "length J < 2 ^ 61"
    and "available J (int (length J) - 8) 8 \<noteq> aJournalMagic"
    and "journalSizeLimit p \<le> 0 \<or> int (length J) \<le> journalSizeLimit p" "keeps_journal p"
  shows "ensures (finalize_journal (remote_pager S junk deref R) hasMaster (p, sv)) (\<lambda>(rc, _, p', sv').
    rc = SQLITE_OK \<and> journalOff p' = 0 \<and>
    (\<exists>J'. files_hold (remote_rep S content offs apart R) p' sv' D J' \<and>
      spent (remote_pager S junk deref R) (remote_rep S content offs apart R) J'))"
proof -
  have "\<not> isInMemory (remote_pager S junk deref R) (the (jfd p))" by (simp add: remote_pager_def)
  moreover have "(28 :: int) \<le> 8192" by simp
  ultimately show ?thesis using over_remote.finalize_spends [OF assms(1-6) _ assms(7)] by blast
qed

theorem finalized_journal_spent_witness:
  "ensures (finalize_journal (remote_pager sim_kernel no_junk Map.empty pager_rest) False
      (sim_finished, pager_server sim_changed sim_journal)) (\<lambda>(rc, _, p', sv').
    rc = SQLITE_OK \<and> journalOff p' = 0 \<and>
    (\<exists>J'. files_hold sim_rep p' sv' sim_changed J' \<and> spent (remote_pager sim_kernel no_junk Map.empty pager_rest) sim_rep J'))"
  using finalized_journal_spent [OF sim_finished_holds [of sim_changed sim_journal, unfolded sim_rep_def] _ _ _ sim_journal_end,
      of no_junk Map.empty False] sim_journal_record(1)
  by (simp add: sim_rep_def [symmetric] sim_finished_def sim_pager_def keeps_journal_def)

section \<open>Locks, opens and closes on the server\<close>

text \<open>
  C12. \<open>unixLock\<close>, whatever the kernel answers: a request that obeys the pager's contract
  returns, keeps the bookkeeping of all open files, and leaves the handle at the requested level
  (or the higher one it had) on success, at its old level on failure, or at PENDING after a
  failed EXCLUSIVE.
\<close>

theorem unixLock_contract:
  assumes "files_inv (add_mset f R) st" and "lock_request_ok f e"
  shows "\<exists>rc g st'. unixLock S f e st = Some (rc, g, st') \<and> files_inv (add_mset g R) st' \<and>
    pInode g = pInode f \<and> h_fd g = h_fd f \<and>
    (if rc = SQLITE_OK then lock_level g = max e (lock_level f)
     else lock_level g = lock_level f \<or> e = EXCLUSIVE_LOCK \<and> lock_level g = PENDING_LOCK)"
proof -
  obtain rc g st' where r: "unixLock S f e st = Some (rc, g, st')" "files_inv (add_mset g R) st'"
    and s: "same_file f g" and l: "if rc = SQLITE_OK then lock_level g = max e (lock_level f)
     else lock_level g = lock_level f \<or> e = EXCLUSIVE_LOCK \<and> lock_level g = PENDING_LOCK"
    by (rule unixLock_files [OF assms, of S]) (rule that)
  show ?thesis using r l same_fileD [OF s] by blast
qed

theorem unixLock_contract_witness:
  "\<exists>f R st. lock_level f = RESERVED_LOCK \<and> (\<exists>rc g st'.
     unixLock sim_kernel f EXCLUSIVE_LOCK st = Some (rc, g, st') \<and> files_inv (add_mset g R) st')"
proof -
  obtain s f g where run: "reachable sim_kernel s" "dbs s = {#f, g#}" and l: "lock_level f = RESERVED_LOCK"
    by (rule sim_run)
  have F: "files_inv (add_mset f {#g#}) (sv_unix (srv s))"
    using reachable_inv [OF run(1)] run(2) by (simp add: sys_inv_def)
  have "lock_request_ok f EXCLUSIVE_LOCK" using l by (simp add: lock_request_ok_def)
  from unixLock_contract [OF F this, of sim_kernel] l show ?thesis by blast
qed

text \<open>
  C13. \<open>unixUnlock\<close> to NONE or SHARED, whatever the kernel answers: it returns, keeps the
  bookkeeping, and on success the handle has at most the requested level; on failure it keeps
  its level, or has dropped to NONE as asked.
\<close>

theorem unixUnlock_contract:
  assumes "files_inv (add_mset f R) st" and "e = NO_LOCK \<or> e = SHARED_LOCK"
  shows "\<exists>rc g st'. unixUnlock S f e st = Some (rc, g, st') \<and> files_inv (add_mset g R) st' \<and>
    pInode g = pInode f \<and> h_fd g = h_fd f \<and>
    (if rc = SQLITE_OK then lock_level g = min e (lock_level f)
     else lock_level g = lock_level f \<or> e = NO_LOCK \<and> lock_level g = NO_LOCK)"
proof -
  obtain rc g st' where r: "unixUnlock S f e st = Some (rc, g, st')" "files_inv (add_mset g R) st'"
    and s: "same_file f g" and l: "if rc = SQLITE_OK then lock_level g = min e (lock_level f)
     else lock_level g = lock_level f \<or> e = NO_LOCK \<and> lock_level g = NO_LOCK"
    by (rule unixUnlock_files [OF assms, of S]) (rule that)
  show ?thesis using r l same_fileD [OF s] by blast
qed

theorem unixUnlock_contract_witness:
  "\<exists>f R st. lock_level f = RESERVED_LOCK \<and> (\<exists>rc g st'.
     unixUnlock sim_kernel f SHARED_LOCK st = Some (rc, g, st') \<and> files_inv (add_mset g R) st')"
proof -
  obtain s f g where run: "reachable sim_kernel s" "dbs s = {#f, g#}" and l: "lock_level f = RESERVED_LOCK"
    by (rule sim_run)
  have F: "files_inv (add_mset f {#g#}) (sv_unix (srv s))"
    using reachable_inv [OF run(1)] run(2) by (simp add: sys_inv_def)
  show ?thesis using unixUnlock_contract [OF F, of SHARED_LOCK sim_kernel] l by blast
qed

text \<open>
  C14. \<open>unixClose\<close>: closing any handle on a database returns success and an erased handle,
  and the bookkeeping is right for the remaining handles. The inode object is released with its
  last handle. While another handle on the inode holds a lock, closing the descriptor would drop
  that lock, and the close is deferred: no descriptor is closed at all (the outcome is the same
  whatever a close would do), and the object with the descriptor is entered in the inode's list
  unchanged. Where the process holds no lock on the inode, the descriptor is closed at once, last
  of all system calls, and its object freed.
\<close>

theorem unixClose_contract:
  assumes "files_inv (add_mset f R) st" and "mem (zPath f) = Some z"
  shows "\<exists>st'. unixClose S mem f st = Some (SQLITE_OK, zero_unixFile, st') \<and> files_inv R st' \<and>
    ((\<forall>g \<in># R. pInode g \<noteq> pInode f) \<longrightarrow> inode_at (pInode f) st' = None) \<and>
    ((\<exists>g \<in># R. pInode g = pInode f \<and> SHARED_LOCK \<le> lock_level g) \<longrightarrow>
       (\<forall>c. unixClose (S\<lparr>osClose := c\<rparr>) mem f st = Some (SQLITE_OK, zero_unixFile, st')) \<and>
       (\<exists>j. inode_at (pInode f) st' = Some j \<and> pPreallocatedUnused f \<in> set (pUnused j)) \<and>
       unusedFds st' (pPreallocatedUnused f) = unusedFds st (pPreallocatedUnused f)) \<and>
    ((\<exists>i. inode_at (pInode f) st = Some i \<and> nLock i = 0) \<and> 0 \<le> sint (h_fd f) \<longrightarrow>
       (\<exists>os. us_os st' = robust_close S (h_fd f) os) \<and> unusedFds st' (pPreallocatedUnused f) = None)"
proof -
  obtain st' where st': "unixClose S mem f st = Some (SQLITE_OK, zero_unixFile, st')" "files_inv R st'"
    by (rule unixClose_files [where S = S and mem = mem, OF assms]) blast
  have "(\<forall>c. unixClose (S\<lparr>osClose := c\<rparr>) mem f st = Some (SQLITE_OK, zero_unixFile, st')) \<and>
       (\<exists>j. inode_at (pInode f) st' = Some j \<and> pPreallocatedUnused f \<in> set (pUnused j)) \<and>
       unusedFds st' (pPreallocatedUnused f) = unusedFds st (pPreallocatedUnused f)"
    if g: "g \<in># R" "pInode g = pInode f" "SHARED_LOCK \<le> lock_level g" for g
  proof -
    obtain st2 j where d: "\<And>c. unixClose (S\<lparr>osClose := c\<rparr>) mem f st = Some (SQLITE_OK, zero_unixFile, st2)"
      "inode_at (pInode f) st2 = Some j" "pPreallocatedUnused f \<in> set (pUnused j)"
      "unusedFds st2 (pPreallocatedUnused f) = unusedFds st (pPreallocatedUnused f)"
      by (rule unixClose_defers [where S = S and mem = mem, OF assms g]) blast
    have "st2 = st'" using d(1) [of "osClose S"] st'(1) by simp
    with d show ?thesis by blast
  qed
  then show ?thesis
    using st' files_inv_gone [OF st'(2), of "pInode f"] unixClose_closes [OF assms(1) _ _ _ st'(1)] by blast
qed

theorem unixClose_contract_witness:
  "\<exists>f g st st'. lock_level f = RESERVED_LOCK \<and> pInode f = pInode g \<and>
     unixClose sim_kernel (\<lambda>_. Some sim_name) g st = Some (SQLITE_OK, zero_unixFile, st') \<and> files_inv {#f#} st' \<and>
     (\<exists>j. inode_at (pInode g) st' = Some j \<and> pPreallocatedUnused g \<in> set (pUnused j))"
proof -
  obtain s f g where run: "reachable sim_kernel s" "dbs s = {#f, g#}" "pInode f = pInode g"
    and l: "lock_level f = RESERVED_LOCK"
    by (rule sim_run)
  have F: "files_inv (add_mset g {#f#}) (sv_unix (srv s))"
    using reachable_inv [OF run(1)] run(2) by (simp add: sys_inv_def add_mset_commute)
  have z: "(\<lambda>_. Some sim_name) (zPath g) = Some sim_name" by simp
  have "\<exists>h \<in># {#f#}. pInode h = pInode g \<and> SHARED_LOCK \<le> lock_level h" using run(3) l by simp
  then show ?thesis
    using unixClose_contract [where S = sim_kernel and mem = "\<lambda>_. Some sim_name", OF F z] run(3) l by blast
qed

text \<open>
  C15. \<open>unixOpen\<close> of a database, whatever the kernel answers: on success the new handle is
  unlocked, has the methods of posix locking and joins the bookkeeping; on failure the
  bookkeeping of the other handles is as it was and the handle has no methods.
\<close>

theorem unixOpen_database:
  assumes "files_inv F st" and "open_type flags = SQLITE_OPEN_MAIN_DB"
    and "unixOpen S mem zp flags st = Some (rc, f, out, st')"
  shows "if rc = SQLITE_OK
    then files_inv (add_mset f F) st' \<and> lock_level f = NO_LOCK \<and> pMethod f = posixIoMethods \<and> zPath f = zp
    else files_inv F st' \<and> pMethod f = NULL"
  using unixOpen_files [OF assms] unixOpen_failed [OF assms(3)] by (simp add: open_result_def)

theorem unixOpen_database_witness:
  "\<exists>f out st. sim_open (us_init sim_start) = Some (SQLITE_OK, f, out, st) \<and> files_inv {#f#} st \<and>
     lock_level f = NO_LOCK"
proof -
  obtain f out st where o: "sim_open (us_init sim_start) = Some (SQLITE_OK, f, out, st)"
    by (rule sim_two_opens)
  have "open_type (passed_flags sim_flags) = SQLITE_OPEN_MAIN_DB" by code_simp
  from unixOpen_database [OF files_inv_init this o [unfolded sim_open_def]] o show ?thesis by auto
qed

text \<open>
  C16. \<open>unixOpen\<close> of a journal or another file that is not a database leaves the
  bookkeeping of the databases alone, and the handle it returns has no inode object, nothing to
  defer and the methods without locking.
\<close>

theorem unixOpen_journal:
  assumes "files_inv F st" and "open_type flags \<noteq> SQLITE_OPEN_MAIN_DB"
    and "unixOpen S mem zp flags st = Some (rc, f, out, st')"
  shows "files_inv F st' \<and> (rc = SQLITE_OK \<longrightarrow>
    pInode f = NULL \<and> pPreallocatedUnused f = NULL \<and> pMethod f = nolockIoMethods)"
  using unixOpen_other [OF assms] by (simp add: other_result_def)

theorem unixOpen_journal_witness:
  "\<exists>f out st. unixOpen sim_kernel [1 \<mapsto> [97, 0]] 1 0x406 (us_init sim_start) = Some (SQLITE_OK, f, out, st) \<and>
     pMethod f = nolockIoMethods"
proof -
  have "case unixOpen sim_kernel [1 \<mapsto> [97, 0]] 1 0x406 (us_init sim_start) of None \<Rightarrow> False
    | Some (rc, f, out, st) \<Rightarrow> rc = SQLITE_OK" by code_simp
  then obtain f out st where o: "unixOpen sim_kernel [1 \<mapsto> [97, 0]] 1 0x406 (us_init sim_start) =
      Some (SQLITE_OK, f, out, st)" by (auto split: option.splits)
  have "open_type 0x406 \<noteq> SQLITE_OPEN_MAIN_DB" by code_simp
  from unixOpen_journal [OF files_inv_init this o] o show ?thesis by auto
qed

section \<open>Reading and writing\<close>

text \<open>
  C17. \<open>unixRead\<close> on a file that is not mapped, with a kernel that reads files: it never
  changes the file; SQLITE_OK means the whole range lies inside the file and the buffer has its
  bytes; a short read means the file ends before, and the buffer has the bytes there are, then
  zeros; the only other code is an I/O error.
\<close>

theorem unixRead_contract:
  assumes "unixRead S f buf amt offset os = Some (rc, f', buf', os')"
    and "kernel_seeks S content offs" and "kernel_reads S content offs"
    and "0 \<le> offset" and "0 < amt" and "amt < 2 ^ 64" and "nat amt \<le> length buf" and "mmapSize f = 0"
  shows "content os' (h_fd f) = content os (h_fd f) \<and> length buf' = length buf \<and>
    (rc = SQLITE_OK \<and> offset + amt \<le> int (length (content os (h_fd f))) \<and>
       take (nat amt) buf' = take (nat amt) (drop (nat offset) (content os (h_fd f))) \<or>
     rc = SQLITE_IOERR_SHORT_READ \<and> int (length (content os (h_fd f))) < offset + amt \<and>
       take (nat amt) buf' = (let d = drop (nat offset) (content os (h_fd f)) in
         d @ zeroed (nat amt - length d)) \<or>
     rc = SQLITE_IOERR_READ)"
proof -
  note R = unixRead_spec [OF assms]
  have "available (content os (h_fd f)) offset amt = drop (nat offset) (content os (h_fd f))"
    if "int (length (content os (h_fd f))) < offset + amt"
    using that assms(4,5) by (simp add: available_def)
  then show ?thesis using R by (auto simp: available_def Let_def)
qed

theorem unixRead_contract_witness:
  "\<exists>f' os'. unixRead sim_kernel (zero_unixFile\<lparr>h_fd := 3\<rparr>) [0, 0] 2 1 (sim_start\<lparr>k_data := \<lambda>_. [4, 5, 6]\<rparr>) =
     Some (SQLITE_OK, f', [5, 6], os') \<and> sim_content os' 3 = [4, 5, 6]"
proof -
  let ?f = "zero_unixFile\<lparr>h_fd := 3\<rparr>" and ?os = "sim_start\<lparr>k_data := \<lambda>_. [4, 5, 6]\<rparr>"
  have "case unixRead sim_kernel ?f [0, 0] 2 1 ?os of None \<Rightarrow> False
    | Some (rc, f', buf', os') \<Rightarrow> rc = SQLITE_OK" by code_simp
  then obtain f' buf' os' where r: "unixRead sim_kernel ?f [0, 0] 2 1 ?os = Some (SQLITE_OK, f', buf', os')"
    by (auto split: option.splits)
  have "sim_content os' (h_fd ?f) = sim_content ?os (h_fd ?f)" "length buf' = 2" "take 2 buf' = [5, 6]"
    using unixRead_contract [OF r sim_io(1,2)] by (simp_all add: zero_unixFile_def sim_content_def)
  then show ?thesis using r by (simp add: sim_content_def)
qed

text \<open>
  C18. \<open>unixRead\<close> terminates: on such a file and a kernel whose calls do not fail, however
  short its reads, it returns the bytes or a short read.
\<close>

theorem unixRead_terminates:
  assumes "kernel_seeks S content offs" and "kernel_reads S content offs" and "io_succeeds S (h_fd f)"
    and "0 \<le> offset" and "0 < amt" and "amt < 2 ^ 64" and "nat amt \<le> length buf" and "mmapSize f = 0"
  shows "\<exists>rc f' buf' os'. unixRead S f buf amt offset os = Some (rc, f', buf', os') \<and>
    (rc = SQLITE_OK \<or> rc = SQLITE_IOERR_SHORT_READ)"
  using unixRead_returns [OF assms, of os] by auto

theorem unixRead_terminates_witness:
  "\<exists>rc f' buf' os'. unixRead sim_kernel (zero_unixFile\<lparr>h_fd := 3\<rparr>) (zeroed 8) 8 100 sim_start =
     Some (rc, f', buf', os') \<and> (rc = SQLITE_OK \<or> rc = SQLITE_IOERR_SHORT_READ)"
  by (rule unixRead_terminates [OF sim_io(1,2,4)]) (simp_all add: zero_unixFile_def)

text \<open>
  C19. A \<open>unixWrite\<close> that returns SQLITE_OK has put the bytes, all of them and nothing else,
  at their offset into the file, over however many partial writes of the kernel.
\<close>

theorem unixWrite_contract:
  assumes "unixWrite S f buf amt offset os = Some (SQLITE_OK, f', os')"
    and "kernel_seeks S content offs" and "kernel_writes S content offs"
    and "0 \<le> offset" and "0 < amt" and "amt \<le> 0x1ffff"
  shows "content os' (h_fd f) = write_at (content os (h_fd f)) (nat offset) (take (nat amt) buf)"
  by (rule unixWrite_spec(1) [OF assms])

theorem unixWrite_contract_witness:
  "\<exists>f' os'. unixWrite sim_kernel (zero_unixFile\<lparr>h_fd := 3\<rparr>) [7, 8] 2 1 sim_start = Some (SQLITE_OK, f', os') \<and>
     sim_content os' 3 = [0, 7, 8]"
proof -
  let ?f = "zero_unixFile\<lparr>h_fd := 3\<rparr>"
  have "case unixWrite sim_kernel ?f [7, 8] 2 1 sim_start of None \<Rightarrow> False
    | Some (rc, f', os') \<Rightarrow> rc = SQLITE_OK" by code_simp
  then obtain f' os' where r: "unixWrite sim_kernel ?f [7, 8] 2 1 sim_start = Some (SQLITE_OK, f', os')"
    by (auto split: option.splits)
  have "sim_content os' (h_fd ?f) = [0, 7, 8]"
    using unixWrite_contract [OF r sim_io(1,3)] by (simp add: sim_content_def sim_start_def write_at_def zeroed_def)
  then show ?thesis using r by simp
qed

text \<open>
  C20. \<open>unixWrite\<close> terminates: on a kernel whose writes are partial but never fail, it
  returns SQLITE_OK.
\<close>

theorem unixWrite_terminates:
  assumes "kernel_seeks S content offs" and "kernel_writes S content offs" and "io_succeeds S (h_fd f)"
    and "0 \<le> offset" and "0 < amt" and "amt \<le> 0x1ffff" and "nat amt \<le> length buf"
  shows "\<exists>f' os'. unixWrite S f buf amt offset os = Some (SQLITE_OK, f', os')"
  by (rule unixWrite_returns [OF assms])

theorem unixWrite_terminates_witness:
  "\<exists>f' os'. unixWrite sim_kernel zero_unixFile (zeroed 4096) 4096 8192 sim_start = Some (SQLITE_OK, f', os')"
  by (rule unixWrite_terminates [OF sim_io(1,3,4)]) simp_all

section \<open>Shared memory of the write-ahead log\<close>

text \<open>
  C21. In every state the connections of a process can reach by mapping, locking and unmapping
  shared memory, whatever the kernel answers, the locks of two handles on one database exclude
  each other: what one holds exclusively the other holds neither exclusively nor shared.
\<close>

theorem shm_exclusion:
  assumes "shm_reachable S mem s" and "sfiles s = add_mset f (add_mset g F)" and "pInode f = pInode g"
    and "shmConns (smem s) (pShm f) = Some c" and "shmConns (smem s) (pShm g) = Some d"
  shows "exclMask c AND exclMask d = 0 \<and> exclMask c AND sharedMask d = 0 \<and> sharedMask c AND exclMask d = 0"
  using shm_reachable_exclusion [OF assms] by (simp add: compatible_conns_def)

theorem shm_exclusion_witness:
  "\<exists>s f g c d. shm_reachable lock_kernel shm_mem s \<and> sfiles s = {#f, g#} \<and> exclMask c = 1 \<and>
     shmConns (smem s) (pShm f) = Some c \<and> shmConns (smem s) (pShm g) = Some d \<and> sharedMask d AND 1 = 0"
proof -
  obtain s f g c d where R: "shm_reachable lock_kernel shm_mem s" "sfiles s = {#f, g#}" "pInode f = pInode g"
    "shmConns (smem s) (pShm f) = Some c" "shmConns (smem s) (pShm g) = Some d" and e: "exclMask c = 1"
    by (rule lock_kernel_locked)
  have "exclMask c AND sharedMask d = 0" using shm_exclusion [OF R(1) _ R(3-5)] R(2) by simp
  then have "sharedMask d AND 1 = 0" using e by (simp add: and.commute)
  with R e show ?thesis by blast
qed

text \<open>
  C22. The locks the kernel holds for the process on the shared-memory file are those of its
  connections: write locks where one has an exclusive lock, read locks where one has a shared
  lock, none elsewhere. Every request of the write-ahead log, granted or refused, keeps it so, on
  a kernel that records the locks it grants.
\<close>

theorem shm_locks_match_kernel:
  assumes "shm_reachable S mem s" and "f \<in># sfiles s" and "pShm f \<noteq> NULL"
    and "shmConns (smem s) (pShm f) = Some c" and "kernel_records_locks S held"
    and "shm_agrees held (smem s) (sh_node c)" and "shm_request_ok c ofst k flags"
    and "unixShmLock S f ofst k flags (smem s) = Some (rc, st)"
  shows "shm_agrees held st (sh_node c)"
proof -
  have "shm_inv (smem s)" "shm_handle (smem s) f"
    using shm_reachable_inv [OF assms(1)] assms(2) by (simp_all add: shm_sys_inv_def)
  then show ?thesis using assms by (rule_tac unixShmLock_agrees)
qed

theorem shm_locks_match_kernel_witness:
  "\<exists>s f c st. shm_reachable lock_kernel shm_mem s \<and> f \<in># sfiles s \<and>
     unixShmLock lock_kernel f 0 1 (SQLITE_SHM_LOCK OR SQLITE_SHM_EXCLUSIVE) (smem s) = Some (SQLITE_OK, st) \<and>
     shmConns st (pShm f) = Some c \<and> exclMask c = 1 \<and> shm_agrees (\<lambda>os. os) st (sh_node c)"
proof -
  obtain s f g c d n where R: "shm_reachable lock_kernel shm_mem s" "sfiles s = {#f, g#}" "pShm f \<noteq> NULL"
    and c: "shmConns (smem s) (pShm f) = Some c" and a: "shm_agrees (\<lambda>os. os) (smem s) (sh_node c)"
    and L: "\<exists>st c d. lock_first lock_kernel f (smem s) = Some (SQLITE_OK, st) \<and> shmConns st (pShm f) = Some c \<and>
        shmConns st (pShm g) = Some d \<and> exclMask c = 1 \<and> exclMask d = 0"
    by (rule lock_kernel_mapped)
  obtain st c' where st: "unixShmLock lock_kernel f 0 1 (SQLITE_SHM_LOCK OR SQLITE_SHM_EXCLUSIVE) (smem s) = Some (SQLITE_OK, st)"
    "shmConns st (pShm f) = Some c'" "exclMask c' = 1" using L by (auto simp: lock_first_def)
  have f: "f \<in># sfiles s" using R(2) by simp
  have ok: "shm_request_ok c 0 1 (SQLITE_SHM_LOCK OR SQLITE_SHM_EXCLUSIVE)"
    by (simp add: shm_request_ok_def shm_range_ok_def SQLITE_SHM_NLOCK_def)
  have "shm_agrees (\<lambda>os. os) st (sh_node c)"
    by (rule shm_locks_match_kernel [OF R(1) f R(3) c lock_kernel_records a ok st(1)])
  moreover have "shm_inv (smem s)" "shm_handle (smem s) f"
    using shm_reachable_inv [OF R(1)] f by (simp_all add: shm_sys_inv_def)
  then have "sh_node c' = sh_node c"
    by (rule unixShmLock_inv [OF _ _ R(3), of _ lock_kernel 0 1 "SQLITE_SHM_LOCK OR SQLITE_SHM_EXCLUSIVE"])
      (use st c in auto)
  ultimately have "shm_agrees (\<lambda>os. os) st (sh_node c')" by simp
  with R(1) f st show ?thesis by blast
qed

text \<open>
  C23. A lock request on shared memory is always answered, with success or with SQLITE_BUSY. It
  changes the caller's connection only, by exactly the locks asked for when it succeeds and not at
  all when it does not.
\<close>

theorem shm_lock_contract:
  assumes "shm_reachable S mem s" and "f \<in># sfiles s" and "pShm f \<noteq> NULL"
  shows "\<exists>rc st c d. unixShmLock S f ofst k flags (smem s) = Some (rc, st) \<and>
    shmConns (smem s) (pShm f) = Some c \<and> shmConns st = (shmConns (smem s))(pShm f \<mapsto> d) \<and>
    shmNodes st = shmNodes (smem s) \<and>
    (rc = SQLITE_BUSY \<and> d = c \<or>
     rc = SQLITE_OK \<and>
     (let msk = shm_mask ofst k in
      d = (if flags AND SQLITE_SHM_UNLOCK \<noteq> 0 then c\<lparr>exclMask := exclMask c AND NOT msk, sharedMask := sharedMask c AND NOT msk\<rparr>
           else if flags AND SQLITE_SHM_SHARED \<noteq> 0 then c\<lparr>sharedMask := sharedMask c OR msk\<rparr>
           else c\<lparr>exclMask := exclMask c OR msk\<rparr>)))"
proof -
  have I: "shm_inv (smem s)" "shm_handle (smem s) f"
    using shm_reachable_inv [OF assms(1)] assms(2) by (simp_all add: shm_sys_inv_def)
  obtain rc st c d where R: "unixShmLock S f ofst k flags (smem s) = Some (rc, st)" "rc = SQLITE_OK \<or> rc = SQLITE_BUSY"
    "shmNodes st = shmNodes (smem s)" "shmConns (smem s) (pShm f) = Some c" "shmConns st = (shmConns (smem s))(pShm f \<mapsto> d)"
    "d = (if rc = SQLITE_OK then granted_masks flags (shm_mask ofst k) c else c)"
    by (rule unixShmLock_inv [OF I assms(3)]) (rule that)
  then show ?thesis by (auto simp: granted_masks_def Let_def)
qed

theorem shm_lock_contract_witness:
  "\<exists>s f rc st. shm_reachable lock_kernel shm_mem s \<and> f \<in># sfiles s \<and>
     unixShmLock lock_kernel f 2 3 (SQLITE_SHM_LOCK OR SQLITE_SHM_EXCLUSIVE) (smem s) = Some (rc, st)"
proof -
  obtain s f g where R: "shm_reachable lock_kernel shm_mem s" "sfiles s = {#f, g#}" "pShm f \<noteq> NULL"
    by (rule lock_kernel_mapped)
  have f: "f \<in># sfiles s" using R(2) by simp
  from shm_lock_contract [OF R(1) f R(3), of 2 3 "SQLITE_SHM_LOCK OR SQLITE_SHM_EXCLUSIVE"] R(1) f
  show ?thesis by blast
qed

text \<open>
  C24. A region of shared memory stays at the address it was handed out at: after any handle of
  the process, the same or another, has mapped any other region, asking for it again gives the
  same address. The first request may extend the file, so that it got a region, and the indices
  with the regions mapped along stay below \<open>2 ^ 16\<close>, the range of the region count.
\<close>

theorem shm_region_stays:
  assumes "shm_reachable S mem s" and "f \<in># sfiles s" and "h \<in># sfiles s"
    and "unixShmMap S mem f i sz True pp (smem s) = Some (SQLITE_OK, p, g, st1)" and "pShm g \<noteq> NULL"
    and "unixShmMap S mem h j tz e pp' st1 = Some (rc, p', h', st2)"
    and "unixShmMap S mem g i sz e' pp'' st2 = Some (SQLITE_OK, p'', g', st3)"
    and "0 \<le> i" "0 < sz" "0 \<le> j" "0 < tz"
    and "i + unixShmRegionPerMap S < 2 ^ 16" "j + unixShmRegionPerMap S < 2 ^ 16"
  shows "p'' = p"
proof -
  have "shm_inv (smem s)" "shm_handle (smem s) f" "shm_handle (smem s) h"
    using shm_reachable_inv [OF assms(1)] assms(2,3) by (simp_all add: shm_sys_inv_def)
  then show ?thesis using assms mapped_region_stays by metis
qed

theorem shm_region_stays_witness:
  "\<exists>s f p g st1 rc p' h st2 g' st3. shm_reachable lock_kernel shm_mem s \<and> f \<in># sfiles s \<and>
     unixShmMap lock_kernel shm_mem f 0 1 True NULL (smem s) = Some (SQLITE_OK, p, g, st1) \<and> pShm g \<noteq> NULL \<and>
     unixShmMap lock_kernel shm_mem (shm_file 4) 3 1 True NULL st1 = Some (rc, p', h, st2) \<and>
     unixShmMap lock_kernel shm_mem g 0 1 True NULL st2 = Some (SQLITE_OK, p, g', st3)"
proof -
  let ?s = "shm_sys0 (\<lambda>_ _. F_UNLCK)"
  have r: "shm_reachable lock_kernel shm_mem ?s" by (rule shm_reachable.start [OF shm_sys0_start])
  have f: "shm_file 3 \<in># sfiles ?s" "shm_file 4 \<in># sfiles ?s" by (simp_all add: shm_sys0_def)
  obtain p g st1 where
    m1: "unixShmMap lock_kernel shm_mem (shm_file 3) 0 1 True NULL (smem ?s) = Some (SQLITE_OK, p, g, st1)"
    and g: "pShm g \<noteq> NULL" and o: "other_maps g st1"
    using lock_kernel_maps by (auto simp: shm_sys0_def split: option.splits prod.splits)
  obtain rc p' h st2 p'' g' st3 where
    m2: "unixShmMap lock_kernel shm_mem (shm_file 4) 3 1 True NULL st1 = Some (rc, p', h, st2)"
    and m3: "unixShmMap lock_kernel shm_mem g 0 1 True NULL st2 = Some (SQLITE_OK, p'', g', st3)"
    using o by (auto simp: other_maps_def split: option.splits prod.splits)
  have "unixShmRegionPerMap lock_kernel = 1" by (simp add: unixShmRegionPerMap_def lock_kernel_def)
  then have "p'' = p" using shm_region_stays [OF r f m1 g m2 m3] by simp
  then show ?thesis using r f(1) m1 m2 m3 g by blast
qed

text \<open>
  C25. When opening the shared memory of a database fails with an error other than
  \<open>SQLITE_READONLY_CANTINIT\<close> (no memory, no file, a lock or a truncation that fails), the
  handle is as it was, and so are all connections, nodes and inodes of the process: what was made
  on the way is destroyed again. \<open>SQLITE_READONLY_CANTINIT\<close>, a read-only file whose deadman
  switch no process holds, is the one error code that leaves a trace: the handle has a new
  connection, in the list of its inode's node, and the node is read-only and marked unlocked.
\<close>

theorem shm_open_failure_leaves_no_trace:
  assumes "shm_reachable S mem s" and "f \<in># sfiles s" and "pShm f = NULL"
    and "unixOpenSharedMemory S mem f (smem s) = Some (rc, g, st)" and "rc \<noteq> SQLITE_OK"
  shows "if rc = SQLITE_READONLY_CANTINIT
    then \<exists>p q n. g = f\<lparr>pShm := p\<rparr> \<and> shmConns (smem s) p = None \<and> shmConns st p = Some (zero_unixShm\<lparr>sh_node := q\<rparr>) \<and>
      inode_shm f st = Some q \<and> shmNodes st q = Some n \<and> p \<in> set (pFirst n) \<and> isReadonly n \<and> isUnlocked n \<and> shm_inv st
    else g = f \<and> shmConns st = shmConns (smem s) \<and> shmNodes st = shmNodes (smem s) \<and>
      (\<forall>l. inode_at l (sh_unix st) = inode_at l (sh_unix (smem s))) \<and> shm_inv st"
proof -
  have I: "shm_inv (smem s)" "shm_handle (smem s) f"
    using shm_reachable_inv [OF assms(1)] assms(2) by (simp_all add: shm_sys_inv_def)
  from assms(4) I assms(3) show ?thesis
  proof (cases rule: unixOpenSharedMemory_spec)
    case failed
    then show ?thesis using shm_restored_inv(1) [OF failed(4) I(1)] by (simp add: shm_restored_def)
  next
    case (opened p)
    then have rc: "rc = SQLITE_READONLY_CANTINIT" using assms(5) by simp
    obtain k q n where c: "g = f\<lparr>pShm := k\<rparr>" "shmConns st k = Some (zero_unixShm\<lparr>sh_node := q\<rparr>)"
      "inode_shm f st = Some q" "shmNodes st q = Some n" "k \<in> set (pFirst n)" "isReadonly n" "isUnlocked n"
      by (rule unixOpenSharedMemory_cantinit [OF assms(4) [unfolded rc]]) (rule that)
    have "pShm (f\<lparr>pShm := k\<rparr>) = pShm (f\<lparr>pShm := p\<rparr>)" using c(1) opened(2) by simp
    then have "k = p" by simp
    with c rc opened(4,5) show ?thesis by auto
  qed
qed

theorem shm_open_failure_leaves_no_trace_witness:
  "\<exists>rc st. unixOpenSharedMemory (lock_kernel\<lparr>osOpen := \<lambda>z flags mode os. (- 1, os)\<rparr>) shm_mem (shm_file 3)
       (shm_state0 (\<lambda>_ _. F_UNLCK)) = Some (rc, shm_file 3, st) \<and> shmNodes st = Map.empty"
proof -
  let ?S = "lock_kernel\<lparr>osOpen := \<lambda>z flags mode os. (- 1, os)\<rparr>"
  let ?s = "shm_sys0 (\<lambda>_ _. F_UNLCK)"
  have r: "shm_reachable ?S shm_mem ?s" by (rule shm_reachable.start [OF shm_sys0_start])
  have f: "shm_file 3 \<in># sfiles ?s" "pShm (shm_file 3) = NULL"
    by (simp_all add: shm_sys0_def shm_file_def zero_unixFile_def)
  have "case unixOpenSharedMemory ?S shm_mem (shm_file 3) (smem ?s) of None \<Rightarrow> False
    | Some (rc, g, st) \<Rightarrow> rc = SQLITE_CANTOPEN" unfolding shm_sys0_def by code_simp
  then obtain g st where o: "unixOpenSharedMemory ?S shm_mem (shm_file 3) (smem ?s) = Some (SQLITE_CANTOPEN, g, st)"
    by (auto split: option.splits)
  show ?thesis using shm_open_failure_leaves_no_trace [OF r f o] o by (auto simp: shm_sys0_def shm_state0_def)
qed

text \<open>
  C26. Closing a connection to shared memory always returns and succeeds. It removes that
  connection and no other; the node goes with its last connection and is otherwise kept with
  its file and its mapped regions.
\<close>

theorem shm_unmap_contract:
  assumes "shm_reachable S mem s" and "f \<in># sfiles s" and "pShm f \<noteq> NULL"
  shows "\<exists>c n st. unixShmUnmap S f del (smem s) = Some (SQLITE_OK, f\<lparr>pShm := NULL\<rparr>, st) \<and> shm_inv st \<and>
    shmConns (smem s) (pShm f) = Some c \<and> shmNodes (smem s) (sh_node c) = Some n \<and>
    shmConns st = (shmConns (smem s))(pShm f := None) \<and>
    (if pFirst n = [pShm f]
     then shmNodes st = (shmNodes (smem s))(sh_node c := None) \<and> inode_shm f st = Some NULL
     else \<exists>m. shmNodes st = (shmNodes (smem s))(sh_node c \<mapsto> m) \<and> hShm m = hShm n \<and>
       apRegion m = apRegion n \<and> nRegion m = nRegion n)"
proof -
  have I: "shm_inv (smem s)" "shm_handle (smem s) f"
    using shm_reachable_inv [OF assms(1)] assms(2) by (simp_all add: shm_sys_inv_def)
  obtain c n st where "unixShmUnmap S f del (smem s) = Some (SQLITE_OK, f\<lparr>pShm := NULL\<rparr>, st)" "shm_inv st"
    "shmConns (smem s) (pShm f) = Some c" "shmNodes (smem s) (sh_node c) = Some n"
    "shmConns st = (shmConns (smem s))(pShm f := None)"
    "pFirst n = [pShm f] \<Longrightarrow> shmNodes st = (shmNodes (smem s))(sh_node c := None) \<and> inode_shm f st = Some NULL"
    "pFirst n \<noteq> [pShm f] \<Longrightarrow> \<exists>m. shmNodes st = (shmNodes (smem s))(sh_node c \<mapsto> m) \<and> hShm m = hShm n \<and>
       apRegion m = apRegion n \<and> nRegion m = nRegion n"
    by (rule unixShmUnmap_spec [OF I assms(3)]) (rule that)
  then show ?thesis by auto
qed

theorem shm_unmap_contract_witness:
  "\<exists>s f st. shm_reachable lock_kernel shm_mem s \<and> f \<in># sfiles s \<and> pShm f \<noteq> NULL \<and>
     unixShmUnmap lock_kernel f True (smem s) = Some (SQLITE_OK, f\<lparr>pShm := NULL\<rparr>, st) \<and> shmConns st (pShm f) = None"
proof -
  obtain s f g where R: "shm_reachable lock_kernel shm_mem s" "sfiles s = {#f, g#}" "pShm f \<noteq> NULL"
    by (rule lock_kernel_mapped)
  have f: "f \<in># sfiles s" using R(2) by simp
  from shm_unmap_contract [OF R(1) f R(3), of True] R(1,3) f show ?thesis by fastforce
qed

section \<open>The list of descriptors\<close>

text \<open>
  C27. Adding a descriptor to the server's linked list keeps the list well formed and acts on it
  as an update of a finite map: the descriptor gets the method table, its name is kept when it
  had one, every other descriptor keeps its entry.
\<close>

theorem AddNode_updates_map:
  assumes "ml_inv ml" and "AddNode fd meth ml = Some ml'"
  shows "ml_inv ml' \<and> ml_lookup ml' =
    (ml_lookup ml)(fd \<mapsto> (meth, case ml_lookup ml fd of None \<Rightarrow> [] | Some (_, p) \<Rightarrow> p))"
  using AddNode_spec [OF assms] by simp

theorem AddNode_updates_map_witness:
  "\<exists>ml'. AddNode 5 nolockIoMethods empty_mlist = Some ml' \<and> ml_lookup ml' 5 = Some (nolockIoMethods, [])"
proof -
  have "ml_room (Suc (Suc 0)) empty_mlist" by code_simp
  then obtain ml' where r: "AddNode 5 nolockIoMethods empty_mlist = Some ml'"
    using AddNode_defined [OF ml_inv_empty] by blast
  moreover have "ml_lookup empty_mlist 5 = None" by (simp add: ml_lookup_def empty_mlist_def)
  ultimately show ?thesis using AddNode_updates_map [OF ml_inv_empty r] by simp
qed

text \<open>
  C28. Deleting a descriptor unlinks its node wherever it is in the list: the list stays well
  formed, the descriptor is unknown afterwards and every other one keeps its entry.
\<close>

theorem DeleteNode_removes:
  assumes "ml_inv ml" and "DeleteNode fd ml = Some ml'"
  shows "ml_inv ml' \<and> ml_lookup ml' = (ml_lookup ml)(fd := None)"
  by (rule DeleteNode_spec [OF assms])

theorem DeleteNode_removes_witness:
  "\<exists>ml ml'. ml_lookup ml 5 = Some (nolockIoMethods, []) \<and> DeleteNode 5 ml = Some ml' \<and> ml_lookup ml' 5 = None"
proof -
  have "ml_room (Suc (Suc (Suc 0))) empty_mlist" by code_simp
  then obtain ml where a: "AddNode 5 nolockIoMethods empty_mlist = Some ml" "ml_room (Suc 0) ml"
    using AddNode_defined [OF ml_inv_empty] by blast
  have "ml_lookup empty_mlist 5 = None" by (simp add: ml_lookup_def empty_mlist_def)
  then have A: "ml_inv ml" "ml_lookup ml 5 = Some (nolockIoMethods, [])"
    using AddNode_spec [OF ml_inv_empty a(1)] by simp_all
  obtain ml' where d: "DeleteNode 5 ml = Some ml'" using DeleteNode_defined [OF A(1) a(2)] by blast
  from DeleteNode_removes [OF A(1) d] A(2) d show ?thesis by auto
qed

text \<open>
  C29. The walk along the list always ends, and with the right node: on a well-formed list, with
  memory for the sentinel, \<open>FindNode\<close> returns a node that is linked into the list and holds the
  descriptor, or null where no linked node holds it. \<open>linked\<close> follows the next pointers from the
  sentinel and does not refer to the search.
\<close>

theorem FindNode_terminates:
  assumes "ml_inv ml" and "ml_room 1 ml"
  shows "\<exists>a l ml'. FindNode fd pre ml = Some (a, l, ml') \<and>
    (if a = NULL then \<forall>b n. linked ml b \<and> nodes ml b = Some n \<longrightarrow> nd_fd n \<noteq> fd
     else linked ml a \<and> (\<exists>n. nodes ml a = Some n \<and> nd_fd n = fd))"
proof -
  have "ml_room (Suc 0) ml" using assms(2) by simp
  then obtain a l ml' where F: "FindNode fd pre ml = Some (a, l, ml')"
    using FindNode_defined [OF assms(1)] by blast
  from FindNode_linked [OF assms(1) F] F show ?thesis by blast
qed

theorem FindNode_terminates_witness:
  "\<exists>ml a l ml' n. AddNode 7 posixIoMethods empty_mlist = Some ml \<and>
     FindNode 7 NULL ml = Some (a, l, ml') \<and> linked ml a \<and> nodes ml a = Some n \<and> nd_fd n = 7"
proof -
  have "ml_room (Suc (Suc (Suc 0))) empty_mlist" by code_simp
  then obtain ml where a: "AddNode 7 posixIoMethods empty_mlist = Some ml" "ml_room 1 ml"
    using AddNode_defined [OF ml_inv_empty, of "Suc 0" 7 posixIoMethods] by auto
  then have A: "ml_inv ml" "ml_lookup ml 7 \<noteq> None" using AddNode_spec [OF ml_inv_empty a(1)] by simp_all
  obtain b l ml' where F: "FindNode 7 NULL ml = Some (b, l, ml')"
    "if b = NULL then \<forall>c n. linked ml c \<and> nodes ml c = Some n \<longrightarrow> nd_fd n \<noteq> 7
     else linked ml b \<and> (\<exists>n. nodes ml b = Some n \<and> nd_fd n = 7)"
    using FindNode_terminates [OF A(1) a(2), of 7 NULL] by blast
  from A(1) F(1) have "b \<noteq> NULL" by (rule FindNode_cases) (use A(2) in simp_all)
  with a(1) F show ?thesis by auto
qed

section \<open>Messages\<close>

text \<open>
  C30. The request of a lock and its reply cross the wire unchanged, whatever the arrays held
  before; of the handle in the reply the client replaces the method table by its own.
\<close>

theorem lock_message_round_trip:
  assumes "length arg = SIZE_ArgInLock" and "length ret = SIZE_ReturnLock"
  shows "Option.bind (unixLockConvertArgInToChar f level arg) unixLockConvertCharToArgIn = Some (f, level) \<and>
    Option.bind (unixLockConvertReturnToChar g rc ret) unixLockConvertCharToReturn =
      Some (setClientRemotePMethods g, rc)"
  using lock.req.transfer [of "()" "(f, level)" arg] lock.rep.transfer [of "()" "(g, rc)" ret] assms by simp

theorem lock_message_round_trip_witness:
  "Option.bind (unixLockConvertArgInToChar zero_unixFile 4 (zeroed SIZE_ArgInLock)) unixLockConvertCharToArgIn =
     Some (zero_unixFile, 4)"
  using lock_message_round_trip [of "zeroed SIZE_ArgInLock" "zeroed SIZE_ReturnLock" zero_unixFile 4 zero_unixFile 0]
  by simp

text \<open>
  C31. The request of a write carries the handle, the count, the offset and the data: when the
  data fits the array of 8192 bytes, the handler's buffer starts with exactly those bytes.
\<close>

theorem write_message_round_trip:
  assumes "length arg = SIZE_ArgInWrite" and "fits pBuf amt" and "length buf = 8192"
  shows "\<exists>buf'. Option.bind (unixWriteConvertArgInToChar f pBuf amt offset arg)
      (\<lambda>m. unixWriteConvertCharToArgIn m buf) = Some (f, buf', amt, offset) \<and>
    take (csize amt) buf' = take (csize amt) pBuf \<and> length buf' = 8192"
proof -
  have "fits buf amt" using assms(2,3) by (simp add: fits_def MAX_SIZE_def)
  then have "Option.bind (unixWriteConvertArgInToChar f pBuf amt offset arg)
      (\<lambda>m. unixWriteConvertCharToArgIn m buf) = Some (f, buffer buf pBuf amt, amt, offset)"
    using write_msg.req.transfer [of buf "(f, pBuf, amt, offset)" arg] assms by simp
  moreover have "take (csize amt) (buffer buf pBuf amt) = take (csize amt) pBuf" "length (buffer buf pBuf amt) = 8192"
    using assms(2,3) by (simp_all add: buffer_def overwrite_def fits_def MAX_SIZE_def)
  ultimately show ?thesis by blast
qed

theorem write_message_round_trip_witness:
  "\<exists>buf'. Option.bind (unixWriteConvertArgInToChar zero_unixFile [1, 2, 3] 3 9 (zeroed SIZE_ArgInWrite))
      (\<lambda>m. unixWriteConvertCharToArgIn m (zeroed 8192)) = Some (zero_unixFile, buf', 3, 9) \<and>
    take 3 buf' = [1, 2, 3]"
proof -
  have c: "csize 3 = 3" by code_simp
  then have "fits [1, 2, 3] 3" by (simp add: fits_def MAX_SIZE_def)
  from write_message_round_trip [OF _ this, of "zeroed SIZE_ArgInWrite" "zeroed 8192" zero_unixFile 9] c
  show ?thesis by auto
qed

section \<open>Failures\<close>

text \<open>
  C32. When the request is lost, lock, unlock, sync, truncate and write all report SQLITE_OK to
  the caller although the server has done nothing, and the caller's handle is replaced by zeros:
  descriptor 0, no inode, no methods.
\<close>

theorem lost_request_reports_success:
  assumes "fits pBuf amt"
  shows "remoteLock S RequestLost junk f e sv = Some ((zero_unixFile, SQLITE_OK), sv) \<and>
    remoteUnlock S RequestLost junk f e sv = Some ((zero_unixFile, SQLITE_OK), sv) \<and>
    remoteSync S RequestLost junk f flags sv = Some ((zero_unixFile, SQLITE_OK), sv) \<and>
    remoteTruncate S RequestLost junk f n sv = Some ((zero_unixFile, SQLITE_OK), sv) \<and>
    remoteWrite S RequestLost junk f pBuf amt offset sv = Some ((zero_unixFile, SQLITE_OK), sv)"
  by (simp add: request_lost_lock request_lost_unlock request_lost_sync request_lost_truncate
      request_lost_write [OF assms])

theorem lost_request_reports_success_witness:
  "remoteWrite sim_kernel RequestLost no_junk (zero_unixFile\<lparr>h_fd := 3\<rparr>) [1, 2, 3] 3 0 (sv_init sim_start) =
     Some ((zero_unixFile, SQLITE_OK), sv_init sim_start)"
proof -
  have "csize 3 = 3" by code_simp
  then have "fits [1, 2, 3] 3" by (simp add: fits_def MAX_SIZE_def)
  from lost_request_reports_success [OF this] show ?thesis by blast
qed

text \<open>
  C33. When the reply to a lock is lost, the lock is taken on the server, and the client is told
  SQLITE_OK with a handle of zeros, so it cannot release the lock.
\<close>

theorem lost_reply_leaves_lock:
  assumes "ml_inv (sv_list sv)" and "served (sv_list sv) (h_fd f)"
    and "unixLock S (server_view sv f) (sint e) (sv_unix sv) = Some (rc, g, st)"
  shows "remoteLock S ReplyLost junk f e sv =
    Some ((zero_unixFile, SQLITE_OK), settle g (sv\<lparr>sv_unix := st\<rparr>))"
  by (rule reply_lost_lock [OF assms])

theorem lost_reply_leaves_lock_witness:
  "\<exists>s f g st. reachable sim_kernel s \<and>
     remoteLock sim_kernel ReplyLost no_junk f 4 (srv s) =
       Some ((zero_unixFile, SQLITE_OK), settle g ((srv s)\<lparr>sv_unix := st\<rparr>))"
proof -
  obtain s f g where run: "reachable sim_kernel s" "dbs s = {#f, g#}" and l: "lock_level f = RESERVED_LOCK"
    by (rule sim_run)
  have S: "ml_inv (sv_list (srv s))" "served (sv_list (srv s)) (h_fd f)"
    "files_inv (add_mset f {#g#}) (sv_unix (srv s))"
    using reachable_inv [OF run(1)] run(2) by (auto simp: sys_inv_def db_served_def)
  have ok: "lock_request_ok f (sint (4 :: cint))" using l by (simp add: lock_request_ok_def)
  obtain rc h st where u: "unixLock sim_kernel (server_view (srv s) f) (sint (4 :: cint)) (sv_unix (srv s)) =
      Some (rc, h, st)"
    by (rule remoteLock_served [OF S ok, of sim_kernel no_junk]) (rule that)
  show ?thesis using lost_reply_leaves_lock [OF S(1,2) u, of no_junk] run(1) by blast
qed

text \<open>
  C34. Reads and writes of more than 8192 bytes overrun an array, of the request or of the
  handler's stack: a delivered one never returns to the client. A negative count is a huge one.
\<close>

theorem oversized_data_faults:
  assumes "8192 < sint amt \<or> sint amt < 0"
  shows "remoteWrite S Delivered junk f pBuf amt offset sv = None \<and>
    remoteRead S Delivered junk f pBuf amt offset sv = None"
proof -
  have "MAX_SIZE < csize amt"
    using assms csize_nonneg [of amt] csize_neg [of amt] by (fastforce simp: MAX_SIZE_def)
  then show ?thesis by (simp add: write_too_long read_too_long)
qed

theorem oversized_data_faults_witness:
  "remoteWrite sim_kernel Delivered no_junk zero_unixFile (zeroed 65536) 65536 0 (sv_init sim_start) = None"
  using oversized_data_faults [of 65536 sim_kernel no_junk] by simp

text \<open>
  C35. A fetch of a page that is not mapped, which \<open>unixFetch\<close> answers with success and no
  page, takes the server down: the handler copies the page from a null pointer.
\<close>

theorem unmapped_fetch_faults:
  assumes "ml_inv (sv_list sv)" and "served (sv_list sv) (h_fd f)"
    and "unixFetch S (server_view sv f) iOff nAmt (sv_os sv) = (rc, NULL, g, os)" and "nAmt \<noteq> 0"
  shows "remoteFetch S Delivered junk f iOff nAmt sv = None"
  by (rule fetch_unmapped [OF assms])

theorem unmapped_fetch_faults_witness:
  "\<exists>s f g. reachable sim_kernel s \<and> dbs s = {#f, g#} \<and>
     remoteFetch sim_kernel Delivered no_junk (f\<lparr>mmapSizeMax := 0\<rparr>) 0 4096 (srv s) = None"
proof -
  obtain s f g where run: "reachable sim_kernel s" "dbs s = {#f, g#}" by (rule sim_run)
  let ?f = "f\<lparr>mmapSizeMax := 0\<rparr>"
  have S: "ml_inv (sv_list (srv s))" "served (sv_list (srv s)) (h_fd ?f)"
    using reachable_inv [OF run(1)] run(2) by (auto simp: sys_inv_def db_served_def)
  have "mmapSizeMax (server_view (srv s) ?f) = 0" by (rule served_file [OF S]) simp
  then have "unixFetch sim_kernel (server_view (srv s) ?f) 0 4096 (sv_os (srv s)) =
      (SQLITE_OK, NULL, server_view (srv s) ?f, sv_os (srv s))" by (simp add: unixFetch_def)
  from unmapped_fetch_faults [OF S this] run show ?thesis by auto
qed

text \<open>
  C36. The handler of a lock does not consult the method table: on a handle without an inode
  object, such as a journal's, a lock request takes the server down, where the method table of
  the file has a lock that does nothing and succeeds.
\<close>

theorem lock_of_journal_faults:
  assumes "ml_inv (sv_list sv)" and "served (sv_list sv) (h_fd f)"
    and "pInode f = NULL" and "lock_level f < sint e"
  shows "remoteLock S Delivered junk f e sv = None \<and> nolockLock = SQLITE_OK"
  by (simp add: lock_without_inode [OF assms] nolockLock_def)

theorem lock_of_journal_faults_witness:
  "\<exists>s f g. reachable sim_kernel s \<and> dbs s = {#f, g#} \<and>
     remoteLock sim_kernel Delivered no_junk (f\<lparr>pInode := NULL\<rparr>) 4 (srv s) = None"
proof -
  obtain s f g where run: "reachable sim_kernel s" "dbs s = {#f, g#}" and l: "lock_level f = RESERVED_LOCK"
    by (rule sim_run)
  have S: "ml_inv (sv_list (srv s))" "served (sv_list (srv s)) (h_fd (f\<lparr>pInode := NULL\<rparr>))"
    using reachable_inv [OF run(1)] run(2) by (auto simp: sys_inv_def db_served_def)
  have "lock_level (f\<lparr>pInode := NULL\<rparr>) < sint (4 :: cint)" using l by (simp add: lock_level_def)
  from lock_of_journal_faults [OF S _ this] run show ?thesis by auto
qed

text \<open>
  C37. A delivered unfetch of a page does not lower the client's count of pages in use: the
  reply carries the handle, but the client takes over its first eight bytes only. The local
  \<open>unixUnfetch\<close> lowers it.
\<close>

theorem unfetch_loses_count:
  assumes "ml_inv (sv_list sv)" and "served (sv_list sv) (h_fd f)"
  shows "\<exists>g sv'. remoteUnfetch S Delivered junk f iOff True sv = Some ((g, SQLITE_OK), sv') \<and>
    nFetchOut g = nFetchOut f \<and> nFetchOut (fst (snd (unixUnfetch S f True os))) = nFetchOut f - 1"
  by (rule unfetch_keeps_count [OF assms, of S junk iOff os]) auto

theorem unfetch_loses_count_witness:
  "\<exists>s f g h sv'. reachable sim_kernel s \<and> dbs s = {#f, g#} \<and>
     remoteUnfetch sim_kernel Delivered no_junk (f\<lparr>nFetchOut := 1\<rparr>) 0 True (srv s) = Some ((h, SQLITE_OK), sv') \<and>
     nFetchOut h = 1"
proof -
  obtain s f g where run: "reachable sim_kernel s" "dbs s = {#f, g#}" by (rule sim_run)
  let ?f = "f\<lparr>nFetchOut := 1\<rparr>"
  have S: "ml_inv (sv_list (srv s))" "served (sv_list (srv s)) (h_fd ?f)"
    using reachable_inv [OF run(1)] run(2) by (auto simp: sys_inv_def db_served_def)
  have "nFetchOut ?f = 1" by simp
  with unfetch_loses_count [OF S, of sim_kernel no_junk 0 sim_start] run show ?thesis by metis
qed

section \<open>Bounds and single operations\<close>

text \<open>
  C38. The sizes of a mapping stay consistent (nothing mapped without a region; usable bytes no
  more than mapped bytes and no more than the limit) under fetch, unfetch, truncate and a change
  of the limit, whatever the kernel answers, as long as it never maps the null page and reports
  sizes that fit 63 bits.
\<close>

theorem mapping_stays_consistent:
  assumes "mmap_nonnull S" and "stat_sizes S" and "map_inv f"
  shows "(unixFetch S f iOff nAmt os = (rc1, p, g1, os1) \<longrightarrow> map_inv g1) \<and>
    (unixUnfetch S f release os = (rc2, g2, os2) \<longrightarrow> map_inv g2) \<and>
    (0 \<le> nByte \<longrightarrow> unixTruncate S f nByte os = Some (rc3, g3, os3) \<longrightarrow> map_inv g3) \<and>
    (control_mmap_size S f v os = (rc4, old, g4, os4) \<longrightarrow> map_inv g4)"
  by (intro conjI impI)
    (erule unixFetch_inv [OF assms] unixUnfetch_inv [OF assms(3)] unixTruncate_inv [OF assms(3)]
      control_mmap_size_inv [OF assms] | assumption)+

theorem mapping_stays_consistent_witness:
  "map_inv (fst (snd (snd (unixFetch sim_kernel (zero_unixFile\<lparr>mmapSizeMax := 65536\<rparr>) 0 4096 sim_start))))"
proof -
  let ?f = "zero_unixFile\<lparr>mmapSizeMax := 65536\<rparr>"
  have m: "map_inv ?f" by (simp add: map_inv_def zero_unixFile_def)
  have s: "stat_sizes sim_kernel" by (auto simp: stat_sizes_def sim_kernel_def sim_stat_def)
  obtain rc p g os where "unixFetch sim_kernel ?f 0 4096 sim_start = (rc, p, g, os)" by (rule prod_cases4)
  with mapping_stays_consistent [OF sim_io(5) s m, of 0 4096 sim_start rc p g os] show ?thesis by simp
qed

text \<open>
  C39. Closing a database does not forget its descriptor: after a delivered close, which always
  succeeds in a reachable state, the server's list is unchanged and still has an entry for the
  closed descriptor.
\<close>

theorem close_keeps_entry:
  assumes "reachable S s" and "dbs s = add_mset f F"
    and "remoteClose S Delivered junk f (srv s) = Some ((g, rc), sv')"
  shows "rc = SQLITE_OK \<and> sv_list sv' = sv_list (srv s) \<and> ml_lookup (sv_list sv') (h_fd f) \<noteq> None"
proof -
  have inv: "sys_inv s" by (rule reachable_inv [OF assms(1)])
  have e: "ml_lookup (sv_list (srv s)) (h_fd f) \<noteq> None"
    using inv assms(2) by (auto simp: sys_inv_def db_served_def split: option.splits)
  show ?thesis by (rule remoteClose_db [OF inv assms(2), of S junk]) (use assms(3) e in auto)
qed

theorem close_keeps_entry_witness:
  "\<exists>s f g h sv'. reachable sim_kernel s \<and> dbs s = {#f, g#} \<and>
     remoteClose sim_kernel Delivered no_junk f (srv s) = Some ((h, SQLITE_OK), sv') \<and>
     ml_lookup (sv_list sv') (h_fd f) \<noteq> None"
proof -
  obtain s f g where run: "reachable sim_kernel s" "dbs s = {#f, g#}" by (rule sim_run)
  have inv: "sys_inv s" by (rule reachable_inv [OF run(1)])
  obtain st where c: "remoteClose sim_kernel Delivered no_junk f (srv s) =
      Some ((setClientRemotePMethods f, SQLITE_OK), (srv s)\<lparr>sv_unix := st\<rparr>)"
    by (rule remoteClose_db [OF inv run(2)]) (rule that)
  from close_keeps_entry [OF run c] c run show ?thesis by blast
qed

end
